(* ===== verification/Kevin_Prelude.thy ===== *)
theory Kevin_Prelude
  imports Main "HOL-Library.Word" "HOL-Library.List_Lexorder" "HOL-Library.Monad_Syntax"
begin

text \<open>
  Shared vocabulary of the development: the C integer types as words, the
  development's fact collections, memory buffers as byte lists with bounded
  writes, and the byte orders the code uses (big-endian for keys, the little
  endian of the x86 host for the request buffers). A failed \<open>BUG_ON\<close>, which
  stops the kernel, is \<^term>\<open>None\<close> in an \<open>option\<close>; a C return code is an
  \<^typ>\<open>int\<close>.
\<close>

section \<open>Machine integers and fact collections\<close>

type_synonym byte = "8 word"
type_synonym u8 = "8 word"
type_synonym u16 = "16 word"
type_synonym u32 = "32 word"
type_synonym u64 = "64 word"

named_theorems codec_simps \<open>lengths and inverses of the byte codecs\<close>
named_theorems inv_intros \<open>preservation of component invariants\<close>
named_theorems frame_simps \<open>what an operation leaves unchanged\<close>

section \<open>Buffers\<close>

text \<open>
  \<open>put_at off src dst\<close> is \<open>memcpy (dst + off, src, length src)\<close> on the
  contents of a buffer.
\<close>

definition put_at :: "nat \<Rightarrow> 'a list \<Rightarrow> 'a list \<Rightarrow> 'a list" where
  "put_at off src dst = take off dst @ src @ drop (off + length src) dst"

definition get_at :: "nat \<Rightarrow> nat \<Rightarrow> 'a list \<Rightarrow> 'a list" where
  "get_at off n buf = take n (drop off buf)"

lemma length_put_at [simp, codec_simps]:
  "off + length src \<le> length dst \<Longrightarrow> length (put_at off src dst) = length dst"
  by (simp add: put_at_def)

lemma get_put_same [simp, codec_simps]:
  "off + length src \<le> length dst \<Longrightarrow> n = length src \<Longrightarrow> get_at off n (put_at off src dst) = src"
  by (simp add: put_at_def get_at_def)

lemma get_put_before:
  assumes "off + length src \<le> length dst" and "i + n \<le> off"
  shows "get_at i n (put_at off src dst) = get_at i n dst"
proof -
  have "drop i (take off dst) = take (off - i) (drop i dst)"
    by (simp add: drop_take)
  moreover have "n \<le> off - i" and "length (take (off - i) (drop i dst)) \<ge> n"
    using assms by auto
  ultimately show ?thesis
    using assms by (simp add: put_at_def get_at_def)
qed

lemma get_put_after:
  assumes "off + length src \<le> length dst" and "off + length src \<le> i"
  shows "get_at i n (put_at off src dst) = get_at i n dst"
proof -
  have "drop i (take off dst @ src @ drop (off + length src) dst) =
        drop (i - (off + length src)) (drop (off + length src) dst)"
    using assms by simp
  then show ?thesis
    using assms by (simp add: put_at_def get_at_def)
qed

lemma put_at_append:
  "length pre = off \<Longrightarrow> put_at off src (pre @ rest) = pre @ src @ drop (length src) rest"
  by (simp add: put_at_def)

text \<open>
  Accesses through a pointer: outside the object they are a memory fault, which
  stops the run like a failed \<open>BUG_ON\<close>.
\<close>

definition poke :: "nat \<Rightarrow> 'a list \<Rightarrow> 'a list \<Rightarrow> 'a list option" where
  "poke off src dst = (if off + length src \<le> length dst then Some (put_at off src dst) else None)"

definition peek :: "nat \<Rightarrow> nat \<Rightarrow> 'a list \<Rightarrow> 'a list option" where
  "peek off n buf = (if off + n \<le> length buf then Some (get_at off n buf) else None)"

definition bug_on :: "bool \<Rightarrow> unit option" where
  "bug_on b = (if b then None else Some ())"

lemma poke_Some [simp]:
  "off + length src \<le> length dst \<Longrightarrow> poke off src dst = Some (put_at off src dst)"
  by (simp add: poke_def)

lemma peek_Some [simp]: "off + n \<le> length buf \<Longrightarrow> peek off n buf = Some (get_at off n buf)"
  by (simp add: peek_def)

lemma bug_on_simps [simp]: "bug_on False = Some ()" "bug_on True = None"
  by (simp_all add: bug_on_def)

lemma bug_on_eq_Some [simp]: "bug_on b = Some u \<longleftrightarrow> \<not> b"
  by (simp add: bug_on_def)

text \<open>
  An operation on a shared object may also have to wait: it returns, sleeps until
  another thread acts, or faults.
\<close>

datatype 'a res = Done 'a | Block | Fault

primrec res_bind :: "'a res \<Rightarrow> ('a \<Rightarrow> 'b res) \<Rightarrow> 'b res" where
  "res_bind (Done x) f = f x"
| "res_bind Block f = Block"
| "res_bind Fault f = Fault"

lemma res_bind_Done: "res_bind m f = Done y \<longleftrightarrow> (\<exists>x. m = Done x \<and> f x = Done y)"
  by (cases m) auto

text \<open>A loop over a list whose body may fail.\<close>

primrec foldM :: "('s \<Rightarrow> 'a \<Rightarrow> 's option) \<Rightarrow> 's \<Rightarrow> 'a list \<Rightarrow> 's option" where
  "foldM f s [] = Some s"
| "foldM f s (x # xs) = do { s \<leftarrow> f s x; foldM f s xs }"

lemma foldM_append: "foldM f s (xs @ ys) = do { s \<leftarrow> foldM f s xs; foldM f s ys }"
  by (induction xs arbitrary: s) auto

lemma foldM_map: "foldM f s (map g xs) = foldM (\<lambda>s x. f s (g x)) s xs"
  by (induction xs arbitrary: s) auto

text \<open>An invariant that every round keeps, and under which every round succeeds, survives the loop.\<close>

lemma foldM_inv:
  assumes "\<And>s x. I s \<Longrightarrow> x \<in> set xs \<Longrightarrow> \<exists>s'. f s x = Some s' \<and> I s'" and "I s"
  shows "\<exists>s'. foldM f s xs = Some s' \<and> I s'"
  using assms
proof (induction xs arbitrary: s)
  case Nil
  then show ?case by simp
next
  case (Cons x xs)
  then obtain s1 where "f s x = Some s1" "I s1" by (meson list.set_intros(1))
  with Cons show ?case by simp
qed

lemma takeWhile_eq_filter:
  "sorted_wrt R xs \<Longrightarrow> (\<And>x y. R x y \<Longrightarrow> P y \<Longrightarrow> P x) \<Longrightarrow> takeWhile P xs = filter P xs"
  by (induction xs) (auto intro!: filter_False [symmetric])

lemma filter_after:
  assumes "sorted_wrt (<) (map f (xs @ n # ys))"
  shows "filter (\<lambda>x. f n < (f x :: 'a::linorder)) (xs @ n # ys) = ys"
proof -
  have "filter (\<lambda>x. f n < f x) xs = []" "filter (\<lambda>x. f n < f x) ys = ys"
    using assms by (auto simp: sorted_wrt_append filter_empty_conv filter_id_conv dest: less_not_sym)
  then show ?thesis by simp
qed

text \<open>The text of a C string is what stands before its terminating NUL.\<close>

definition cstring :: "byte list \<Rightarrow> byte list" where
  "cstring buf = takeWhile (\<lambda>b. b \<noteq> 0) buf"

lemma cstring_terminated [simp]: "0 \<notin> set s \<Longrightarrow> cstring (s @ 0 # rest) = s"
  unfolding cstring_def by (subst takeWhile_append2) auto

section \<open>Byte orders\<close>

text \<open>The \<open>k\<close> low bytes of a number, most significant byte first.\<close>

fun be_nat :: "nat \<Rightarrow> nat \<Rightarrow> byte list" where
  "be_nat 0 n = []"
| "be_nat (Suc k) n = be_nat k (n div 256) @ [of_nat (n mod 256)]"

definition nat_be :: "byte list \<Rightarrow> nat" where
  "nat_be bs = foldl (\<lambda>acc b. acc * 256 + unat b) 0 bs"

definition store_be64 :: "u64 \<Rightarrow> byte list" where
  "store_be64 w = be_nat 8 (unat w)"

definition load_be64 :: "byte list \<Rightarrow> u64" where
  "load_be64 bs = of_nat (nat_be bs)"

definition store_le :: "nat \<Rightarrow> 'a::len word \<Rightarrow> byte list" where
  "store_le k w = rev (be_nat k (unat w))"

definition load_le :: "byte list \<Rightarrow> 'a::len word" where
  "load_le bs = of_nat (nat_be (rev bs))"

lemma length_be_nat [simp, codec_simps]: "length (be_nat k n) = k"
  by (induction k arbitrary: n) auto

lemma nat_be_snoc: "nat_be (bs @ [b]) = nat_be bs * 256 + unat b"
  by (simp add: nat_be_def)

lemma unat_of_nat_byte: "unat (of_nat (n mod 256) :: byte) = n mod 256"
  by (simp add: unat_of_nat take_bit_eq_mod)

lemma nat_be_be_nat: "nat_be (be_nat k n) = n mod 256 ^ k"
proof (induction k arbitrary: n)
  case 0
  show ?case by (simp add: nat_be_def)
next
  case (Suc k)
  have "nat_be (be_nat (Suc k) n) = (n div 256) mod 256 ^ k * 256 + n mod 256"
    by (simp add: nat_be_snoc Suc.IH unat_of_nat_byte)
  also have "\<dots> = n mod (256 * 256 ^ k)"
    by (simp add: mod_mult2_eq)
  finally show ?case by simp
qed

lemma length_store_be64 [simp, codec_simps]: "length (store_be64 w) = 8"
  by (simp add: store_be64_def)

lemma length_store_le [simp, codec_simps]: "length (store_le k w) = k"
  by (simp add: store_le_def)

lemma unat_less_u64: "unat (w :: u64) < 256 ^ 8"
  using unsigned_less [of w] by simp

lemma load_store_be64 [simp, codec_simps]: "load_be64 (store_be64 w) = w"
  using unat_less_u64 [of w] by (simp add: load_be64_def store_be64_def nat_be_be_nat)

lemma load_store_le [simp, codec_simps]:
  fixes w :: "'a::len word"
  assumes "LENGTH('a) \<le> 8 * k"
  shows "load_le (store_le k w) = w"
proof -
  have "unat w < 2 ^ LENGTH('a)" by (rule unsigned_less)
  also have "\<dots> \<le> 2 ^ (8 * k)" using assms by (simp add: power_increasing)
  also have "\<dots> = (256::nat) ^ k" by (simp add: power_mult)
  finally have "unat w mod 256 ^ k = unat w" by simp
  then show ?thesis by (simp add: load_le_def store_le_def nat_be_be_nat)
qed

lemma store_be64_inj [simp]: "store_be64 v = store_be64 w \<longleftrightarrow> v = w"
  using load_store_be64 by metis

lemma nat_be_less: "nat_be bs < 256 ^ length bs"
proof (induction bs rule: rev_induct)
  case Nil
  show ?case by (simp add: nat_be_def)
next
  case (snoc b bs)
  have "unat b < 256" using unsigned_less [of b] by simp
  with snoc show ?case by (simp add: nat_be_snoc)
qed

lemma be_nat_nat_be: "be_nat (length bs) (nat_be bs) = bs"
proof (induction bs rule: rev_induct)
  case Nil
  show ?case by simp
next
  case (snoc b bs)
  have "unat b < 256" using unsigned_less [of b] by simp
  with snoc show ?case by (simp add: nat_be_snoc)
qed

lemma store_load_be64: "length bs = 8 \<Longrightarrow> store_be64 (load_be64 bs) = bs"
  using nat_be_less [of bs] be_nat_nat_be [of bs]
  by (simp add: store_be64_def load_be64_def unat_of_nat take_bit_eq_mod)

section \<open>Big-endian bytes and the lexicographic order\<close>

lemma append_less_append_iff:
  fixes xs ys :: "'a::linorder list"
  assumes "length xs = length ys"
  shows "xs @ us < ys @ vs \<longleftrightarrow> xs < ys \<or> xs = ys \<and> us < vs"
  using assms by (induction xs ys rule: list_induct2) auto

lemma byte_of_nat_less:
  "m < 256 \<Longrightarrow> n < 256 \<Longrightarrow> (of_nat m :: byte) < of_nat n \<longleftrightarrow> m < n"
  by (simp add: of_nat_word_less_iff take_bit_eq_mod)

lemma be_nat_inj:
  "m < 256 ^ k \<Longrightarrow> n < 256 ^ k \<Longrightarrow> be_nat k m = be_nat k n \<longleftrightarrow> m = n"
  by (metis mod_less nat_be_be_nat)

lemma less_iff_div_mod:
  fixes m n b :: nat
  shows "m < n \<longleftrightarrow> m div b < n div b \<or> m div b = n div b \<and> m mod b < n mod b"
proof (cases "m div b = n div b")
  case True
  have "b * (m div b) + m mod b < b * (n div b) + n mod b \<longleftrightarrow> m mod b < n mod b"
    by (simp only: True add_less_cancel_left)
  then have "m < n \<longleftrightarrow> m mod b < n mod b"
    by (simp only: mult_div_mod_eq)
  with True show ?thesis by simp
next
  case False
  have "m < n \<longleftrightarrow> m div b < n div b"
  proof
    assume "m < n"
    then have "m div b \<le> n div b" by (simp add: div_le_mono)
    with False show "m div b < n div b" by simp
  next
    assume "m div b < n div b"
    then show "m < n" using div_le_mono [of n m b] by (meson leD leI)
  qed
  with False show ?thesis by simp
qed

lemma be_nat_less_iff:
  assumes "m < 256 ^ k" and "n < 256 ^ k"
  shows "be_nat k m < be_nat k n \<longleftrightarrow> m < n"
  using assms
proof (induction k arbitrary: m n)
  case 0
  then show ?case by simp
next
  case (Suc k)
  have m: "m div 256 < 256 ^ k" and n: "n div 256 < 256 ^ k"
    using Suc.prems by (simp_all add: less_mult_imp_div_less mult.commute)
  have "be_nat (Suc k) m < be_nat (Suc k) n \<longleftrightarrow>
        m div 256 < n div 256 \<or> m div 256 = n div 256 \<and> m mod 256 < n mod 256"
    by (simp add: append_less_append_iff Suc.IH [OF m n] be_nat_inj [OF m n] byte_of_nat_less)
  also have "\<dots> \<longleftrightarrow> m < n"
    by (rule less_iff_div_mod [symmetric])
  finally show ?case .
qed

lemma store_be64_less_iff: "store_be64 v < store_be64 w \<longleftrightarrow> v < w"
  unfolding store_be64_def word_less_nat_alt
  by (rule be_nat_less_iff [OF unat_less_u64 unat_less_u64])

section \<open>The contract of a key-value store\<close>

datatype ('k, 'v) kv_op = Put 'k 'v | Del 'k

primrec apply_op :: "('k \<rightharpoonup> 'v) \<Rightarrow> ('k, 'v) kv_op \<Rightarrow> ('k \<rightharpoonup> 'v)" where
  "apply_op m (Put k v) = m(k \<mapsto> v)"
| "apply_op m (Del k) = m(k := None)"

primrec run_op ::
    "('s \<Rightarrow> 'k \<Rightarrow> 'v \<Rightarrow> 's option) \<Rightarrow> ('s \<Rightarrow> 'k \<Rightarrow> 's option) \<Rightarrow> 's \<Rightarrow> ('k, 'v) kv_op \<Rightarrow> 's option" where
  "run_op put del s (Put k v) = put s k v"
| "run_op put del s (Del k) = del s k"

text \<open>
  A store whose operations keep its invariant, never fail, and act on the map it
  stands for.  Clients see any sequence of operations as the same sequence on the map.
\<close>

locale kv_store =
  fixes inv :: "'s \<Rightarrow> bool" and lookup :: "'s \<Rightarrow> 'k \<rightharpoonup> 'v"
    and put :: "'s \<Rightarrow> 'k \<Rightarrow> 'v \<Rightarrow> 's option" and del :: "'s \<Rightarrow> 'k \<Rightarrow> 's option"
  assumes put_ok: "inv s \<Longrightarrow> \<exists>s'. put s k v = Some s' \<and> inv s' \<and> lookup s' = (lookup s)(k \<mapsto> v)"
    and del_ok: "inv s \<Longrightarrow> \<exists>s'. del s k = Some s' \<and> inv s' \<and> lookup s' = (lookup s)(k := None)"
begin

lemma run_op_ok:
  "inv s \<Longrightarrow> \<exists>s'. run_op put del s op = Some s' \<and> inv s' \<and> lookup s' = apply_op (lookup s) op"
  using put_ok del_ok by (cases op) auto

lemma run_refines:
  "inv s \<Longrightarrow> \<exists>s'. foldM (run_op put del) s ops = Some s' \<and> inv s' \<and> lookup s' = foldl apply_op (lookup s) ops"
proof (induction ops arbitrary: s)
  case Nil
  then show ?case by simp
next
  case (Cons op ops)
  from run_op_ok [OF Cons.prems, of op] obtain s1 where
    "run_op put del s op = Some s1" "inv s1" "lookup s1 = apply_op (lookup s) op" by blast
  with Cons.IH [of s1] show ?case by simp
qed

end

section \<open>Components that deliver in order\<close>

text \<open>
  The abstract component: a queue of pending entries and the list of delivered ones.
  Entries enter at the end, and any number of the first ones is delivered at once.
\<close>

inductive fifo_step :: "'a list \<times> 'a list \<Rightarrow> 'a list \<times> 'a list \<Rightarrow> bool" where
  enqueue: "fifo_step (q, d) (q @ [x], d)"
| deliver: "fifo_step (xs @ q, d) (q, d @ xs)"

text \<open>
  A system that accounts for every entry it accepted and never takes a delivery back
  refines that component.
\<close>

locale ordered_delivery =
  fixes inv :: "'s \<Rightarrow> bool" and step :: "'s \<Rightarrow> 's \<Rightarrow> bool" and accepted delivered pending :: "'s \<Rightarrow> 'a list"
  assumes step_inv: "inv s \<Longrightarrow> step s s' \<Longrightarrow> inv s'"
    and accounted: "inv s \<Longrightarrow> accepted s = delivered s @ pending s"
    and step_kind: "inv s \<Longrightarrow> step s s' \<Longrightarrow>
      accepted s' = accepted s \<and> (\<exists>xs. delivered s' = delivered s @ xs)
    \<or> (\<exists>x. accepted s' = accepted s @ [x]) \<and> delivered s' = delivered s"
begin

lemma refines_step:
  assumes "inv s" and "step s s'"
  shows "fifo_step (pending s, delivered s) (pending s', delivered s')"
  using step_kind [OF assms]
proof (elim disjE conjE exE)
  fix xs
  assume *: "accepted s' = accepted s" "delivered s' = delivered s @ xs"
  then have "pending s = xs @ pending s'"
    using accounted [OF assms(1)] accounted [OF step_inv [OF assms]] by simp
  with * show ?thesis by (simp add: fifo_step.deliver)
next
  fix x
  assume *: "accepted s' = accepted s @ [x]" "delivered s' = delivered s"
  then have "pending s' = pending s @ [x]"
    using accounted [OF assms(1)] accounted [OF step_inv [OF assms]] by simp
  with * show ?thesis by (simp add: fifo_step.enqueue)
qed

lemma refines_run:
  assumes "step\<^sup>*\<^sup>* s s'" and "inv s"
  shows "inv s' \<and> fifo_step\<^sup>*\<^sup>* (pending s, delivered s) (pending s', delivered s')"
  using assms(1)
proof (induction rule: rtranclp_induct)
  case base
  show ?case using assms(2) by simp
next
  case (step t u)
  then show ?case using refines_step [of t u] step_inv [of t u] by (meson rtranclp.rtrancl_into_rtrancl)
qed

end

end
