(* ===== verification/Kevin_Types.thy ===== *)
theory Kevin_Types
  imports Kevin_Prelude
begin

text \<open>
  The data of \<open>kevinfs/db.h\<close> and \<open>kevinfs/lightfs.h\<close>: result codes, request
  types, transaction states, and the \<open>DBT\<close> key and value descriptors with their
  helpers from \<open>kevinfs/lightfs_fs.h\<close>.
\<close>

unbundle bit_operations_syntax

section \<open>Result codes and limits\<close>

definition DB_LOCK_DEADLOCK :: int where "DB_LOCK_DEADLOCK = -30995"
definition DB_LOCK_NOTGRANTED :: int where "DB_LOCK_NOTGRANTED = -30994"
definition DB_NOTFOUND :: int where "DB_NOTFOUND = -30989"
definition DB_NOTFOUND_DCACHE :: int where "DB_NOTFOUND_DCACHE = -30985"
definition DB_NOTFOUND_DCACHE_FULL :: int where "DB_NOTFOUND_DCACHE_FULL = -30984"
definition DB_FOUND_FREE :: int where "DB_FOUND_FREE = -30987"

definition DB_DBT_USERMEM :: u32 where "DB_DBT_USERMEM = 256"
definition DB_SET_RANGE :: u32 where "DB_SET_RANGE = 27"
definition DB_NEXT :: u32 where "DB_NEXT = 16"

definition ENOENT :: int where "ENOENT = 2"
definition ENOMEM :: int where "ENOMEM = 12"
definition ENOTDIR :: int where "ENOTDIR = 20"
definition EINVAL :: int where "EINVAL = 22"
definition ENAMETOOLONG :: int where "ENAMETOOLONG = 36"
definition ENOTEMPTY :: int where "ENOTEMPTY = 39"

definition PAGE_SHIFT :: nat where "PAGE_SHIFT = 12"
definition PAGE_SIZE :: nat where "PAGE_SIZE = 4096"

definition LIGHTFS_TXN_LIMIT :: nat where "LIGHTFS_TXN_LIMIT = 310"
definition C_TXN_LIMIT_BYTES :: nat where "C_TXN_LIMIT_BYTES = 1569760"
definition C_TXN_BLOOM_M_BYTES :: nat where "C_TXN_BLOOM_M_BYTES = 308"
definition C_TXN_BLOOM_K :: nat where "C_TXN_BLOOM_K = 3"
definition C_TXN_COMMITTING_LIMIT :: nat where "C_TXN_COMMITTING_LIMIT = 70"
definition RUNNING_C_TXN_LIMIT :: nat where "RUNNING_C_TXN_LIMIT = 16"
definition GROUP_EVICTION_TRESHOLD :: nat where "GROUP_EVICTION_TRESHOLD = 8"
definition INODE_SIZE :: nat where "INODE_SIZE = 152"
definition READA_BLOCK_CNT :: nat where "READA_BLOCK_CNT = 256"
definition READA_THRESHOLD :: nat where "READA_THRESHOLD = 64"
definition READA_QD :: nat where "READA_QD = 4"
definition ENORA :: int where "ENORA = 99999"
definition ESMALL :: int where "ESMALL = 9999"
definition EEOF :: int where "EEOF = 999"

lemmas code_defs = DB_LOCK_DEADLOCK_def DB_LOCK_NOTGRANTED_def DB_NOTFOUND_def
  DB_NOTFOUND_DCACHE_def DB_NOTFOUND_DCACHE_FULL_def DB_FOUND_FREE_def

lemmas errno_defs = ENOENT_def ENOMEM_def ENOTDIR_def EINVAL_def ENAMETOOLONG_def ENOTEMPTY_def

section \<open>Transaction states\<close>

text \<open>\<open>enum lightfs_txn_state\<close>: a state word collects these bits.\<close>

definition TXN_CREATED :: u32 where "TXN_CREATED = 0"
definition TXN_COMMITTING :: u32 where "TXN_COMMITTING = 1"
definition TXN_COMMITTED :: u32 where "TXN_COMMITTED = 2"
definition TXN_ABORTED :: u32 where "TXN_ABORTED = 4"
definition TXN_INSERTING :: u32 where "TXN_INSERTING = 8"
definition TXN_TRANSFERING :: u32 where "TXN_TRANSFERING = 16"
definition TXN_FLUSH :: u32 where "TXN_FLUSH = 32"
definition TXN_READ :: u32 where "TXN_READ = 64"
definition TXN_SYNC :: u32 where "TXN_SYNC = 128"
definition TXN_ORDERED :: u32 where "TXN_ORDERED = 256"
definition TXN_ORDERLESS :: u32 where "TXN_ORDERLESS = 512"

lemmas txn_state_defs = TXN_CREATED_def TXN_COMMITTING_def TXN_COMMITTED_def TXN_ABORTED_def
  TXN_INSERTING_def TXN_TRANSFERING_def TXN_FLUSH_def TXN_READ_def TXN_SYNC_def
  TXN_ORDERED_def TXN_ORDERLESS_def

text \<open>\<open>state & flag\<close> as a condition, and \<open>state |= flag\<close>.\<close>

definition has_flag :: "u32 \<Rightarrow> u32 \<Rightarrow> bool" where
  "has_flag st f \<longleftrightarrow> st AND f \<noteq> 0"

definition set_flag :: "u32 \<Rightarrow> u32 \<Rightarrow> u32" where
  "set_flag st f = st OR f"

lemma has_flag_set_flag_same: "f \<noteq> 0 \<Longrightarrow> has_flag (set_flag st f) f"
  unfolding has_flag_def set_flag_def by (metis and.commute or.commute word_ao_absorbs(1) word_bw_comms(1,2))

lemma has_flag_set_flag_other: "f AND g = 0 \<Longrightarrow> has_flag (set_flag st f) g = has_flag st g"
  unfolding has_flag_def set_flag_def by (simp add: bit.conj_disj_distrib2)

section \<open>Request types\<close>

text \<open>\<open>enum lightfs_req_type\<close>, with the number each constant has on the wire.\<close>

datatype lightfs_req_type =
    LIGHTFS_META_GET | LIGHTFS_META_SET | LIGHTFS_META_SYNC_SET | LIGHTFS_META_DEL
  | LIGHTFS_META_CURSOR | LIGHTFS_META_UPDATE | LIGHTFS_META_RENAME
  | LIGHTFS_DATA_GET | LIGHTFS_DATA_SET | LIGHTFS_DATA_SEQ_SET | LIGHTFS_DATA_DEL
  | LIGHTFS_DATA_DEL_MULTI | LIGHTFS_DATA_CURSOR | LIGHTFS_DATA_UPDATE | LIGHTFS_DATA_RENAME
  | LIGHTFS_COMMIT | LIGHTFS_GET_MULTI | LIGHTFS_DATA_SET_WB
  | LIGHTFS_GET_MULTI_REAL | LIGHTFS_DEL_MULTI_REAL | LIGHTFS_TXN_TRANSFER
  | LIGHTFS_GET_MULTI_READA | LIGHTFS_GET_MULTI_READA_REAL

fun req_code :: "lightfs_req_type \<Rightarrow> u8" where
  "req_code LIGHTFS_META_GET = 0"
| "req_code LIGHTFS_META_SET = 1"
| "req_code LIGHTFS_META_SYNC_SET = 2"
| "req_code LIGHTFS_META_DEL = 3"
| "req_code LIGHTFS_META_CURSOR = 4"
| "req_code LIGHTFS_META_UPDATE = 5"
| "req_code LIGHTFS_META_RENAME = 6"
| "req_code LIGHTFS_DATA_GET = 7"
| "req_code LIGHTFS_DATA_SET = 8"
| "req_code LIGHTFS_DATA_SEQ_SET = 9"
| "req_code LIGHTFS_DATA_DEL = 10"
| "req_code LIGHTFS_DATA_DEL_MULTI = 11"
| "req_code LIGHTFS_DATA_CURSOR = 12"
| "req_code LIGHTFS_DATA_UPDATE = 13"
| "req_code LIGHTFS_DATA_RENAME = 14"
| "req_code LIGHTFS_COMMIT = 15"
| "req_code LIGHTFS_GET_MULTI = 16"
| "req_code LIGHTFS_DATA_SET_WB = 17"
| "req_code LIGHTFS_GET_MULTI_REAL = 18"
| "req_code LIGHTFS_DEL_MULTI_REAL = 19"
| "req_code LIGHTFS_TXN_TRANSFER = 20"
| "req_code LIGHTFS_GET_MULTI_READA = 21"
| "req_code LIGHTFS_GET_MULTI_READA_REAL = 22"

lemma req_code_inj: "req_code a = req_code b \<longleftrightarrow> a = b"
  by (cases a; cases b) simp_all

section \<open>Key and value descriptors\<close>

text \<open>
  A \<open>DBT\<close>: the object its \<open>data\<close> points to (\<^term>\<open>None\<close> for NULL), the bytes in
  use, the bytes there are, and the flags.
\<close>

record dbt =
  d_data :: "byte list option"
  d_size :: u32
  d_ulen :: u32
  d_flags :: u32

definition dbt_init :: dbt where
  "dbt_init = \<lparr>d_data = None, d_size = 0, d_ulen = 0, d_flags = 0\<rparr>"

text \<open>\<open>dbt_destroy\<close> gives the data back to the allocator: the freed object is returned.\<close>

definition dbt_destroy :: "dbt \<Rightarrow> byte list option \<times> dbt" where
  "dbt_destroy d = (d_data d, dbt_init)"

definition dbt_copy :: "dbt \<Rightarrow> dbt \<Rightarrow> dbt" where
  "dbt_copy dst src = dst\<lparr>d_data := d_data src, d_size := d_size src,
                          d_ulen := d_ulen src, d_flags := d_flags src\<rparr>"

definition dbt_setup :: "byte list \<Rightarrow> nat \<Rightarrow> dbt" where
  "dbt_setup data sz =
     \<lparr>d_data = Some data, d_size = of_nat sz, d_ulen = of_nat sz, d_flags = DB_DBT_USERMEM\<rparr>"

definition dbt_setup_buf :: "byte list \<Rightarrow> nat \<Rightarrow> dbt" where
  "dbt_setup_buf data sz =
     \<lparr>d_data = Some data, d_size = 0, d_ulen = of_nat sz, d_flags = DB_DBT_USERMEM\<rparr>"

text \<open>
  \<open>kmalloc\<close> is a parameter: what it returns for a size, \<^term>\<open>None\<close> for NULL.
  It promises an object of the size asked for, with arbitrary contents.
\<close>

definition kmalloc_ok :: "(nat \<Rightarrow> byte list option) \<Rightarrow> bool" where
  "kmalloc_ok km \<longleftrightarrow> (\<forall>n b. km n = Some b \<longrightarrow> length b = n)"

definition dbt_alloc :: "(nat \<Rightarrow> byte list option) \<Rightarrow> dbt \<Rightarrow> nat \<Rightarrow> int \<times> dbt" where
  "dbt_alloc km d sz =
     (case km sz of
        None \<Rightarrow> (- ENOMEM, d\<lparr>d_data := None\<rparr>)
      | Some b \<Rightarrow> (0, \<lparr>d_data = Some b, d_size = 0, d_ulen = of_nat sz, d_flags = DB_DBT_USERMEM\<rparr>))"

text \<open>The bytes a descriptor stands for.\<close>

definition dbt_bytes :: "dbt \<Rightarrow> byte list" where
  "dbt_bytes d = (case d_data d of None \<Rightarrow> [] | Some b \<Rightarrow> take (unat (d_size d)) b)"

lemma unat_of_nat_u32 [simp]: "n < 4294967296 \<Longrightarrow> unat (of_nat n :: u32) = n"
  by (simp add: unat_of_nat take_bit_eq_mod)

lemma unat_of_nat_u16 [simp]: "n < 65536 \<Longrightarrow> unat (of_nat n :: u16) = n"
  by (simp add: unat_of_nat take_bit_eq_mod)

lemma dbt_bytes_setup [simp]:
  "n < 4294967296 \<Longrightarrow> dbt_bytes (dbt_setup b n) = take n b"
  by (simp add: dbt_bytes_def dbt_setup_def)

end
