(* ===== verification/Kevin_Bloom.thy ===== *)
theory Kevin_Bloom
  imports Kevin_Types
begin

text \<open>
  The Bloom filter of a committed transaction: \<open>kevinfs/murmur3.c\<close> and
  \<open>kevinfs/bloomfilter.c\<close>.  The bit vector is the memory behind the struct; an index
  outside it, or a division by zero, is \<^term>\<open>None\<close>.
\<close>

section \<open>The hash function\<close>

definition ROTL32 :: "u32 \<Rightarrow> nat \<Rightarrow> u32" where
  "ROTL32 x r = push_bit r x OR drop_bit (32 - r) x"

definition murmur3_block :: "u32 \<Rightarrow> u32 \<Rightarrow> u32" where
  "murmur3_block h1 k1 =
     (let k1 = k1 * 0xcc9e2d51; k1 = ROTL32 k1 15; k1 = k1 * 0x1b873593;
          h1 = h1 XOR k1; h1 = ROTL32 h1 13
      in h1 * 5 + 0xe6546b64)"

definition murmur3_tail :: "u32 \<Rightarrow> byte list \<Rightarrow> u32" where
  "murmur3_tail h1 tail =
     (if tail = [] then h1
      else
        let k1 = 0;
            k1 = (if length tail = 3 then k1 XOR push_bit 16 (ucast (tail ! 2)) else k1);
            k1 = (if length tail \<ge> 2 then k1 XOR push_bit 8 (ucast (tail ! 1)) else k1);
            k1 = k1 XOR ucast (tail ! 0);
            k1 = k1 * 0xcc9e2d51; k1 = ROTL32 k1 15; k1 = k1 * 0x1b873593
        in h1 XOR k1)"

definition murmur3_hash32 :: "byte list \<Rightarrow> u32 \<Rightarrow> u32" where
  "murmur3_hash32 key seed =
     (let nblocks = length key div 4;
          h1 = foldl (\<lambda>h1 i. murmur3_block h1 (load_le (get_at (4 * i) 4 key))) seed [0..<nblocks];
          h1 = murmur3_tail h1 (drop (4 * nblocks) key);
          h1 = h1 XOR of_nat (length key);
          h1 = h1 XOR drop_bit 16 h1;
          h1 = h1 * 0x85ebca6b;
          h1 = h1 XOR drop_bit 13 h1;
          h1 = h1 * 0xc2b2ae35
      in h1 XOR drop_bit 16 h1)"

section \<open>The filter\<close>

record bloomfilter =
  bf_m :: u32
  bf_k :: u32
  bit_vector :: "byte list"

definition bit_mask :: "u32 \<Rightarrow> byte" where
  "bit_mask n = push_bit (7 - unat (n AND 7)) 1"

definition bit_set :: "byte list \<Rightarrow> u32 \<Rightarrow> byte list option" where
  "bit_set v n =
     (let i = unat (drop_bit 3 n) in
      if i < length v then Some (v[i := v ! i OR bit_mask n]) else None)"

definition bit_get :: "byte list \<Rightarrow> u32 \<Rightarrow> bool option" where
  "bit_get v n =
     (let i = unat (drop_bit 3 n) in
      if i < length v then Some (v ! i AND bit_mask n \<noteq> 0) else None)"

text \<open>
  The first \<open>memset\<close> covers the struct: the two counters, the first byte of the vector
  and three bytes of padding that the vector runs over.
\<close>

definition bloomfilter_init :: "bloomfilter \<Rightarrow> u32 \<Rightarrow> u32 \<Rightarrow> bloomfilter option" where
  "bloomfilter_init f m k = do {
     v \<leftarrow> poke 0 (replicate 4 0) (bit_vector f);
     v \<leftarrow> poke 0 (replicate (unat (drop_bit 3 m)) 0) v;
     Some (f\<lparr>bf_m := m, bf_k := k, bit_vector := v\<rparr>) }"

definition hash_slot :: "bloomfilter \<Rightarrow> byte list \<Rightarrow> nat \<Rightarrow> u32 option" where
  "hash_slot f key i = do {
     bug_on (bf_m f = 0);
     Some (murmur3_hash32 key (of_nat i) mod bf_m f) }"

definition bloomfilter_set :: "bloomfilter \<Rightarrow> byte list \<Rightarrow> bloomfilter option" where
  "bloomfilter_set f key = do {
     v \<leftarrow> foldM (\<lambda>v i. do { h \<leftarrow> hash_slot f key i; bit_set v h }) (bit_vector f) [0..<unat (bf_k f)];
     Some (f\<lparr>bit_vector := v\<rparr>) }"

fun bloomfilter_get_from :: "bloomfilter \<Rightarrow> byte list \<Rightarrow> nat list \<Rightarrow> bool option" where
  "bloomfilter_get_from f key [] = Some True"
| "bloomfilter_get_from f key (i # is) = do {
     h \<leftarrow> hash_slot f key i;
     b \<leftarrow> bit_get (bit_vector f) h;
     if \<not> b then Some False else bloomfilter_get_from f key is }"

definition bloomfilter_get :: "bloomfilter \<Rightarrow> byte list \<Rightarrow> bool option" where
  "bloomfilter_get f key = bloomfilter_get_from f key [0..<unat (bf_k f)]"

section \<open>The contract of an approximate set\<close>

text \<open>
  A client only needs that insertion never fails, keeps the members, and adds its key.
\<close>

locale approx_set =
  fixes inv :: "'s \<Rightarrow> bool" and add :: "'s \<Rightarrow> 'k \<Rightarrow> 's option" and mem :: "'s \<Rightarrow> 'k \<Rightarrow> bool option"
  assumes add_total: "inv s \<Longrightarrow> \<exists>s'. add s k = Some s' \<and> inv s'"
    and add_mem: "inv s \<Longrightarrow> add s k = Some s' \<Longrightarrow> mem s' k = Some True"
    and add_keeps: "inv s \<Longrightarrow> add s k = Some s' \<Longrightarrow> mem s j = Some True \<Longrightarrow> mem s' j = Some True"
begin

lemma add_all_keeps:
  "inv s \<Longrightarrow> mem s j = Some True \<Longrightarrow> foldM add s ks = Some s' \<Longrightarrow> mem s' j = Some True"
proof (induction ks arbitrary: s)
  case Nil
  then show ?case by simp
next
  case (Cons k ks)
  then obtain s1 where s1: "add s k = Some s1" "inv s1" using add_total by blast
  with Cons show ?case using add_keeps by auto
qed

lemma add_all_mem:
  assumes "inv s" and "j \<in> set ks"
  shows "\<exists>s'. foldM add s ks = Some s' \<and> inv s' \<and> mem s' j = Some True"
proof -
  from assms(2) obtain xs ys where ks: "ks = xs @ j # ys" by (auto simp: in_set_conv_decomp)
  have total: "\<exists>s'. foldM add s ks = Some s' \<and> inv s'" if "inv s" for s ks
    using foldM_inv [of inv ks add s] add_total that by blast
  from total [OF assms(1), of xs] obtain s1 where s1: "foldM add s xs = Some s1" "inv s1" by blast
  from add_total [OF s1(2)] obtain s2 where s2: "add s1 j = Some s2" "inv s2" by blast
  from total [OF s2(2), of ys] obtain s3 where s3: "foldM add s2 ys = Some s3" "inv s3" by blast
  from add_all_keeps [OF s2(2) add_mem [OF s1(2) s2(1)] s3(1)] s1 s2 s3 show ?thesis
    by (simp add: ks foldM_append)
qed

end

section \<open>No false negatives\<close>

definition bf_inv :: "bloomfilter \<Rightarrow> bool" where
  "bf_inv f \<longleftrightarrow> bf_m f \<noteq> 0 \<and> unat (bf_m f) \<le> 8 * length (bit_vector f)"

lemma bit_mask_nz: "bit_mask n \<noteq> 0"
proof -
  have "7 - unat (n AND 7) < LENGTH(8)" by simp
  then have "bit (bit_mask n) (7 - unat (n AND 7))" by (simp add: bit_mask_def bit_exp_iff)
  then show ?thesis by auto
qed

lemma length_bit_set: "bit_set v n = Some w \<Longrightarrow> length w = length v"
  by (auto simp: bit_set_def Let_def split: if_splits)

lemma bit_get_set_same: "bit_set v n = Some w \<Longrightarrow> bit_get w n = Some True"
  using bit_mask_nz [of n]
  by (auto simp: bit_set_def bit_get_def Let_def bit.conj_disj_distrib2 split: if_splits)

lemma bit_get_set_keeps: "bit_set v n = Some w \<Longrightarrow> bit_get v j = Some True \<Longrightarrow> bit_get w j = Some True"
  by (auto simp: bit_set_def bit_get_def Let_def nth_list_update bit.conj_disj_distrib2 or_eq_0_iff split: if_splits)

lemma slot_in_vector:
  assumes "bf_inv f" and "hash_slot f key i = Some h"
  shows "unat (drop_bit 3 h) < length (bit_vector f)"
proof -
  from assms have "unat h < unat (bf_m f)"
    by (auto simp: hash_slot_def bf_inv_def unat_mod unat_gt_0)
  with assms(1) have "unat h div 8 < length (bit_vector f)" 
    by (intro less_mult_imp_div_less) (simp add: bf_inv_def mult.commute)
  then show ?thesis by (simp add: drop_bit_eq_div unat_div)
qed

text \<open>The bits of the first \<open>n\<close> hashes of a key.\<close>

lemma get_from_True_iff:
  "bloomfilter_get_from f key is = Some True \<longleftrightarrow>
   (\<forall>i\<in>set is. \<exists>h. hash_slot f key i = Some h \<and> bit_get (bit_vector f) h = Some True)"
  by (induction "is") (auto simp: bind_eq_Some_conv split: if_splits)

lemma hash_slot_update [simp]: "hash_slot (f\<lparr>bit_vector := v\<rparr>) key i = hash_slot f key i"
  by (simp add: hash_slot_def)

abbreviation set_loop :: "bloomfilter \<Rightarrow> byte list \<Rightarrow> byte list \<Rightarrow> nat list \<Rightarrow> byte list option" where
  "set_loop f key v is \<equiv> foldM (\<lambda>v i. do { h \<leftarrow> hash_slot f key i; bit_set v h }) v is"

lemma set_loop_total:
  assumes "bf_inv f" and "length v = length (bit_vector f)"
  shows "\<exists>w. set_loop f key v is = Some w \<and> length w = length v"
proof (rule foldM_inv [where I = "\<lambda>w. length w = length v"])
  fix w :: "byte list" and i assume "length w = length v"
  moreover obtain h where h: "hash_slot f key i = Some h"
    using assms(1) by (auto simp: hash_slot_def bf_inv_def)
  ultimately show "\<exists>w'. do { h \<leftarrow> hash_slot f key i; bit_set w h } = Some w' \<and> length w' = length v"
    using slot_in_vector [OF assms(1) h] assms(2) by (simp add: bit_set_def Let_def)
qed simp

lemma set_loop_keeps:
  "set_loop f key v is = Some w \<Longrightarrow> bit_get v j = Some True \<Longrightarrow> bit_get w j = Some True"
  by (induction "is" arbitrary: v) (auto simp: bind_eq_Some_conv dest: bit_get_set_keeps)

lemma set_loop_sets:
  "set_loop f key v is = Some w \<Longrightarrow> i \<in> set is \<Longrightarrow> hash_slot f key i = Some h \<Longrightarrow>
   bit_get w h = Some True"
proof (induction "is" arbitrary: v)
  case (Cons a as)
  from Cons.prems(1) obtain h' u where u: "hash_slot f key a = Some h'" "bit_set v h' = Some u"
      "set_loop f key u as = Some w"
    by (auto simp: bind_eq_Some_conv)
  show ?case
  proof (cases "i \<in> set as")
    case True
    with Cons.IH u(3) Cons.prems(3) show ?thesis by blast
  next
    case False
    with Cons.prems u(1) have "h' = h" by simp
    with u(2) have "bit_get u h = Some True" by (simp add: bit_get_set_same)
    with u(3) show ?thesis by (rule set_loop_keeps)
  qed
qed simp

lemma bf_set_total:
  assumes "bf_inv f"
  shows "\<exists>f'. bloomfilter_set f key = Some f' \<and> bf_inv f'"
  using set_loop_total [OF assms refl, of key "[0..<unat (bf_k f)]"] assms
  by (auto simp: bloomfilter_set_def bf_inv_def)

lemma bf_set_mem: "bf_inv f \<Longrightarrow> bloomfilter_set f key = Some f' \<Longrightarrow> bloomfilter_get f' key = Some True"
proof -
  assume "bf_inv f" and set: "bloomfilter_set f key = Some f'"
  then have slot: "\<exists>h. hash_slot f key i = Some h" for i by (simp add: hash_slot_def bf_inv_def)
  from set obtain w where w: "set_loop f key (bit_vector f) [0..<unat (bf_k f)] = Some w"
      "f' = f\<lparr>bit_vector := w\<rparr>"
    by (auto simp: bloomfilter_set_def bind_eq_Some_conv)
  show ?thesis
    unfolding bloomfilter_get_def get_from_True_iff
    using slot set_loop_sets [OF w(1)] by (force simp: w(2))
qed

lemma bf_set_keeps:
  "bloomfilter_set f key = Some f' \<Longrightarrow> bloomfilter_get f j = Some True \<Longrightarrow> bloomfilter_get f' j = Some True"
  by (fastforce simp: bloomfilter_set_def bloomfilter_get_def bind_eq_Some_conv get_from_True_iff
        intro: set_loop_keeps)

interpretation bloom: approx_set bf_inv bloomfilter_set bloomfilter_get
  by unfold_locales (auto intro: bf_set_total bf_set_mem bf_set_keeps)

lemma bloomfilter_init_inv:
  assumes "m \<noteq> 0" and "m AND 7 = 0" and "4 \<le> length (bit_vector f)" and "unat m \<le> 8 * length (bit_vector f)"
  shows "\<exists>f'. bloomfilter_init f m k = Some f' \<and> bf_inv f' \<and> bf_m f' = m \<and> bf_k f' = k"
proof -
  have "unat (drop_bit 3 m) = unat m div 8" by (simp add: drop_bit_eq_div unat_div)
  with assms show ?thesis
    by (simp add: bloomfilter_init_def bf_inv_def)
qed

text \<open>
  Property C34: the filter of a committed transaction has no false negatives.  After
  the initialisation with \<open>C_TXN_BLOOM_M_BYTES * 8\<close> bits and \<open>C_TXN_BLOOM_K\<close> hashes,
  inserting any keys in any order never indexes outside the vector, and every
  inserted key is reported.
\<close>

theorem bloom_no_false_negatives:
  assumes "length (bit_vector f) \<ge> C_TXN_BLOOM_M_BYTES" and "key \<in> set keys"
  shows "\<exists>f0 f1. bloomfilter_init f (of_nat (C_TXN_BLOOM_M_BYTES * 8)) (of_nat C_TXN_BLOOM_K) = Some f0
           \<and> foldM bloomfilter_set f0 keys = Some f1 \<and> bloomfilter_get f1 key = Some True"
proof -
  have "\<exists>f0. bloomfilter_init f (of_nat (C_TXN_BLOOM_M_BYTES * 8)) (of_nat C_TXN_BLOOM_K) = Some f0 \<and> bf_inv f0"
    using bloomfilter_init_inv [of "of_nat (C_TXN_BLOOM_M_BYTES * 8)" f "of_nat C_TXN_BLOOM_K"] assms(1)
    by (auto simp: C_TXN_BLOOM_M_BYTES_def)
  with bloom.add_all_mem [OF _ assms(2)] show ?thesis by blast
qed

theorem bloom_no_false_negatives_witness:
  "\<exists>f0 f1. bloomfilter_init \<lparr>bf_m = 0, bf_k = 0, bit_vector = replicate 308 255\<rparr>
              (of_nat (C_TXN_BLOOM_M_BYTES * 8)) (of_nat C_TXN_BLOOM_K) = Some f0
     \<and> foldM bloomfilter_set f0 [[1, 2], [3]] = Some f1 \<and> bloomfilter_get f1 [3] = Some True"
  by (rule bloom_no_false_negatives) (simp_all add: C_TXN_BLOOM_M_BYTES_def)

end
