(* ===== verification/Kevin_Txn_Types.thy ===== *)
theory Kevin_Txn_Types
  imports Kevin_Bloom
begin

text \<open>
  The transaction objects of \<open>kevinfs/lightfs.h\<close> and \<open>kevinfs/db.h\<close> with the inline
  helpers of \<open>kevinfs/lightfs_txn_hdlr.h\<close>: a transaction buffer is one request, a
  transaction a list of buffers, a committed transaction (\<open>c_txn\<close>) the list of
  transactions sent to the device as one unit.
\<close>

section \<open>Transaction buffers\<close>

text \<open>
  What \<open>buf\<close> of a transaction buffer points to: nothing, an object of its own, or (in
  write-back) a page of the page cache, by page number.  \<open>db\<close> is the number of the
  database.
\<close>

datatype tb_data = NoBuf | Buf "byte list" | Page nat

record txn_buf =
  tb_txn_id :: u32
  tb_key :: "byte list"
  tb_key_len :: u16
  tb_off :: u16
  tb_len :: u32
  tb_update :: u16
  tb_type :: lightfs_req_type
  tb_buf :: tb_data
  tb_ret :: u32
  tb_db :: nat

definition lightfs_txn_buf_init :: txn_buf where
  "lightfs_txn_buf_init =
     \<lparr>tb_txn_id = 0, tb_key = [], tb_key_len = 0, tb_off = 0, tb_len = 0, tb_update = 0,
      tb_type = LIGHTFS_META_GET, tb_buf = NoBuf, tb_ret = 0, tb_db = 0\<rparr>"

definition calc_txn_buf_size :: "txn_buf \<Rightarrow> u32" where
  "calc_txn_buf_size tb = 1 + 2 + ucast (tb_key_len tb) + 2 + 2 + tb_len tb"

definition txn_buf_setup :: "txn_buf \<Rightarrow> tb_data \<Rightarrow> u32 \<Rightarrow> u32 \<Rightarrow> lightfs_req_type \<Rightarrow> txn_buf" where
  "txn_buf_setup tb data off sz ty =
     tb\<lparr>tb_off := ucast off, tb_len := sz, tb_buf := data, tb_type := ty\<rparr>"

text \<open>\<open>txn_buf_setup_cpy\<close> copies \<open>sz\<close> bytes of the value to offset \<open>off\<close> of the buffer's object.\<close>

definition txn_buf_setup_cpy ::
    "txn_buf \<Rightarrow> byte list \<Rightarrow> u32 \<Rightarrow> u32 \<Rightarrow> lightfs_req_type \<Rightarrow> txn_buf option" where
  "txn_buf_setup_cpy tb data off sz ty =
     (case tb_buf tb of
        Buf obj \<Rightarrow> do {
          src \<leftarrow> peek 0 (unat sz) data;
          obj \<leftarrow> poke (unat off) src obj;
          Some (tb\<lparr>tb_off := ucast off, tb_len := sz, tb_buf := Buf obj, tb_type := ty\<rparr>) }
      | _ \<Rightarrow> None)"

definition alloc_txn_buf_key_from_dbt :: "(nat \<Rightarrow> byte list option) \<Rightarrow> txn_buf \<Rightarrow> dbt \<Rightarrow> txn_buf option" where
  "alloc_txn_buf_key_from_dbt km tb d = do {
     key \<leftarrow> km (unat (d_size d));
     src \<leftarrow> d_data d;
     src \<leftarrow> peek 0 (unat (d_size d)) src;
     key \<leftarrow> poke 0 src key;
     Some (tb\<lparr>tb_key := key, tb_key_len := ucast (d_size d)\<rparr>) }"

definition copy_txn_buf_key_from_dbt :: "txn_buf \<Rightarrow> dbt \<Rightarrow> txn_buf" where
  "copy_txn_buf_key_from_dbt tb d =
     tb\<lparr>tb_key := (case d_data d of None \<Rightarrow> [] | Some b \<Rightarrow> b), tb_key_len := ucast (d_size d)\<rparr>"

section \<open>Transactions\<close>

record txn =
  t_id :: u32
  t_cnt :: u32
  t_size :: u32
  t_state :: u32
  t_bufs :: "txn_buf list"
  t_completion :: "nat option"

definition lightfs_txn_init :: txn where
  "lightfs_txn_init =
     \<lparr>t_id = 0, t_cnt = 0, t_size = 4 + 4, t_state = TXN_CREATED, t_bufs = [], t_completion = None\<rparr>"

record c_txn =
  c_id :: u32
  c_txns :: "txn list"
  c_children :: "nat list"
  c_size :: u32
  c_parents :: u16
  c_state :: u32
  c_filter :: bloomfilter
  c_workq_id :: u64
  c_committing_cnt :: u32
  c_cnt :: u32

text \<open>
  \<open>lightfs_c_txn_init\<close>, with the object \<open>kmalloc\<close> returned for the filter's bits.
\<close>

definition lightfs_c_txn_init :: "byte list \<Rightarrow> c_txn option" where
  "lightfs_c_txn_init bits = do {
     f \<leftarrow> bloomfilter_init \<lparr>bf_m = 0, bf_k = 0, bit_vector = bits\<rparr>
            (of_nat (C_TXN_BLOOM_M_BYTES * 8)) (of_nat C_TXN_BLOOM_K);
     Some \<lparr>c_id = 0, c_txns = [], c_children = [], c_size = 0, c_parents = 0, c_state = TXN_CREATED,
           c_filter = f, c_workq_id = 0, c_committing_cnt = 0, c_cnt = 0\<rparr> }"

definition c_txn_is_available :: "c_txn \<Rightarrow> txn \<Rightarrow> bool" where
  "c_txn_is_available c t \<longleftrightarrow> \<not> c_size c + t_size t > of_nat C_TXN_LIMIT_BYTES"

definition c_txn_available_bytes :: "c_txn \<Rightarrow> int" where
  "c_txn_available_bytes c = sint (of_nat C_TXN_LIMIT_BYTES - c_size c)"

text \<open>The subtraction is unsigned; the result is read as a signed integer.\<close>

definition diff_c_txn_and_txn :: "c_txn \<Rightarrow> txn \<Rightarrow> int" where
  "diff_c_txn_and_txn c t = sint (of_nat C_TXN_LIMIT_BYTES - c_size c - t_size t)"

lemma sint_word_of_int_u32:
  "- 2147483648 \<le> k \<Longrightarrow> k < 2147483648 \<Longrightarrow> sint (word_of_int k :: u32) = k"
proof -
  assume k: "- 2147483648 \<le> k" "k < 2147483648"
  have "sint (word_of_int k :: u32) = signed_take_bit 31 k"
    by (simp add: sint_uint uint_word_of_int_eq signed_take_bit_take_bit)
  also have "\<dots> = k" using k by (intro signed_take_bit_int_eq_self) simp_all
  finally show ?thesis .
qed

text \<open>As long as the sizes are below a gigabyte, the sign tells whether the sum exceeds the limit.\<close>

lemma diff_c_txn_negative:
  assumes "unat (c_size c) \<le> 1073741824" and "unat (t_size t) \<le> 1073741824"
  shows "diff_c_txn_and_txn c t < 0 \<longleftrightarrow> unat (c_size c) + unat (t_size t) > C_TXN_LIMIT_BYTES"
proof -
  let ?a = "int (unat (c_size c))" and ?b = "int (unat (t_size t))"
  have w: "of_nat C_TXN_LIMIT_BYTES - c_size c - t_size t = (word_of_int (1569760 - ?a - ?b) :: u32)"
    by (simp add: C_TXN_LIMIT_BYTES_def)
  have "sint (word_of_int (1569760 - ?a - ?b) :: u32) = 1569760 - ?a - ?b"
    using assms by (intro sint_word_of_int_u32) linarith+
  then have "diff_c_txn_and_txn c t = 1569760 - ?a - ?b" by (simp only: diff_c_txn_and_txn_def w)
  then show ?thesis by (simp only: C_TXN_LIMIT_BYTES_def) linarith
qed

end
