(* ===== verification/Kevin_Keys.thy ===== *)
theory Kevin_Keys
  imports Kevin_Types
begin

text \<open>
  Keys: the field accessors of \<open>kevinfs/lightfs_fs.h\<close>, the key builders of
  \<open>kevinfs/lightfs_super.c\<close> and \<open>kevinfs/lightfs_bstore.c\<close>, and the key
  comparison, which exists as \<open>env_keycmp\<close> and as \<open>lightfs_keycmp\<close>.  A key is a
  byte buffer; \<^term>\<open>None\<close> is a failed \<open>BUG_ON\<close> or an access outside the
  buffer.
\<close>

section \<open>Fields\<close>

definition META_KEY_MAGIC :: byte where "META_KEY_MAGIC = 109"
definition DATA_KEY_MAGIC :: byte where "DATA_KEY_MAGIC = 100"
definition INO_POS :: nat where "INO_POS = 1"
definition PATH_POS :: nat where "PATH_POS = 9"
definition DATA_META_KEY_SIZE_DIFF :: nat where "DATA_META_KEY_SIZE_DIFF = 8"
definition SIZEOF_ROOT_META_KEY :: nat where "SIZEOF_ROOT_META_KEY = PATH_POS + 1"

lemmas key_pos_defs = INO_POS_def PATH_POS_def DATA_META_KEY_SIZE_DIFF_def SIZEOF_ROOT_META_KEY_def
lemmas magic_defs = META_KEY_MAGIC_def DATA_KEY_MAGIC_def

definition lightfs_key_set_magic :: "byte list \<Rightarrow> byte \<Rightarrow> byte list option" where
  "lightfs_key_set_magic key magic = poke 0 [magic] key"

definition lightfs_key_get_ino :: "byte list \<Rightarrow> u64 option" where
  "lightfs_key_get_ino key = do { b \<leftarrow> peek INO_POS 8 key; Some (load_be64 b) }"

definition lightfs_key_set_ino :: "byte list \<Rightarrow> u64 \<Rightarrow> byte list option" where
  "lightfs_key_set_ino key ino = poke INO_POS (store_be64 ino) key"

definition lightfs_key_copy_ino :: "byte list \<Rightarrow> byte list \<Rightarrow> byte list option" where
  "lightfs_key_copy_ino dst src = do { b \<leftarrow> peek INO_POS 8 src; poke INO_POS b dst }"

definition lightfs_key_path :: "byte list \<Rightarrow> byte list" where
  "lightfs_key_path key = drop PATH_POS key"

definition lightfs_data_key_get_blocknum :: "byte list \<Rightarrow> nat \<Rightarrow> u64 option" where
  "lightfs_data_key_get_blocknum key key_size =
     do { bug_on (key_size < 8); b \<leftarrow> peek (key_size - 8) 8 key; Some (load_be64 b) }"

definition lightfs_data_key_set_blocknum :: "byte list \<Rightarrow> nat \<Rightarrow> u64 \<Rightarrow> byte list option" where
  "lightfs_data_key_set_blocknum key key_size blocknum =
     do { bug_on (key_size < 8); poke (key_size - 8) (store_be64 blocknum) key }"

definition key_is_same_of_ino :: "byte list \<Rightarrow> u64 \<Rightarrow> bool option" where
  "key_is_same_of_ino key1 ino = do { i \<leftarrow> lightfs_key_get_ino key1; Some (i = ino) }"

definition meta_key_is_child_of_ino :: "byte list \<Rightarrow> u64 \<Rightarrow> bool option" where
  "meta_key_is_child_of_ino child_key ino =
     do { i \<leftarrow> lightfs_key_get_ino child_key; Some (if i \<noteq> ino then False else True) }"

text \<open>
  The path of a key is a C string inside the buffer: without a NUL before the end of
  the buffer, \<open>strlen\<close>, \<open>strcpy\<close> and \<open>strrchr\<close> run out of it.
\<close>

definition read_path :: "byte list \<Rightarrow> byte list option" where
  "read_path key = (if 0 \<in> set (lightfs_key_path key) then Some (cstring (lightfs_key_path key)) else None)"

definition strrchr :: "byte list \<Rightarrow> byte \<Rightarrow> nat option" where
  "strrchr s c = (if c \<in> set s then Some (length s - Suc (length (takeWhile (\<lambda>b. b \<noteq> c) (rev s)))) else None)"

lemma strrchr_last: "c \<notin> set s2 \<Longrightarrow> strrchr (s1 @ c # s2) c = Some (length s1)"
proof -
  assume "c \<notin> set s2"
  then have "takeWhile (\<lambda>b. b \<noteq> c) (rev s2 @ c # rev s1) = rev s2"
    by (subst takeWhile_append2) auto
  then show ?thesis by (simp add: strrchr_def)
qed

section \<open>Builders from inode numbers\<close>

text \<open>The two key shapes the file system uses.\<close>

definition meta_key_of :: "u64 \<Rightarrow> byte list \<Rightarrow> byte list" where
  "meta_key_of ino name = META_KEY_MAGIC # store_be64 ino @ name @ [0]"

definition data_key_of :: "u64 \<Rightarrow> u64 \<Rightarrow> byte list" where
  "data_key_of ino block_num = DATA_KEY_MAGIC # store_be64 ino @ store_be64 block_num"

definition copy_meta_dbt_from_ino :: "dbt \<Rightarrow> u64 \<Rightarrow> dbt option" where
  "copy_meta_dbt_from_ino dbt ino = do {
     meta_key \<leftarrow> d_data dbt;
     let sz = SIZEOF_ROOT_META_KEY;
     bug_on (sz > unat (d_ulen dbt));
     meta_key \<leftarrow> lightfs_key_set_magic meta_key META_KEY_MAGIC;
     meta_key \<leftarrow> lightfs_key_set_ino meta_key ino;
     meta_key \<leftarrow> poke PATH_POS [0] meta_key;
     Some (dbt\<lparr>d_data := Some meta_key, d_size := of_nat sz\<rparr>) }"

definition copy_data_dbt_from_inode :: "dbt \<Rightarrow> u64 \<Rightarrow> u64 \<Rightarrow> dbt option" where
  "copy_data_dbt_from_inode data_dbt ino block_num = do {
     data_key \<leftarrow> d_data data_dbt;
     let sz = PATH_POS + DATA_META_KEY_SIZE_DIFF;
     bug_on (sz > unat (d_ulen data_dbt));
     data_key \<leftarrow> lightfs_key_set_magic data_key DATA_KEY_MAGIC;
     data_key \<leftarrow> lightfs_key_set_ino data_key ino;
     data_key \<leftarrow> lightfs_data_key_set_blocknum data_key sz block_num;
     Some (data_dbt\<lparr>d_data := Some data_key, d_size := of_nat sz\<rparr>) }"

text \<open>
  The \<open>alloc_\<close> builders fill a fresh object of \<open>kmalloc\<close>, a parameter; \<^term>\<open>Inl\<close> is
  the error code they return.
\<close>

definition alloc_data_dbt_from_inode ::
    "(nat \<Rightarrow> byte list option) \<Rightarrow> u64 \<Rightarrow> u64 \<Rightarrow> (int + dbt) option" where
  "alloc_data_dbt_from_inode km ino block_num =
     (let sz = PATH_POS + DATA_META_KEY_SIZE_DIFF in
      case km sz of
        None \<Rightarrow> Some (Inl (- ENOMEM))
      | Some data_key \<Rightarrow> do {
          data_key \<leftarrow> lightfs_key_set_magic data_key DATA_KEY_MAGIC;
          data_key \<leftarrow> lightfs_key_set_ino data_key ino;
          data_key \<leftarrow> lightfs_data_key_set_blocknum data_key sz block_num;
          Some (Inr (dbt_setup data_key sz)) })"

definition alloc_data_dbt_from_ino ::
    "(nat \<Rightarrow> byte list option) \<Rightarrow> u64 \<Rightarrow> u64 \<Rightarrow> (int + dbt) option" where
  "alloc_data_dbt_from_ino km ino block_num =
     (let sz = PATH_POS + DATA_META_KEY_SIZE_DIFF in
      case km sz of
        None \<Rightarrow> Some (Inl (- ENOMEM))
      | Some data_key \<Rightarrow> do {
          data_key \<leftarrow> lightfs_key_set_magic data_key DATA_KEY_MAGIC;
          data_key \<leftarrow> lightfs_key_set_ino data_key ino;
          data_key \<leftarrow> lightfs_data_key_set_blocknum data_key sz block_num;
          Some (Inr (dbt_setup data_key sz)) })"

definition alloc_child_meta_dbt_from_inode ::
    "(nat \<Rightarrow> byte list option) \<Rightarrow> u64 \<Rightarrow> byte list \<Rightarrow> (int + dbt) option" where
  "alloc_child_meta_dbt_from_inode km parent_ino name =
     (let sz = PATH_POS + length name + 1 in
      case km sz of
        None \<Rightarrow> Some (Inl (- ENOMEM))
      | Some meta_key \<Rightarrow> do {
          meta_key \<leftarrow> lightfs_key_set_magic meta_key META_KEY_MAGIC;
          meta_key \<leftarrow> lightfs_key_set_ino meta_key parent_ino;
          meta_key \<leftarrow> poke PATH_POS (name @ [0]) meta_key;
          Some (Inr (dbt_setup meta_key sz)) })"

definition copy_child_meta_dbt_from_inode :: "dbt \<Rightarrow> u64 \<Rightarrow> byte list \<Rightarrow> dbt option" where
  "copy_child_meta_dbt_from_inode dbt parent_ino name = do {
     meta_key \<leftarrow> d_data dbt;
     let sz = PATH_POS + length name + 1;
     bug_on (sz > unat (d_ulen dbt));
     meta_key \<leftarrow> lightfs_key_set_magic meta_key META_KEY_MAGIC;
     meta_key \<leftarrow> lightfs_key_set_ino meta_key parent_ino;
     meta_key \<leftarrow> poke PATH_POS (name @ [0]) meta_key;
     Some (dbt\<lparr>d_data := Some meta_key, d_size := of_nat sz\<rparr>) }"

section \<open>Builders from parent keys\<close>

definition copy_data_dbt_from_meta_dbt :: "dbt \<Rightarrow> dbt \<Rightarrow> u64 \<Rightarrow> dbt option" where
  "copy_data_dbt_from_meta_dbt data_dbt meta_dbt block_num = do {
     meta_key \<leftarrow> d_data meta_dbt;
     data_key \<leftarrow> d_data data_dbt;
     let sz = unat (d_size meta_dbt) + DATA_META_KEY_SIZE_DIFF;
     bug_on (sz > unat (d_ulen data_dbt));
     data_key \<leftarrow> lightfs_key_set_magic data_key DATA_KEY_MAGIC;
     data_key \<leftarrow> lightfs_key_copy_ino data_key meta_key;
     path \<leftarrow> read_path meta_key;
     data_key \<leftarrow> poke PATH_POS (path @ [0]) data_key;
     data_key \<leftarrow> lightfs_data_key_set_blocknum data_key sz block_num;
     Some (data_dbt\<lparr>d_data := Some data_key, d_size := of_nat sz\<rparr>) }"

definition alloc_data_dbt_from_meta_dbt ::
    "(nat \<Rightarrow> byte list option) \<Rightarrow> dbt \<Rightarrow> u64 \<Rightarrow> (int + dbt) option" where
  "alloc_data_dbt_from_meta_dbt km meta_dbt block_num = do {
     meta_key \<leftarrow> d_data meta_dbt;
     let sz = unat (d_size meta_dbt) + DATA_META_KEY_SIZE_DIFF;
     case km sz of
       None \<Rightarrow> Some (Inl (- ENOMEM))
     | Some data_key \<Rightarrow> do {
         data_key \<leftarrow> lightfs_key_set_magic data_key DATA_KEY_MAGIC;
         data_key \<leftarrow> lightfs_key_copy_ino data_key meta_key;
         path \<leftarrow> read_path meta_key;
         data_key \<leftarrow> poke PATH_POS (path @ [0]) data_key;
         data_key \<leftarrow> lightfs_data_key_set_blocknum data_key sz block_num;
         Some (Inr (dbt_setup data_key sz)) } }"

text \<open>
  In the path-based keys \<open>\x01\<close> separates path components, and the last component
  is marked by a doubled separator that moves on with every level.
\<close>

definition child_path_write :: "byte list \<Rightarrow> byte list \<Rightarrow> byte list \<Rightarrow> byte list option" where
  "child_path_write key parent_path name =
     (if parent_path = [] then poke PATH_POS ([1, 1] @ name @ [0]) key
      else do {
        last_slash \<leftarrow> strrchr parent_path 1;
        key \<leftarrow> poke PATH_POS (take last_slash parent_path) key;
        poke (PATH_POS + last_slash) (drop (last_slash + 1) parent_path @ [1, 1] @ name @ [0]) key })"

definition child_key_size :: "dbt \<Rightarrow> byte list \<Rightarrow> byte list \<Rightarrow> nat" where
  "child_key_size parent_dbt parent_path name =
     (if parent_path = [] then unat (d_size parent_dbt) + length name + 2
      else unat (d_size parent_dbt) + length name + 1)"

definition alloc_child_meta_dbt_from_meta_dbt ::
    "(nat \<Rightarrow> byte list option) \<Rightarrow> dbt \<Rightarrow> byte list \<Rightarrow> (int + dbt) option" where
  "alloc_child_meta_dbt_from_meta_dbt km parent_dbt name = do {
     parent_key \<leftarrow> d_data parent_dbt;
     path \<leftarrow> read_path parent_key;
     let sz = child_key_size parent_dbt path name;
     case km sz of
       None \<Rightarrow> Some (Inl (- ENOMEM))
     | Some meta_key \<Rightarrow> do {
         meta_key \<leftarrow> lightfs_key_set_magic meta_key META_KEY_MAGIC;
         meta_key \<leftarrow> lightfs_key_copy_ino meta_key parent_key;
         meta_key \<leftarrow> child_path_write meta_key path name;
         Some (Inr (dbt_setup meta_key sz)) } }"

definition copy_child_meta_dbt_from_meta_dbt :: "dbt \<Rightarrow> dbt \<Rightarrow> byte list \<Rightarrow> dbt option" where
  "copy_child_meta_dbt_from_meta_dbt dbt parent_dbt name = do {
     parent_key \<leftarrow> d_data parent_dbt;
     meta_key \<leftarrow> d_data dbt;
     path \<leftarrow> read_path parent_key;
     let sz = child_key_size parent_dbt path name;
     bug_on (sz > unat (d_ulen dbt));
     meta_key \<leftarrow> lightfs_key_set_magic meta_key META_KEY_MAGIC;
     meta_key \<leftarrow> lightfs_key_copy_ino meta_key parent_key;
     meta_key \<leftarrow> child_path_write meta_key path name;
     Some (dbt\<lparr>d_data := Some meta_key, d_size := of_nat sz\<rparr>) }"

definition copy_child_data_dbt_from_meta_dbt :: "dbt \<Rightarrow> dbt \<Rightarrow> byte list \<Rightarrow> u64 \<Rightarrow> dbt option" where
  "copy_child_data_dbt_from_meta_dbt dbt parent_dbt name block_num = do {
     parent_key \<leftarrow> d_data parent_dbt;
     data_key \<leftarrow> d_data dbt;
     path \<leftarrow> read_path parent_key;
     let sz = child_key_size parent_dbt path name + DATA_META_KEY_SIZE_DIFF;
     bug_on (sz > unat (d_ulen dbt));
     data_key \<leftarrow> lightfs_key_set_magic data_key DATA_KEY_MAGIC;
     data_key \<leftarrow> lightfs_key_copy_ino data_key parent_key;
     data_key \<leftarrow> lightfs_data_key_set_blocknum data_key sz block_num;
     data_key \<leftarrow> child_path_write data_key path name;
     Some (dbt\<lparr>d_data := Some data_key, d_size := of_nat sz\<rparr>) }"

definition copy_subtree_max_meta_dbt_from_meta_dbt :: "dbt \<Rightarrow> dbt \<Rightarrow> dbt option" where
  "copy_subtree_max_meta_dbt_from_meta_dbt dbt parent_dbt = do {
     dbt \<leftarrow> copy_child_meta_dbt_from_meta_dbt dbt parent_dbt [];
     key \<leftarrow> d_data dbt;
     key \<leftarrow> poke (unat (d_size dbt) - 2) [255] key;
     Some (dbt\<lparr>d_data := Some key\<rparr>) }"

definition copy_subtree_max_data_dbt_from_meta_dbt :: "dbt \<Rightarrow> dbt \<Rightarrow> dbt option" where
  "copy_subtree_max_data_dbt_from_meta_dbt dbt parent_dbt = do {
     dbt \<leftarrow> copy_child_data_dbt_from_meta_dbt dbt parent_dbt [] 0;
     key \<leftarrow> d_data dbt;
     key \<leftarrow> poke (unat (d_size dbt) - 8 - 2) [255] key;
     Some (dbt\<lparr>d_data := Some key\<rparr>) }"

definition alloc_meta_dbt_prefix :: "(nat \<Rightarrow> byte list option) \<Rightarrow> dbt \<Rightarrow> (int + dbt) option" where
  "alloc_meta_dbt_prefix km meta_dbt = do {
     meta_key \<leftarrow> d_data meta_dbt;
     path \<leftarrow> read_path meta_key;
     let sz = (if path = [] then unat (d_size meta_dbt) else unat (d_size meta_dbt - 1));
     case km sz of
       None \<Rightarrow> Some (Inl (- ENOMEM))
     | Some prefix_key \<Rightarrow> do {
         prefix_key \<leftarrow> lightfs_key_set_magic prefix_key META_KEY_MAGIC;
         prefix_key \<leftarrow> lightfs_key_copy_ino prefix_key meta_key;
         prefix_key \<leftarrow>
           (if path = [] then poke PATH_POS [0] prefix_key
            else do {
              last_slash \<leftarrow> strrchr path 1;
              prefix_key \<leftarrow> poke PATH_POS (take last_slash path) prefix_key;
              poke (PATH_POS + last_slash) (drop (last_slash + 1) path @ [0]) prefix_key });
         Some (Inr (dbt_setup prefix_key sz)) } }"

section \<open>Comparison\<close>

text \<open>\<open>memcmp\<close> of the first \<open>n\<close> bytes; both objects have that many.\<close>

fun memcmp :: "byte list \<Rightarrow> byte list \<Rightarrow> nat \<Rightarrow> int" where
  "memcmp (a # as) (b # bs) (Suc n) = (if a = b then memcmp as bs n else uint a - uint b)"
| "memcmp _ _ _ = 0"

text \<open>
  \<open>env_keycmp\<close> (in \<open>rbtreekv.c\<close> and \<open>lightfs_bstore.c\<close>) takes the sizes from the
  descriptors, so a key is here the list of its \<open>size\<close> bytes; \<open>lightfs_keycmp\<close>
  takes them as 16-bit arguments.
\<close>

definition env_keycmp :: "byte list \<Rightarrow> byte list \<Rightarrow> int" where
  "env_keycmp a b =
     (let alen = length a; blen = length b in
      if alen < blen then
        let r = memcmp a b alen in if r \<noteq> 0 then r else - 1
      else if alen > blen then
        let r = memcmp a b blen in if r \<noteq> 0 then r else 1
      else memcmp a b alen)"

definition lightfs_keycmp :: "byte list \<Rightarrow> u16 \<Rightarrow> byte list \<Rightarrow> u16 \<Rightarrow> int" where
  "lightfs_keycmp akey alen bkey blen =
     (if alen < blen then
        let r = memcmp akey bkey (unat alen) in if r \<noteq> 0 then r else - 1
      else if alen > blen then
        let r = memcmp akey bkey (unat blen) in if r \<noteq> 0 then r else 1
      else memcmp akey bkey (unat alen))"

definition key_is_in_subtree_of_prefix :: "byte list \<Rightarrow> byte list \<Rightarrow> nat \<Rightarrow> bool option" where
  "key_is_in_subtree_of_prefix key prefix prefix_size = do {
     i \<leftarrow> peek INO_POS 8 key;
     j \<leftarrow> peek INO_POS 8 prefix;
     if i \<noteq> j then Some False
     else do {
       k \<leftarrow> peek PATH_POS (prefix_size - PATH_POS - 1) key;
       p \<leftarrow> peek PATH_POS (prefix_size - PATH_POS - 1) prefix;
       if memcmp k p (prefix_size - PATH_POS - 1) \<noteq> 0 then Some False
       else do { c \<leftarrow> peek (prefix_size - 1) 1 key; Some (c = [1]) } } }"

text \<open>
  What a client of the comparison relies on: it is the sign of a linear order.
\<close>

locale key_order =
  fixes cmp :: "'k::linorder \<Rightarrow> 'k \<Rightarrow> int"
  assumes cmp_less: "cmp a b < 0 \<longleftrightarrow> a < b"
    and cmp_eq: "cmp a b = 0 \<longleftrightarrow> a = b"
begin

lemma cmp_greater: "cmp a b > 0 \<longleftrightarrow> b < a"
  using cmp_less [of a b] cmp_eq [of a b] by (metis linorder_neqE not_less_iff_gr_or_eq)

lemma cmp_antisym: "sgn (cmp a b) = - sgn (cmp b a)"
  using cmp_less [of a b] cmp_eq [of a b] cmp_less [of b a] cmp_eq [of b a]
  by (cases a b rule: linorder_cases) (auto simp: sgn_if)

lemma cmp_trans: "cmp a b < 0 \<Longrightarrow> cmp b c < 0 \<Longrightarrow> cmp a c < 0"
  by (metis cmp_less less_trans)

lemma cmp_not_less: "\<not> cmp a b < 0 \<Longrightarrow> cmp a b \<noteq> 0 \<Longrightarrow> b < a"
  by (metis cmp_eq cmp_less linorder_neqE)

end

lemma memcmp_eq:
  "n \<le> length a \<Longrightarrow> n \<le> length b \<Longrightarrow> memcmp a b n = 0 \<longleftrightarrow> take n a = take n b"
  by (induction a b n rule: memcmp.induct) (auto simp: word_uint_eq_iff)

lemma memcmp_less:
  "n \<le> length a \<Longrightarrow> n \<le> length b \<Longrightarrow> memcmp a b n < 0 \<longleftrightarrow> take n a < take n b"
  by (induction a b n rule: memcmp.induct) (auto simp: word_less_def)

lemma take_less_cases:
  fixes a b :: "'a::linorder list"
  assumes "n \<le> length a" and "n \<le> length b"
  shows "a < b \<longleftrightarrow> take n a < take n b \<or> take n a = take n b \<and> drop n a < drop n b"
  using append_less_append_iff [of "take n a" "take n b" "drop n a" "drop n b"] assms by simp

lemma env_keycmp_less: "env_keycmp a b < 0 \<longleftrightarrow> a < b"
proof (cases "length a" "length b" rule: linorder_cases)
  case less
  then have "[] < drop (length a) b"
    by (cases "drop (length a) b") auto
  with less show ?thesis
    using take_less_cases [of "length a" a b] memcmp_less [of "length a" a b] memcmp_eq [of "length a" a b]
    by (auto simp: env_keycmp_def Let_def)
next
  case equal
  then show ?thesis
    using memcmp_less [of "length a" a b] by (simp add: env_keycmp_def Let_def)
next
  case greater
  then show ?thesis
    using take_less_cases [of "length b" a b] memcmp_less [of "length b" a b] memcmp_eq [of "length b" a b]
    by (auto simp: env_keycmp_def Let_def)
qed

lemma env_keycmp_eq: "env_keycmp a b = 0 \<longleftrightarrow> a = b"
  by (cases "length a" "length b" rule: linorder_cases)
    (auto simp: env_keycmp_def Let_def memcmp_eq)

interpretation kc: key_order env_keycmp
  by unfold_locales (fact env_keycmp_less, fact env_keycmp_eq)

lemma lightfs_keycmp_env:
  "length a < 65536 \<Longrightarrow> length b < 65536 \<Longrightarrow>
   lightfs_keycmp a (of_nat (length a)) b (of_nat (length b)) = env_keycmp a b"
  by (simp add: lightfs_keycmp_def env_keycmp_def Let_def word_less_nat_alt)

section \<open>What the builders build\<close>

lemma length_meta_key_of [simp]: "length (meta_key_of ino name) = 10 + length name"
  by (simp add: meta_key_of_def)

lemma length_data_key_of [simp]: "length (data_key_of ino bn) = 17"
  by (simp add: data_key_of_def)

lemma put_at_0 [simp]: "put_at 0 src dst = src @ drop (length src) dst"
  by (simp add: put_at_def)

lemma put_at_Cons [simp]: "0 < off \<Longrightarrow> put_at off src (x # xs) = x # put_at (off - 1) src xs"
  by (cases off) (simp_all add: put_at_def)

lemma put_at_prefix [simp]:
  "length pre \<le> off \<Longrightarrow> put_at off src (pre @ rest) = pre @ put_at (off - length pre) src rest"
  by (simp add: put_at_def Suc_diff_le)

lemma get_at_Cons [simp]: "0 < off \<Longrightarrow> get_at off n (x # xs) = get_at (off - 1) n xs"
  by (cases off) (simp_all add: get_at_def)

lemma get_at_prefix [simp]:
  "length pre \<le> off \<Longrightarrow> get_at off n (pre @ rest) = get_at (off - length pre) n rest"
  by (simp add: get_at_def)

lemma get_at_0 [simp]: "n = length src \<Longrightarrow> get_at 0 n (src @ rest) = src"
  by (simp add: get_at_def)

lemma get_at_all [simp]: "n = length src \<Longrightarrow> get_at 0 n src = src"
  by (simp add: get_at_def)

lemmas key_field_defs = lightfs_key_set_magic_def lightfs_key_set_ino_def lightfs_key_get_ino_def
  lightfs_data_key_set_blocknum_def lightfs_data_key_get_blocknum_def lightfs_key_copy_ino_def
  lightfs_key_path_def key_pos_defs

text \<open>
  Writing the fields of a data key into a buffer of at least 17 bytes leaves the key
  followed by the rest of the buffer.
\<close>

lemma write_data_key:
  assumes "17 \<le> length buf"
  shows "do { k \<leftarrow> lightfs_key_set_magic buf DATA_KEY_MAGIC;
              k \<leftarrow> lightfs_key_set_ino k ino;
              k \<leftarrow> lightfs_data_key_set_blocknum k 17 bn;
              cont k } = cont (data_key_of ino bn @ drop 17 buf)"
  using assms by (simp add: key_field_defs data_key_of_def)

lemma write_meta_key:
  assumes "10 + length name \<le> length buf"
  shows "do { k \<leftarrow> lightfs_key_set_magic buf META_KEY_MAGIC;
              k \<leftarrow> lightfs_key_set_ino k ino;
              k \<leftarrow> poke 9 (name @ [0]) k;
              cont k } = cont (meta_key_of ino name @ drop (10 + length name) buf)"
  using assms by (simp add: key_field_defs meta_key_of_def)

lemma key_7_258: "data_key_of 7 258 = [100, 0, 0, 0, 0, 0, 0, 0, 7, 0, 0, 0, 0, 0, 0, 1, 2]"
  by code_simp

lemma meta_key_7_ab: "meta_key_of 7 [97, 98] = [109, 0, 0, 0, 0, 0, 0, 0, 7, 97, 98, 0]"
  by code_simp

text \<open>
  Whatever memory \<open>kmalloc\<close> hands out, the data-key builders stay inside it and yield the
  key \<open>'d', ino, block\<close> of 17 bytes, or \<open>-ENOMEM\<close>.
\<close>

lemma alloc_data_dbt_eq:
  assumes "kmalloc_ok km"
  shows "alloc_data_dbt_from_inode km ino bn =
           (case km 17 of None \<Rightarrow> Some (Inl (- ENOMEM))
            | Some _ \<Rightarrow> Some (Inr (dbt_setup (data_key_of ino bn) 17)))
         \<and> alloc_data_dbt_from_ino km ino bn = alloc_data_dbt_from_inode km ino bn"
proof (cases "km 17")
  case None
  then show ?thesis
    by (simp add: alloc_data_dbt_from_inode_def alloc_data_dbt_from_ino_def key_pos_defs)
next
  case (Some buf)
  with assms have "length buf = 17" by (auto simp: kmalloc_ok_def)
  with Some show ?thesis
    by (simp add: alloc_data_dbt_from_inode_def alloc_data_dbt_from_ino_def key_pos_defs write_data_key)
qed

text \<open>
  The directory-entry builders write exactly the key \<open>'m', parent, name\<close>
  with its NUL, the copying one at the start of the caller's buffer, and set its
  size; they never write outside the buffer.
\<close>

lemma child_meta_dbt_builds:
  assumes "kmalloc_ok km" and "d_data d = Some buf" and "length buf = unat (d_ulen d)"
    and "10 + length name \<le> length buf"
  shows "alloc_child_meta_dbt_from_inode km ino name =
           (case km (10 + length name) of None \<Rightarrow> Some (Inl (- ENOMEM))
            | Some _ \<Rightarrow> Some (Inr (dbt_setup (meta_key_of ino name) (10 + length name))))
         \<and> copy_child_meta_dbt_from_inode d ino name =
             Some (d\<lparr>d_data := Some (meta_key_of ino name @ drop (10 + length name) buf),
                     d_size := of_nat (10 + length name)\<rparr>)"
proof
  show "alloc_child_meta_dbt_from_inode km ino name =
           (case km (10 + length name) of None \<Rightarrow> Some (Inl (- ENOMEM))
            | Some _ \<Rightarrow> Some (Inr (dbt_setup (meta_key_of ino name) (10 + length name))))"
  proof (cases "km (10 + length name)")
    case None
    then show ?thesis by (simp add: alloc_child_meta_dbt_from_inode_def key_pos_defs)
  next
    case (Some b)
    with assms(1) have "length b = 10 + length name" by (auto simp: kmalloc_ok_def)
    with Some show ?thesis
      by (simp add: alloc_child_meta_dbt_from_inode_def key_pos_defs write_meta_key)
  qed
  show "copy_child_meta_dbt_from_inode d ino name =
          Some (d\<lparr>d_data := Some (meta_key_of ino name @ drop (10 + length name) buf),
                  d_size := of_nat (10 + length name)\<rparr>)"
    using assms(2-4) by (simp add: copy_child_meta_dbt_from_inode_def key_pos_defs write_meta_key)
qed

section \<open>Reading keys back\<close>

lemma get_ino_data [simp]: "lightfs_key_get_ino (data_key_of ino bn) = Some ino"
  by (simp add: key_field_defs data_key_of_def)

lemma get_ino_meta [simp]: "lightfs_key_get_ino (meta_key_of ino name) = Some ino"
  by (simp add: key_field_defs meta_key_of_def)

lemma get_blocknum_data [simp]: "lightfs_data_key_get_blocknum (data_key_of ino bn) 17 = Some bn"
  by (simp add: key_field_defs data_key_of_def)

lemma read_path_meta [simp]: "0 \<notin> set name \<Longrightarrow> read_path (meta_key_of ino name) = Some name"
  by (simp add: read_path_def key_field_defs meta_key_of_def)

section \<open>The order of keys\<close>

lemma data_key_less: "data_key_of i m < data_key_of j n \<longleftrightarrow> i < j \<or> i = j \<and> m < n"
  by (auto simp: data_key_of_def append_less_append_iff store_be64_less_iff)

lemma data_builders:
  assumes "kmalloc_ok km" and "km 17 \<noteq> None" and "d_data b = Some buf" and "length buf = unat (d_ulen b)" and "17 \<le> length buf"
  shows "\<exists>d f. alloc_data_dbt_from_inode km ino bn = Some (Inr d) \<and> alloc_data_dbt_from_ino km ino bn = Some (Inr d)
           \<and> copy_data_dbt_from_inode b ino bn = Some f \<and> dbt_bytes d = data_key_of ino bn \<and> dbt_bytes f = data_key_of ino bn \<and> d_size d = 17"
proof -
  have "copy_data_dbt_from_inode b ino bn = Some (b\<lparr>d_data := Some (data_key_of ino bn @ drop 17 buf), d_size := 17\<rparr>)"
    using assms(3-5) by (simp add: copy_data_dbt_from_inode_def key_pos_defs write_data_key)
  moreover have "alloc_data_dbt_from_inode km ino bn = Some (Inr (dbt_setup (data_key_of ino bn) 17))"
    "alloc_data_dbt_from_ino km ino bn = Some (Inr (dbt_setup (data_key_of ino bn) 17))"
    using alloc_data_dbt_eq [OF assms(1), of ino bn] assms(2) by auto
  ultimately show ?thesis by (simp add: dbt_bytes_def dbt_setup_def)
qed

lemma child_builders:
  assumes "kmalloc_ok km" and "km (10 + length name) \<noteq> None" and "d_data b = Some buf" and "length buf = unat (d_ulen b)"
    and "10 + length name \<le> length buf" and "length name \<le> 255"
  shows "\<exists>k c. alloc_child_meta_dbt_from_inode km ino name = Some (Inr k) \<and> copy_child_meta_dbt_from_inode b ino name = Some c
           \<and> dbt_bytes k = meta_key_of ino name \<and> dbt_bytes c = meta_key_of ino name"
proof -
  have "unat (of_nat (10 + length name) :: u32) = 10 + length name"
    using assms(6) by (simp add: unat_of_nat del: of_nat_add)
  with child_meta_dbt_builds [OF assms(1,3-5), of ino] assms(2) show ?thesis
    by (auto simp: dbt_bytes_def dbt_setup_def simp del: of_nat_add)
qed

text \<open>
  Property C32: the accessors read back what the builders write.  If memory is there, the
  builders of data keys and of directory entries return, in their own memory and in the
  caller's, the same bytes: from these the accessors get the inode number, the block number
  and the name that were given.  So keys of different entries differ, no entry is a block,
  and the blocks of a file sort by their number.  Names are C strings of at most 255 bytes.
\<close>

theorem key_round_trip:
  assumes "kmalloc_ok km" and "\<forall>n. km n \<noteq> None"
    and "d_data b = Some buf" and "length buf = unat (d_ulen b)" and "265 \<le> length buf"
    and "0 \<notin> set name" and "length name \<le> 255" and "0 \<notin> set name'" and "length name' \<le> 255"
  shows "\<exists>k k' c d d' f. alloc_child_meta_dbt_from_inode km ino name = Some (Inr k)
       \<and> alloc_child_meta_dbt_from_inode km ino' name' = Some (Inr k') \<and> copy_child_meta_dbt_from_inode b ino name = Some c
       \<and> alloc_data_dbt_from_inode km ino bn = Some (Inr d) \<and> alloc_data_dbt_from_ino km ino' bn' = Some (Inr d')
       \<and> copy_data_dbt_from_inode b ino bn = Some f
       \<and> dbt_bytes c = dbt_bytes k \<and> dbt_bytes f = dbt_bytes d
       \<and> lightfs_key_get_ino (dbt_bytes k) = Some ino \<and> read_path (dbt_bytes k) = Some name
       \<and> lightfs_key_get_ino (dbt_bytes d) = Some ino \<and> lightfs_data_key_get_blocknum (dbt_bytes d) (unat (d_size d)) = Some bn
       \<and> (dbt_bytes k = dbt_bytes k' \<longleftrightarrow> ino = ino' \<and> name = name')
       \<and> (dbt_bytes d = dbt_bytes d' \<longleftrightarrow> ino = ino' \<and> bn = bn')
       \<and> dbt_bytes k \<noteq> dbt_bytes d'
       \<and> (ino = ino' \<longrightarrow> (env_keycmp (dbt_bytes d) (dbt_bytes d') < 0 \<longleftrightarrow> bn < bn'))"
proof -
  from child_builders [OF assms(1) _ assms(3,4) _ assms(7), of ino] assms(2,5,7) obtain k c where
    k: "alloc_child_meta_dbt_from_inode km ino name = Some (Inr k)" "copy_child_meta_dbt_from_inode b ino name = Some c"
      "dbt_bytes k = meta_key_of ino name" "dbt_bytes c = meta_key_of ino name" by auto
  from child_builders [OF assms(1) _ assms(3,4) _ assms(9), of ino'] assms(2,5,9) obtain k' where
    k': "alloc_child_meta_dbt_from_inode km ino' name' = Some (Inr k')" "dbt_bytes k' = meta_key_of ino' name'" by auto
  from data_builders [OF assms(1) _ assms(3,4), of ino bn] assms(2,5) obtain d f where
    d: "alloc_data_dbt_from_inode km ino bn = Some (Inr d)" "copy_data_dbt_from_inode b ino bn = Some f"
      "dbt_bytes d = data_key_of ino bn" "dbt_bytes f = data_key_of ino bn" "d_size d = 17" by auto
  from data_builders [OF assms(1) _ assms(3,4), of ino' bn'] assms(2,5) obtain d' where
    d': "alloc_data_dbt_from_ino km ino' bn' = Some (Inr d')" "dbt_bytes d' = data_key_of ino' bn'" by auto
  have "meta_key_of ino name \<noteq> data_key_of ino' bn'" by (simp add: meta_key_of_def data_key_of_def magic_defs)
  moreover have "meta_key_of ino name = meta_key_of ino' name' \<longleftrightarrow> ino = ino' \<and> name = name'"
    by (metis assms(6,8) get_ino_meta option.inject read_path_meta)
  moreover have "data_key_of ino bn = data_key_of ino' bn' \<longleftrightarrow> ino = ino' \<and> bn = bn'"
    by (metis get_blocknum_data get_ino_data option.inject)
  moreover have "ino = ino' \<longrightarrow> (env_keycmp (data_key_of ino bn) (data_key_of ino' bn') < 0 \<longleftrightarrow> bn < bn')"
    by (simp add: env_keycmp_less data_key_less)
  ultimately have
    "dbt_bytes c = dbt_bytes k \<and> dbt_bytes f = dbt_bytes d
       \<and> lightfs_key_get_ino (dbt_bytes k) = Some ino \<and> read_path (dbt_bytes k) = Some name
       \<and> lightfs_key_get_ino (dbt_bytes d) = Some ino \<and> lightfs_data_key_get_blocknum (dbt_bytes d) (unat (d_size d)) = Some bn
       \<and> (dbt_bytes k = dbt_bytes k' \<longleftrightarrow> ino = ino' \<and> name = name')
       \<and> (dbt_bytes d = dbt_bytes d' \<longleftrightarrow> ino = ino' \<and> bn = bn')
       \<and> dbt_bytes k \<noteq> dbt_bytes d'
       \<and> (ino = ino' \<longrightarrow> (env_keycmp (dbt_bytes d) (dbt_bytes d') < 0 \<longleftrightarrow> bn < bn'))"
    using k(3,4) k'(2) d(3-5) d'(2) assms(6) by simp
  with k(1,2) k'(1) d(1,2) d'(1) show ?thesis by blast
qed

theorem key_round_trip_witness:
  "\<exists>k d. alloc_child_meta_dbt_from_inode (\<lambda>n. Some (replicate n 255)) 7 [97, 98] = Some (Inr k)
     \<and> alloc_data_dbt_from_inode (\<lambda>n. Some (replicate n 255)) 7 258 = Some (Inr d)
     \<and> read_path (dbt_bytes k) = Some [97, 98] \<and> lightfs_data_key_get_blocknum (dbt_bytes d) (unat (d_size d)) = Some 258"
proof -
  have "kmalloc_ok (\<lambda>n. Some (replicate n 255))" by (simp add: kmalloc_ok_def)
  from key_round_trip [OF this, of "dbt_setup_buf (replicate 300 0) 300" "replicate 300 0" "[97, 98]" "[98]" 7 7 258 3]
  show ?thesis by (fastforce simp: dbt_setup_buf_def)
qed

lemma data_key_le: "data_key_of i m \<le> data_key_of i n \<longleftrightarrow> m \<le> n"
  using data_key_less [of i n i m] by (simp add: not_less [symmetric])

lemma list_le_Cons: "(x::'a::linorder) # xs \<le> y # ys \<longleftrightarrow> x < y \<or> x = y \<and> xs \<le> ys"
  by auto

text \<open>What lies between two lists with a common prefix has that prefix.\<close>

lemma prefix_between:
  fixes p :: "'a::linorder list"
  shows "p @ a \<le> k \<Longrightarrow> k \<le> p @ b \<Longrightarrow> \<exists>c. k = p @ c \<and> a \<le> c \<and> c \<le> b"
proof (induction p arbitrary: k)
  case Nil
  then show ?case by simp
next
  case (Cons x p)
  then obtain y k' where k: "k = y # k'"
    by (cases k) auto
  with Cons.prems have "y = x" and "p @ a \<le> k'" and "k' \<le> p @ b"
    by (auto simp: list_le_Cons)
  with Cons.IH k show ?case by fastforce
qed

lemma keycmp_le: "env_keycmp a b \<le> 0 \<longleftrightarrow> a \<le> b"
  using kc.cmp_greater [of a b] by (simp add: not_less [symmetric])

lemma meta_key_le: "meta_key_of i a \<le> meta_key_of i b \<longleftrightarrow> a @ [0] \<le> b @ [0]"
  using append_less_append_iff [of "store_be64 i" "store_be64 i" "b @ [0]" "a @ [0]"]
  by (simp add: meta_key_of_def not_less [symmetric])

text \<open>
  Property C33: the key comparison used by every ordered index is a strict total order
  on keys (the lexicographic order of their bytes), in all three copies of the code
  as long as the sizes fit the 16-bit arguments of the cache's copy.
\<close>

theorem keycmp_total_order:
  assumes "length a < 65536" and "length b < 65536"
  shows "(env_keycmp a b < 0 \<longleftrightarrow> a < b) \<and> (env_keycmp a b = 0 \<longleftrightarrow> a = b)
       \<and> (env_keycmp a b > 0 \<longleftrightarrow> b < a) \<and> sgn (env_keycmp a b) = - sgn (env_keycmp b a)
       \<and> (env_keycmp a b < 0 \<and> env_keycmp b c < 0 \<longrightarrow> env_keycmp a c < 0)
       \<and> lightfs_keycmp a (of_nat (length a)) b (of_nat (length b)) = env_keycmp a b"
  using kc.cmp_antisym [of a b] lightfs_keycmp_env [OF assms] less_trans [of a b c]
  by (simp add: kc.cmp_less kc.cmp_eq kc.cmp_greater)

theorem keycmp_total_order_witness: "env_keycmp [109, 1] [109, 1, 0] < 0"
  using keycmp_total_order [of "[109, 1]" "[109, 1, 0]" "[]"] by simp

text \<open>
  The data keys of a file are ordered by block number and contiguous:
  the 17-byte keys between two of them are exactly the keys of the blocks between.
  So a range of blocks is a range of keys.
\<close>

lemma data_keys_contiguous:
  assumes "length k = 17"
  shows "(env_keycmp (data_key_of i m) (data_key_of j n) < 0 \<longleftrightarrow> i < j \<or> i = j \<and> m < n)
       \<and> (env_keycmp (data_key_of i m) k \<le> 0 \<and> env_keycmp k (data_key_of i n) \<le> 0
          \<longleftrightarrow> (\<exists>b. m \<le> b \<and> b \<le> n \<and> k = data_key_of i b))"
proof -
  have "\<exists>b. m \<le> b \<and> b \<le> n \<and> k = data_key_of i b" if "data_key_of i m \<le> k" "k \<le> data_key_of i n"
  proof -
    from that obtain c where c: "k = (DATA_KEY_MAGIC # store_be64 i) @ c"
      using prefix_between [of "DATA_KEY_MAGIC # store_be64 i" "store_be64 m" k "store_be64 n"]
      by (auto simp: data_key_of_def)
    with assms have "k = data_key_of i (load_be64 c)"
      by (simp add: data_key_of_def store_load_be64)
    with that show ?thesis by (auto simp: data_key_le)
  qed
  then show ?thesis
    by (auto simp: keycmp_le kc.cmp_less data_key_less data_key_le)
qed

text \<open>
  The entries of a directory are contiguous: a key between two of its
  entries is one of its entries, so a scan in key order may stop at the first key
  that \<open>meta_key_is_child_of_ino\<close> rejects.
\<close>

lemma children_contiguous:
  assumes "env_keycmp (meta_key_of i a) k \<le> 0" and "env_keycmp k (meta_key_of i b) \<le> 0"
  shows "meta_key_is_child_of_ino k i = Some True"
proof -
  from assms have "meta_key_of i a \<le> k" "k \<le> meta_key_of i b"
    by (simp_all add: keycmp_le)
  then obtain c where "k = (META_KEY_MAGIC # store_be64 i) @ c"
    using prefix_between [of "META_KEY_MAGIC # store_be64 i" "a @ [0]" k "b @ [0]"]
    by (auto simp: meta_key_of_def)
  then show ?thesis
    by (simp add: meta_key_is_child_of_ino_def key_field_defs)
qed

section \<open>Path keys\<close>

text \<open>The path of a subtree: the parent's path without its last separator.\<close>

definition join_path :: "byte list \<Rightarrow> byte list" where
  "join_path p = (case strrchr p 1 of None \<Rightarrow> p | Some l \<Rightarrow> take l p @ drop (l + 1) p)"

lemma strrchr_less: "strrchr s c = Some l \<Longrightarrow> l < length s"
  by (auto simp: strrchr_def split: if_splits) (metis Suc_diff_le diff_less length_pos_if_in_set
      length_rev length_takeWhile_le lessI less_Suc_eq_le zero_less_Suc)

lemma copy_ino_write:
  assumes "9 \<le> length buf"
  shows "do { k \<leftarrow> lightfs_key_set_magic buf m;
              k \<leftarrow> lightfs_key_copy_ino k (meta_key_of ino p);
              cont k } = cont (m # store_be64 ino @ drop 9 buf)"
  using assms by (simp add: key_field_defs meta_key_of_def)

lemma child_path_write_eq:
  assumes "length rest = length (join_path p) + length name + 3" and "p = [] \<or> 1 \<in> set p"
  shows "child_path_write (m # store_be64 ino @ rest) p name =
         Some (m # store_be64 ino @ join_path p @ [1, 1] @ name @ [0])"
proof (cases "strrchr p 1")
  case None
  with assms(2) have "p = []" by (auto simp: strrchr_def split: if_splits)
  with assms(1) None show ?thesis
    by (simp add: child_path_write_def join_path_def key_pos_defs)
next
  case (Some l)
  then have "p \<noteq> []" "l < length p" using strrchr_less by (auto simp: strrchr_def)
  with assms(1) Some show ?thesis
    by (simp add: child_path_write_def join_path_def key_pos_defs)
qed

definition path_key :: "u64 \<Rightarrow> byte list \<Rightarrow> dbt" where
  "path_key ino p = dbt_setup (meta_key_of ino p) (10 + length p)"

lemma length_join_path: "1 \<in> set p \<Longrightarrow> length (join_path p) = length p - 1"
  using strrchr_less [of p 1] by (fastforce simp: join_path_def strrchr_def)

lemma join_path_Nil [simp]: "join_path [] = []"
  by (simp add: join_path_def strrchr_def)

lemma d_size_path_key:
  assumes "length p < 4294967286"
  shows "unat (d_size (path_key ino p)) = 10 + length p"
    and "unat (d_size (path_key ino p) - 1) = 9 + length p"
proof -
  have *: "d_size (path_key ino p) = of_nat (10 + length p)"
    unfolding path_key_def dbt_setup_def by simp
  show "unat (d_size (path_key ino p)) = 10 + length p"
    unfolding * using assms by (intro unat_of_nat_u32) simp
  have "d_size (path_key ino p) - 1 = of_nat (9 + length p)" unfolding * by simp
  moreover have "unat (of_nat (9 + length p) :: u32) = 9 + length p"
    using assms by (intro unat_of_nat_u32) simp
  ultimately show "unat (d_size (path_key ino p) - 1) = 9 + length p" by simp
qed

lemma d_data_path_key [simp]: "d_data (path_key ino p) = Some (meta_key_of ino p)"
  by (simp add: path_key_def dbt_setup_def)

lemma child_key_size_eq:
  assumes "length p < 4294967286" and "p = [] \<or> 1 \<in> set p"
  shows "child_key_size (path_key ino p) p name = length (join_path p) + length name + 12"
proof (cases "p = []")
  case False
  with assms have "1 \<in> set p" "0 < length p" by auto
  with assms(1) show ?thesis
    by (simp add: child_key_size_def d_size_path_key length_join_path Suc_diff_le)
qed (simp add: child_key_size_def d_size_path_key)

lemma alloc_child_eq:
  assumes "kmalloc_ok km" and "0 \<notin> set p" and "length p < 4294967286" and "p = [] \<or> 1 \<in> set p"
    and "alloc_child_meta_dbt_from_meta_dbt km (path_key ino p) name = Some (Inr c)"
  shows "c = dbt_setup (meta_key_of ino (join_path p @ [1, 1] @ name))
               (length (join_path p) + length name + 12)"
proof -
  let ?sz = "length (join_path p) + length name + 12"
  note sz = child_key_size_eq [OF assms(3,4), of ino name]
  obtain buf where km: "km ?sz = Some buf"
    using assms(2,5) sz
    by (cases "km ?sz") (simp_all add: alloc_child_meta_dbt_from_meta_dbt_def)
  with assms(1) have len: "length buf = ?sz" by (auto simp: kmalloc_ok_def)
  then have "length (drop 9 buf) = length (join_path p) + length name + 3" by simp
  from child_path_write_eq [OF this assms(4), of META_KEY_MAGIC ino]
  have "child_path_write (META_KEY_MAGIC # store_be64 ino @ drop 9 buf) p name =
        Some (meta_key_of ino (join_path p @ [1, 1] @ name))" by (simp add: meta_key_of_def)
  with len km assms(2,5) sz show ?thesis
    by (simp add: alloc_child_meta_dbt_from_meta_dbt_def copy_ino_write)
qed

lemma alloc_prefix_eq:
  assumes "kmalloc_ok km" and "0 \<notin> set p" and "length p < 4294967286" and "p = [] \<or> 1 \<in> set p"
    and "alloc_meta_dbt_prefix km (path_key ino p) = Some (Inr c)"
  shows "c = dbt_setup (meta_key_of ino (join_path p)) (10 + length (join_path p))"
proof -
  define sz where "sz = (if p = [] then unat (d_size (path_key ino p)) else unat (d_size (path_key ino p) - 1))"
  have sz: "sz = 10 + length (join_path p)"
    using assms(4) length_pos_if_in_set [of 1 p]
    by (auto simp: sz_def d_size_path_key length_join_path Suc_diff_le assms(3))
  obtain buf where km: "km sz = Some buf"
    using assms(2,5)
    by (cases "km sz") (simp_all add: alloc_meta_dbt_prefix_def Let_def sz_def [symmetric])
  with assms(1) have len: "length buf = 10 + length (join_path p)" by (auto simp: kmalloc_ok_def sz)
  show ?thesis
  proof (cases "strrchr p 1")
    case None
    with assms(4) have "p = []" by (auto simp: strrchr_def split: if_splits)
    with assms(5) km len sz have "c = dbt_setup (META_KEY_MAGIC # store_be64 ino @ [0]) 10"
      by (simp add: alloc_meta_dbt_prefix_def d_size_path_key copy_ino_write key_pos_defs)
    with \<open>p = []\<close> show ?thesis by (simp add: meta_key_of_def)
  next
    case (Some l)
    then have "p \<noteq> []" "l < length p" using strrchr_less by (auto simp: strrchr_def)
    then have join: "join_path p = take l p @ drop (l + 1) p" by (simp add: join_path_def Some)
    with \<open>p \<noteq> []\<close> \<open>l < length p\<close> assms(2,5) km len Some sz
    have "c = dbt_setup (META_KEY_MAGIC # store_be64 ino @ join_path p @ [0]) sz"
      by (simp add: alloc_meta_dbt_prefix_def d_size_path_key assms(3) copy_ino_write key_pos_defs)
    then show ?thesis by (simp add: meta_key_of_def sz)
  qed
qed

text \<open>
  In the path-keyed layout, the key built for a child of a directory
  passes the subtree test of that directory's prefix key, for the root and for every
  nested directory.
\<close>

lemma child_in_subtree:
  assumes "kmalloc_ok km" and "0 \<notin> set p" and "length p < 4294967286" and "p = [] \<or> 1 \<in> set p"
    and "alloc_child_meta_dbt_from_meta_dbt km (path_key ino p) name = Some (Inr c)"
    and "alloc_meta_dbt_prefix km (path_key ino p) = Some (Inr q)"
    and "d_data c = Some child_key" and "d_data q = Some prefix_key"
  shows "key_is_in_subtree_of_prefix child_key prefix_key (unat (d_size q)) = Some True"
proof -
  have "length (join_path p) \<le> length p"
    using assms(4) length_join_path [of p] by auto
  then have len: "10 + length (join_path p) < 4294967296" using assms(3) by simp
  have c: "child_key = meta_key_of ino (join_path p @ [1, 1] @ name)"
    using alloc_child_eq [OF assms(1-5)] assms(7) by (simp add: dbt_setup_def)
  have q: "prefix_key = meta_key_of ino (join_path p)" "unat (d_size q) = 10 + length (join_path p)"
    using alloc_prefix_eq [OF assms(1-4,6)] assms(8) unat_of_nat_u32 [OF len]
    by (simp_all add: dbt_setup_def)
  show ?thesis
    unfolding q c
    by (simp add: key_is_in_subtree_of_prefix_def meta_key_of_def key_pos_defs memcmp_eq)
      (simp add: get_at_def)
qed

end
