(* ===== verification/Kevin_Wire.thy ===== *)
theory Kevin_Wire
  imports Kevin_Txn_Types Kevin_Keys
begin

text \<open>
  The request format: the encoders of \<open>kevinfs/lightfs_io.h\<close> and the part of
  \<open>lightfs_io_transfer\<close> that fills the buffer.  A writer is the buffer and the index of
  the next byte.  A decoder for the format is given as the specification.
\<close>

section \<open>Fields\<close>

type_synonym writer = "byte list \<times> nat"

definition wr_put :: "byte list \<Rightarrow> writer \<Rightarrow> writer option" where
  "wr_put src w = do { buf \<leftarrow> poke (snd w) src (fst w); Some (buf, snd w + length src) }"

definition lightfs_io_set_txn_id :: "u32 \<Rightarrow> writer \<Rightarrow> writer option" where
  "lightfs_io_set_txn_id txn_id w = wr_put (store_le 4 txn_id) w"

definition lightfs_io_set_cnt :: "u16 \<Rightarrow> writer \<Rightarrow> writer option" where
  "lightfs_io_set_cnt cnt w = wr_put (store_le 2 cnt) w"

definition lightfs_io_set_type :: "u8 \<Rightarrow> writer \<Rightarrow> writer option" where
  "lightfs_io_set_type ty w = do { w \<leftarrow> wr_put [ty] w; bug_on (ty > 16); Some w }"

definition lightfs_io_set_key_len :: "u16 \<Rightarrow> writer \<Rightarrow> writer option" where
  "lightfs_io_set_key_len key_len w = wr_put (store_le 2 key_len) w"

definition lightfs_io_set_key :: "u16 \<Rightarrow> byte list \<Rightarrow> writer \<Rightarrow> writer option" where
  "lightfs_io_set_key key_len key w = do { k \<leftarrow> peek 0 (unat key_len) key; wr_put k w }"

definition lightfs_io_set_off :: "u16 \<Rightarrow> writer \<Rightarrow> writer option" where
  "lightfs_io_set_off off w = wr_put (store_le 2 off) w"

definition lightfs_io_set_value_len :: "u16 \<Rightarrow> writer \<Rightarrow> writer option" where
  "lightfs_io_set_value_len value_len w = wr_put (store_le 2 value_len) w"

definition lightfs_io_set_value :: "u16 \<Rightarrow> byte list \<Rightarrow> writer \<Rightarrow> writer option" where
  "lightfs_io_set_value value_len val w = do { v \<leftarrow> peek 0 (unat value_len) val; wr_put v w }"

definition lightfs_io_meta_set_value :: "u16 \<Rightarrow> byte list \<Rightarrow> writer \<Rightarrow> writer option" where
  "lightfs_io_meta_set_value value_len val w = do {
     v \<leftarrow> peek 0 (unat value_len) val;
     buf \<leftarrow> poke (snd w) v (fst w);
     Some (buf, snd w + 4096) }"

section \<open>Requests\<close>

definition lightfs_io_set_buf_set ::
    "u8 \<Rightarrow> u16 \<Rightarrow> byte list \<Rightarrow> u16 \<Rightarrow> u16 \<Rightarrow> byte list \<Rightarrow> writer \<Rightarrow> writer option" where
  "lightfs_io_set_buf_set ty key_len key off value_len val w = do {
     w \<leftarrow> lightfs_io_set_type ty w;
     w \<leftarrow> lightfs_io_set_key_len key_len w;
     w \<leftarrow> lightfs_io_set_key key_len key w;
     w \<leftarrow> lightfs_io_set_off off w;
     w \<leftarrow> lightfs_io_set_value_len value_len w;
     lightfs_io_set_value value_len val w }"

definition lightfs_io_set_buf_meta_set ::
    "u8 \<Rightarrow> u16 \<Rightarrow> byte list \<Rightarrow> u16 \<Rightarrow> u16 \<Rightarrow> byte list \<Rightarrow> writer \<Rightarrow> writer option" where
  "lightfs_io_set_buf_meta_set ty key_len key off value_len val w = do {
     w \<leftarrow> lightfs_io_set_type ty w;
     w \<leftarrow> lightfs_io_set_key_len key_len w;
     w \<leftarrow> lightfs_io_set_key key_len key w;
     w \<leftarrow> lightfs_io_set_off off w;
     w \<leftarrow> lightfs_io_set_value_len 152 w;
     lightfs_io_meta_set_value 152 val w }"

definition lightfs_io_set_buf_update ::
    "u8 \<Rightarrow> u16 \<Rightarrow> byte list \<Rightarrow> u16 \<Rightarrow> u16 \<Rightarrow> byte list \<Rightarrow> writer \<Rightarrow> writer option" where
  "lightfs_io_set_buf_update ty key_len key off value_len val w = do {
     w \<leftarrow> lightfs_io_set_type ty w;
     w \<leftarrow> lightfs_io_set_key_len key_len w;
     w \<leftarrow> lightfs_io_set_key key_len key w;
     w \<leftarrow> lightfs_io_set_off off w;
     w \<leftarrow> lightfs_io_set_value_len value_len w;
     lightfs_io_set_value 4096 val w }"

definition lightfs_io_set_buf_del :: "u8 \<Rightarrow> u16 \<Rightarrow> byte list \<Rightarrow> writer \<Rightarrow> writer option" where
  "lightfs_io_set_buf_del ty key_len key w = do {
     w \<leftarrow> lightfs_io_set_type ty w;
     w \<leftarrow> lightfs_io_set_key_len key_len w;
     lightfs_io_set_key key_len key w }"

definition lightfs_io_set_buf_del_multi :: "u8 \<Rightarrow> u16 \<Rightarrow> byte list \<Rightarrow> u16 \<Rightarrow> writer \<Rightarrow> writer option" where
  "lightfs_io_set_buf_del_multi ty key_len key off w = do {
     w \<leftarrow> lightfs_io_set_type ty w;
     w \<leftarrow> lightfs_io_set_key_len key_len w;
     w \<leftarrow> lightfs_io_set_key key_len key w;
     lightfs_io_set_off off w }"

definition lightfs_io_set_buf_get :: "u8 \<Rightarrow> u16 \<Rightarrow> byte list \<Rightarrow> u16 \<Rightarrow> writer \<Rightarrow> writer option" where
  "lightfs_io_set_buf_get ty key_len key value_len w = do {
     w \<leftarrow> lightfs_io_set_type ty w;
     w \<leftarrow> lightfs_io_set_key_len key_len w;
     w \<leftarrow> lightfs_io_set_key key_len key w;
     lightfs_io_set_value_len value_len w }"

definition lightfs_io_set_buf_iter ::
    "u8 \<Rightarrow> u16 \<Rightarrow> byte list \<Rightarrow> u16 \<Rightarrow> u16 \<Rightarrow> writer \<Rightarrow> writer option" where
  "lightfs_io_set_buf_iter ty key_len key off value_len w = do {
     w \<leftarrow> lightfs_io_set_type ty w;
     w \<leftarrow> lightfs_io_set_key_len key_len w;
     w \<leftarrow> lightfs_io_set_key key_len key w;
     w \<leftarrow> lightfs_io_set_off off w;
     lightfs_io_set_value_len value_len w }"

definition lightfs_io_set_buf_get_multi :: "u8 \<Rightarrow> u16 \<Rightarrow> byte list \<Rightarrow> writer \<Rightarrow> writer option" where
  "lightfs_io_set_buf_get_multi ty key_len key w = do {
     w \<leftarrow> lightfs_io_set_type ty w;
     w \<leftarrow> lightfs_io_set_key_len key_len w;
     lightfs_io_set_key key_len key w }"

section \<open>Filling the buffer of a transfer\<close>

text \<open>The bytes behind \<open>buf\<close>; in write-back these are the bytes of the page.\<close>

definition tb_value :: "(nat \<Rightarrow> byte list) \<Rightarrow> txn_buf \<Rightarrow> byte list option" where
  "tb_value pages tb = (case tb_buf tb of NoBuf \<Rightarrow> None | Buf b \<Rightarrow> Some b | Page p \<Rightarrow> Some (pages p))"

text \<open>The \<open>switch\<close> of \<open>lightfs_io_transfer\<close> for one buffer, with the running count.\<close>

definition transfer_entry ::
    "(nat \<Rightarrow> byte list) \<Rightarrow> writer \<times> u16 \<Rightarrow> txn_buf \<Rightarrow> (writer \<times> u16) option" where
  "transfer_entry pages s tb = do {
     let (w, cnt) = s;
     let ty = tb_type tb;
     s \<leftarrow>
       (if ty = LIGHTFS_META_SET then do {
          v \<leftarrow> tb_value pages tb;
          w \<leftarrow> lightfs_io_set_buf_meta_set (req_code ty) (tb_key_len tb) (tb_key tb) (tb_off tb) (ucast (tb_len tb)) v w;
          Some (w, cnt + 1) }
        else if ty = LIGHTFS_DATA_SET \<or> ty = LIGHTFS_DATA_SEQ_SET then do {
          v \<leftarrow> tb_value pages tb;
          w \<leftarrow> lightfs_io_set_buf_set (req_code ty) (tb_key_len tb) (tb_key tb) (tb_off tb) (ucast (tb_len tb)) v w;
          Some (w, cnt + 1) }
        else if ty = LIGHTFS_DATA_SET_WB then do {
          v \<leftarrow> tb_value pages tb;
          w \<leftarrow> lightfs_io_set_buf_set (req_code LIGHTFS_DATA_SET) (tb_key_len tb) (tb_key tb) (tb_off tb)
                 (ucast (tb_len tb)) v w;
          Some (w, cnt + 1) }
        else if ty = LIGHTFS_META_DEL \<or> ty = LIGHTFS_DATA_DEL then do {
          w \<leftarrow> lightfs_io_set_buf_del (req_code ty) (tb_key_len tb) (tb_key tb) w;
          Some (w, cnt + 1) }
        else if ty = LIGHTFS_META_UPDATE \<or> ty = LIGHTFS_DATA_UPDATE then do {
          v \<leftarrow> tb_value pages tb;
          w \<leftarrow> lightfs_io_set_buf_update (req_code ty) (tb_key_len tb) (tb_key tb) (tb_off tb) (tb_update tb) v w;
          Some (w, cnt + 1) }
        else if ty = LIGHTFS_DATA_DEL_MULTI then do {
          w \<leftarrow> lightfs_io_set_buf_del_multi (req_code ty) (tb_key_len tb) (tb_key tb) (tb_off tb) w;
          Some (w, cnt + 1) }
        else Some (w, cnt));
     bug_on (snd s = 0);
     Some s }"

definition c_bufs :: "c_txn \<Rightarrow> txn_buf list" where
  "c_bufs c = concat (map t_bufs (c_txns c))"

definition c_is_flush :: "c_txn \<Rightarrow> bool" where
  "c_is_flush c \<longleftrightarrow> has_flag (c_state c) TXN_FLUSH \<or> has_flag (c_state c) TXN_ORDERED"

definition transfer_fill :: "(nat \<Rightarrow> byte list) \<Rightarrow> c_txn \<Rightarrow> byte list \<Rightarrow> writer option" where
  "transfer_fill pages c buf = do {
     w \<leftarrow> lightfs_io_set_txn_id (c_id c) (buf, 0);
     let w = (fst w, snd w + 2);
     (w, cnt) \<leftarrow> foldM (transfer_entry pages) (w, 0) (c_bufs c);
     (w, cnt) \<leftarrow>
       (if c_is_flush c then do { w \<leftarrow> lightfs_io_set_type (req_code LIGHTFS_COMMIT) w; Some (w, cnt + 1) }
        else Some (w, cnt));
     b \<leftarrow> poke 4 (store_le 2 cnt) (fst w);
     Some (b, snd w) }"

text \<open>
  What the loop does besides writing: a page in write-back is released
  (\<open>end_page_writeback\<close>) and its buffer forgets it.  The pages are listed in order.
\<close>

definition transfer_release :: "txn_buf \<Rightarrow> txn_buf" where
  "transfer_release tb = (if tb_type tb = LIGHTFS_DATA_SET_WB then tb\<lparr>tb_buf := NoBuf\<rparr> else tb)"

definition transfer_released :: "c_txn \<Rightarrow> c_txn" where
  "transfer_released c = c\<lparr>c_txns := map (\<lambda>t. t\<lparr>t_bufs := map transfer_release (t_bufs t)\<rparr>) (c_txns c)\<rparr>"

definition writeback_ended :: "c_txn \<Rightarrow> nat list" where
  "writeback_ended c =
     concat (map (\<lambda>tb. case tb_buf tb of Page p \<Rightarrow> if tb_type tb = LIGHTFS_DATA_SET_WB then [p] else [] | _ \<Rightarrow> [])
       (c_bufs c))"

section \<open>The format as a decoder\<close>

datatype wire =
    W_meta_set "byte list" u16 "byte list"
  | W_set u8 "byte list" u16 "byte list"
  | W_del u8 "byte list"
  | W_update u8 "byte list" u16 u16 "byte list"
  | W_del_multi "byte list" u16
  | W_commit

definition rd :: "nat \<Rightarrow> byte list \<Rightarrow> (byte list \<times> byte list) option" where
  "rd n bs = (if n \<le> length bs then Some (take n bs, drop n bs) else None)"

definition decode_key :: "byte list \<Rightarrow> (byte list \<times> byte list) option" where
  "decode_key bs = do { (l, bs) \<leftarrow> rd 2 bs; rd (unat (load_le l :: u16)) bs }"

definition decode_one :: "byte list \<Rightarrow> (wire \<times> byte list) option" where
  "decode_one bs = do {
     (t, bs) \<leftarrow> rd 1 bs;
     let ty = hd t;
     if ty = 15 then Some (W_commit, bs)
     else do {
       (key, bs) \<leftarrow> decode_key bs;
       if ty = 3 \<or> ty = 10 then Some (W_del ty key, bs)
       else do {
         (off, bs) \<leftarrow> rd 2 bs;
         if ty = 11 then Some (W_del_multi key (load_le off), bs)
         else do {
           (len, bs) \<leftarrow> rd 2 bs;
           if ty = 1 then do {
             (v, bs) \<leftarrow> rd 4096 bs;
             Some (W_meta_set key (load_le off) (take (unat (load_le len :: u16)) v), bs) }
           else if ty = 8 \<or> ty = 9 then do {
             (v, bs) \<leftarrow> rd (unat (load_le len :: u16)) bs;
             Some (W_set ty key (load_le off) v, bs) }
           else if ty = 5 \<or> ty = 13 then do {
             (v, bs) \<leftarrow> rd 4096 bs;
             Some (W_update ty key (load_le off) (load_le len) v, bs) }
           else None } } } }"

primrec decode_n :: "nat \<Rightarrow> byte list \<Rightarrow> wire list option" where
  "decode_n 0 bs = Some []"
| "decode_n (Suc n) bs = do { (e, bs) \<leftarrow> decode_one bs; es \<leftarrow> decode_n n bs; Some (e # es) }"

definition decode :: "byte list \<Rightarrow> (u32 \<times> wire list) option" where
  "decode bs = do {
     (i, bs) \<leftarrow> rd 4 bs;
     (n, bs) \<leftarrow> rd 2 bs;
     es \<leftarrow> decode_n (unat (load_le n :: u16)) bs;
     Some (load_le i, es) }"

section \<open>The encoders write the format\<close>

definition tb_key_bytes :: "txn_buf \<Rightarrow> byte list" where
  "tb_key_bytes tb = take (unat (tb_key_len tb)) (tb_key tb)"

text \<open>What a buffer stands for on the wire; \<^term>\<open>None\<close> for types that are not transferred.\<close>

definition wire_of :: "(nat \<Rightarrow> byte list) \<Rightarrow> txn_buf \<Rightarrow> wire option" where
  "wire_of pages tb =
     (let v = (case tb_value pages tb of None \<Rightarrow> [] | Some v \<Rightarrow> v); k = tb_key_bytes tb in
      case tb_type tb of
        LIGHTFS_META_SET \<Rightarrow> Some (W_meta_set k (tb_off tb) (take 152 v))
      | LIGHTFS_DATA_SET \<Rightarrow> Some (W_set 8 k (tb_off tb) (take (unat (tb_len tb)) v))
      | LIGHTFS_DATA_SET_WB \<Rightarrow> Some (W_set 8 k (tb_off tb) (take (unat (tb_len tb)) v))
      | LIGHTFS_DATA_SEQ_SET \<Rightarrow> Some (W_set 9 k (tb_off tb) (take (unat (tb_len tb)) v))
      | LIGHTFS_META_DEL \<Rightarrow> Some (W_del 3 k)
      | LIGHTFS_DATA_DEL \<Rightarrow> Some (W_del 10 k)
      | LIGHTFS_META_UPDATE \<Rightarrow> Some (W_update 5 k (tb_off tb) (tb_update tb) (take 4096 v))
      | LIGHTFS_DATA_UPDATE \<Rightarrow> Some (W_update 13 k (tb_off tb) (tb_update tb) (take 4096 v))
      | LIGHTFS_DATA_DEL_MULTI \<Rightarrow> Some (W_del_multi k (tb_off tb))
      | _ \<Rightarrow> None)"

text \<open>Bytes a buffer takes in the request, and how many of its value's bytes are read.\<close>

definition value_bytes :: "txn_buf \<Rightarrow> nat" where
  "value_bytes tb =
     (case tb_type tb of
        LIGHTFS_META_SET \<Rightarrow> 152
      | LIGHTFS_DATA_SET \<Rightarrow> unat (tb_len tb)
      | LIGHTFS_DATA_SET_WB \<Rightarrow> unat (tb_len tb)
      | LIGHTFS_DATA_SEQ_SET \<Rightarrow> unat (tb_len tb)
      | LIGHTFS_META_UPDATE \<Rightarrow> 4096
      | LIGHTFS_DATA_UPDATE \<Rightarrow> 4096
      | _ \<Rightarrow> 0)"

definition wire_size :: "txn_buf \<Rightarrow> nat" where
  "wire_size tb =
     (case tb_type tb of
        LIGHTFS_META_SET \<Rightarrow> 7 + unat (tb_key_len tb) + 4096
      | LIGHTFS_META_DEL \<Rightarrow> 3 + unat (tb_key_len tb)
      | LIGHTFS_DATA_DEL \<Rightarrow> 3 + unat (tb_key_len tb)
      | LIGHTFS_DATA_DEL_MULTI \<Rightarrow> 5 + unat (tb_key_len tb)
      | _ \<Rightarrow> 7 + unat (tb_key_len tb) + value_bytes tb)"

definition tb_ok :: "(nat \<Rightarrow> byte list) \<Rightarrow> txn_buf \<Rightarrow> bool" where
  "tb_ok pages tb \<longleftrightarrow>
     wire_of pages tb \<noteq> None \<and> unat (tb_key_len tb) \<le> length (tb_key tb)
   \<and> (0 < value_bytes tb \<longrightarrow> (\<exists>v. tb_value pages tb = Some v \<and> value_bytes tb \<le> length v))
   \<and> (tb_type tb \<in> {LIGHTFS_DATA_SET, LIGHTFS_DATA_SET_WB, LIGHTFS_DATA_SEQ_SET} \<longrightarrow>
        0 < unat (tb_len tb) \<and> unat (tb_len tb) < 65536)"

lemma rd_append [simp]: "n = length a \<Longrightarrow> rd n (a @ b) = Some (a, b)"
  by (simp add: rd_def)

lemma rd_append3 [simp]: "n = length a + length b \<Longrightarrow> rd n (a @ b @ c) = Some (a @ b, c)"
  by (simp add: rd_def)

lemma rd_1 [simp]: "rd (Suc 0) (x # xs) = Some ([x], xs)"
  by (simp add: rd_def)

lemma load_le_u16 [simp]: "load_le (store_le 2 (w::u16)) = w"
  by (rule load_store_le) simp

lemma load_le_u32 [simp]: "load_le (store_le 4 (w::u32)) = w"
  by (rule load_store_le) simp

lemma decode_key_append [simp]:
  "unat l = length k \<Longrightarrow> decode_key (store_le 2 (l::u16) @ k @ rest) = Some (k, rest)"
  by (simp add: decode_key_def)

lemmas wr_defs = wr_put_def lightfs_io_set_txn_id_def lightfs_io_set_cnt_def lightfs_io_set_type_def
  lightfs_io_set_key_len_def lightfs_io_set_key_def lightfs_io_set_off_def lightfs_io_set_value_len_def
  lightfs_io_set_value_def lightfs_io_meta_set_value_def

lemma emit_del:
  assumes "ty \<le> 16" and "unat kl \<le> length key" and "3 + unat kl \<le> length rest"
  shows "lightfs_io_set_buf_del ty kl key (pre @ rest, length pre) =
         Some (pre @ (ty # store_le 2 kl @ take (unat kl) key) @ drop (3 + unat kl) rest, length pre + (3 + unat kl))"
proof -
  from assms(1) have "\<not> 16 < ty" by (simp add: not_less)
  with assms show ?thesis
    by (simp add: lightfs_io_set_buf_del_def wr_defs get_at_def) (simp add: eval_nat_numeral)
qed

lemma emit_del_multi:
  assumes "ty \<le> 16" and "unat kl \<le> length key" and "5 + unat kl \<le> length rest"
  shows "lightfs_io_set_buf_del_multi ty kl key off (pre @ rest, length pre) =
         Some (pre @ (ty # store_le 2 kl @ take (unat kl) key @ store_le 2 off) @ drop (5 + unat kl) rest,
               length pre + (5 + unat kl))"
proof -
  from assms(1) have "\<not> 16 < ty" by (simp add: not_less)
  with assms show ?thesis
    by (simp add: lightfs_io_set_buf_del_multi_def wr_defs get_at_def)
qed

lemma emit_set:
  assumes "ty \<le> 16" and "unat kl \<le> length key" and "unat vl \<le> length v"
    and "7 + unat kl + unat vl \<le> length rest"
  shows "lightfs_io_set_buf_set ty kl key off vl v (pre @ rest, length pre) =
         Some (pre @ (ty # store_le 2 kl @ take (unat kl) key @ store_le 2 off @ store_le 2 vl @ take (unat vl) v)
                 @ drop (7 + unat kl + unat vl) rest, length pre + (7 + unat kl + unat vl))"
proof -
  from assms(1) have "\<not> 16 < ty" by (simp add: not_less)
  with assms show ?thesis
    by (simp add: lightfs_io_set_buf_set_def wr_defs get_at_def)
      (simp add: eval_nat_numeral add.commute)
qed

lemma emit_update:
  assumes "ty \<le> 16" and "unat kl \<le> length key" and "4096 \<le> length v"
    and "7 + unat kl + 4096 \<le> length rest"
  shows "lightfs_io_set_buf_update ty kl key off vl v (pre @ rest, length pre) =
         Some (pre @ (ty # store_le 2 kl @ take (unat kl) key @ store_le 2 off @ store_le 2 vl @ take 4096 v)
                 @ drop (7 + unat kl + 4096) rest, length pre + (7 + unat kl + 4096))"
proof -
  from assms(1) have "\<not> 16 < ty" by (simp add: not_less)
  with assms show ?thesis
    by (simp add: lightfs_io_set_buf_update_def wr_defs get_at_def)
qed

lemma emit_meta_set:
  assumes "ty \<le> 16" and "unat kl \<le> length key" and "152 \<le> length v"
    and "7 + unat kl + 4096 \<le> length rest"
  shows "lightfs_io_set_buf_meta_set ty kl key off vl v (pre @ rest, length pre) =
         Some (pre @ (ty # store_le 2 kl @ take (unat kl) key @ store_le 2 off @ store_le 2 (152::u16) @ take 152 v
                      @ take 3944 (drop (159 + unat kl) rest))
                 @ drop (7 + unat kl + 4096) rest, length pre + (7 + unat kl + 4096))"
proof -
  from assms(1) have "\<not> 16 < ty" by (simp add: not_less)
  moreover have "drop (159 + unat kl) rest = take 3944 (drop (159 + unat kl) rest) @ drop (4103 + unat kl) rest"
    using append_take_drop_id [of 3944 "drop (159 + unat kl) rest"] by (simp add: add.commute)
  ultimately show ?thesis using assms
    by (simp add: lightfs_io_set_buf_meta_set_def wr_defs get_at_def)
qed

lemmas emit = emit_del emit_del_multi emit_set emit_update emit_meta_set

lemma unat_ucast_u16: "unat (w::u32) < 65536 \<Longrightarrow> unat (ucast w :: u16) = unat w"
  by (simp add: unsigned_ucast_eq take_bit_eq_mod)

lemmas decode_simps = decode_one_def rd_append rd_1 decode_key_append load_le_u16

text \<open>The decoder on each of the formats.\<close>

lemma decode_formats:
  assumes "length k = unat (kl::u16)"
  shows "ty = 3 \<or> ty = 10 \<Longrightarrow> decode_one ((ty # store_le 2 kl @ k) @ suf) = Some (W_del ty k, suf)"
    and "decode_one ((11 # store_le 2 kl @ k @ store_le 2 off) @ suf) = Some (W_del_multi k off, suf)"
    and "ty = 8 \<or> ty = 9 \<Longrightarrow> length v = unat vl \<Longrightarrow>
         decode_one ((ty # store_le 2 kl @ k @ store_le 2 off @ store_le 2 vl @ v) @ suf) = Some (W_set ty k off v, suf)"
    and "ty = 5 \<or> ty = 13 \<Longrightarrow> length v = 4096 \<Longrightarrow>
         decode_one ((ty # store_le 2 kl @ k @ store_le 2 off @ store_le 2 vl @ v) @ suf) =
           Some (W_update ty k off vl v, suf)"
    and "length v = 152 \<Longrightarrow> length gap = 3944 \<Longrightarrow>
         decode_one ((1 # store_le 2 kl @ k @ store_le 2 off @ store_le 2 (152::u16) @ v @ gap) @ suf) =
           Some (W_meta_set k off v, suf)"
  using assms by (auto simp: decode_simps)

text \<open>
  One buffer of a transfer: the writer advances by the buffer's size, what was written
  before and what lies behind stays, and the bytes written decode to the buffer.
\<close>

lemma transfer_entry_ok:
  assumes "tb_ok pages tb" and "wire_size tb \<le> length rest" and "cnt < 65535"
  shows "\<exists>bs. length bs = wire_size tb
           \<and> transfer_entry pages ((pre @ rest, length pre), cnt) tb =
               Some ((pre @ bs @ drop (wire_size tb) rest, length pre + wire_size tb), cnt + 1)
           \<and> (\<forall>suf. decode_one (bs @ suf) = Some (the (wire_of pages tb), suf))"
proof -
  have cnt: "cnt + 1 \<noteq> 0"
    using assms(3) by (metis less_irrefl max_word_wrap word_order.extremum_strict not_less word_less_1)
  let ?k = "take (unat (tb_key_len tb)) (tb_key tb)"
  have k: "length ?k = unat (tb_key_len tb)" using assms(1) by (simp add: tb_ok_def)
  note fmt = decode_formats [OF k]
  note defs = transfer_entry_def wire_size_def wire_of_def value_bytes_def tb_ok_def tb_key_bytes_def
  have set_entry: ?thesis
    if ty: "tb_type tb \<in> {LIGHTFS_DATA_SET, LIGHTFS_DATA_SET_WB, LIGHTFS_DATA_SEQ_SET}"
  proof -
    define code where "code = (if tb_type tb = LIGHTFS_DATA_SEQ_SET then 9 else 8 :: u8)"
    obtain v where v: "tb_value pages tb = Some v" "unat (tb_len tb) \<le> length v"
      using assms(1) ty by (auto simp: tb_ok_def value_bytes_def)
    have len: "unat (ucast (tb_len tb) :: u16) = unat (tb_len tb)"
      using assms(1) ty by (auto simp: tb_ok_def unat_ucast_u16)
    show ?thesis
      using ty assms cnt v len fmt(3) [of code "take (unat (tb_len tb)) v" "ucast (tb_len tb)" "tb_off tb"]
      by (intro exI [of _ "code # store_le 2 (tb_key_len tb) @ ?k @ store_le 2 (tb_off tb)
            @ store_le 2 (ucast (tb_len tb) :: u16) @ take (unat (tb_len tb)) v"])
        (auto simp: defs emit code_def)
  qed
  show ?thesis
  proof (cases "tb_type tb")
    case LIGHTFS_META_DEL
    with assms cnt fmt(1) [of 3] show ?thesis
      by (intro exI [of _ "3 # store_le 2 (tb_key_len tb) @ ?k"]) (simp add: defs emit)
  next
    case LIGHTFS_DATA_DEL
    with assms cnt fmt(1) [of 10] show ?thesis
      by (intro exI [of _ "10 # store_le 2 (tb_key_len tb) @ ?k"]) (simp add: defs emit)
  next
    case LIGHTFS_DATA_DEL_MULTI
    with assms cnt fmt(2) show ?thesis
      by (intro exI [of _ "11 # store_le 2 (tb_key_len tb) @ ?k @ store_le 2 (tb_off tb)"]) (simp add: defs emit)
  next
    case LIGHTFS_META_SET
    with assms(1) obtain v where v: "tb_value pages tb = Some v" "152 \<le> length v"
      by (auto simp: tb_ok_def value_bytes_def)
    let ?gap = "take 3944 (drop (159 + unat (tb_key_len tb)) rest)"
    have "length ?gap = 3944" using assms(2) LIGHTFS_META_SET by (simp add: wire_size_def)
    with LIGHTFS_META_SET assms cnt v fmt(5) [of "take 152 v" ?gap] show ?thesis
      by (intro exI [of _ "1 # store_le 2 (tb_key_len tb) @ ?k @ store_le 2 (tb_off tb) @ store_le 2 (152::u16)
            @ take 152 v @ ?gap"]) (simp add: defs emit)
  next
    case LIGHTFS_META_UPDATE
    with assms(1) obtain v where v: "tb_value pages tb = Some v" "4096 \<le> length v"
      by (auto simp: tb_ok_def value_bytes_def)
    with LIGHTFS_META_UPDATE assms cnt fmt(4) [of 5 "take 4096 v"] show ?thesis
      by (intro exI [of _ "5 # store_le 2 (tb_key_len tb) @ ?k @ store_le 2 (tb_off tb) @ store_le 2 (tb_update tb)
            @ take 4096 v"]) (simp add: defs emit)
  next
    case LIGHTFS_DATA_UPDATE
    with assms(1) obtain v where v: "tb_value pages tb = Some v" "4096 \<le> length v"
      by (auto simp: tb_ok_def value_bytes_def)
    with LIGHTFS_DATA_UPDATE assms cnt fmt(4) [of 13 "take 4096 v"] show ?thesis
      by (intro exI [of _ "13 # store_le 2 (tb_key_len tb) @ ?k @ store_le 2 (tb_off tb) @ store_le 2 (tb_update tb)
            @ take 4096 v"]) (simp add: defs emit)
  next
    case LIGHTFS_DATA_SET
    show ?thesis by (rule set_entry) (simp_all add: LIGHTFS_DATA_SET)
  next
    case LIGHTFS_DATA_SET_WB
    show ?thesis by (rule set_entry) (simp_all add: LIGHTFS_DATA_SET_WB)
  next
    case LIGHTFS_DATA_SEQ_SET
    show ?thesis by (rule set_entry) (simp_all add: LIGHTFS_DATA_SEQ_SET)
  qed (use assms in \<open>simp_all add: tb_ok_def wire_of_def\<close>)
qed

definition total_size :: "txn_buf list \<Rightarrow> nat" where
  "total_size tbs = sum_list (map wire_size tbs)"

lemma transfer_entries_ok:
  assumes "\<forall>tb\<in>set tbs. tb_ok pages tb" and "total_size tbs \<le> length rest"
    and "unat cnt + length tbs \<le> 65535"
  shows "\<exists>bs. length bs = total_size tbs
           \<and> foldM (transfer_entry pages) ((pre @ rest, length pre), cnt) tbs =
               Some ((pre @ bs @ drop (total_size tbs) rest, length pre + total_size tbs), cnt + of_nat (length tbs))
           \<and> (\<forall>n suf. decode_n (length tbs + n) (bs @ suf) =
                 map_option (\<lambda>es. map (\<lambda>tb. the (wire_of pages tb)) tbs @ es) (decode_n n suf))"
  using assms
proof (induction tbs arbitrary: pre rest cnt)
  case Nil
  then show ?case by (simp add: total_size_def option.map_ident)
next
  case (Cons tb tbs)
  have cnt: "cnt < 65535" "unat (cnt + 1) = unat cnt + 1"
    using Cons.prems(3) by (simp_all add: word_less_nat_alt unat_word_ariths)
  from Cons.prems have ok: "tb_ok pages tb" "wire_size tb \<le> length rest" by (simp_all add: total_size_def)
  from transfer_entry_ok [OF this cnt(1), of pre] obtain b1 where b1: "length b1 = wire_size tb"
      "transfer_entry pages ((pre @ rest, length pre), cnt) tb =
         Some ((pre @ b1 @ drop (wire_size tb) rest, length pre + wire_size tb), cnt + 1)"
      "\<forall>suf. decode_one (b1 @ suf) = Some (the (wire_of pages tb), suf)" by blast
  have "\<forall>tb\<in>set tbs. tb_ok pages tb" "total_size tbs \<le> length (drop (wire_size tb) rest)"
      "unat (cnt + 1) + length tbs \<le> 65535"
    using Cons.prems cnt by (auto simp: total_size_def)
  from Cons.IH [OF this, of "pre @ b1"] obtain bs where bs: "length bs = total_size tbs"
      "foldM (transfer_entry pages) (((pre @ b1) @ drop (wire_size tb) rest, length (pre @ b1)), cnt + 1) tbs =
         Some (((pre @ b1) @ bs @ drop (total_size tbs) (drop (wire_size tb) rest),
                length (pre @ b1) + total_size tbs), cnt + 1 + of_nat (length tbs))"
      "\<forall>n suf. decode_n (length tbs + n) (bs @ suf) =
         map_option (\<lambda>es. map (\<lambda>tb. the (wire_of pages tb)) tbs @ es) (decode_n n suf)" by blast
  have total: "total_size (tb # tbs) = wire_size tb + total_size tbs" by (simp add: total_size_def)
  have dec: "decode_n (length (tb # tbs) + n) ((b1 @ bs) @ suf) =
      map_option (\<lambda>es. map (\<lambda>tb. the (wire_of pages tb)) (tb # tbs) @ es) (decode_n n suf)" for n suf
    using b1(3) bs(3) by (cases "decode_n n suf") simp_all
  show ?case
    using b1(1,2) bs(1,2) dec
    by (intro exI [of _ "b1 @ bs"]) (simp add: total add.assoc add.commute [of "wire_size tb"])
qed

lemma transfer_decodes:
  assumes "\<forall>tb\<in>set (c_bufs c). tb_ok pages tb" and "7 + total_size (c_bufs c) \<le> length buf"
    and "length (c_bufs c) < 65535"
  shows "\<exists>buf' idx. transfer_fill pages c buf = Some (buf', idx) \<and> length buf' = length buf
           \<and> idx = 6 + total_size (c_bufs c) + (if c_is_flush c then 1 else 0)
           \<and> decode buf' = Some (c_id c,
               map (\<lambda>tb. the (wire_of pages tb)) (c_bufs c) @ (if c_is_flush c then [W_commit] else []))"
proof -
  let ?tbs = "c_bufs c" and ?n = "length (c_bufs c)" and ?es = "map (\<lambda>tb. the (wire_of pages tb)) (c_bufs c)"
  let ?id = "store_le 4 (c_id c)"
  define hole where "hole = take 2 (drop 4 buf)"
  define rest where "rest = drop 6 buf"
  have hole: "length hole = 2" and rest: "total_size ?tbs < length rest"
    using assms(2) by (simp_all add: hole_def rest_def)
  have "drop 4 buf = hole @ rest"
    unfolding hole_def rest_def using append_take_drop_id [of 2 "drop 4 buf"] by simp
  then have start: "lightfs_io_set_txn_id (c_id c) (buf, 0) = Some ((?id @ hole) @ rest, 4)"
    using assms(2) by (simp add: wr_defs)
  from transfer_entries_ok [OF assms(1), of rest 0 "?id @ hole"] rest assms(3)
  obtain bs where bs: "length bs = total_size ?tbs"
      "foldM (transfer_entry pages) (((?id @ hole) @ rest, length (?id @ hole)), 0) ?tbs =
         Some (((?id @ hole) @ bs @ drop (total_size ?tbs) rest, length (?id @ hole) + total_size ?tbs), of_nat ?n)"
      "\<forall>n suf. decode_n (?n + n) (bs @ suf) = map_option ((@) ?es) (decode_n n suf)" by auto
  obtain x tail where tail: "drop (total_size ?tbs) rest = x # tail"
    using rest by (cases "drop (total_size ?tbs) rest") auto
  have n: "unat (of_nat ?n :: u16) = ?n" "unat (of_nat ?n + 1 :: u16) = ?n + 1"
    using assms(3) by (simp_all add: unat_word_ariths unat_of_nat take_bit_eq_mod)
  have len: "length buf = 6 + total_size ?tbs + Suc (length tail)"
    using arg_cong [OF tail, of length] assms(2) by (simp add: rest_def)
  show ?thesis
  proof (cases "c_is_flush c")
    case True
    let ?b = "?id @ store_le 2 (of_nat ?n + 1 :: u16) @ bs @ 15 # tail"
    have "transfer_fill pages c buf = Some (?b, 6 + total_size ?tbs + 1)"
      using True start bs(1,2) hole tail by (simp add: transfer_fill_def wr_defs)
    moreover have com: "decode_n 1 (15 # tail) = Some [W_commit]" by (simp add: decode_one_def)
    have "decode_n (?n + 1) (bs @ 15 # tail) = Some (?es @ [W_commit])"
      by (simp only: bs(3) [rule_format] com option.map)
    then have "decode ?b = Some (c_id c, ?es @ [W_commit])"
      using n by (simp add: decode_def del: decode_n.simps)
    ultimately show ?thesis using True bs(1) len by (intro exI [of _ ?b] exI) simp
  next
    case False
    let ?b = "?id @ store_le 2 (of_nat ?n :: u16) @ bs @ x # tail"
    have "transfer_fill pages c buf = Some (?b, 6 + total_size ?tbs)"
      using False start bs(1,2) hole tail by (simp add: transfer_fill_def)
    moreover have "decode_n (?n + 0) (bs @ x # tail) = Some (?es @ [])"
      using bs(3) [rule_format, of 0 "x # tail"] by simp
    then have "decode ?b = Some (c_id c, ?es)"
      using n by (simp add: decode_def)
    ultimately show ?thesis using False bs(1) len by (intro exI [of _ ?b] exI) simp
  qed
qed

text \<open>
  Property C39: the transfer request is written inside its buffer and is uniquely
  decodable: whatever the buffer held before, decoding it yields the transaction id,
  exactly the buffers of the committed transaction in order, and a final commit mark
  exactly when the transaction is flushed or ordered.
\<close>

theorem transfer_round_trip:
  assumes "\<forall>tb\<in>set (c_bufs c). tb_ok pages tb" and "7 + total_size (c_bufs c) \<le> length buf"
    and "length (c_bufs c) < 65535"
  shows "\<exists>buf' idx. transfer_fill pages c buf = Some (buf', idx) \<and> length buf' = length buf
           \<and> idx = 6 + total_size (c_bufs c) + (if c_is_flush c then 1 else 0)
           \<and> decode buf' = Some (c_id c,
               map (\<lambda>tb. the (wire_of pages tb)) (c_bufs c) @ (if c_is_flush c then [W_commit] else []))"
  by (rule transfer_decodes [OF assms])

definition sample_del :: txn_buf where
  "sample_del = lightfs_txn_buf_init\<lparr>tb_key := [100, 7], tb_key_len := 2, tb_type := LIGHTFS_DATA_DEL\<rparr>"

definition sample_c_txn :: c_txn where
  "sample_c_txn =
     \<lparr>c_id = 3, c_txns = [lightfs_txn_init\<lparr>t_cnt := 1, t_bufs := [sample_del]\<rparr>], c_children = [], c_size = 0,
      c_parents = 0, c_state = TXN_FLUSH, c_filter = \<lparr>bf_m = 0, bf_k = 0, bit_vector = []\<rparr>, c_workq_id = 0,
      c_committing_cnt = 0, c_cnt = 1\<rparr>"

theorem transfer_round_trip_witness:
  "\<exists>buf' idx. transfer_fill (\<lambda>_. []) sample_c_txn (replicate 32 170) = Some (buf', idx)
     \<and> decode buf' = Some (3, [W_del 10 [100, 7], W_commit])"
proof -
  have "c_bufs sample_c_txn = [sample_del]" "c_is_flush sample_c_txn" "c_id sample_c_txn = 3"
    by (simp_all add: c_bufs_def sample_c_txn_def c_is_flush_def has_flag_def TXN_FLUSH_def)
  moreover have "tb_ok (\<lambda>_. []) sample_del" "wire_size sample_del = 5"
      "wire_of (\<lambda>_. []) sample_del = Some (W_del 10 [100, 7])"
    by (simp_all add: tb_ok_def sample_del_def wire_of_def wire_size_def value_bytes_def tb_key_bytes_def
        lightfs_txn_buf_init_def Let_def)
  ultimately show ?thesis
    using transfer_round_trip [of sample_c_txn "\<lambda>_. []" "replicate 32 170"]
    by (auto simp: total_size_def)
qed

end
