(* ===== verification/Kevin_Cheeze.thy ===== *)
theory Kevin_Cheeze
  imports Kevin_Types
begin

text \<open>
  The transport to the device, \<open>kevinfs/cheeze\<close>: the request tags (\<open>queue.c\<close>), the
  calls the file system makes (\<open>blk.c\<close>), and the shared memory with its receiving
  thread (\<open>shm.c\<close>).  The device itself is the environment: it clears a send flag,
  fills in the answer and raises the receive flag.
\<close>

section \<open>State\<close>

definition CHEEZE_QUEUE_SIZE :: nat where "CHEEZE_QUEUE_SIZE = 1024"
definition CHEEZE_BUF_SIZE :: nat where "CHEEZE_BUF_SIZE = 2 * 1024 * 1024"
definition HP_SIZE :: nat where "HP_SIZE = 1024 * 1024 * 1024"
definition ITEMS_PER_HP :: nat where "ITEMS_PER_HP = HP_SIZE div CHEEZE_BUF_SIZE"

text \<open>
  \<open>struct cheeze_req_user\<close> is packed and aligned to 8: 40 bytes.  Of \<open>ret_buf\<close> only
  whether it is NULL matters.
\<close>

record cheeze_req_user =
  u_id :: nat
  u_buf_len :: nat
  u_buf :: nat
  u_ubuf_len :: nat
  u_ret_buf :: "nat option"

record cheeze_req =
  acked :: nat
  rq_sync :: bool
  rq_transfer :: bool
  rq_extra :: "nat option"
  rq_user :: nat
  rq_item :: "nat option"

text \<open>
  The module's state: semaphores, tag lists, counters, the request table, the callers'
  \<open>cheeze_req_user\<close> objects by address, the event, sequence and request arrays of the
  shared page, and the read-ahead entries marked \<open>READA_DONE\<close>.
\<close>

record cheeze =
  cz_slots :: nat
  cz_items :: nat
  cz_free :: "nat list"
  cz_processing :: "nat list"
  cz_qd :: int
  cz_seq :: u64
  cz_reqs :: "cheeze_req list"
  cz_users :: "nat \<Rightarrow> cheeze_req_user"
  send_event :: "u8 list"
  recv_event :: "u8 list"
  seq_arr :: "u64 list"
  ureqs :: "cheeze_req_user list"
  reada_done :: "nat set"

section \<open>Tags\<close>

definition cheeze_push :: "cheeze \<Rightarrow> nat \<Rightarrow> (u64 \<times> cheeze) res" where
  "cheeze_push c user =
     (if cz_slots c = 0 then Block
      else case cz_free c of
        [] \<Rightarrow> Fault
      | tag # rest \<Rightarrow>
          if tag < length (cz_reqs c) then
            Done (cz_seq c,
              c\<lparr>cz_slots := cz_slots c - 1, cz_free := rest, cz_processing := cz_processing c @ [tag],
                cz_users := (cz_users c)(user := (cz_users c user)\<lparr>u_id := tag\<rparr>),
                cz_reqs := (cz_reqs c)[tag := (cz_reqs c ! tag)\<lparr>rq_user := user, acked := 0, rq_item := Some tag\<rparr>],
                cz_seq := cz_seq c + 1, cz_qd := cz_qd c + 1, cz_items := cz_items c + 1\<rparr>)
          else Fault)"

definition cheeze_peek :: "cheeze \<Rightarrow> (nat \<times> cheeze) res" where
  "cheeze_peek c =
     (if cz_items c = 0 then Block
      else case cz_processing c of
        [] \<Rightarrow> Fault
      | tag # rest \<Rightarrow> Done (tag, c\<lparr>cz_items := cz_items c - 1, cz_processing := rest\<rparr>))"

definition cheeze_pop :: "cheeze \<Rightarrow> nat \<Rightarrow> cheeze res" where
  "cheeze_pop c tag =
     (if tag < length (cz_reqs c) then
        case rq_item (cz_reqs c ! tag) of
          None \<Rightarrow> Fault
        | Some item \<Rightarrow>
            if item \<in> set (cz_free c) \<or> item \<in> set (cz_processing c) then Fault
            else Done (c\<lparr>cz_free := cz_free c @ [item], cz_qd := cz_qd c - 1, cz_slots := cz_slots c + 1\<rparr>)
      else Fault)"

text \<open>\<open>list_move_tail\<close> unlinks the item from the list it is on, whichever it is.\<close>

definition cheeze_move_pop :: "cheeze \<Rightarrow> nat \<Rightarrow> cheeze res" where
  "cheeze_move_pop c tag =
     (if tag < length (cz_reqs c) then
        case rq_item (cz_reqs c ! tag) of
          None \<Rightarrow> Fault
        | Some item \<Rightarrow>
            if item \<in> set (cz_free c) \<or> item \<in> set (cz_processing c) then
              Done (c\<lparr>cz_free := filter (\<lambda>t. t \<noteq> item) (cz_free c) @ [item],
                      cz_processing := filter (\<lambda>t. t \<noteq> item) (cz_processing c),
                      cz_qd := cz_qd c - 1, cz_slots := cz_slots c + 1\<rparr>)
            else Fault
      else Fault)"

definition cheeze_init :: "(nat \<Rightarrow> cheeze_req_user) \<Rightarrow> cheeze" where
  "cheeze_init users =
     \<lparr>cz_slots = CHEEZE_QUEUE_SIZE, cz_items = 0, cz_free = [0..<CHEEZE_QUEUE_SIZE], cz_processing = [],
      cz_qd = 0, cz_seq = 0,
      cz_reqs = replicate CHEEZE_QUEUE_SIZE
        \<lparr>acked = 0, rq_sync = False, rq_transfer = False, rq_extra = None, rq_user = 0, rq_item = None\<rparr>,
      cz_users = users,
      send_event = replicate CHEEZE_QUEUE_SIZE 0, recv_event = replicate CHEEZE_QUEUE_SIZE 0,
      seq_arr = replicate CHEEZE_QUEUE_SIZE 0,
      ureqs = replicate CHEEZE_QUEUE_SIZE
        \<lparr>u_id = 0, u_buf_len = 0, u_buf = 0, u_ubuf_len = 0, u_ret_buf = None\<rparr>,
      reada_done = {}\<rparr>"

section \<open>Requests\<close>

definition get_buf_addr :: "nat list \<Rightarrow> nat \<Rightarrow> nat" where
  "get_buf_addr pdata_addr tag =
     (let idx = tag div ITEMS_PER_HP in pdata_addr ! idx + (tag mod ITEMS_PER_HP) * CHEEZE_BUF_SIZE)"

definition cheeze_prepare_io ::
    "nat list \<Rightarrow> cheeze \<Rightarrow> nat \<Rightarrow> bool \<Rightarrow> nat option \<Rightarrow> bool \<Rightarrow> (u64 \<times> cheeze) res" where
  "cheeze_prepare_io data_addr c user sync extra transfer =
     res_bind (cheeze_push c user) (\<lambda>(sq, c).
       let tag = u_id (cz_users c user) in
       Done (sq, c\<lparr>cz_users := (cz_users c)(user := (cz_users c user)\<lparr>u_buf := get_buf_addr data_addr tag\<rparr>),
                   cz_reqs := (cz_reqs c)[tag := (cz_reqs c ! tag)\<lparr>rq_sync := sync, rq_transfer := transfer,
                                                                   rq_extra := extra\<rparr>]\<rparr>))"

definition cheeze_free_io :: "cheeze \<Rightarrow> nat \<Rightarrow> cheeze res" where
  "cheeze_free_io = cheeze_move_pop"

text \<open>
  The request's buffer is already the tag's buffer, so the first copy of \<open>send_req\<close>
  copies it onto itself.
\<close>

definition send_req :: "cheeze \<Rightarrow> nat \<Rightarrow> u64 \<Rightarrow> cheeze" where
  "send_req c tag sq =
     c\<lparr>ureqs := (ureqs c)[tag := cz_users c (rq_user (cz_reqs c ! tag))],
       seq_arr := (seq_arr c)[tag := sq],
       send_event := (send_event c)[tag := 1]\<rparr>"

text \<open>
  \<open>cheeze_io\<close> up to the point where a synchronous caller sleeps, and the wake-up.  The
  callback runs before the wait.
\<close>

definition cheeze_io_submit :: "(cheeze \<Rightarrow> cheeze) option \<Rightarrow> cheeze \<Rightarrow> nat \<Rightarrow> u64 \<Rightarrow> cheeze" where
  "cheeze_io_submit cb c user sq =
     (let c = send_req c (u_id (cz_users c user)) sq in
      case cb of None \<Rightarrow> c | Some f \<Rightarrow> f c)"

definition cheeze_io_wait :: "cheeze \<Rightarrow> nat \<Rightarrow> cheeze res" where
  "cheeze_io_wait c tag =
     (let rq = cz_reqs c ! tag in
      if rq_sync rq then
        (if acked rq = 0 then Block
         else Done (c\<lparr>cz_reqs := (cz_reqs c)[tag := rq\<lparr>acked := acked rq - 1\<rparr>]\<rparr>))
      else Done c)"

definition complete_req :: "cheeze \<Rightarrow> nat \<Rightarrow> cheeze" where
  "complete_req c tag =
     c\<lparr>cz_reqs := (cz_reqs c)[tag := (cz_reqs c ! tag)\<lparr>acked := acked (cz_reqs c ! tag) + 1\<rparr>]\<rparr>"

text \<open>
  One answered tag of \<open>recv_req\<close>: the mark of a read-ahead, the release or completion
  of the request, and the cleared flag.  The loop visits all tags in order.
\<close>

definition recv_mark :: "cheeze \<Rightarrow> nat \<Rightarrow> cheeze" where
  "recv_mark c tag =
     (case rq_extra (cz_reqs c ! tag) of
        Some ra \<Rightarrow> if u_ubuf_len (ureqs c ! tag) \<noteq> 0 then c\<lparr>reada_done := insert ra (reada_done c)\<rparr> else c
      | None \<Rightarrow> c)"

definition recv_dispatch :: "cheeze \<Rightarrow> nat \<Rightarrow> cheeze res" where
  "recv_dispatch c tag =
     (let rq = cz_reqs c ! tag; ureq = ureqs c ! tag in
      if u_ret_buf ureq = None \<or> \<not> rq_sync rq \<or> rq_transfer rq then
        (if \<not> rq_sync rq then cheeze_move_pop c tag else cheeze_move_pop (complete_req c tag) tag)
      else if u_ubuf_len ureq \<noteq> 0 then
        (case rq_extra rq of
           Some ra \<Rightarrow> Done (c\<lparr>reada_done := insert ra (reada_done c)\<rparr>)
         | None \<Rightarrow>
             let user = rq_user rq;
                 copied = (if u_ubuf_len (cz_users c user) = 152 then ureq\<lparr>u_ubuf_len := 152\<rparr> else ureq)
             in Done (complete_req (c\<lparr>cz_users := (cz_users c)(user := copied)\<rparr>) tag))
      else Done (complete_req (c\<lparr>cz_users := (cz_users c)(rq_user rq := ureq)\<rparr>) tag))"

definition recv_one :: "cheeze \<Rightarrow> nat \<Rightarrow> cheeze res" where
  "recv_one c tag =
     (if recv_event c ! tag = 0 then Done c
      else res_bind (recv_dispatch (recv_mark c tag) tag)
             (\<lambda>c. Done (c\<lparr>recv_event := (recv_event c)[tag := 0]\<rparr>)))"

primrec recv_from :: "cheeze \<Rightarrow> nat list \<Rightarrow> cheeze res" where
  "recv_from c [] = Done c"
| "recv_from c (tag # tags) = res_bind (recv_one c tag) (\<lambda>c. recv_from c tags)"

definition recv_req :: "cheeze \<Rightarrow> cheeze res" where
  "recv_req c = recv_from c [0..<CHEEZE_QUEUE_SIZE]"

section \<open>Tags are handed out once\<close>

definition tags_ok :: "cheeze \<Rightarrow> bool" where
  "tags_ok c \<longleftrightarrow>
     distinct (cz_free c @ cz_processing c) \<and> set (cz_free c @ cz_processing c) = {..<CHEEZE_QUEUE_SIZE}
   \<and> length (cz_reqs c) = CHEEZE_QUEUE_SIZE
   \<and> cz_slots c = length (cz_free c) \<and> cz_qd c = int (length (cz_processing c))
   \<and> (\<forall>tag\<in>set (cz_processing c). rq_item (cz_reqs c ! tag) = Some tag)
   \<and> (\<forall>tag<CHEEZE_QUEUE_SIZE. rq_item (cz_reqs c ! tag) \<in> {None, Some tag})"

lemma tags_ok_init: "tags_ok (cheeze_init users)"
  by (auto simp: tags_ok_def cheeze_init_def)

lemma tags_count: "tags_ok c \<Longrightarrow> length (cz_free c) + length (cz_processing c) = CHEEZE_QUEUE_SIZE"
  unfolding tags_ok_def by (metis card_lessThan distinct_card length_append)

lemma push_Done:
  assumes "tags_ok c" and "cz_free c = tag # rest"
  shows "cheeze_push c user = Done (cz_seq c,
           c\<lparr>cz_slots := cz_slots c - 1, cz_free := rest, cz_processing := cz_processing c @ [tag],
             cz_users := (cz_users c)(user := (cz_users c user)\<lparr>u_id := tag\<rparr>),
             cz_reqs := (cz_reqs c)[tag := (cz_reqs c ! tag)\<lparr>rq_user := user, acked := 0, rq_item := Some tag\<rparr>],
             cz_seq := cz_seq c + 1, cz_qd := cz_qd c + 1, cz_items := cz_items c + 1\<rparr>)"
proof -
  have "tag < length (cz_reqs c)" using assms by (auto simp: tags_ok_def)
  with assms show ?thesis by (simp add: cheeze_push_def tags_ok_def)
qed

lemma push_Block: "tags_ok c \<Longrightarrow> cz_free c = [] \<Longrightarrow> cheeze_push c user = Block"
  by (simp add: cheeze_push_def tags_ok_def)

lemma tags_ok_push:
  assumes "tags_ok c" and "cheeze_push c user = Done (sq, c')"
  shows "tags_ok c'" and "\<exists>tag. cz_free c = tag # cz_free c' \<and> cz_processing c' = cz_processing c @ [tag]
           \<and> tag < CHEEZE_QUEUE_SIZE \<and> tag \<notin> set (cz_processing c) \<and> u_id (cz_users c' user) = tag"
    and "sq = cz_seq c" and "cz_seq c' = cz_seq c + 1"
proof -
  obtain tag rest where f: "cz_free c = tag # rest"
    using assms push_Block by (cases "cz_free c") auto
  note c' = push_Done [OF assms(1) f, of user]
  have tag: "tag < CHEEZE_QUEUE_SIZE" "tag \<notin> set (cz_processing c)" "tag \<notin> set rest"
    using assms(1) f by (auto simp: tags_ok_def)
  have items: "rq_item (cz_reqs c' ! t) = (if t = tag then Some tag else rq_item (cz_reqs c ! t))"
    if "t < CHEEZE_QUEUE_SIZE" for t
    using assms c' that by (auto simp: tags_ok_def nth_list_update)
  have in_range: "t < CHEEZE_QUEUE_SIZE" if "t \<in> set (cz_processing c)" for t
    using assms(1) that by (auto simp: tags_ok_def)
  have lists: "cz_free c' = rest" "cz_processing c' = cz_processing c @ [tag]" "cz_slots c' = cz_slots c - 1"
      "cz_qd c' = cz_qd c + 1" "length (cz_reqs c') = length (cz_reqs c)"
    using assms(2) c' by auto
  show "tags_ok c'"
    unfolding tags_ok_def lists using assms(1) f tag items in_range
    by (intro conjI) (simp_all add: tags_ok_def insert_commute)
  show "\<exists>tag. cz_free c = tag # cz_free c' \<and> cz_processing c' = cz_processing c @ [tag]
           \<and> tag < CHEEZE_QUEUE_SIZE \<and> tag \<notin> set (cz_processing c) \<and> u_id (cz_users c' user) = tag"
    using assms(2) c' f tag by auto
  show "sq = cz_seq c" "cz_seq c' = cz_seq c + 1" using assms(2) c' by auto
qed

lemma length_filter_neq: "distinct xs \<Longrightarrow> x \<in> set xs \<Longrightarrow> length (filter (\<lambda>y. y \<noteq> x) xs) = length xs - 1"
proof -
  assume "distinct xs" "x \<in> set xs"
  moreover have "filter (\<lambda>y. y \<noteq> x) xs = removeAll x xs"
    unfolding removeAll_filter_not_eq by (rule filter_cong) auto
  ultimately show ?thesis by (simp add: distinct_remove1_removeAll [symmetric] length_remove1)
qed

lemma move_pop_Done:
  assumes "tags_ok c" and "tag \<in> set (cz_processing c)"
  shows "cheeze_move_pop c tag = Done (c\<lparr>cz_free := cz_free c @ [tag],
           cz_processing := filter (\<lambda>t. t \<noteq> tag) (cz_processing c), cz_qd := cz_qd c - 1, cz_slots := cz_slots c + 1\<rparr>)"
proof -
  have "tag < CHEEZE_QUEUE_SIZE" "tag \<notin> set (cz_free c)" using assms by (auto simp: tags_ok_def)
  moreover from this have "filter (\<lambda>t. t \<noteq> tag) (cz_free c) = cz_free c" by (auto simp: filter_id_conv)
  ultimately show ?thesis using assms by (simp add: cheeze_move_pop_def tags_ok_def)
qed

lemma tags_ok_move_pop:
  assumes "tags_ok c" and "tag \<in> set (cz_processing c)" and "cheeze_move_pop c tag = Done c'"
  shows "tags_ok c'"
proof -
  have "distinct (cz_processing c)" using assms(1) by (simp add: tags_ok_def)
  then have len: "int (length (filter (\<lambda>t. t \<noteq> tag) (cz_processing c))) = int (length (cz_processing c)) - 1"
    using assms(2) length_pos_if_in_set [OF assms(2)] 
    by (simp add: length_filter_neq of_nat_diff Suc_leI)
  have c': "c' = c\<lparr>cz_free := cz_free c @ [tag], cz_processing := filter (\<lambda>t. t \<noteq> tag) (cz_processing c),
      cz_qd := cz_qd c - 1, cz_slots := cz_slots c + 1\<rparr>"
    using assms(3) move_pop_Done [OF assms(1,2)] by simp
  show ?thesis
    using assms(1,2) len unfolding c' tags_ok_def by (intro conjI) auto
qed

text \<open>
  Property C38: a tag is in use by at most one request.  From a consistent state a push
  never faults; it waits exactly when all tags are in flight, and otherwise takes a
  tag that is not in flight and returns the next sequence number.  Releasing a tag in
  flight makes it free again.  Both keep the semaphore, the queue depth and the lists
  consistent.
\<close>

theorem cheeze_tags_exclusive:
  assumes "tags_ok c"
  shows "(cheeze_push c user = Block \<longleftrightarrow> length (cz_processing c) = CHEEZE_QUEUE_SIZE)
       \<and> cheeze_push c user \<noteq> Fault
       \<and> (\<forall>sq c'. cheeze_push c user = Done (sq, c') \<longrightarrow>
            tags_ok c' \<and> sq = cz_seq c \<and> cz_seq c' = sq + 1
          \<and> u_id (cz_users c' user) \<notin> set (cz_processing c)
          \<and> cz_processing c' = cz_processing c @ [u_id (cz_users c' user)])
       \<and> (\<forall>tag\<in>set (cz_processing c). \<exists>c'. cheeze_free_io c tag = Done c' \<and> tags_ok c'
            \<and> cz_processing c' = filter (\<lambda>t. t \<noteq> tag) (cz_processing c) \<and> cz_free c' = cz_free c @ [tag])"
proof (intro conjI)
  have "cz_free c = [] \<longleftrightarrow> length (cz_processing c) = CHEEZE_QUEUE_SIZE"
    using tags_count [OF assms] by auto
  then show "cheeze_push c user = Block \<longleftrightarrow> length (cz_processing c) = CHEEZE_QUEUE_SIZE"
    using push_Block [OF assms] push_Done [OF assms] by (cases "cz_free c") auto
  show "cheeze_push c user \<noteq> Fault"
    using push_Block [OF assms] push_Done [OF assms] by (cases "cz_free c") auto
  show "\<forall>sq c'. cheeze_push c user = Done (sq, c') \<longrightarrow>
            tags_ok c' \<and> sq = cz_seq c \<and> cz_seq c' = sq + 1
          \<and> u_id (cz_users c' user) \<notin> set (cz_processing c)
          \<and> cz_processing c' = cz_processing c @ [u_id (cz_users c' user)]"
  proof (intro allI impI)
    fix sq c' assume push: "cheeze_push c user = Done (sq, c')"
    from tags_ok_push [OF assms push] show "tags_ok c' \<and> sq = cz_seq c \<and> cz_seq c' = sq + 1
          \<and> u_id (cz_users c' user) \<notin> set (cz_processing c)
          \<and> cz_processing c' = cz_processing c @ [u_id (cz_users c' user)]" by auto
  qed
  show "\<forall>tag\<in>set (cz_processing c). \<exists>c'. cheeze_free_io c tag = Done c' \<and> tags_ok c'
            \<and> cz_processing c' = filter (\<lambda>t. t \<noteq> tag) (cz_processing c) \<and> cz_free c' = cz_free c @ [tag]"
    using move_pop_Done [OF assms] tags_ok_move_pop [OF assms] by (simp add: cheeze_free_io_def)
qed

theorem cheeze_tags_exclusive_witness:
  "cheeze_push (cheeze_init (\<lambda>_. \<lparr>u_id = 0, u_buf_len = 0, u_buf = 0, u_ubuf_len = 0, u_ret_buf = None\<rparr>)) 5 \<noteq> Fault"
  using cheeze_tags_exclusive [OF tags_ok_init] by blast

section \<open>Buffers\<close>

lemma buf_in_page:
  assumes "k < 512"
  shows "k * CHEEZE_BUF_SIZE + CHEEZE_BUF_SIZE \<le> HP_SIZE"
  using mult_le_mono1 [of "Suc k" 512 CHEEZE_BUF_SIZE] assms by (simp add: HP_SIZE_def CHEEZE_BUF_SIZE_def)

lemma buf_step: "(a::nat) < b \<Longrightarrow> a * CHEEZE_BUF_SIZE + CHEEZE_BUF_SIZE \<le> b * CHEEZE_BUF_SIZE"
  using mult_le_mono1 [of "Suc a" b CHEEZE_BUF_SIZE] by simp

lemma get_buf_addr_eq:
  assumes "k < CHEEZE_QUEUE_SIZE"
  shows "get_buf_addr [p0, p1] k = (if k < 512 then p0 else p1) + (k mod 512) * CHEEZE_BUF_SIZE"
proof -
  have "ITEMS_PER_HP = 512" by (simp add: ITEMS_PER_HP_def HP_SIZE_def CHEEZE_BUF_SIZE_def)
  moreover have "k div 512 = (if k < 512 then 0 else 1)" using assms by (auto simp: CHEEZE_QUEUE_SIZE_def div_if)
  ultimately show ?thesis by (simp add: get_buf_addr_def)
qed

text \<open>
  The 2 MB buffers of two tags never overlap, and each lies inside one of
  the two 1 GB pages, when these are disjoint.
\<close>

lemma buffers_disjoint:
  assumes "i < CHEEZE_QUEUE_SIZE" and "j < CHEEZE_QUEUE_SIZE" and "i \<noteq> j"
    and "p0 + HP_SIZE \<le> p1 \<or> p1 + HP_SIZE \<le> p0"
  shows "(get_buf_addr [p0, p1] i + CHEEZE_BUF_SIZE \<le> get_buf_addr [p0, p1] j
          \<or> get_buf_addr [p0, p1] j + CHEEZE_BUF_SIZE \<le> get_buf_addr [p0, p1] i)
       \<and> (\<exists>p\<in>{p0, p1}. p \<le> get_buf_addr [p0, p1] i \<and> get_buf_addr [p0, p1] i + CHEEZE_BUF_SIZE \<le> p + HP_SIZE)"
proof -
  let ?pg = "\<lambda>k. if k < 512 then p0 else p1"
  note addr = get_buf_addr_eq [OF assms(1), of p0 p1] get_buf_addr_eq [OF assms(2), of p0 p1]
  note page = buf_in_page [of "i mod 512"] buf_in_page [of "j mod 512"]
  have "get_buf_addr [p0, p1] i + CHEEZE_BUF_SIZE \<le> get_buf_addr [p0, p1] j
      \<or> get_buf_addr [p0, p1] j + CHEEZE_BUF_SIZE \<le> get_buf_addr [p0, p1] i"
  proof (cases "(i < 512) = (j < 512)")
    case True
    have "i mod 512 \<noteq> j mod 512"
      using True assms(1-3) by (cases "i < 512") (auto simp: CHEEZE_QUEUE_SIZE_def mod_if)
    then show ?thesis
      using True buf_step [of "i mod 512" "j mod 512"] buf_step [of "j mod 512" "i mod 512"]
      unfolding addr by (cases "i mod 512" "j mod 512" rule: linorder_cases) simp_all
  next
    case False
    then show ?thesis using assms(4) page unfolding addr by (cases "i < 512") auto
  qed
  moreover have "\<exists>p\<in>{p0, p1}. p \<le> get_buf_addr [p0, p1] i \<and> get_buf_addr [p0, p1] i + CHEEZE_BUF_SIZE \<le> p + HP_SIZE"
    using page(1) unfolding addr by (intro bexI [of _ "?pg i"]) auto
  ultimately show ?thesis by blast
qed

section \<open>Receiving answers\<close>

text \<open>Whether the receiving thread itself releases the tag of an answered request.\<close>

definition recv_releases :: "cheeze_req \<Rightarrow> cheeze_req_user \<Rightarrow> bool" where
  "recv_releases rq ureq \<longleftrightarrow> u_ret_buf ureq = None \<or> \<not> rq_sync rq \<or> rq_transfer rq"

lemma tags_ok_frame:
  assumes "tags_ok c" and "cz_free c' = cz_free c" and "cz_processing c' = cz_processing c"
    and "cz_slots c' = cz_slots c" and "cz_qd c' = cz_qd c"
    and "map rq_item (cz_reqs c') = map rq_item (cz_reqs c)"
  shows "tags_ok c'"
proof -
  have len: "length (cz_reqs c') = length (cz_reqs c)" using assms(6) map_eq_imp_length_eq by blast
  then have "rq_item (cz_reqs c' ! t) = rq_item (cz_reqs c ! t)" if "t < CHEEZE_QUEUE_SIZE" for t
    using assms(1,6) that by (metis nth_map tags_ok_def)
  moreover have "t < CHEEZE_QUEUE_SIZE" if "t \<in> set (cz_processing c)" for t
    using assms(1) that by (auto simp: tags_ok_def)
  ultimately show ?thesis using assms(1) unfolding tags_ok_def assms(2-5) len by simp
qed

lemma items_complete [simp]:
  "tag < length (cz_reqs c) \<Longrightarrow> map rq_item (cz_reqs (complete_req c tag)) = map rq_item (cz_reqs c)"
  by (simp add: complete_req_def map_update) (metis list_update_id nth_map)

lemma complete_req_frame [simp]:
  "cz_free (complete_req c tag) = cz_free c" "cz_processing (complete_req c tag) = cz_processing c"
  "cz_slots (complete_req c tag) = cz_slots c" "cz_qd (complete_req c tag) = cz_qd c"
  "length (cz_reqs (complete_req c tag)) = length (cz_reqs c)"
  by (simp_all add: complete_req_def)

lemma tags_ok_complete: "tags_ok c \<Longrightarrow> tag < CHEEZE_QUEUE_SIZE \<Longrightarrow> tags_ok (complete_req c tag)"
  by (rule tags_ok_frame) (simp_all add: tags_ok_def)

lemma move_pop_frame:
  "cheeze_move_pop c tag = Done c' \<Longrightarrow> cz_reqs c' = cz_reqs c \<and> recv_event c' = recv_event c"
  by (auto simp: cheeze_move_pop_def split: if_splits option.splits)

lemma recv_mark_frame [simp]:
  "cz_free (recv_mark c tag) = cz_free c" "cz_processing (recv_mark c tag) = cz_processing c"
  "cz_slots (recv_mark c tag) = cz_slots c" "cz_qd (recv_mark c tag) = cz_qd c"
  "cz_reqs (recv_mark c tag) = cz_reqs c" "ureqs (recv_mark c tag) = ureqs c"
  "recv_event (recv_mark c tag) = recv_event c"
  by (simp_all add: recv_mark_def split: option.splits)

lemma tags_ok_mark: "tags_ok c \<Longrightarrow> tags_ok (recv_mark c tag)"
  by (rule tags_ok_frame) simp_all

lemma recv_dispatch_release:
  assumes "tags_ok c" and "tag \<in> set (cz_processing c)" and "recv_releases (cz_reqs c ! tag) (ureqs c ! tag)"
  shows "\<exists>c'. recv_dispatch c tag = Done c' \<and> tags_ok c' \<and> recv_event c' = recv_event c
           \<and> cz_free c' = cz_free c @ [tag] \<and> cz_processing c' = filter (\<lambda>t. t \<noteq> tag) (cz_processing c)
           \<and> acked (cz_reqs c' ! tag) = acked (cz_reqs c ! tag) + (if rq_sync (cz_reqs c ! tag) then 1 else 0)"
proof -
  have tag: "tag < CHEEZE_QUEUE_SIZE" "tag < length (cz_reqs c)" using assms(1,2) by (auto simp: tags_ok_def)
  let ?c = "if rq_sync (cz_reqs c ! tag) then complete_req c tag else c"
  have ok: "tags_ok ?c" using assms(1) tag by (simp add: tags_ok_complete)
  have mem: "tag \<in> set (cz_processing ?c)" using assms(2) by simp
  note pop = move_pop_Done [OF ok mem]
  have "recv_dispatch c tag = cheeze_move_pop ?c tag"
    using assms(3) by (auto simp: recv_dispatch_def recv_releases_def Let_def)
  with pop tags_ok_move_pop [OF ok mem pop] tag show ?thesis
    by (auto simp: complete_req_def)
qed

lemma recv_dispatch_keep:
  assumes "tags_ok c" and "tag \<in> set (cz_processing c)" and "\<not> recv_releases (cz_reqs c ! tag) (ureqs c ! tag)"
  shows "\<exists>c'. recv_dispatch c tag = Done c' \<and> tags_ok c' \<and> recv_event c' = recv_event c
           \<and> cz_free c' = cz_free c \<and> cz_processing c' = cz_processing c
           \<and> acked (cz_reqs c' ! tag) = acked (cz_reqs c ! tag) +
               (if rq_extra (cz_reqs c ! tag) = None \<or> u_ubuf_len (ureqs c ! tag) = 0 then 1 else 0)"
proof -
  have tag: "tag < CHEEZE_QUEUE_SIZE" "tag < length (cz_reqs c)" using assms(1,2) by (auto simp: tags_ok_def)
  have compl: "tags_ok (complete_req (c\<lparr>cz_users := u\<rparr>) tag)" for u
    by (rule tags_ok_complete [OF tags_ok_frame [OF assms(1)] tag(1)]) simp_all
  have mark: "tags_ok (c\<lparr>reada_done := d\<rparr>)" for d by (rule tags_ok_frame [OF assms(1)]) simp_all
  have acks: "acked (cz_reqs (complete_req (c\<lparr>cz_users := u\<rparr>) tag) ! tag) = acked (cz_reqs c ! tag) + 1" for u
    using tag by (simp add: complete_req_def)
  have ev: "recv_event (complete_req (c\<lparr>cz_users := u\<rparr>) tag) = recv_event c" for u
    by (simp add: complete_req_def)
  obtain y where "u_ret_buf (ureqs c ! tag) = Some y" "rq_sync (cz_reqs c ! tag)" "\<not> rq_transfer (cz_reqs c ! tag)"
    using assms(3) by (auto simp: recv_releases_def)
  then show ?thesis
    using compl mark acks ev
    by (cases "rq_extra (cz_reqs c ! tag)"; cases "u_ubuf_len (ureqs c ! tag) = 0")
      (simp_all add: recv_dispatch_def Let_def)
qed

text \<open>
  The receiving thread answers a request in flight without a fault and
  clears its flag.  It releases the tag itself exactly for requests without a return
  buffer, asynchronous ones and transfers; every other request keeps its tag for the
  caller to release.  A synchronous caller is woken once, unless it reads ahead.
\<close>

lemma recv_one_spec:
  assumes "tags_ok c" and "tag \<in> set (cz_processing c)" and "recv_event c ! tag \<noteq> 0"
    and "length (recv_event c) = CHEEZE_QUEUE_SIZE"
  shows "\<exists>c'. recv_one c tag = Done c' \<and> tags_ok c' \<and> recv_event c' = (recv_event c)[tag := 0]
           \<and> (tag \<in> set (cz_free c') \<longleftrightarrow> recv_releases (cz_reqs c ! tag) (ureqs c ! tag))
           \<and> acked (cz_reqs c' ! tag) = acked (cz_reqs c ! tag) +
               (if rq_sync (cz_reqs c ! tag) \<and>
                   (recv_releases (cz_reqs c ! tag) (ureqs c ! tag)
                    \<or> rq_extra (cz_reqs c ! tag) = None \<or> u_ubuf_len (ureqs c ! tag) = 0) then 1 else 0)"
proof -
  let ?m = "recv_mark c tag"
  have ok: "tags_ok ?m" "tag \<in> set (cz_processing ?m)" using assms(1,2) by (simp_all add: tags_ok_mark)
  have clear: "tags_ok (d\<lparr>recv_event := e\<rparr>)" if "tags_ok d" for d e
    by (rule tags_ok_frame [OF that]) simp_all
  have notfree: "tag \<notin> set (cz_free c)" using assms(1,2) by (auto simp: tags_ok_def)
  show ?thesis
  proof (cases "recv_releases (cz_reqs c ! tag) (ureqs c ! tag)")
    case True
    with recv_dispatch_release [OF ok] obtain c' where "recv_dispatch ?m tag = Done c'" "tags_ok c'"
      "recv_event c' = recv_event c" "cz_free c' = cz_free c @ [tag]"
      "acked (cz_reqs c' ! tag) = acked (cz_reqs c ! tag) + (if rq_sync (cz_reqs c ! tag) then 1 else 0)"
      by auto
    with True clear assms(3) show ?thesis by (simp add: recv_one_def)
  next
    case False
    then have "rq_sync (cz_reqs c ! tag)" by (simp add: recv_releases_def)
    from False recv_dispatch_keep [OF ok] obtain c' where "recv_dispatch ?m tag = Done c'" "tags_ok c'"
      "recv_event c' = recv_event c" "cz_free c' = cz_free c"
      "acked (cz_reqs c' ! tag) = acked (cz_reqs c ! tag) +
         (if rq_extra (cz_reqs c ! tag) = None \<or> u_ubuf_len (ureqs c ! tag) = 0 then 1 else 0)"
      by auto
    with False clear assms(3) notfree \<open>rq_sync (cz_reqs c ! tag)\<close> show ?thesis by (simp add: recv_one_def)
  qed
qed

lemma queue_size_pos: "0 < CHEEZE_QUEUE_SIZE"
  by (simp add: CHEEZE_QUEUE_SIZE_def)

lemma first_push:
  "\<exists>c. cheeze_push (cheeze_init users) user = Done (0, c) \<and> tags_ok c \<and> cz_processing c = [0]
     \<and> recv_event c = replicate CHEEZE_QUEUE_SIZE 0 \<and> rq_sync (cz_reqs c ! 0) = False
     \<and> cz_free c = [1..<CHEEZE_QUEUE_SIZE] \<and> rq_item (cz_reqs c ! 0) = Some 0"
proof -
  have free: "cz_free (cheeze_init users) = 0 # [1..<CHEEZE_QUEUE_SIZE]"
    using queue_size_pos by (simp add: cheeze_init_def upt_conv_Cons)
  note push = push_Done [OF tags_ok_init free, of user]
  from tags_ok_push(1) [OF tags_ok_init push] push queue_size_pos show ?thesis
    by (simp add: cheeze_init_def)
qed

section \<open>Releasing a tag twice\<close>

fun push_many :: "cheeze \<Rightarrow> nat list \<Rightarrow> cheeze res" where
  "push_many c [] = Done c"
| "push_many c (user # users) = res_bind (cheeze_push c user) (\<lambda>(_, c). push_many c users)"

lemma push_many_underflow:
  assumes "\<forall>tag\<in>set (cz_free c). tag < length (cz_reqs c)" and "length (cz_free c) < cz_slots c"
    and "length users = length (cz_free c) + 1"
  shows "push_many c users = Fault"
  using assms
proof (induction users arbitrary: c)
  case (Cons user users)
  note IH = Cons.IH and prems = Cons.prems
  show ?case
  proof (cases "cz_free c")
    case Nil
    with prems show ?thesis by (simp add: cheeze_push_def)
  next
    case (Cons tag rest)
    then obtain sq c1 where push: "cheeze_push c user = Done (sq, c1)" "cz_free c1 = rest"
        "cz_slots c1 = cz_slots c - 1" "length (cz_reqs c1) = length (cz_reqs c)"
      using prems(1,2) by (simp add: cheeze_push_def)
    have "push_many c1 users = Fault"
    proof (rule IH)
      show "\<forall>tag\<in>set (cz_free c1). tag < length (cz_reqs c1)" using prems(1) Cons push by simp
      show "length (cz_free c1) < cz_slots c1" using prems(2) Cons push by simp
      show "length users = length (cz_free c1) + 1" using prems(3) Cons push by simp
    qed
    with push(1) show ?thesis by simp
  qed
qed simp

lemma double_release:
  assumes "tags_ok c" and "tag \<in> set (cz_free c)" and "rq_item (cz_reqs c ! tag) = Some tag"
  shows "\<exists>c'. cheeze_free_io c tag = Done c' \<and> \<not> tags_ok c'
           \<and> cz_slots c' = length (cz_free c') + 1 \<and> cz_qd c' = int (length (cz_processing c')) - 1
           \<and> (\<forall>users. length users = cz_slots c' \<longrightarrow> push_many c' users = Fault)"
proof -
  have tag: "tag < length (cz_reqs c)" "tag \<notin> set (cz_processing c)" "distinct (cz_free c)"
    using assms(1,2) by (auto simp: tags_ok_def)
  let ?c = "c\<lparr>cz_free := filter (\<lambda>t. t \<noteq> tag) (cz_free c) @ [tag], cz_qd := cz_qd c - 1, cz_slots := cz_slots c + 1\<rparr>"
  have "filter (\<lambda>t. t \<noteq> tag) (cz_processing c) = cz_processing c" using tag(2) by (auto simp: filter_id_conv)
  then have free: "cheeze_free_io c tag = Done ?c"
    using assms(2,3) tag(1) by (simp add: cheeze_free_io_def cheeze_move_pop_def)
  have len: "length (cz_free ?c) = length (cz_free c)"
    using length_filter_neq [OF tag(3) assms(2)] length_pos_if_in_set [OF assms(2)] by simp
  then have slots: "cz_slots ?c = length (cz_free ?c) + 1" "cz_qd ?c = int (length (cz_processing ?c)) - 1"
    using assms(1) by (simp_all add: tags_ok_def)
  have "push_many ?c users = Fault" if "length users = cz_slots ?c" for users
  proof (rule push_many_underflow)
    show "\<forall>t\<in>set (cz_free ?c). t < length (cz_reqs ?c)" using assms(1) tag(1) by (auto simp: tags_ok_def)
    show "length (cz_free ?c) < cz_slots ?c" using slots(1) by linarith
    show "length users = length (cz_free ?c) + 1" using slots(1) that by linarith
  qed
  moreover have "\<not> tags_ok ?c" using slots(1) unfolding tags_ok_def by linarith
  ultimately show ?thesis using free slots by blast
qed

end
