(* ===== verification/Kevin_Rbtree.thy ===== *)
theory Kevin_Rbtree
  imports Kevin_Keys "HOL-Library.Tree"
begin

text \<open>
  The in-memory key-value store of \<open>kevinfs/rbtreekv.c\<close>: a search tree per database,
  cursors over it, and the variant that keeps metadata of evicted inodes.  The tree is
  the kernel's red-black tree; its rebalancing (\<open>rb_insert_color\<close>, \<open>rb_erase\<close>) is a
  parameter, and the code relies only on what it does to the in-order sequence.
  A node is its key and value; node pointers are represented by the key of the node.
\<close>

section \<open>Trees and the rebalancing library\<close>

type_synonym 'v kvtree = "(byte list \<times> 'v) tree"

text \<open>
  \<open>rb_insert_color\<close> rotates and recolours: the in-order sequence stays.  \<open>rb_erase\<close>
  unlinks the node it is given.
\<close>

definition rb_lib_ok ::
    "(byte list \<Rightarrow> 'v kvtree \<Rightarrow> 'v kvtree) \<Rightarrow> (byte list \<Rightarrow> 'v kvtree \<Rightarrow> 'v kvtree) \<Rightarrow> bool" where
  "rb_lib_ok ic er \<longleftrightarrow>
     (\<forall>k t. inorder (ic k t) = inorder t) \<and>
     (\<forall>k t. distinct (map fst (inorder t)) \<longrightarrow> inorder (er k t) = filter (\<lambda>x. fst x \<noteq> k) (inorder t))"

fun find_val_with_key :: "'v kvtree \<Rightarrow> byte list \<Rightarrow> (byte list \<times> 'v) option" where
  "find_val_with_key \<langle>\<rangle> key = None"
| "find_val_with_key \<langle>l, tmp, r\<rangle> key =
     (let result = env_keycmp key (fst tmp) in
      if result < 0 then find_val_with_key l key
      else if result > 0 then find_val_with_key r key
      else Some tmp)"

text \<open>
  The nodes \<open>rb_prev\<close> visits from the node with key \<open>k\<close> on, and the walk of
  \<open>find_val_with_key_ge\<close> along them.
\<close>

definition preds :: "'v kvtree \<Rightarrow> byte list \<Rightarrow> (byte list \<times> 'v) list" where
  "preds t k = rev (takeWhile (\<lambda>x. fst x \<noteq> k) (inorder t))"

definition rb_next :: "'v kvtree \<Rightarrow> byte list \<Rightarrow> (byte list \<times> 'v) option" where
  "rb_next t k =
     (case dropWhile (\<lambda>x. fst x \<noteq> k) (inorder t) of _ # y # _ \<Rightarrow> Some y | _ \<Rightarrow> None)"

fun ge_back :: "byte list \<Rightarrow> byte list \<times> 'v \<Rightarrow> (byte list \<times> 'v) list \<Rightarrow> byte list \<times> 'v" where
  "ge_back key tmp [] = tmp"
| "ge_back key tmp (node # nodes) =
     (let nxt = tmp; tmp = node; result = env_keycmp key (fst tmp) in
      if result = 0 then tmp
      else if result > 0 then nxt
      else ge_back key tmp nodes)"

fun ge_down :: "'v kvtree \<Rightarrow> 'v kvtree \<Rightarrow> byte list \<Rightarrow> (byte list \<times> 'v) option" where
  "ge_down root \<langle>\<rangle> key = None"
| "ge_down root \<langle>l, tmp, r\<rangle> key =
     (let result = env_keycmp key (fst tmp) in
      if result < 0 then Some (ge_back key tmp (preds root (fst tmp)))
      else if result > 0 then ge_down root r key
      else Some tmp)"

definition find_val_with_key_ge :: "'v kvtree \<Rightarrow> byte list \<Rightarrow> (byte list \<times> 'v) option" where
  "find_val_with_key_ge t key = ge_down t t key"

text \<open>The descent of \<open>rb_kv_insert\<close> to the empty place, where \<open>rb_link_node\<close> hangs the node.\<close>

fun rb_link :: "'v kvtree \<Rightarrow> byte list \<times> 'v \<Rightarrow> 'v kvtree option" where
  "rb_link \<langle>\<rangle> node = Some \<langle>\<langle>\<rangle>, node, \<langle>\<rangle>\<rangle>"
| "rb_link \<langle>l, this, r\<rangle> node =
     (let result = env_keycmp (fst node) (fst this) in
      if result < 0 then do { l \<leftarrow> rb_link l node; Some \<langle>l, this, r\<rangle> }
      else if result > 0 then do { r \<leftarrow> rb_link r node; Some \<langle>l, this, r\<rangle> }
      else None)"

definition rb_kv_insert ::
    "(byte list \<Rightarrow> 'v kvtree \<Rightarrow> 'v kvtree) \<Rightarrow> 'v kvtree \<Rightarrow> byte list \<times> 'v \<Rightarrow> int \<times> 'v kvtree" where
  "rb_kv_insert ic t node =
     (case rb_link t node of None \<Rightarrow> (- 1, t) | Some t' \<Rightarrow> (0, ic (fst node) t'))"

text \<open>Assigning the value of the node a search returned.\<close>

fun set_node_val :: "'v kvtree \<Rightarrow> byte list \<Rightarrow> 'v \<Rightarrow> 'v kvtree" where
  "set_node_val \<langle>\<rangle> key v = \<langle>\<rangle>"
| "set_node_val \<langle>l, tmp, r\<rangle> key v =
     (let result = env_keycmp key (fst tmp) in
      if result < 0 then \<langle>set_node_val l key v, tmp, r\<rangle>
      else if result > 0 then \<langle>l, tmp, set_node_val r key v\<rangle>
      else \<langle>l, (fst tmp, v), r\<rangle>)"

fun free_rb_tree :: "'v kvtree \<Rightarrow> (byte list \<times> 'v) list" where
  "free_rb_tree \<langle>\<rangle> = []"
| "free_rb_tree \<langle>l, node, r\<rangle> = free_rb_tree l @ free_rb_tree r @ [node]"

section \<open>The store\<close>

text \<open>
  A database and the module's mutex.  Taking the mutex while it is held never
  returns.
\<close>

record 'v rbdb =
  kv :: "'v kvtree"
  rb_lock :: bool

definition mutex_lock :: "'v rbdb \<Rightarrow> 'v rbdb option" where
  "mutex_lock db = (if rb_lock db then None else Some (db\<lparr>rb_lock := True\<rparr>))"

definition mutex_unlock :: "'v rbdb \<Rightarrow> 'v rbdb" where
  "mutex_unlock db = db\<lparr>rb_lock := False\<rparr>"

text \<open>\<open>_dbt_copy\<close>: a fresh object with the bytes of the source, or \<open>-ENOMEM\<close>.\<close>

definition dbt_copy_bytes :: "(nat \<Rightarrow> byte list option) \<Rightarrow> byte list \<Rightarrow> (int + byte list) option" where
  "dbt_copy_bytes km from =
     (case km (length from) of
        None \<Rightarrow> Some (Inl (- ENOMEM))
      | Some b \<Rightarrow> do { b \<leftarrow> poke 0 from b; Some (Inr b) })"

definition must_copy :: "(nat \<Rightarrow> byte list option) \<Rightarrow> byte list \<Rightarrow> byte list option" where
  "must_copy km from = do {
     r \<leftarrow> dbt_copy_bytes km from;
     case r of Inl _ \<Rightarrow> None | Inr b \<Rightarrow> Some b }"

definition db_get :: "byte list rbdb \<Rightarrow> byte list \<Rightarrow> dbt \<Rightarrow> (int \<times> dbt \<times> byte list rbdb) option" where
  "db_get db key data = do {
     db \<leftarrow> mutex_lock db;
     case find_val_with_key (kv db) key of
       None \<Rightarrow> Some (DB_NOTFOUND, data, mutex_unlock db)
     | Some node \<Rightarrow> do {
         buf \<leftarrow> d_data data;
         val \<leftarrow> peek 0 (unat (d_size data)) (snd node);
         buf \<leftarrow> poke 0 val buf;
         Some (int (length (snd node)), data\<lparr>d_data := Some buf\<rparr>, mutex_unlock db) } }"

definition db_del ::
    "(byte list \<Rightarrow> 'v kvtree \<Rightarrow> 'v kvtree) \<Rightarrow> 'v rbdb \<Rightarrow> byte list \<Rightarrow> (int \<times> 'v rbdb) option" where
  "db_del er db key = do {
     db \<leftarrow> mutex_lock db;
     case find_val_with_key (kv db) key of
       None \<Rightarrow> Some (DB_NOTFOUND, mutex_unlock db)
     | Some node \<Rightarrow> Some (0, mutex_unlock (db\<lparr>kv := er (fst node) (kv db)\<rparr>)) }"

definition db_put ::
    "(nat \<Rightarrow> byte list option) \<Rightarrow> (byte list \<Rightarrow> byte list kvtree \<Rightarrow> byte list kvtree) \<Rightarrow>
     byte list rbdb \<Rightarrow> byte list \<Rightarrow> byte list \<Rightarrow> (int \<times> byte list rbdb) option" where
  "db_put km ic db key data = do {
     db \<leftarrow> mutex_lock db;
     case find_val_with_key (kv db) key of
       Some node \<Rightarrow> do {
         val \<leftarrow> must_copy km data;
         Some (0, mutex_unlock (db\<lparr>kv := set_node_val (kv db) (fst node) val\<rparr>)) }
     | None \<Rightarrow> do {
         k \<leftarrow> must_copy km key;
         val \<leftarrow> must_copy km data;
         let (ret, t) = rb_kv_insert ic (kv db) (k, val);
         bug_on (ret \<noteq> 0);
         Some (ret, mutex_unlock (db\<lparr>kv := t\<rparr>)) } }"

text \<open>
  \<open>db_update\<close> writes \<open>ulen\<close> bytes at \<open>offset\<close>; for a missing key it inserts the value
  with the bytes of its page around them cleared.
\<close>

definition db_update ::
    "(nat \<Rightarrow> byte list option) \<Rightarrow> (byte list \<Rightarrow> byte list kvtree \<Rightarrow> byte list kvtree) \<Rightarrow>
     byte list rbdb \<Rightarrow> byte list \<Rightarrow> dbt \<Rightarrow> nat \<Rightarrow> (int \<times> byte list rbdb) option" where
  "db_update km ic db key data offset = do {
     db \<leftarrow> mutex_lock db;
     src \<leftarrow> d_data data;
     let ulen = unat (d_ulen data);
     db \<leftarrow>
       (case find_val_with_key (kv db) key of
          Some node \<Rightarrow> do {
            b \<leftarrow> peek offset ulen src;
            val \<leftarrow> poke offset b (snd node);
            Some (db\<lparr>kv := set_node_val (kv db) (fst node) val\<rparr>) }
        | None \<Rightarrow> do {
            k \<leftarrow> must_copy km key;
            s \<leftarrow> peek 0 (unat (d_size data)) src;
            val \<leftarrow> must_copy km s;
            val \<leftarrow> poke 0 (replicate offset 0) val;
            bug_on (offset + ulen > PAGE_SIZE);
            val \<leftarrow> poke (offset + ulen) (replicate (PAGE_SIZE - offset - ulen) 0) val;
            let (_, t) = rb_kv_insert ic (kv db) (k, val);
            Some (db\<lparr>kv := t\<rparr>) });
     Some (0, mutex_unlock db) }"

definition db_close :: "'v rbdb \<Rightarrow> int \<times> (byte list \<times> 'v) list" where
  "db_close db = (0, free_rb_tree (kv db))"

section \<open>Cursors\<close>

record dbc_wrap =
  c_node :: "byte list option"
  c_left :: "byte list option"
  c_right :: "byte list option"

definition db_cursor :: "(nat \<Rightarrow> byte list option) \<Rightarrow> nat \<Rightarrow> int + dbc_wrap" where
  "db_cursor km wrap_size =
     (case km wrap_size of
        None \<Rightarrow> Inl (- ENOMEM)
      | Some _ \<Rightarrow> Inr \<lparr>c_node = None, c_left = None, c_right = None\<rparr>)"

definition dbc_c_set_bounds ::
    "(nat \<Rightarrow> byte list option) \<Rightarrow> dbc_wrap \<Rightarrow> byte list \<Rightarrow> byte list \<Rightarrow> (int \<times> dbc_wrap) option" where
  "dbc_c_set_bounds km wrap left_key right_key = do {
     l \<leftarrow> must_copy km left_key;
     r \<leftarrow> must_copy km right_key;
     Some (0, wrap\<lparr>c_left := Some l, c_right := Some r\<rparr>) }"

text \<open>
  A cursor on a node that has been freed is a memory fault.  The callback \<open>f\<close> of the \<open>getf\<close> calls is a parameter that transforms the caller's
  state \<open>extra\<close>; its result is ignored except by \<open>dbc_c_getf_current\<close>.
\<close>

definition dbc_c_getf_set_range ::
    "'v rbdb \<Rightarrow> dbc_wrap \<Rightarrow> byte list \<Rightarrow> (byte list \<times> 'v \<Rightarrow> 'e \<Rightarrow> int \<times> 'e) \<Rightarrow> 'e \<Rightarrow>
     (int \<times> dbc_wrap \<times> 'e \<times> 'v rbdb) option" where
  "dbc_c_getf_set_range db wrap key f extra =
     (let node = find_val_with_key_ge (kv db) key in do {
        db \<leftarrow> mutex_lock db;
        case node of
          None \<Rightarrow> Some (DB_NOTFOUND, wrap, extra, mutex_unlock db)
        | Some n \<Rightarrow> Some (0, wrap\<lparr>c_node := Some (fst n)\<rparr>, snd (f n extra), mutex_unlock db) })"

text \<open>
  \<open>dbc_c_getf_next\<close> returns from beyond the right bound without releasing the mutex.
\<close>

definition dbc_c_getf_next ::
    "'v rbdb \<Rightarrow> dbc_wrap \<Rightarrow> (byte list \<times> 'v \<Rightarrow> 'e \<Rightarrow> int \<times> 'e) \<Rightarrow> 'e \<Rightarrow>
     (int \<times> dbc_wrap \<times> 'e \<times> 'v rbdb) option" where
  "dbc_c_getf_next db wrap f extra = do {
     cur \<leftarrow> c_node wrap;
     db \<leftarrow> mutex_lock db;
     bug_on (Option.is_none (find_val_with_key (kv db) cur));
     case rb_next (kv db) cur of
       None \<Rightarrow> Some (DB_NOTFOUND, wrap\<lparr>c_node := None\<rparr>, extra, mutex_unlock db)
     | Some n \<Rightarrow>
         (if (case c_right wrap of None \<Rightarrow> False | Some rbound \<Rightarrow> env_keycmp (fst n) rbound > 0)
          then Some (DB_NOTFOUND, wrap\<lparr>c_node := None\<rparr>, extra, db)
          else Some (0, wrap\<lparr>c_node := Some (fst n)\<rparr>, snd (f n extra), mutex_unlock db)) }"

definition dbc_c_getf_current ::
    "'v rbdb \<Rightarrow> dbc_wrap \<Rightarrow> (byte list \<times> 'v \<Rightarrow> 'e \<Rightarrow> int \<times> 'e) \<Rightarrow> 'e \<Rightarrow> (int \<times> 'e) option" where
  "dbc_c_getf_current db wrap f extra = do {
     cur \<leftarrow> c_node wrap;
     n \<leftarrow> find_val_with_key (kv db) cur;
     Some (f n extra) }"

definition copy_out :: "dbt \<Rightarrow> dbt \<Rightarrow> byte list \<times> byte list \<Rightarrow> (dbt \<times> dbt) option" where
  "copy_out key vl node = do {
     kbuf \<leftarrow> d_data key;
     kbuf \<leftarrow> poke 0 (fst node) kbuf;
     vbuf \<leftarrow> d_data vl;
     val \<leftarrow> peek 0 (unat (d_size vl)) (snd node);
     vbuf \<leftarrow> poke 0 val vbuf;
     Some (key\<lparr>d_data := Some kbuf, d_size := of_nat (length (fst node))\<rparr>, vl\<lparr>d_data := Some vbuf\<rparr>) }"

definition dbc_c_get ::
    "byte list rbdb \<Rightarrow> dbc_wrap \<Rightarrow> dbt \<Rightarrow> dbt \<Rightarrow> u32 \<Rightarrow>
     (int \<times> dbc_wrap \<times> dbt \<times> dbt \<times> byte list rbdb) option" where
  "dbc_c_get db wrap key vl flags = do {
     db \<leftarrow> mutex_lock db;
     if flags = DB_SET_RANGE then
       (case find_val_with_key_ge (kv db) (dbt_bytes key) of
          None \<Rightarrow> Some (DB_NOTFOUND, wrap, key, vl, mutex_unlock db)
        | Some node \<Rightarrow> do {
            (key, vl) \<leftarrow> copy_out key vl node;
            Some (0, wrap\<lparr>c_node := Some (fst node)\<rparr>, key, vl, mutex_unlock db) })
     else do {
       cur \<leftarrow> c_node wrap;
       bug_on (Option.is_none (find_val_with_key (kv db) cur));
       case rb_next (kv db) cur of
         None \<Rightarrow> Some (DB_NOTFOUND, wrap\<lparr>c_node := None\<rparr>, key, vl, mutex_unlock db)
       | Some node \<Rightarrow>
           (if (case c_right wrap of None \<Rightarrow> False | Some rbound \<Rightarrow> env_keycmp (fst node) rbound > 0)
            then Some (DB_NOTFOUND, wrap\<lparr>c_node := None\<rparr>, key, vl, mutex_unlock db)
            else do {
              (key, vl) \<leftarrow> copy_out key vl node;
              Some (0, wrap\<lparr>c_node := Some (fst node)\<rparr>, key, vl, mutex_unlock db) }) } }"

section \<open>The metadata variant\<close>

text \<open>
  A node of the metadata tree: the slab object behind \<open>value.data\<close> (of
  \<open>INODE_SIZE\<close> bytes, \<^term>\<open>None\<close> after an eviction), \<open>value.size\<close> and \<open>is_updated\<close>.
\<close>

record cache_val =
  cv_data :: "byte list option"
  cv_size :: nat
  is_updated :: nat

definition dbt_copy_meta :: "(nat \<Rightarrow> byte list option) \<Rightarrow> cache_val \<Rightarrow> byte list \<Rightarrow> (int \<times> cache_val) option" where
  "dbt_copy_meta km to from =
     (case km INODE_SIZE of
        None \<Rightarrow> Some (- ENOMEM, to\<lparr>cv_data := None, cv_size := length from\<rparr>)
      | Some b \<Rightarrow> do { b \<leftarrow> poke 0 from b; Some (0, to\<lparr>cv_data := Some b, cv_size := length from\<rparr>) })"

definition find_val_with_key_cache :: "cache_val kvtree \<Rightarrow> byte list \<Rightarrow> (byte list \<times> cache_val) option" where
  "find_val_with_key_cache = find_val_with_key"

definition rb_kv_insert_cache ::
    "(byte list \<Rightarrow> cache_val kvtree \<Rightarrow> cache_val kvtree) \<Rightarrow> cache_val kvtree \<Rightarrow> byte list \<times> cache_val \<Rightarrow>
     int \<times> cache_val kvtree" where
  "rb_kv_insert_cache = rb_kv_insert"

definition db_cache_get :: "cache_val kvtree \<Rightarrow> byte list \<Rightarrow> dbt \<Rightarrow> (int \<times> dbt) option" where
  "db_cache_get t key vl =
     (case find_val_with_key_cache t key of
        None \<Rightarrow> Some (DB_NOTFOUND, vl)
      | Some node \<Rightarrow>
          (case cv_data (snd node) of
             None \<Rightarrow> Some (DB_FOUND_FREE, vl)
           | Some data \<Rightarrow> do {
               buf \<leftarrow> d_data vl;
               b \<leftarrow> peek 0 (unat (d_size vl)) data;
               buf \<leftarrow> poke 0 b buf;
               Some (0, vl\<lparr>d_data := Some buf\<rparr>) }))"

definition db_cache_del ::
    "(byte list \<Rightarrow> cache_val kvtree \<Rightarrow> cache_val kvtree) \<Rightarrow> cache_val kvtree \<Rightarrow> byte list \<Rightarrow> int \<times> cache_val kvtree" where
  "db_cache_del er t key =
     (case find_val_with_key_cache t key of
        None \<Rightarrow> (DB_NOTFOUND, t)
      | Some node \<Rightarrow> (0, er (fst node) t))"

definition db_cache_weak_del :: "cache_val kvtree \<Rightarrow> byte list \<Rightarrow> int \<times> cache_val kvtree" where
  "db_cache_weak_del t key =
     (case find_val_with_key_cache t key of
        None \<Rightarrow> (DB_NOTFOUND, t)
      | Some node \<Rightarrow> (0, set_node_val t (fst node) ((snd node)\<lparr>cv_data := None, is_updated := 0\<rparr>)))"

definition db_cache_put ::
    "(nat \<Rightarrow> byte list option) \<Rightarrow> (byte list \<Rightarrow> cache_val kvtree \<Rightarrow> cache_val kvtree) \<Rightarrow>
     cache_val kvtree \<Rightarrow> byte list \<Rightarrow> byte list \<Rightarrow> (int \<times> cache_val kvtree) option" where
  "db_cache_put km ic t key vl =
     (case find_val_with_key_cache t key of
        Some node \<Rightarrow>
          (case cv_data (snd node) of
             None \<Rightarrow> do {
               (_, v) \<leftarrow> dbt_copy_meta km (snd node) vl;
               Some (0, set_node_val t (fst node) v) }
           | Some data \<Rightarrow> do {
               data \<leftarrow> poke 0 vl data;
               Some (0, set_node_val t (fst node)
                          ((snd node)\<lparr>cv_data := Some data, is_updated := is_updated (snd node) + 1\<rparr>)) })
      | None \<Rightarrow> do {
          k \<leftarrow> must_copy km key;
          (_, v) \<leftarrow> dbt_copy_meta km \<lparr>cv_data = None, cv_size = 0, is_updated = 0\<rparr> vl;
          let (ret, t) = rb_kv_insert_cache ic t (k, v);
          Some (ret, t) })"

section \<open>What the search tree guarantees\<close>

definition kv_bst :: "'v kvtree \<Rightarrow> bool" where
  "kv_bst t \<longleftrightarrow> sorted_wrt (<) (map fst (inorder t))"

definition kv_map :: "'v kvtree \<Rightarrow> byte list \<rightharpoonup> 'v" where
  "kv_map t = map_of (inorder t)"

lemma kv_bst_Leaf [simp]: "kv_bst \<langle>\<rangle>"
  by (simp add: kv_bst_def)

lemma kv_bst_Node [simp]:
  "kv_bst \<langle>l, n, r\<rangle> \<longleftrightarrow> kv_bst l \<and> kv_bst r \<and> (\<forall>x\<in>set_tree l. fst x < fst n) \<and> (\<forall>x\<in>set_tree r. fst n < fst x)"
  by (auto simp: kv_bst_def sorted_wrt_append intro: less_trans)

lemma kv_bst_distinct: "kv_bst t \<Longrightarrow> distinct (map fst (inorder t))"
  unfolding kv_bst_def using strict_sorted_iff by blast

lemma kv_map_Some_iff: "kv_bst t \<Longrightarrow> kv_map t k = Some v \<longleftrightarrow> (k, v) \<in> set_tree t"
  by (simp add: kv_map_def kv_bst_distinct)

lemma kv_map_Node:
  "kv_map \<langle>l, n, r\<rangle> j =
     (case kv_map l j of Some v \<Rightarrow> Some v | None \<Rightarrow> if j = fst n then Some (snd n) else kv_map r j)"
  by (cases n) (auto simp: kv_map_def map_add_def split: option.splits)

lemma kv_map_left: "kv_bst \<langle>l, n, r\<rangle> \<Longrightarrow> fst n \<le> k \<Longrightarrow> kv_map l k = None"
  by (rule ccontr) (use kv_map_Some_iff [of l k] in \<open>auto dest!: bspec\<close>)

lemma kv_map_right: "kv_bst \<langle>l, n, r\<rangle> \<Longrightarrow> k \<le> fst n \<Longrightarrow> kv_map r k = None"
  by (rule ccontr) (use kv_map_Some_iff [of r k] in \<open>auto dest!: bspec\<close>)

text \<open>The three ways a descent continues, with what the map says about each.\<close>

lemma descent_cases:
  assumes "kv_bst \<langle>l, n, r\<rangle>"
  obtains (less) "env_keycmp k (fst n) < 0" "k < fst n" "kv_map \<langle>l, n, r\<rangle> k = kv_map l k"
  | (equal) "env_keycmp k (fst n) = 0" "k = fst n" "kv_map \<langle>l, n, r\<rangle> k = Some (snd n)"
  | (greater) "env_keycmp k (fst n) > 0" "fst n < k" "kv_map \<langle>l, n, r\<rangle> k = kv_map r k"
proof (cases k "fst n" rule: linorder_cases)
  case less
  with assms show ?thesis
    by (intro that(1)) (auto simp: kc.cmp_less kv_map_Node kv_map_right split: option.splits)
next
  case equal
  with assms show ?thesis
    by (intro that(2)) (auto simp: kc.cmp_eq kv_map_Node kv_map_left)
next
  case greater
  with assms show ?thesis
    by (intro that(3)) (auto simp: kc.cmp_greater kv_map_Node kv_map_left)
qed

lemma find_eq: "kv_bst t \<Longrightarrow> find_val_with_key t k = map_option (Pair k) (kv_map t k)"
proof (induction t)
  case Leaf
  then show ?case by (simp add: kv_map_def)
next
  case (Node l n r)
  from Node.prems show ?case
    by (cases rule: descent_cases [where k = k]) (use Node in auto)
qed

text \<open>The place where a new node is linked splits the in-order sequence at its key.\<close>

lemma rb_link_split:
  assumes "kv_bst t" and "kv_map t k = None"
  shows "\<exists>t' xs ys. rb_link t (k, v) = Some t' \<and> inorder t = xs @ ys \<and> inorder t' = xs @ (k, v) # ys
           \<and> (\<forall>x\<in>set xs. fst x < k) \<and> (\<forall>y\<in>set ys. k < fst y)"
  using assms
proof (induction t)
  case Leaf
  then show ?case by simp
next
  case (Node l n r)
  have parts: "kv_map l k = None" "kv_map r k = None" "k \<noteq> fst n"
    using Node.prems(2) by (auto simp: kv_map_def map_add_def split: option.splits if_splits)
  show ?case
  proof (cases "k < fst n")
    case True
    then have "env_keycmp k (fst n) < 0" by (simp add: kc.cmp_less)
    moreover obtain t' xs ys where "rb_link l (k, v) = Some t'" "inorder l = xs @ ys"
        "inorder t' = xs @ (k, v) # ys" "\<forall>x\<in>set xs. fst x < k" "\<forall>y\<in>set ys. k < fst y"
      using Node parts by auto
    moreover have "\<forall>x\<in>set_tree r. k < fst x" using Node.prems(1) True by (auto intro: less_trans)
    ultimately show ?thesis using True
      by (intro exI [of _ "\<langle>t', n, r\<rangle>"] exI [of _ xs] exI [of _ "ys @ n # inorder r"]) auto
  next
    case False
    with parts have gt: "fst n < k" by simp
    then have "env_keycmp k (fst n) > 0" by (simp add: kc.cmp_greater)
    moreover obtain t' xs ys where "rb_link r (k, v) = Some t'" "inorder r = xs @ ys"
        "inorder t' = xs @ (k, v) # ys" "\<forall>x\<in>set xs. fst x < k" "\<forall>y\<in>set ys. k < fst y"
      using Node parts by auto
    moreover have "\<forall>x\<in>set_tree l. fst x < k" using Node.prems(1) gt by (auto intro: less_trans)
    ultimately show ?thesis using gt
      by (intro exI [of _ "\<langle>l, n, t'\<rangle>"] exI [of _ "inorder l @ n # xs"] exI [of _ ys]) auto
  qed
qed

lemma map_of_middle:
  assumes "\<forall>x\<in>set xs. fst x < (k::'a::linorder)"
  shows "map_of (xs @ (k, v) # ys) = (map_of (xs @ ys))(k \<mapsto> v)"
proof -
  have "map_of xs k = None" using assms by (auto simp: map_of_eq_None_iff)
  then show ?thesis by (auto simp: map_add_def fun_eq_iff split: option.splits)
qed

lemma rb_insert_ok:
  assumes "kv_bst t" and "kv_map t k = None" and "\<And>j s. inorder (ic j s) = inorder s"
  shows "fst (rb_kv_insert ic t (k, v)) = 0"
    and "kv_bst (snd (rb_kv_insert ic t (k, v)))"
    and "kv_map (snd (rb_kv_insert ic t (k, v))) = (kv_map t)(k \<mapsto> v)"
proof -
  obtain t' xs ys where l: "rb_link t (k, v) = Some t'" "inorder t = xs @ ys" "inorder t' = xs @ (k, v) # ys"
      "\<forall>x\<in>set xs. fst x < k" "\<forall>y\<in>set ys. k < fst y"
    using rb_link_split [OF assms(1,2)] by blast
  then show "fst (rb_kv_insert ic t (k, v)) = 0" by (simp add: rb_kv_insert_def)
  show "kv_bst (snd (rb_kv_insert ic t (k, v)))"
    using l assms(1,3) by (auto simp: rb_kv_insert_def kv_bst_def sorted_wrt_append)
  show "kv_map (snd (rb_kv_insert ic t (k, v))) = (kv_map t)(k \<mapsto> v)"
    using l(1-3) assms(3) map_of_middle [OF l(4), of v ys] by (simp add: rb_kv_insert_def kv_map_def)
qed

lemma set_node_val_keys [simp]: "map fst (inorder (set_node_val t k v)) = map fst (inorder t)"
  by (induction t) (auto simp: Let_def)

lemma kv_bst_set_node_val [simp]: "kv_bst (set_node_val t k v) = kv_bst t"
  by (simp add: kv_bst_def)

lemma kv_map_set_node_val:
  "kv_bst t \<Longrightarrow> kv_map t k \<noteq> None \<Longrightarrow> kv_map (set_node_val t k v) = (kv_map t)(k \<mapsto> v)"
proof (induction t)
  case Leaf
  then show ?case by (simp add: kv_map_def)
next
  case (Node l n r)
  from Node.prems(1) show ?case
  proof (cases rule: descent_cases [where k = k])
    case less
    with Node show ?thesis by (auto simp: fun_eq_iff kv_map_Node split: option.splits)
  next
    case equal
    with Node.prems(1) kv_map_left [of l n r k] show ?thesis
      by (auto simp: fun_eq_iff kv_map_Node split: option.splits)
  next
    case greater
    with Node kv_map_left [of l n r k] show ?thesis by (auto simp: fun_eq_iff kv_map_Node split: option.splits)
  qed
qed

lemma rb_erase_ok:
  assumes "kv_bst t" and "inorder (er k t) = filter (\<lambda>x. fst x \<noteq> k) (inorder t)"
  shows "kv_bst (er k t)" and "kv_map (er k t) = (kv_map t)(k := None)"
proof -
  have "map fst (inorder (er k t)) = filter (\<lambda>j. j \<noteq> k) (map fst (inorder t))"
    by (simp add: assms(2) filter_map comp_def)
  then show "kv_bst (er k t)" using assms(1) by (simp add: kv_bst_def sorted_wrt_filter)
  have "map_of (filter (\<lambda>x. fst x \<noteq> k) xs) = (map_of xs)(k := None)" for xs :: "(byte list \<times> 'a) list"
    by (induction xs) (auto simp: fun_eq_iff)
  then show "kv_map (er k t) = (kv_map t)(k := None)" by (simp add: kv_map_def assms(2))
qed

text \<open>The walk back from a node beyond the key ends at the first node that is not before the key.\<close>

lemma ge_back_eq:
  assumes "sorted_wrt (<) (map fst (rev ps @ [tmp]))" and "key < fst tmp"
  shows "ge_back key tmp ps = hd (dropWhile (\<lambda>x. fst x < key) (rev ps @ [tmp]))"
  using assms
proof (induction ps arbitrary: tmp)
  case Nil
  then show ?case by auto
next
  case (Cons p ps)
  have sp: "sorted_wrt (<) (map fst (rev ps @ [p]))" using Cons.prems(1) by (simp add: sorted_wrt_append)
  have all: "dropWhile (\<lambda>x. fst x < key) (rev ps @ [p, tmp]) = dropWhile (\<lambda>x. fst x < key) [p, tmp]"
    if "key \<le> fst p" "\<forall>x\<in>set ps. fst x < key"
    using that by (subst dropWhile_append2) auto
  show ?case
  proof (cases key "fst p" rule: linorder_cases)
    case less
    then have "env_keycmp key (fst p) < 0" by (simp add: kc.cmp_less)
    moreover have "dropWhile (\<lambda>x. fst x < key) (rev ps @ [p]) \<noteq> []" using less by (auto simp: dropWhile_eq_Nil_conv)
    then have "hd (dropWhile (\<lambda>x. fst x < key) ((rev ps @ [p]) @ [tmp])) =
               hd (dropWhile (\<lambda>x. fst x < key) (rev ps @ [p]))"
      by (subst dropWhile_append) auto
    ultimately show ?thesis using Cons.IH [OF sp less] by simp
  next
    case equal
    moreover have "\<forall>x\<in>set ps. fst x < key" using sp equal by (auto simp: sorted_wrt_append)
    ultimately show ?thesis using all by (simp add: env_keycmp_eq [THEN iffD2])
  next
    case greater
    then have "env_keycmp key (fst p) > 0" by (simp add: kc.cmp_greater)
    moreover have "\<forall>x\<in>set (rev ps @ [p]). fst x < key" using sp greater
      by (auto simp: sorted_wrt_append intro: less_trans)
    then have "dropWhile (\<lambda>x. fst x < key) ((rev ps @ [p]) @ [tmp]) = dropWhile (\<lambda>x. fst x < key) [tmp]"
      by (subst dropWhile_append2) auto
    ultimately show ?thesis using Cons.prems(2) by auto
  qed
qed

definition first_ge :: "byte list \<Rightarrow> (byte list \<times> 'v) list \<Rightarrow> (byte list \<times> 'v) option" where
  "first_ge key xs = (case dropWhile (\<lambda>x. fst x < key) xs of [] \<Rightarrow> None | x # _ \<Rightarrow> Some x)"

lemma preds_eq:
  assumes "kv_bst t" and "inorder t = xs @ n # ys"
  shows "preds t (fst n) = rev xs"
proof -
  have "fst n \<notin> fst ` set xs" using kv_bst_distinct [OF assms(1)] assms(2) by auto
  then have "takeWhile (\<lambda>x. fst x \<noteq> fst n) (xs @ n # ys) = xs" by (subst takeWhile_append2) (auto simp: image_iff)
  then show ?thesis by (simp add: preds_def assms(2))
qed

lemma ge_down_eq:
  assumes "kv_bst root" and "inorder root = pre @ inorder t" and "\<forall>x\<in>set pre. fst x < key"
  shows "ge_down root t key = first_ge key (inorder root)"
  using assms(2,3)
proof (induction t arbitrary: pre)
  case Leaf
  then show ?case by (simp add: first_ge_def dropWhile_eq_Nil_conv [THEN iffD2])
next
  case (Node l n r)
  have root: "inorder root = (pre @ inorder l) @ n # inorder r" using Node.prems(1) by simp
  have sorted: "sorted_wrt (<) (map fst ((pre @ inorder l) @ [n]))"
    using assms(1) by (auto simp: kv_bst_def root sorted_wrt_append)
  show ?case
  proof (cases key "fst n" rule: linorder_cases)
    case less
    then have cmp: "env_keycmp key (fst n) < 0" by (simp add: kc.cmp_less)
    let ?d = "dropWhile (\<lambda>x. fst x < key) ((pre @ inorder l) @ [n])"
    have "?d \<noteq> []" using less by (auto simp: dropWhile_eq_Nil_conv)
    then have "first_ge key (((pre @ inorder l) @ [n]) @ inorder r) = Some (hd ?d)"
      unfolding first_ge_def by (cases ?d) (auto simp: dropWhile_append simp del: append_assoc)
    moreover have "ge_back key n (preds root (fst n)) = hd ?d"
      using ge_back_eq [of "rev (pre @ inorder l)" n key] sorted less preds_eq [OF assms(1) root] by simp
    ultimately show ?thesis using cmp by (simp add: root)
  next
    case equal
    then have "\<forall>x\<in>set (pre @ inorder l). fst x < key" using sorted by (auto simp: sorted_wrt_append)
    then have "dropWhile (\<lambda>x. fst x < key) (inorder root) = n # inorder r"
      unfolding root using equal by (subst dropWhile_append2) auto
    with equal show ?thesis by (simp add: first_ge_def env_keycmp_eq [THEN iffD2])
  next
    case greater
    then have "env_keycmp key (fst n) > 0" by (simp add: kc.cmp_greater)
    moreover have "\<forall>x\<in>set (pre @ inorder l @ [n]). fst x < key"
      using sorted greater by (auto simp: sorted_wrt_append intro: less_trans)
    moreover have "inorder root = (pre @ inorder l @ [n]) @ inorder r" by (simp add: root)
    ultimately show ?thesis using Node.IH(2) by simp
  qed
qed

lemma find_ge_eq: "kv_bst t \<Longrightarrow> find_val_with_key_ge t key = first_ge key (inorder t)"
  unfolding find_val_with_key_ge_def by (rule ge_down_eq [of _ "[]"]) simp_all

lemma first_ge_spec:
  assumes "sorted_wrt (<) (map fst xs)"
  shows "(first_ge key xs = Some n \<longleftrightarrow>
            n \<in> set xs \<and> key \<le> fst n \<and> (\<forall>m\<in>set xs. key \<le> fst m \<longrightarrow> m = n \<or> fst n < fst m))
       \<and> (first_ge key xs = None \<longleftrightarrow> (\<forall>m\<in>set xs. fst m < key))"
  using assms
proof (induction xs)
  case (Cons x xs)
  show ?case
  proof (cases "fst x < key")
    case True
    with Cons show ?thesis by (auto simp: first_ge_def)
  next
    case False
    with Cons.prems show ?thesis by (fastforce simp: first_ge_def)
  qed
qed (simp add: first_ge_def)

text \<open>
  \<open>find_val_with_key_ge\<close> returns the node with the least key that is not
  below the key asked for, and nothing exactly when every key is below it.
\<close>

lemma find_ge_least:
  assumes "kv_bst t"
  shows "(find_val_with_key_ge t key = Some n \<longleftrightarrow>
            n \<in> set_tree t \<and> key \<le> fst n \<and> (\<forall>m\<in>set_tree t. key \<le> fst m \<longrightarrow> m = n \<or> fst n < fst m))
       \<and> (find_val_with_key_ge t key = None \<longleftrightarrow> (\<forall>m\<in>set_tree t. fst m < key))"
  using first_ge_spec [of "inorder t" key n] assms by (simp add: find_ge_eq kv_bst_def)

definition db_inv :: "'v rbdb \<Rightarrow> bool" where
  "db_inv db \<longleftrightarrow> kv_bst (kv db) \<and> \<not> rb_lock db"

definition memory_ok :: "(nat \<Rightarrow> byte list option) \<Rightarrow> bool" where
  "memory_ok km \<longleftrightarrow> (\<forall>n. \<exists>b. km n = Some b \<and> length b = n)"

lemma must_copy_ok [simp]: "memory_ok km \<Longrightarrow> must_copy km b = Some b"
proof -
  assume "memory_ok km"
  then obtain c where "km (length b) = Some c" "length c = length b" by (auto simp: memory_ok_def)
  then show ?thesis by (simp add: must_copy_def dbt_copy_bytes_def)
qed

lemma db_put_ok:
  assumes "rb_lib_ok ic er" and "memory_ok km" and "db_inv db"
  shows "\<exists>db'. db_put km ic db key data = Some (0, db') \<and> db_inv db'
           \<and> kv_map (kv db') = (kv_map (kv db))(key \<mapsto> data)"
proof (cases "kv_map (kv db) key")
  case None
  with assms rb_insert_ok [of "kv db" key ic data] show ?thesis
    by (auto simp: db_put_def mutex_lock_def mutex_unlock_def db_inv_def rb_lib_ok_def find_eq
          case_prod_unfold)
next
  case (Some v)
  with assms show ?thesis
    by (auto simp: db_put_def mutex_lock_def mutex_unlock_def db_inv_def find_eq kv_map_set_node_val)
qed

lemma db_del_ok:
  assumes "rb_lib_ok ic er" and "db_inv db"
  shows "\<exists>db'. db_del er db key = Some (if kv_map (kv db) key = None then DB_NOTFOUND else 0, db') \<and> db_inv db'
           \<and> kv_map (kv db') = (kv_map (kv db))(key := None)"
proof (cases "kv_map (kv db) key")
  case None
  with assms show ?thesis
    by (auto simp: db_del_def mutex_lock_def mutex_unlock_def db_inv_def find_eq fun_upd_idem)
next
  case (Some v)
  from assms have "inorder (er key (kv db)) = filter (\<lambda>x. fst x \<noteq> key) (inorder (kv db))"
    by (simp add: rb_lib_ok_def db_inv_def kv_bst_distinct)
  with Some assms rb_erase_ok [of "kv db" er key] show ?thesis
    by (auto simp: db_del_def mutex_lock_def mutex_unlock_def db_inv_def find_eq)
qed

text \<open>With any rebalancing library that keeps the in-order sequence, the store is a key-value store.\<close>

lemma rb_kv_store:
  assumes "rb_lib_ok ic er" and "memory_ok km"
  shows "kv_store db_inv (\<lambda>db. kv_map (kv db))
           (\<lambda>db k v. map_option snd (db_put km ic db k v)) (\<lambda>db k. map_option snd (db_del er db k))"
proof
  fix db :: "byte list rbdb" and k v
  assume "db_inv db"
  then show "\<exists>s'. map_option snd (db_put km ic db k v) = Some s' \<and> db_inv s'
               \<and> kv_map (kv s') = (kv_map (kv db))(k \<mapsto> v)"
    using db_put_ok [OF assms, of db k v] by auto
next
  fix db :: "byte list rbdb" and k
  assume "db_inv db"
  then show "\<exists>s'. map_option snd (db_del er db k) = Some s' \<and> db_inv s'
               \<and> kv_map (kv s') = (kv_map (kv db))(k := None)"
    using db_del_ok [OF assms(1), of db k] by auto
qed

text \<open>
  An executable library that satisfies the contract: no rotation on insertion, and a
  deletion that rebuilds the tree as a right spine.
\<close>

fun spine :: "'a list \<Rightarrow> 'a tree" where
  "spine [] = \<langle>\<rangle>"
| "spine (x # xs) = \<langle>\<langle>\<rangle>, x, spine xs\<rangle>"

definition spine_erase :: "byte list \<Rightarrow> 'v kvtree \<Rightarrow> 'v kvtree" where
  "spine_erase k t = spine (filter (\<lambda>x. fst x \<noteq> k) (inorder t))"

lemma inorder_spine [simp]: "inorder (spine xs) = xs"
  by (induction xs) auto

lemma spine_lib_ok: "rb_lib_ok (\<lambda>_ t. t) spine_erase"
  by (simp add: rb_lib_ok_def spine_erase_def)

lemma memory_ok_zeros: "memory_ok (\<lambda>n. Some (replicate n 0))"
  by (simp add: memory_ok_def)

interpretation rb_spine: kv_store db_inv "\<lambda>db. kv_map (kv db)"
  "\<lambda>db k v. map_option snd (db_put (\<lambda>n. Some (replicate n 0)) (\<lambda>_ t. t) db k v)"
  "\<lambda>db k. map_option snd (db_del spine_erase db k)"
  by (rule rb_kv_store [OF spine_lib_ok memory_ok_zeros])

abbreviation db_run ::
    "(nat \<Rightarrow> byte list option) \<Rightarrow> (byte list \<Rightarrow> byte list kvtree \<Rightarrow> byte list kvtree) \<Rightarrow>
     (byte list \<Rightarrow> byte list kvtree \<Rightarrow> byte list kvtree) \<Rightarrow>
     byte list rbdb \<Rightarrow> (byte list, byte list) kv_op list \<Rightarrow> byte list rbdb option" where
  "db_run km ic er \<equiv>
     foldM (run_op (\<lambda>db k v. map_option snd (db_put km ic db k v)) (\<lambda>db k. map_option snd (db_del er db k)))"

lemma db_get_found:
  assumes "db_inv db" and "kv_map (kv db) k = Some v" and "d_data out = Some buf"
    and "unat (d_size out) \<le> length buf" and "unat (d_size out) \<le> length v"
  shows "db_get db k out =
           Some (int (length v), out\<lparr>d_data := Some (take (unat (d_size out)) v @ drop (unat (d_size out)) buf)\<rparr>, db)"
  using assms by (simp add: db_get_def mutex_lock_def mutex_unlock_def db_inv_def find_eq get_at_def)

lemma db_get_missing:
  assumes "db_inv db" and "kv_map (kv db) k = None"
  shows "db_get db k out = Some (DB_NOTFOUND, out, db)"
  using assms by (simp add: db_get_def mutex_lock_def mutex_unlock_def db_inv_def find_eq)

text \<open>
  Property C35: any sequence of \<open>db_put\<close> and \<open>db_del\<close> leaves the store at the map the
  same sequence makes of the initial one, without a fault, and \<open>db_get\<close> then returns
  the bytes and the size the map holds, or \<open>DB_NOTFOUND\<close>.
\<close>

theorem rb_store_refines_map:
  assumes "rb_lib_ok ic er" and "memory_ok km" and "db_inv db"
    and "d_data out = Some buf" and "unat (d_size out) \<le> length buf"
  shows "\<exists>db'. db_run km ic er db ops = Some db' \<and> db_inv db'
           \<and> (case foldl apply_op (kv_map (kv db)) ops k of
                None \<Rightarrow> db_get db' k out = Some (DB_NOTFOUND, out, db')
              | Some v \<Rightarrow> unat (d_size out) \<le> length v \<longrightarrow>
                  db_get db' k out = Some (int (length v),
                    out\<lparr>d_data := Some (take (unat (d_size out)) v @ drop (unat (d_size out)) buf)\<rparr>, db'))"
proof -
  from kv_store.run_refines [OF rb_kv_store [OF assms(1,2)] assms(3), of ops]
  obtain db' where "db_run km ic er db ops = Some db'" "db_inv db'"
    "kv_map (kv db') = foldl apply_op (kv_map (kv db)) ops" by blast
  with assms(4,5) show ?thesis
    by (auto simp: db_get_found db_get_missing split: option.splits)
qed

theorem rb_store_refines_map_witness:
  "\<exists>db'. db_run (\<lambda>n. Some (replicate n 0)) (\<lambda>_ t. t) spine_erase \<lparr>kv = \<langle>\<rangle>, rb_lock = False\<rparr>
            [Put [1] [10, 11], Put [2] [20], Del [2]] = Some db' \<and> db_inv db'
     \<and> db_get db' [1] (dbt_setup [0, 0] 2) =
         Some (2, dbt_setup [10, 11] 2, db')"
  using rb_store_refines_map [OF spine_lib_ok memory_ok_zeros, of "\<lparr>kv = \<langle>\<rangle>, rb_lock = False\<rparr>"
      "dbt_setup [0, 0] 2" "[0, 0]" "[Put [1] [10, 11], Put [2] [20], Del [2]]" "[1]"]
  by (simp add: db_inv_def kv_map_def dbt_setup_def)

section \<open>Scanning with a cursor\<close>

text \<open>A client that calls \<open>c_getf_next\<close> until it fails, collecting what the callback sees.\<close>

fun dbc_scan ::
    "nat \<Rightarrow> 'v rbdb \<Rightarrow> dbc_wrap \<Rightarrow> (byte list \<times> 'v) list \<Rightarrow> (int \<times> (byte list \<times> 'v) list \<times> 'v rbdb) option" where
  "dbc_scan 0 db wrap acc = Some (0, acc, db)"
| "dbc_scan (Suc n) db wrap acc = do {
     (ret, wrap, acc, db) \<leftarrow> dbc_c_getf_next db wrap (\<lambda>x acc. (0, acc @ [x])) acc;
     if ret \<noteq> 0 then Some (ret, acc, db) else dbc_scan n db wrap acc }"

definition in_bound :: "dbc_wrap \<Rightarrow> byte list \<times> 'v \<Rightarrow> bool" where
  "in_bound wrap x \<longleftrightarrow> (case c_right wrap of None \<Rightarrow> True | Some rbound \<Rightarrow> fst x \<le> rbound)"

lemma rb_next_eq:
  assumes "kv_bst t" and "inorder t = xs @ n # ys"
  shows "rb_next t (fst n) = (case ys of [] \<Rightarrow> None | y # _ \<Rightarrow> Some y)"
proof -
  have "fst n \<notin> fst ` set xs" using kv_bst_distinct [OF assms(1)] assms(2) by auto
  then have "dropWhile (\<lambda>x. fst x \<noteq> fst n) (xs @ n # ys) = n # ys"
    by (subst dropWhile_append2) (auto simp: image_iff)
  then show ?thesis by (simp add: rb_next_def assms(2) split: list.splits)
qed

lemma find_member:
  assumes "kv_bst t" and "inorder t = xs @ n # ys"
  shows "find_val_with_key t (fst n) = Some n"
proof -
  have "n \<in> set_tree t" using assms(2) by (metis in_set_conv_decomp set_inorder)
  then have "kv_map t (fst n) = Some (snd n)" using kv_map_Some_iff [OF assms(1)] by simp
  then show ?thesis using find_eq [OF assms(1), of "fst n"] by simp
qed

lemma getf_next_eq:
  assumes "db_inv db" and "inorder (kv db) = xs @ n # ys" and "c_node wrap = Some (fst n)"
  shows "dbc_c_getf_next db wrap f extra =
           (case ys of
              [] \<Rightarrow> Some (DB_NOTFOUND, wrap\<lparr>c_node := None\<rparr>, extra, db)
            | y # _ \<Rightarrow> if in_bound wrap y then Some (0, wrap\<lparr>c_node := Some (fst y)\<rparr>, snd (f y extra), db)
                      else Some (DB_NOTFOUND, wrap\<lparr>c_node := None\<rparr>, extra, db\<lparr>rb_lock := True\<rparr>))"
proof -
  have "env_keycmp a b > 0 \<longleftrightarrow> \<not> a \<le> b" for a b using kc.cmp_greater [of a b] by (simp add: not_le)
  with assms show ?thesis
    by (auto simp: dbc_c_getf_next_def mutex_lock_def mutex_unlock_def db_inv_def in_bound_def
          rb_next_eq [OF _ assms(2)] find_member [OF _ assms(2)] split: list.splits option.splits)
qed

lemma dbc_scan_eq:
  assumes "db_inv db" and "inorder (kv db) = xs @ n # ys" and "c_node wrap = Some (fst n)"
    and "length ys < fuel"
  shows "dbc_scan fuel db wrap acc =
           Some (DB_NOTFOUND, acc @ takeWhile (in_bound wrap) ys,
                 db\<lparr>rb_lock := \<not> list_all (in_bound wrap) ys\<rparr>)"
  using assms(2-)
proof (induction fuel arbitrary: xs n ys wrap acc)
  case (Suc fuel)
  have same: "db\<lparr>rb_lock := False\<rparr> = db" using assms(1) by (simp add: db_inv_def)
  have bound: "in_bound (wrap\<lparr>c_node := z\<rparr>) = in_bound wrap" for z
    by (simp add: in_bound_def fun_eq_iff)
  show ?case
  proof (cases ys)
    case Nil
    then show ?thesis
      by (simp add: getf_next_eq [OF assms(1) Suc.prems(1,2)] same DB_NOTFOUND_def)
  next
    case (Cons y zs)
    have "inorder (kv db) = (xs @ [n]) @ y # zs" using Suc.prems(1) Cons by simp
    from Suc.IH [OF this, of "wrap\<lparr>c_node := Some (fst y)\<rparr>" "acc @ [y]"] Suc.prems(3) Cons
    have "in_bound wrap y \<Longrightarrow> dbc_scan fuel db (wrap\<lparr>c_node := Some (fst y)\<rparr>) (acc @ [y]) =
        Some (DB_NOTFOUND, acc @ takeWhile (in_bound wrap) ys, db\<lparr>rb_lock := \<not> list_all (in_bound wrap) ys\<rparr>)"
      by (simp add: bound)
    then show ?thesis
      using Cons by (auto simp: getf_next_eq [OF assms(1) Suc.prems(1,2)] DB_NOTFOUND_def)
  qed
qed simp

lemma first_ge_filter:
  fixes xs :: "(byte list \<times> 'v) list"
  assumes "sorted_wrt (<) (map fst xs)"
  shows "dropWhile (\<lambda>x. fst x < key) xs = filter (\<lambda>x. key \<le> fst x) xs"
  using assms
proof (induction xs)
  case (Cons x xs)
  show ?case
  proof (cases "fst x < key")
    case False
    then have "\<forall>y \<in> set xs. fst x < fst y" "key \<le> fst x" using Cons.prems by (simp_all add: not_less)
    then have "\<forall>y \<in> set xs. key \<le> fst y" by (meson less_imp_le order.trans)
    with False show ?thesis by (simp add: not_less)
  qed (use Cons in \<open>simp add: not_le [symmetric]\<close>)
qed simp

lemma set_range_eq:
  assumes "db_inv db"
  shows "dbc_c_getf_set_range db wrap key (\<lambda>x acc. (0, acc @ [x])) [] =
     (case filter (\<lambda>x. key \<le> fst x) (inorder (kv db)) of
        [] \<Rightarrow> Some (DB_NOTFOUND, wrap, [], db)
      | n # _ \<Rightarrow> Some (0, wrap\<lparr>c_node := Some (fst n)\<rparr>, [n], db))"
proof -
  have bst: "kv_bst (kv db)" "\<not> rb_lock db" using assms by (simp_all add: db_inv_def)
  then have "find_val_with_key_ge (kv db) key = first_ge key (inorder (kv db))" by (simp add: find_ge_eq)
  moreover have "dropWhile (\<lambda>x. fst x < key) (inorder (kv db)) = filter (\<lambda>x. key \<le> fst x) (inorder (kv db))"
    by (rule first_ge_filter) (use bst in \<open>simp add: kv_bst_def\<close>)
  ultimately show ?thesis using bst(2)
    by (auto simp: dbc_c_getf_set_range_def first_ge_def mutex_lock_def mutex_unlock_def split: list.splits)
qed

text \<open>
  Property C36: a range scan with a cursor.  Setting the cursor to a key finds the first node
  with that key or a greater one, or \<open>DB_NOTFOUND\<close> if there is none; this node is handed over
  without a look at the right bound.  The calls that follow hand over, in ascending order and
  each once, all the nodes behind it up to the right bound, and end with \<open>DB_NOTFOUND\<close>.  But
  when they end because of the bound, the mutex stays held: the next operation on the store
  never returns.
\<close>

theorem cursor_scan:
  assumes "db_inv db" and "size (kv db) \<le> fuel"
  shows "let keys = filter (\<lambda>x. key \<le> fst x) (inorder (kv db));
             stopped = (\<exists>x \<in> set (tl keys). \<not> in_bound wrap x)
         in sorted_wrt (\<lambda>x y. fst x < fst y) keys
          \<and> dbc_c_getf_set_range db wrap key (\<lambda>x acc. (0, acc @ [x])) [] =
              (case keys of [] \<Rightarrow> Some (DB_NOTFOUND, wrap, [], db)
               | n # _ \<Rightarrow> Some (0, wrap\<lparr>c_node := Some (fst n)\<rparr>, [n], db))
          \<and> (\<forall>n rest. keys = n # rest \<longrightarrow>
               (\<exists>db2. dbc_scan fuel db (wrap\<lparr>c_node := Some (fst n)\<rparr>) [n] = Some (DB_NOTFOUND, n # filter (in_bound wrap) rest, db2)
                    \<and> rb_lock db2 = stopped \<and> (stopped \<longrightarrow> db_del er db2 k = None)))"
proof -
  have bst: "kv_bst (kv db)" using assms(1) by (simp add: db_inv_def)
  then have "sorted_wrt (<) (map fst (inorder (kv db)))" by (simp add: kv_bst_def)
  then have sorted: "sorted_wrt (\<lambda>x y. fst x < fst y) (inorder (kv db))" by (simp add: sorted_wrt_map)
  have scan: "\<exists>db2. dbc_scan fuel db (wrap\<lparr>c_node := Some (fst n)\<rparr>) [n] = Some (DB_NOTFOUND, n # filter (in_bound wrap) rest, db2)
      \<and> rb_lock db2 = (\<exists>x \<in> set rest. \<not> in_bound wrap x) \<and> ((\<exists>x \<in> set rest. \<not> in_bound wrap x) \<longrightarrow> db_del er db2 k = None)"
    if keys: "filter (\<lambda>x. key \<le> fst x) (inorder (kv db)) = n # rest" for n rest
  proof -
    have "dropWhile (\<lambda>x. fst x < key) (inorder (kv db)) = n # rest"
      using first_ge_filter [of "inorder (kv db)" key] bst keys by (simp add: kv_bst_def)
    then obtain xs where dec: "inorder (kv db) = xs @ n # rest" by (metis takeWhile_dropWhile_id)
    have "sorted_wrt (\<lambda>x y. fst x < fst y) rest" using sorted by (simp add: dec sorted_wrt_append)
    then have take: "takeWhile (in_bound wrap) rest = filter (in_bound wrap) rest"
      by (rule takeWhile_eq_filter) (auto simp: in_bound_def split: option.splits)
    have "length rest < length (inorder (kv db))" by (simp add: dec del: length_inorder)
    then have fuel: "length rest < fuel" using assms(2) by simp
    have bound: "in_bound (wrap\<lparr>c_node := Some (fst n)\<rparr>) = (in_bound wrap :: byte list \<times> 'a \<Rightarrow> bool)"
      by (simp add: in_bound_def fun_eq_iff)
    have "dbc_scan fuel db (wrap\<lparr>c_node := Some (fst n)\<rparr>) [n] =
        Some (DB_NOTFOUND, n # filter (in_bound wrap) rest, db\<lparr>rb_lock := \<not> list_all (in_bound wrap) rest\<rparr>)"
      using dbc_scan_eq [OF assms(1) dec, of "wrap\<lparr>c_node := Some (fst n)\<rparr>" fuel "[n]"] fuel by (simp add: bound take)
    then show ?thesis by (auto simp: list_all_iff db_del_def mutex_lock_def)
  qed
  have "sorted_wrt (\<lambda>x y. fst x < fst y) (filter (\<lambda>x. key \<le> fst x) (inorder (kv db)))" by (rule sorted_wrt_filter [OF sorted])
  with set_range_eq [OF assms(1), of wrap key] scan show ?thesis unfolding Let_def by fastforce
qed

theorem cursor_scan_witness:
  "rb_lock (snd (snd (the (dbc_scan 3 \<lparr>kv = \<langle>\<langle>\<langle>\<rangle>, ([1], ''a''), \<langle>\<rangle>\<rangle>, ([5], ''b''), \<langle>\<rangle>\<rangle>, rb_lock = False\<rparr>
     \<lparr>c_node = Some [1], c_left = None, c_right = Some [4]\<rparr> [([1], ''a'')]))))"
  using cursor_scan [of "\<lparr>kv = \<langle>\<langle>\<langle>\<rangle>, ([1], ''a''), \<langle>\<rangle>\<rangle>, ([5], ''b''), \<langle>\<rangle>\<rangle>, rb_lock = False\<rparr>" 3 "[0]"
      "\<lparr>c_node = None, c_left = None, c_right = Some [4]\<rparr>" "\<lambda>_ t. t" "[]"]
  by (auto simp: db_inv_def kv_bst_def in_bound_def Let_def simp del: dbc_scan.simps)

lemma copy_meta_ok:
  assumes "memory_ok km" and "length vl \<le> INODE_SIZE"
  shows "\<exists>b. dbt_copy_meta km to vl = Some (0, to\<lparr>cv_data := Some b, cv_size := length vl\<rparr>)
           \<and> length b = INODE_SIZE \<and> take (length vl) b = vl"
proof -
  obtain b where "km INODE_SIZE = Some b" "length b = INODE_SIZE" using assms(1) by (auto simp: memory_ok_def)
  with assms(2) show ?thesis
    by (intro exI [of _ "vl @ drop (length vl) b"]) (simp add: dbt_copy_meta_def)
qed

definition holds_meta :: "cache_val \<Rightarrow> byte list \<Rightarrow> bool" where
  "holds_meta c vl \<longleftrightarrow> (\<exists>b. cv_data c = Some b \<and> length b = INODE_SIZE \<and> take (length vl) b = vl)"

lemma db_cache_put_ok:
  assumes "rb_lib_ok ic er" and "memory_ok km" and "kv_bst t"
    and "\<And>v. kv_map t key = Some v \<Longrightarrow> cv_data v = None \<or> (\<exists>b. cv_data v = Some b \<and> length b = INODE_SIZE)"
    and "length vl \<le> INODE_SIZE"
  shows "\<exists>t1 c. db_cache_put km ic t key vl = Some (0, t1) \<and> kv_bst t1
           \<and> kv_map t1 = (kv_map t)(key \<mapsto> c) \<and> holds_meta c vl"
proof (cases "kv_map t key")
  case None
  obtain b where b: "dbt_copy_meta km \<lparr>cv_data = None, cv_size = 0, is_updated = 0\<rparr> vl =
      Some (0, \<lparr>cv_data = Some b, cv_size = length vl, is_updated = 0\<rparr>)"
      "length b = INODE_SIZE" "take (length vl) b = vl"
    using copy_meta_ok [OF assms(2,5), of "\<lparr>cv_data = None, cv_size = 0, is_updated = 0\<rparr>"] by auto
  let ?c = "\<lparr>cv_data = Some b, cv_size = length vl, is_updated = 0\<rparr>"
  from assms(1) have "\<And>j s. inorder (ic j s) = inorder s" by (simp add: rb_lib_ok_def)
  from rb_insert_ok [where ic = ic and v = ?c, OF assms(3) None this]
  obtain t1 where t1: "rb_kv_insert ic t (key, ?c) = (0, t1)" "kv_bst t1" "kv_map t1 = (kv_map t)(key \<mapsto> ?c)"
    by (cases "rb_kv_insert ic t (key, ?c)") auto
  moreover have "holds_meta ?c vl" using b by (simp add: holds_meta_def)
  moreover have "db_cache_put km ic t key vl = Some (0, t1)"
    using None t1(1) b(1) assms(2,3)
    by (simp add: db_cache_put_def find_val_with_key_cache_def rb_kv_insert_cache_def find_eq)
  ultimately show ?thesis by blast
next
  case (Some v)
  have upd: "kv_bst (set_node_val t key c)" "kv_map (set_node_val t key c) = (kv_map t)(key \<mapsto> c)" for c
    using assms(3) kv_map_set_node_val [OF assms(3), of key] Some by simp_all
  have find: "find_val_with_key t key = Some (key, v)" by (simp add: find_eq [OF assms(3)] Some)
  have "cv_data v = None \<or> (\<exists>b. cv_data v = Some b \<and> length b = INODE_SIZE)" by (rule assms(4) [OF Some])
  then consider "cv_data v = None" | b where "cv_data v = Some b" "length b = INODE_SIZE" by auto
  then obtain c where "db_cache_put km ic t key vl = Some (0, set_node_val t key c)" "holds_meta c vl"
  proof cases
    case 1
    obtain b where b: "dbt_copy_meta km v vl = Some (0, v\<lparr>cv_data := Some b, cv_size := length vl\<rparr>)"
        "length b = INODE_SIZE" "take (length vl) b = vl"
      using copy_meta_ok [OF assms(2,5)] by blast
    show thesis
      by (rule that [of "v\<lparr>cv_data := Some b, cv_size := length vl\<rparr>"])
        (simp_all add: db_cache_put_def find_val_with_key_cache_def find 1 b holds_meta_def)
  next
    case 2
    with assms(5) show thesis
      by (intro that [of "v\<lparr>cv_data := Some (put_at 0 vl b), is_updated := is_updated v + 1\<rparr>"])
        (simp_all add: db_cache_put_def find_val_with_key_cache_def find holds_meta_def)
  qed
  with upd show ?thesis by blast
qed

text \<open>
  The metadata variant.  After a put of at most \<open>INODE_SIZE\<close> bytes, a get
  of as many returns them; after a weak deletion the key is still known but a get
  answers \<open>DB_FOUND_FREE\<close>; after a deletion it answers \<open>DB_NOTFOUND\<close>.  The tree stays
  ordered and no other key changes.
\<close>

lemma cache_variant_spec:
  assumes "rb_lib_ok ic er" and "memory_ok km" and "kv_bst t"
    and "\<And>v. kv_map t key = Some v \<Longrightarrow> cv_data v = None \<or> (\<exists>b. cv_data v = Some b \<and> length b = INODE_SIZE)"
    and "length vl \<le> INODE_SIZE"
  shows "\<exists>t1. db_cache_put km ic t key vl = Some (0, t1) \<and> kv_bst t1
           \<and> db_cache_get t1 key (dbt_setup buf (length vl)) =
               (if length vl \<le> length buf
                then Some (0, dbt_setup (vl @ drop (length vl) buf) (length vl)) else None)
           \<and> (\<forall>out. db_cache_get (snd (db_cache_weak_del t1 key)) key out = Some (DB_FOUND_FREE, out))
           \<and> (\<forall>out. db_cache_get (snd (db_cache_del er t1 key)) key out = Some (DB_NOTFOUND, out))
           \<and> (\<forall>j. j \<noteq> key \<longrightarrow> kv_map t1 j = kv_map t j
                 \<and> kv_map (snd (db_cache_weak_del t1 key)) j = kv_map t j
                 \<and> kv_map (snd (db_cache_del er t1 key)) j = kv_map t j)"
proof -
  obtain t1 c where t1: "db_cache_put km ic t key vl = Some (0, t1)" "kv_bst t1"
      "kv_map t1 = (kv_map t)(key \<mapsto> c)" "holds_meta c vl"
    using db_cache_put_ok [OF assms] by blast
  then obtain b where b: "cv_data c = Some b" "length b = INODE_SIZE" "take (length vl) b = vl"
    by (auto simp: holds_meta_def)
  have find: "find_val_with_key t1 key = Some (key, c)" using t1(2,3) by (simp add: find_eq)
  have "unat (of_nat (length vl) :: u32) = length vl"
    using assms(5) by (intro unat_of_nat_u32) (simp add: INODE_SIZE_def)
  then have get: "db_cache_get t1 key (dbt_setup buf (length vl)) =
      (if length vl \<le> length buf then Some (0, dbt_setup (vl @ drop (length vl) buf) (length vl)) else None)"
    using b assms(5)
    by (simp add: db_cache_get_def find_val_with_key_cache_def find dbt_setup_def get_at_def poke_def)
  let ?w = "snd (db_cache_weak_del t1 key)"
  have w: "kv_bst ?w" "kv_map ?w = (kv_map t)(key \<mapsto> c\<lparr>cv_data := None, is_updated := 0\<rparr>)"
    using t1(2,3) kv_map_set_node_val [OF t1(2), of key]
    by (simp_all add: db_cache_weak_del_def find_val_with_key_cache_def find)
  let ?d = "snd (db_cache_del er t1 key)"
  have "inorder (er key t1) = filter (\<lambda>x. fst x \<noteq> key) (inorder t1)"
    using assms(1) t1(2) by (simp add: rb_lib_ok_def kv_bst_distinct)
  from rb_erase_ok [of t1 er key, OF t1(2) this]
  have d: "kv_bst ?d" "kv_map ?d = (kv_map t)(key := None)"
    using t1(3) by (simp_all add: db_cache_del_def find_val_with_key_cache_def find)
  show ?thesis
    using t1 get w d by (auto simp: db_cache_get_def find_val_with_key_cache_def find_eq)
qed

end
