(* ===== verification/Kevin_Io.thy ===== *)
theory Kevin_Io
  imports Kevin_Wire Kevin_Cheeze Kevin_Rbtree
begin

text \<open>
  The request functions of \<open>kevinfs/lightfs_io.c\<close>.  A request is submitted (tag taken,
  buffer filled, flag raised) and, after the device has answered, finished; the two
  halves are the code before and after the wait in \<open>cheeze_io\<close>; the callback of a
  transfer is run between them by the transaction handler.  Where the code keeps a
  pointer into the tag's buffer, the model keeps the contents and the tag.  The \<open>rb_io\<close>
  variants serve the same requests from the in-memory store.
\<close>

section \<open>Submitting\<close>

text \<open>The transport, and the contents of each tag's buffer.\<close>

record io =
  io_cz :: cheeze
  io_bufs :: "nat \<Rightarrow> byte list"

text \<open>The \<open>buf\<close> argument of \<open>lightfs_io_set_cheeze_req\<close> is the buffer \<open>cheeze_prepare_io\<close> set.\<close>

definition lightfs_io_set_cheeze_req :: "cheeze \<Rightarrow> nat \<Rightarrow> nat \<Rightarrow> nat option \<Rightarrow> nat \<Rightarrow> cheeze" where
  "lightfs_io_set_cheeze_req c user buf_len ret_buf ubuf_len =
     c\<lparr>cz_users := (cz_users c)(user := (cz_users c user)\<lparr>u_buf_len := buf_len, u_ret_buf := ret_buf,
                                                          u_ubuf_len := ubuf_len\<rparr>)\<rparr>"

text \<open>
  What every request function does up to the wait: take a tag, fill its buffer, set the
  user part of the request, send it.
\<close>

definition io_submit ::
    "nat list \<Rightarrow> io \<Rightarrow> nat \<Rightarrow> bool \<Rightarrow> nat option \<Rightarrow> bool \<Rightarrow> (byte list \<Rightarrow> writer option) \<Rightarrow> bool \<Rightarrow> nat \<Rightarrow> io res" where
  "io_submit da st user sync extra transfer fill has_ret ubuf_len =
     res_bind (cheeze_prepare_io da (io_cz st) user sync extra transfer) (\<lambda>(sq, c).
       let tag = u_id (cz_users c user) in
       case fill (io_bufs st tag) of
         None \<Rightarrow> Fault
       | Some (buf, idx) \<Rightarrow>
           let c = lightfs_io_set_cheeze_req c user idx (if has_ret then Some tag else None) ubuf_len in
           Done (st\<lparr>io_cz := cheeze_io_submit None c user sq, io_bufs := (io_bufs st)(tag := buf)\<rparr>))"

definition req_head :: "u32 \<Rightarrow> u16 \<Rightarrow> byte list \<Rightarrow> writer option" where
  "req_head txn_id cnt buf = do { w \<leftarrow> lightfs_io_set_txn_id txn_id (buf, 0); lightfs_io_set_cnt cnt w }"

definition lightfs_io_get_submit :: "nat list \<Rightarrow> io \<Rightarrow> nat \<Rightarrow> txn_buf \<Rightarrow> io res" where
  "lightfs_io_get_submit da st user tb =
     io_submit da st user True None False
       (\<lambda>buf. do {
          w \<leftarrow> req_head (tb_txn_id tb) 1 buf;
          lightfs_io_set_buf_get (req_code (tb_type tb)) (tb_key_len tb) (tb_key tb) (ucast (tb_len tb)) w })
       (tb_buf tb \<noteq> NoBuf) (unat (tb_len tb))"

definition lightfs_io_sync_put_submit :: "nat list \<Rightarrow> io \<Rightarrow> nat \<Rightarrow> txn_buf \<Rightarrow> io res" where
  "lightfs_io_sync_put_submit da st user tb =
     io_submit da st user True None False
       (\<lambda>buf. do {
          w \<leftarrow> req_head (tb_txn_id tb) 1 buf;
          v \<leftarrow> tb_value (\<lambda>_. []) tb;
          lightfs_io_set_buf_meta_set (req_code (tb_type tb)) (tb_key_len tb) (tb_key tb) (tb_off tb)
            (ucast (tb_len tb)) v w })
       False 0"

definition lightfs_io_iter_submit :: "nat list \<Rightarrow> io \<Rightarrow> nat \<Rightarrow> txn_buf \<Rightarrow> io res" where
  "lightfs_io_iter_submit da st user tb =
     io_submit da st user True None False
       (\<lambda>buf. do {
          w \<leftarrow> req_head (tb_txn_id tb) 1 buf;
          lightfs_io_set_buf_iter (req_code (tb_type tb)) (tb_key_len tb) (tb_key tb) (tb_off tb)
            (ucast (tb_len tb)) w })
       True 0"

definition lightfs_io_transfer_submit ::
    "nat list \<Rightarrow> io \<Rightarrow> nat \<Rightarrow> (nat \<Rightarrow> byte list) \<Rightarrow> c_txn \<Rightarrow> (c_txn \<times> nat list \<times> io) res" where
  "lightfs_io_transfer_submit da st user pages c =
     res_bind (io_submit da st user (c_is_flush c) None True (transfer_fill pages c) True 0) (\<lambda>st.
       Done (transfer_released c, writeback_ended c, st))"

definition lightfs_io_commit_submit :: "nat list \<Rightarrow> io \<Rightarrow> nat \<Rightarrow> txn_buf \<Rightarrow> io res" where
  "lightfs_io_commit_submit da st user tb =
     io_submit da st user True None False
       (\<lambda>buf. do {
          w \<leftarrow> req_head (tb_txn_id tb) 1 buf;
          lightfs_io_set_type (req_code (tb_type tb)) w })
       True 0"

definition lightfs_io_get_multi_submit :: "nat list \<Rightarrow> io \<Rightarrow> nat \<Rightarrow> txn_buf \<Rightarrow> io res" where
  "lightfs_io_get_multi_submit da st user tb =
     io_submit da st user True None False
       (\<lambda>buf. do {
          w \<leftarrow> req_head (tb_txn_id tb) (ucast (tb_len tb)) buf;
          lightfs_io_set_buf_get_multi (req_code (tb_type tb)) (tb_key_len tb) (tb_key tb) w })
       True 0"

text \<open>
  A read-ahead is asynchronous and names its entry; the request type is
  \<open>LIGHTFS_GET_MULTI\<close>.  The result is the buffer and the \<open>tag\<close> of the read-ahead entry.
\<close>

definition lightfs_io_get_multi_reada_submit :: "nat list \<Rightarrow> io \<Rightarrow> nat \<Rightarrow> txn_buf \<Rightarrow> nat \<Rightarrow> (txn_buf \<times> nat \<times> io) res" where
  "lightfs_io_get_multi_reada_submit da st user tb extra =
     res_bind (io_submit da st user False (Some extra) False
       (\<lambda>buf. do {
          w \<leftarrow> req_head (tb_txn_id tb) (ucast (tb_len tb)) buf;
          lightfs_io_set_buf_get_multi (req_code LIGHTFS_GET_MULTI) (tb_key_len tb) (tb_key tb) w })
       True 0) (\<lambda>st.
       let tag = u_id (cz_users (io_cz st) user) in
       Done (tb\<lparr>tb_buf := Buf (io_bufs st tag), tb_ret := 0\<rparr>, tag, st))"

section \<open>Finishing\<close>

definition io_wait :: "io \<Rightarrow> nat \<Rightarrow> io res" where
  "io_wait st user =
     res_bind (cheeze_io_wait (io_cz st) (u_id (cz_users (io_cz st) user))) (\<lambda>c. Done (st\<lparr>io_cz := c\<rparr>))"

definition io_free :: "io \<Rightarrow> nat \<Rightarrow> io res" where
  "io_free st tag = res_bind (cheeze_free_io (io_cz st) tag) (\<lambda>c. Done (st\<lparr>io_cz := c\<rparr>))"

definition lightfs_io_get_finish :: "io \<Rightarrow> nat \<Rightarrow> txn_buf \<Rightarrow> (txn_buf \<times> io) res" where
  "lightfs_io_get_finish st user tb =
     res_bind (io_wait st user) (\<lambda>st.
       let req = cz_users (io_cz st) user; tag = u_id req; n = u_ubuf_len req in
       case (if n = 0 then Some (tb\<lparr>tb_ret := word_of_int DB_NOTFOUND\<rparr>)
             else case tb_buf tb of
               Buf obj \<Rightarrow> do {
                 v \<leftarrow> peek 0 n (io_bufs st tag);
                 obj \<leftarrow> poke 0 v obj;
                 Some (tb\<lparr>tb_ret := of_nat n, tb_buf := Buf obj\<rparr>) }
             | _ \<Rightarrow> None) of
         None \<Rightarrow> Fault
       | Some tb \<Rightarrow> res_bind (io_free st tag) (\<lambda>st. Done (tb, st)))"

definition lightfs_io_sync_put_finish :: "io \<Rightarrow> nat \<Rightarrow> io res" where
  "lightfs_io_sync_put_finish st user =
     res_bind (io_wait st user) (\<lambda>st. io_free st (u_id (cz_users (io_cz st) user)))"

text \<open>\<open>lightfs_io_iter\<close> leaves the tag with the cursor, which reads the answer in place.\<close>

definition lightfs_io_iter_finish :: "io \<Rightarrow> nat \<Rightarrow> txn_buf \<Rightarrow> (nat \<times> txn_buf \<times> io) res" where
  "lightfs_io_iter_finish st user tb =
     res_bind (io_wait st user) (\<lambda>st.
       let req = cz_users (io_cz st) user; n = u_ubuf_len req in
       Done (u_id req,
             tb\<lparr>tb_buf := Buf (io_bufs st (u_id req)), tb_ret := (if n = 2 then word_of_int DB_NOTFOUND else of_nat n)\<rparr>, st))"

definition lightfs_io_transfer_finish :: "io \<Rightarrow> nat \<Rightarrow> io res" where
  "lightfs_io_transfer_finish st user = io_wait st user"

definition lightfs_io_commit_finish :: "io \<Rightarrow> nat \<Rightarrow> io res" where
  "lightfs_io_commit_finish st user =
     res_bind (io_wait st user) (\<lambda>st. io_free st (u_id (cz_users (io_cz st) user)))"

definition lightfs_io_get_multi_finish :: "io \<Rightarrow> nat \<Rightarrow> txn_buf \<Rightarrow> (txn_buf \<times> io) res" where
  "lightfs_io_get_multi_finish st user tb =
     res_bind (io_wait st user) (\<lambda>st.
       let req = cz_users (io_cz st) user; tag = u_id req;
           tb = tb\<lparr>tb_buf := Buf (io_bufs st tag)\<rparr> in
       if u_ubuf_len req = 0
       then res_bind (io_free st tag) (\<lambda>st. Done (tb\<lparr>tb_ret := word_of_int DB_NOTFOUND\<rparr>, st))
       else Done (tb\<lparr>tb_ret := of_nat tag\<rparr>, st))"

section \<open>Requests served from the in-memory store\<close>

definition rb_io_get :: "(nat \<Rightarrow> byte list rbdb) \<Rightarrow> txn_buf \<Rightarrow> (txn_buf \<times> byte list rbdb) option" where
  "rb_io_get dbs tb =
     (case tb_buf tb of
        Buf obj \<Rightarrow> do {
          out \<leftarrow> (if unat (tb_off tb) \<le> length obj then Some (drop (unat (tb_off tb)) obj) else None);
          (ret, out, db) \<leftarrow> db_get (dbs (tb_db tb)) (tb_key_bytes tb) (dbt_setup out (unat (tb_len tb)));
          out \<leftarrow> d_data out;
          Some (tb\<lparr>tb_ret := word_of_int ret, tb_buf := Buf (take (unat (tb_off tb)) obj @ out)\<rparr>, db) }
      | _ \<Rightarrow> None)"

definition rb_io_sync_put ::
    "(nat \<Rightarrow> byte list option) \<Rightarrow> (byte list \<Rightarrow> byte list kvtree \<Rightarrow> byte list kvtree) \<Rightarrow>
     (nat \<Rightarrow> byte list rbdb) \<Rightarrow> txn_buf \<Rightarrow> (txn_buf \<times> byte list rbdb) option" where
  "rb_io_sync_put km ic dbs tb =
     (case tb_buf tb of
        Buf obj \<Rightarrow> do {
          v \<leftarrow> peek (unat (tb_off tb)) (unat (tb_len tb)) obj;
          (ret, db) \<leftarrow> db_put km ic (dbs (tb_db tb)) (tb_key_bytes tb) v;
          Some (tb\<lparr>tb_ret := word_of_int ret\<rparr>, db) }
      | _ \<Rightarrow> None)"

definition rb_transfer_entry ::
    "(nat \<Rightarrow> byte list option) \<Rightarrow> (byte list \<Rightarrow> byte list kvtree \<Rightarrow> byte list kvtree) \<Rightarrow>
     (byte list \<Rightarrow> byte list kvtree \<Rightarrow> byte list kvtree) \<Rightarrow>
     (nat \<Rightarrow> byte list rbdb) \<Rightarrow> txn_buf \<Rightarrow> (nat \<Rightarrow> byte list rbdb) option" where
  "rb_transfer_entry km ic er dbs tb =
     (let ty = tb_type tb; db = dbs (tb_db tb); key = tb_key_bytes tb in
      if ty = LIGHTFS_META_SET \<or> ty = LIGHTFS_DATA_SET \<or> ty = LIGHTFS_DATA_SEQ_SET then
        (case tb_buf tb of
           Buf obj \<Rightarrow> do {
             v \<leftarrow> peek 0 (unat (tb_len tb)) obj;
             (_, db) \<leftarrow> db_put km ic db key v;
             Some (dbs(tb_db tb := db)) }
         | _ \<Rightarrow> None)
      else if ty = LIGHTFS_META_DEL \<or> ty = LIGHTFS_DATA_DEL then do {
        (_, db) \<leftarrow> db_del er db key;
        Some (dbs(tb_db tb := db)) }
      else if ty = LIGHTFS_META_UPDATE \<or> ty = LIGHTFS_DATA_UPDATE then
        (case tb_buf tb of
           Buf obj \<Rightarrow> do {
             (_, db) \<leftarrow> db_update km ic db key
               ((dbt_setup obj (unat (tb_len tb)))\<lparr>d_ulen := ucast (tb_update tb)\<rparr>) (unat (tb_off tb));
             Some (dbs(tb_db tb := db)) }
         | _ \<Rightarrow> None)
      else Some dbs)"

definition rb_io_transfer ::
    "(nat \<Rightarrow> byte list option) \<Rightarrow> (byte list \<Rightarrow> byte list kvtree \<Rightarrow> byte list kvtree) \<Rightarrow>
     (byte list \<Rightarrow> byte list kvtree \<Rightarrow> byte list kvtree) \<Rightarrow>
     (nat \<Rightarrow> byte list rbdb) \<Rightarrow> c_txn \<Rightarrow> (nat \<Rightarrow> byte list rbdb) option" where
  "rb_io_transfer km ic er dbs c = foldM (rb_transfer_entry km ic er) dbs (c_bufs c)"

text \<open>The loop counts the block number up in the key of the request itself.\<close>

fun rb_get_multi_loop ::
    "nat \<Rightarrow> nat \<Rightarrow> u64 \<Rightarrow> byte list \<Rightarrow> nat \<Rightarrow> byte list \<Rightarrow> byte list rbdb \<Rightarrow>
     (byte list \<times> byte list \<times> byte list rbdb) option" where
  "rb_get_multi_loop 0 i block_num key key_len buf db = Some (key, buf, db)"
| "rb_get_multi_loop (Suc n) i block_num key key_len buf db = do {
     key \<leftarrow> lightfs_data_key_set_blocknum key key_len block_num;
     page \<leftarrow> peek (i * PAGE_SIZE) PAGE_SIZE buf;
     (ret, out, db) \<leftarrow> db_get db (take key_len key) (dbt_setup page PAGE_SIZE);
     page \<leftarrow> d_data out;
     let page = (if ret = DB_NOTFOUND then replicate PAGE_SIZE 0 else page);
     buf \<leftarrow> poke (i * PAGE_SIZE) page buf;
     rb_get_multi_loop n (i + 1) (block_num + 1) key key_len buf db }"

definition rb_io_get_multi :: "(nat \<Rightarrow> byte list rbdb) \<Rightarrow> txn_buf \<Rightarrow> (txn_buf \<times> byte list rbdb) option" where
  "rb_io_get_multi dbs tb =
     (case tb_buf tb of
        Buf buf \<Rightarrow> do {
          block_num \<leftarrow> lightfs_data_key_get_blocknum (tb_key tb) (unat (tb_key_len tb));
          (key, buf, db) \<leftarrow> rb_get_multi_loop (unat (tb_len tb)) 0 block_num (tb_key tb) (unat (tb_key_len tb)) buf
                             (dbs (tb_db tb));
          Some (tb\<lparr>tb_key := key, tb_buf := Buf buf, tb_ret := 0\<rparr>, db) }
      | _ \<Rightarrow> None)"

section \<open>The life of a request\<close>

text \<open>
  The device's part: it stores its answer in the tag's buffer, its length in the shared
  request, and raises the receive flag; then the receiving thread handles the tag.
\<close>

definition device_answer :: "io \<Rightarrow> nat \<Rightarrow> nat \<Rightarrow> byte list \<Rightarrow> io" where
  "device_answer st tag n data =
     st\<lparr>io_cz := (io_cz st)\<lparr>ureqs := (ureqs (io_cz st))[tag := (ureqs (io_cz st) ! tag)\<lparr>u_ubuf_len := n\<rparr>],
                            send_event := (send_event (io_cz st))[tag := 0],
                            recv_event := (recv_event (io_cz st))[tag := 1]\<rparr>,
        io_bufs := (io_bufs st)(tag := data)\<rparr>"

definition io_recv :: "io \<Rightarrow> nat \<Rightarrow> io res" where
  "io_recv st tag = res_bind (recv_one (io_cz st) tag) (\<lambda>c. Done (st\<lparr>io_cz := c\<rparr>))"

definition cz_wf :: "cheeze \<Rightarrow> bool" where
  "cz_wf c \<longleftrightarrow> tags_ok c \<and> length (ureqs c) = CHEEZE_QUEUE_SIZE \<and> length (recv_event c) = CHEEZE_QUEUE_SIZE"

lemma cz_wf_init: "cz_wf (cheeze_init users)"
  by (simp add: cz_wf_def tags_ok_init) (simp add: cheeze_init_def)

text \<open>A request that has been sent: its tag is in flight and its parts agree.\<close>

definition sent :: "io \<Rightarrow> nat \<Rightarrow> nat \<Rightarrow> bool \<Rightarrow> nat option \<Rightarrow> bool \<Rightarrow> bool \<Rightarrow> nat \<Rightarrow> bool" where
  "sent st user tag sync extra transfer has_ret ubuf_len \<longleftrightarrow>
     cz_wf (io_cz st) \<and> tag \<in> set (cz_processing (io_cz st))
   \<and> (let rq = cz_reqs (io_cz st) ! tag; u = cz_users (io_cz st) user in
      rq_sync rq = sync \<and> rq_extra rq = extra \<and> rq_transfer rq = transfer \<and> rq_user rq = user \<and> acked rq = 0
    \<and> rq_item rq = Some tag \<and> ureqs (io_cz st) ! tag = u \<and> u_id u = tag \<and> u_ubuf_len u = ubuf_len
    \<and> (u_ret_buf u = None \<longleftrightarrow> \<not> has_ret))"

definition sent_user :: "nat list \<Rightarrow> cheeze_req_user \<Rightarrow> nat \<Rightarrow> nat \<Rightarrow> bool \<Rightarrow> nat \<Rightarrow> cheeze_req_user" where
  "sent_user da u tag idx has_ret ubuf_len =
     u\<lparr>u_id := tag, u_buf := get_buf_addr da tag, u_buf_len := idx,
       u_ret_buf := (if has_ret then Some tag else None), u_ubuf_len := ubuf_len\<rparr>"

lemma io_submit_eq:
  assumes "tags_ok (io_cz st)" and "cz_free (io_cz st) = tag # rest" and "fill (io_bufs st tag) = Some (buf, idx)"
  shows "io_submit da st user sync extra transfer fill has_ret ubuf_len =
     (let c = io_cz st; u = sent_user da (cz_users c user) tag idx has_ret ubuf_len in
      Done (st\<lparr>io_cz := c\<lparr>cz_slots := cz_slots c - 1, cz_free := rest, cz_processing := cz_processing c @ [tag],
                          cz_seq := cz_seq c + 1, cz_qd := cz_qd c + 1, cz_items := cz_items c + 1,
                          cz_reqs := (cz_reqs c)[tag := (cz_reqs c ! tag)\<lparr>rq_user := user, acked := 0,
                            rq_item := Some tag, rq_sync := sync, rq_transfer := transfer, rq_extra := extra\<rparr>],
                          cz_users := (cz_users c)(user := u), ureqs := (ureqs c)[tag := u],
                          seq_arr := (seq_arr c)[tag := cz_seq c], send_event := (send_event c)[tag := 1]\<rparr>,
               io_bufs := (io_bufs st)(tag := buf)\<rparr>))"
proof -
  have "tag < length (cz_reqs (io_cz st))" using assms(1,2) by (auto simp: tags_ok_def)
  with push_Done [OF assms(1,2), of user] assms(3) show ?thesis
    by (simp add: io_submit_def cheeze_prepare_io_def Let_def lightfs_io_set_cheeze_req_def cheeze_io_submit_def
        send_req_def sent_user_def if_distrib [of Done] cong: if_cong)
qed

lemma io_submit_sent:
  assumes "cz_wf (io_cz st)" and "cz_free (io_cz st) = tag # rest" and "fill (io_bufs st tag) = Some (buf, idx)"
  shows "\<exists>st'. io_submit da st user sync extra transfer fill has_ret ubuf_len = Done st'
           \<and> sent st' user tag sync extra transfer has_ret ubuf_len
           \<and> cz_free (io_cz st') = rest \<and> cz_processing (io_cz st') = cz_processing (io_cz st) @ [tag]
           \<and> io_bufs st' = (io_bufs st)(tag := buf)"
proof -
  let ?c = "io_cz st"
  have ok: "tags_ok ?c" using assms(1) by (simp add: cz_wf_def)
  have tag: "tag < CHEEZE_QUEUE_SIZE" "tag < length (cz_reqs ?c)" "tag < length (ureqs ?c)"
    using assms(1,2) by (auto simp: cz_wf_def tags_ok_def)
  note eq = io_submit_eq [where fill = fill, OF ok assms(2,3), of da user sync extra transfer has_ret ubuf_len,
      unfolded Let_def]
  note push = push_Done [OF ok assms(2), of user]
  note ok1 = tags_ok_push(1) [OF ok push]
  obtain st' where st': "io_submit da st user sync extra transfer fill has_ret ubuf_len = Done st'"
      "st' = (case io_submit da st user sync extra transfer fill has_ret ubuf_len of Done x \<Rightarrow> x)"
    using eq by simp
  have reqs: "cz_reqs (io_cz st') = (cz_reqs ?c)[tag := (cz_reqs ?c ! tag)\<lparr>rq_user := user, acked := 0,
        rq_item := Some tag, rq_sync := sync, rq_transfer := transfer, rq_extra := extra\<rparr>]"
    using st'(2) eq by simp
  have lists: "cz_free (io_cz st') = rest" "cz_processing (io_cz st') = cz_processing ?c @ [tag]"
      "cz_slots (io_cz st') = cz_slots ?c - 1" "cz_qd (io_cz st') = cz_qd ?c + 1"
      "io_bufs st' = (io_bufs st)(tag := buf)" "recv_event (io_cz st') = recv_event ?c"
      "ureqs (io_cz st') = (ureqs ?c)[tag := sent_user da (cz_users ?c user) tag idx has_ret ubuf_len]"
      "cz_users (io_cz st') user = sent_user da (cz_users ?c user) tag idx has_ret ubuf_len"
    using st'(2) eq by simp_all
  have "tags_ok (io_cz st')"
    by (rule tags_ok_frame [OF ok1]) (simp_all add: lists reqs map_update)
  then have wf: "cz_wf (io_cz st')" using assms(1) by (simp add: cz_wf_def lists)
  have "sent st' user tag sync extra transfer has_ret ubuf_len"
    using wf tag by (simp add: sent_def Let_def lists reqs sent_user_def)
  with st'(1) lists show ?thesis by blast
qed

lemma sent_range:
  assumes "sent st user tag sync extra transfer has_ret ubuf_len"
  shows "tag < CHEEZE_QUEUE_SIZE" "tag < length (cz_reqs (io_cz st))" "tag < length (ureqs (io_cz st))"
    "tag < length (recv_event (io_cz st))"
  using assms by (auto simp: sent_def cz_wf_def tags_ok_def)

lemma answer_frame:
  assumes "cz_wf (io_cz st)"
  shows "cz_wf (io_cz (device_answer st tag n data))"
proof -
  have "tags_ok (io_cz st)" using assms by (simp add: cz_wf_def)
  then have "tags_ok (io_cz (device_answer st tag n data))"
    by (rule tags_ok_frame) (simp_all add: device_answer_def)
  then show ?thesis using assms by (simp add: cz_wf_def) (simp add: device_answer_def)
qed

text \<open>A synchronous request with a return buffer keeps its tag; the caller is woken and sees the length.\<close>

lemma recv_kept:
  assumes "sent st user tag True None False True ubuf_len"
  shows "\<exists>st'. io_recv (device_answer st tag n data) tag = Done st' \<and> cz_wf (io_cz st')
           \<and> cz_free (io_cz st') = cz_free (io_cz st) \<and> cz_processing (io_cz st') = cz_processing (io_cz st)
           \<and> io_bufs st' tag = data \<and> u_id (cz_users (io_cz st') user) = tag
           \<and> u_ubuf_len (cz_users (io_cz st') user) = (if n \<noteq> 0 \<and> ubuf_len = 152 then 152 else n)
           \<and> acked (cz_reqs (io_cz st') ! tag) = 1"
proof -
  note tag = sent_range [OF assms]
  let ?a = "device_answer st tag n data"
  have wf: "cz_wf (io_cz st)" using assms by (simp add: sent_def)
  have a: "cz_reqs (io_cz ?a) = cz_reqs (io_cz st)" "cz_users (io_cz ?a) = cz_users (io_cz st)"
      "ureqs (io_cz ?a) ! tag = (cz_users (io_cz st) user)\<lparr>u_ubuf_len := n\<rparr>" "recv_event (io_cz ?a) ! tag = 1"
      "cz_free (io_cz ?a) = cz_free (io_cz st)" "cz_processing (io_cz ?a) = cz_processing (io_cz st)" "io_bufs ?a tag = data"
    using assms tag by (simp_all add: device_answer_def sent_def Let_def)
  have rq: "rq_sync (cz_reqs (io_cz st) ! tag)" "rq_extra (cz_reqs (io_cz st) ! tag) = None"
      "\<not> rq_transfer (cz_reqs (io_cz st) ! tag)" "rq_user (cz_reqs (io_cz st) ! tag) = user"
      "acked (cz_reqs (io_cz st) ! tag) = 0" "u_id (cz_users (io_cz st) user) = tag"
      "u_ubuf_len (cz_users (io_cz st) user) = ubuf_len" "u_ret_buf (cz_users (io_cz st) user) \<noteq> None"
    using assms by (simp_all add: sent_def Let_def)
  let ?u = "(cz_users (io_cz st) user)\<lparr>u_ubuf_len := (if n \<noteq> 0 \<and> ubuf_len = 152 then 152 else n)\<rparr>"
  let ?c = "complete_req ((io_cz ?a)\<lparr>cz_users := (cz_users (io_cz st))(user := ?u)\<rparr>) tag"
  have eq: "io_recv ?a tag = Done (?a\<lparr>io_cz := ?c\<lparr>recv_event := (recv_event ?c)[tag := 0]\<rparr>\<rparr>)"
    using a rq by (auto simp: io_recv_def recv_one_def recv_mark_def recv_dispatch_def Let_def)
  have "tags_ok (io_cz ?a)" using answer_frame [OF wf] by (simp add: cz_wf_def)
  then have "tags_ok ((io_cz ?a)\<lparr>cz_users := us\<rparr>)" for us by (rule tags_ok_frame) simp_all
  then have okc: "tags_ok ?c" using tag(1) by (rule tags_ok_complete)
  have "tags_ok (?c\<lparr>recv_event := (recv_event ?c)[tag := 0]\<rparr>)" by (rule tags_ok_frame [OF okc]) simp_all
  moreover have "length (ureqs ?c) = CHEEZE_QUEUE_SIZE" "length (recv_event ?c) = CHEEZE_QUEUE_SIZE"
    using answer_frame [OF wf, of tag n data] by (simp_all add: cz_wf_def complete_req_def)
  ultimately have "cz_wf (?c\<lparr>recv_event := (recv_event ?c)[tag := 0]\<rparr>)" by (simp add: cz_wf_def)
  with eq a rq tag show ?thesis by (simp add: complete_req_def)
qed

text \<open>Any other request loses its tag to the receiving thread.\<close>

lemma recv_released:
  assumes "sent st user tag sync extra transfer has_ret ubuf_len" and "\<not> has_ret \<or> \<not> sync \<or> transfer"
  shows "\<exists>st'. io_recv (device_answer st tag n data) tag = Done st' \<and> cz_wf (io_cz st')
           \<and> cz_free (io_cz st') = cz_free (io_cz st) @ [tag]
           \<and> cz_processing (io_cz st') = filter (\<lambda>t. t \<noteq> tag) (cz_processing (io_cz st))
           \<and> u_id (cz_users (io_cz st') user) = tag
           \<and> acked (cz_reqs (io_cz st') ! tag) = (if sync then 1 else 0)
           \<and> rq_sync (cz_reqs (io_cz st') ! tag) = sync \<and> rq_item (cz_reqs (io_cz st') ! tag) = Some tag"
proof -
  note tag = sent_range [OF assms(1)]
  let ?a = "device_answer st tag n data"
  let ?m = "recv_mark (io_cz ?a) tag"
  let ?c = "if sync then complete_req ?m tag else ?m"
  have wf: "cz_wf (io_cz st)" and mem: "tag \<in> set (cz_processing (io_cz st))" using assms(1) by (simp_all add: sent_def)
  have a: "cz_reqs (io_cz ?a) = cz_reqs (io_cz st)" "cz_users (io_cz ?a) = cz_users (io_cz st)"
      "ureqs (io_cz ?a) ! tag = (cz_users (io_cz st) user)\<lparr>u_ubuf_len := n\<rparr>" "recv_event (io_cz ?a) ! tag = 1"
      "cz_free (io_cz ?a) = cz_free (io_cz st)" "cz_processing (io_cz ?a) = cz_processing (io_cz st)"
    using assms(1) tag by (simp_all add: device_answer_def sent_def Let_def)
  have rq: "rq_sync (cz_reqs (io_cz st) ! tag) = sync" "rq_transfer (cz_reqs (io_cz st) ! tag) = transfer"
      "acked (cz_reqs (io_cz st) ! tag) = 0" "u_id (cz_users (io_cz st) user) = tag"
      "rq_item (cz_reqs (io_cz st) ! tag) = Some tag" "(u_ret_buf (cz_users (io_cz st) user) = None) = (\<not> has_ret)"
    using assms(1) by (simp_all add: sent_def Let_def)
  have oka: "tags_ok (io_cz ?a)" "length (ureqs (io_cz ?a)) = CHEEZE_QUEUE_SIZE"
      "length (recv_event (io_cz ?a)) = CHEEZE_QUEUE_SIZE"
    using answer_frame [OF wf, of tag n data] by (simp_all add: cz_wf_def)
  have okc: "tags_ok ?c" using oka(1) tag(1) by (simp add: tags_ok_mark tags_ok_complete)
  have memc: "tag \<in> set (cz_processing ?c)" using mem a by simp
  note pop = move_pop_Done [OF okc memc]
  let ?d = "?c\<lparr>cz_free := cz_free ?c @ [tag], cz_processing := filter (\<lambda>t. t \<noteq> tag) (cz_processing ?c),
      cz_qd := cz_qd ?c - 1, cz_slots := cz_slots ?c + 1\<rparr>"
  have "recv_dispatch ?m tag = cheeze_move_pop ?c tag"
    using assms(2) a rq by (auto simp: recv_dispatch_def Let_def)
  then have eq: "io_recv ?a tag = Done (?a\<lparr>io_cz := ?d\<lparr>recv_event := (recv_event ?d)[tag := 0]\<rparr>\<rparr>)"
    using pop a by (simp add: io_recv_def recv_one_def)
  have okd: "tags_ok ?d" by (rule tags_ok_move_pop [OF okc memc pop])
  have "tags_ok (?d\<lparr>recv_event := (recv_event ?d)[tag := 0]\<rparr>)" by (rule tags_ok_frame [OF okd]) simp_all
  moreover have "length (ureqs ?d) = CHEEZE_QUEUE_SIZE" "length (recv_event ?d) = CHEEZE_QUEUE_SIZE"
    using oka by (simp_all add: complete_req_def)
  ultimately have "cz_wf (?d\<lparr>recv_event := (recv_event ?d)[tag := 0]\<rparr>)" by (simp add: cz_wf_def)
  moreover have "cz_users ?m = cz_users (io_cz st)" using a(2) by (simp add: recv_mark_def split: option.splits)
  ultimately show ?thesis using eq a rq tag by (simp add: complete_req_def)
qed

lemma wait_woken:
  assumes "cz_wf (io_cz st)" and "u_id (cz_users (io_cz st) user) = tag" and "tag < CHEEZE_QUEUE_SIZE"
    and "rq_sync (cz_reqs (io_cz st) ! tag) \<longrightarrow> acked (cz_reqs (io_cz st) ! tag) > 0"
  shows "\<exists>st'. io_wait st user = Done st' \<and> cz_wf (io_cz st') \<and> cz_users (io_cz st') = cz_users (io_cz st)
           \<and> cz_free (io_cz st') = cz_free (io_cz st) \<and> cz_processing (io_cz st') = cz_processing (io_cz st)
           \<and> io_bufs st' = io_bufs st \<and> rq_item (cz_reqs (io_cz st') ! tag) = rq_item (cz_reqs (io_cz st) ! tag)"
proof (cases "rq_sync (cz_reqs (io_cz st) ! tag)")
  case True
  let ?rq = "cz_reqs (io_cz st) ! tag"
  let ?c = "(io_cz st)\<lparr>cz_reqs := (cz_reqs (io_cz st))[tag := ?rq\<lparr>acked := acked ?rq - 1\<rparr>]\<rparr>"
  have len: "tag < length (cz_reqs (io_cz st))" using assms(1,3) by (simp add: cz_wf_def tags_ok_def)
  then have "map rq_item (cz_reqs ?c) = map rq_item (cz_reqs (io_cz st))"
    by (simp add: map_update) (metis list_update_id nth_map)
  then have "tags_ok ?c"
    using assms(1) tags_ok_frame [of "io_cz st" ?c] by (simp add: cz_wf_def)
  with True assms len show ?thesis by (simp add: io_wait_def cheeze_io_wait_def cz_wf_def Let_def)
next
  case False
  with assms show ?thesis by (simp add: io_wait_def cheeze_io_wait_def)
qed

lemma free_in_flight:
  assumes "cz_wf (io_cz st)" and "tag \<in> set (cz_processing (io_cz st))"
  shows "\<exists>st'. io_free st tag = Done st' \<and> cz_wf (io_cz st') \<and> cz_free (io_cz st') = cz_free (io_cz st) @ [tag]
           \<and> cz_processing (io_cz st') = filter (\<lambda>t. t \<noteq> tag) (cz_processing (io_cz st))"
proof -
  have ok: "tags_ok (io_cz st)" using assms(1) by (simp add: cz_wf_def)
  note pop = move_pop_Done [OF ok assms(2)]
  from tags_ok_move_pop [OF ok assms(2) pop] pop assms(1) show ?thesis
    by (simp add: io_free_def cheeze_free_io_def cz_wf_def)
qed

section \<open>Reading\<close>

lemma fill_get:
  assumes "unat (tb_key_len tb) \<le> length (tb_key tb)" and "unat (tb_key_len tb) + 11 \<le> length buf"
    and "req_code (tb_type tb) \<le> 16"
  shows "\<exists>buf'. do { w \<leftarrow> req_head (tb_txn_id tb) 1 buf;
           lightfs_io_set_buf_get (req_code (tb_type tb)) (tb_key_len tb) (tb_key tb) (ucast (tb_len tb)) w } =
         Some (buf', unat (tb_key_len tb) + 11)"
proof -
  have len: "length (get_at 0 (unat (tb_key_len tb)) (tb_key tb)) = unat (tb_key_len tb)"
    using assms(1) by (simp add: get_at_def)
  have "11 \<le> length buf" using assms(2) by simp
  then have "6 + unat (tb_key_len tb) \<le> length buf - 5" "6 \<le> length buf - 3" "5 \<le> length buf - 2"
    using assms(2) by simp_all
  with assms len show ?thesis
    by (simp add: req_head_def wr_defs lightfs_io_set_buf_get_def poke_def peek_def bug_on_def not_less)
qed

lemma io_get_life:
  assumes "cz_wf (io_cz st)" and "cz_free (io_cz st) = tag # rest"
    and "tb_buf tb = Buf obj" and "unat (tb_key_len tb) \<le> length (tb_key tb)"
    and "unat (tb_key_len tb) + 11 \<le> length (io_bufs st tag)" and "req_code (tb_type tb) \<le> 16"
    and "m = (if n \<noteq> 0 \<and> unat (tb_len tb) = 152 then 152 else n)" and "m \<le> length obj" and "m \<le> length data"
  shows "\<exists>st1 st2 tb' st3.
           lightfs_io_get_submit da st user tb = Done st1
         \<and> io_recv (device_answer st1 tag n data) tag = Done st2
         \<and> lightfs_io_get_finish st2 user tb = Done (tb', st3)
         \<and> tb' = (if n = 0 then tb\<lparr>tb_ret := word_of_int DB_NOTFOUND\<rparr>
                  else tb\<lparr>tb_ret := of_nat m, tb_buf := Buf (take m data @ drop m obj)\<rparr>)
         \<and> cz_wf (io_cz st3) \<and> cz_free (io_cz st3) = rest @ [tag]
         \<and> cz_processing (io_cz st3) = cz_processing (io_cz st)"
proof -
  from fill_get [OF assms(4-6)] obtain buf' where fill: "do { w \<leftarrow> req_head (tb_txn_id tb) 1 (io_bufs st tag);
      lightfs_io_set_buf_get (req_code (tb_type tb)) (tb_key_len tb) (tb_key tb) (ucast (tb_len tb)) w } =
      Some (buf', unat (tb_key_len tb) + 11)" by blast
  note sub = io_submit_sent [OF assms(1,2), of "\<lambda>buf. do { w \<leftarrow> req_head (tb_txn_id tb) 1 buf;
      lightfs_io_set_buf_get (req_code (tb_type tb)) (tb_key_len tb) (tb_key tb) (ucast (tb_len tb)) w }", OF fill,
      of da user True None False True "unat (tb_len tb)"]
  then obtain st1 where st1: "lightfs_io_get_submit da st user tb = Done st1"
      and sent: "sent st1 user tag True None False True (unat (tb_len tb))"
      and lists1: "cz_free (io_cz st1) = rest" "cz_processing (io_cz st1) = cz_processing (io_cz st) @ [tag]"
    using assms(3) by (auto simp: lightfs_io_get_submit_def)
  note range = sent_range(1) [OF sent]
  from recv_kept [OF sent, of n data] obtain st2 where st2: "io_recv (device_answer st1 tag n data) tag = Done st2"
      "cz_wf (io_cz st2)" "cz_free (io_cz st2) = rest" "cz_processing (io_cz st2) = cz_processing (io_cz st) @ [tag]"
      "io_bufs st2 tag = data" "u_id (cz_users (io_cz st2) user) = tag" "u_ubuf_len (cz_users (io_cz st2) user) = m"
      "acked (cz_reqs (io_cz st2) ! tag) = 1"
    unfolding assms(7) lists1 by blast
  have woken: "rq_sync (cz_reqs (io_cz st2) ! tag) \<longrightarrow> acked (cz_reqs (io_cz st2) ! tag) > 0" using st2(8) by simp
  from wait_woken [OF st2(2,6) range woken] obtain sw where sw: "io_wait st2 user = Done sw" "cz_wf (io_cz sw)"
      "cz_users (io_cz sw) = cz_users (io_cz st2)" "cz_free (io_cz sw) = rest"
      "cz_processing (io_cz sw) = cz_processing (io_cz st) @ [tag]" "io_bufs sw = io_bufs st2"
    unfolding st2(3,4) by blast
  have "tag \<notin> set (cz_processing (io_cz st))" using assms(1,2) by (auto simp: cz_wf_def tags_ok_def)
  then have keep: "filter (\<lambda>t. t \<noteq> tag) (cz_processing (io_cz sw)) = cz_processing (io_cz st)"
    by (auto simp: sw(5) filter_id_conv)
  have "tag \<in> set (cz_processing (io_cz sw))" by (simp add: sw(5))
  from free_in_flight [OF sw(2) this] obtain st3 where st3: "io_free sw tag = Done st3" "cz_wf (io_cz st3)"
      "cz_free (io_cz st3) = rest @ [tag]" "cz_processing (io_cz st3) = cz_processing (io_cz st)"
    unfolding keep sw(4) by blast
  have m0: "m = 0 \<longleftrightarrow> n = 0" using assms(7) by simp
  have "lightfs_io_get_finish st2 user tb =
      Done (if n = 0 then tb\<lparr>tb_ret := word_of_int DB_NOTFOUND\<rparr>
            else tb\<lparr>tb_ret := of_nat m, tb_buf := Buf (take m data @ drop m obj)\<rparr>, st3)"
    using sw st2 st3 m0 assms(3,8,9)
    by (cases "n = 0") (simp_all add: lightfs_io_get_finish_def Let_def peek_def poke_def put_at_def get_at_def)
  with st1 st2(1) st3 show ?thesis by blast
qed

definition io_init :: io where
  "io_init = \<lparr>io_cz = cheeze_init (\<lambda>_. \<lparr>u_id = 0, u_buf_len = 0, u_buf = 0, u_ubuf_len = 0, u_ret_buf = None\<rparr>),
              io_bufs = (\<lambda>_. replicate 4200 0)\<rparr>"

definition sample_get :: txn_buf where
  "sample_get = lightfs_txn_buf_init\<lparr>tb_key := [109, 1], tb_key_len := 2, tb_len := 4, tb_buf := Buf [0, 0, 0, 0]\<rparr>"

lemma io_init_free: "cz_wf (io_cz io_init)" "cz_free (io_cz io_init) = 0 # [1..<CHEEZE_QUEUE_SIZE]"
  "io_bufs io_init t = replicate 4200 0"
  using queue_size_pos by (simp_all add: io_init_def cz_wf_init) (simp add: cheeze_init_def upt_conv_Cons)

section \<open>Requests that go wrong\<close>

lemma fill_sync_put:
  assumes "unat (tb_key_len tb) \<le> length (tb_key tb)" and "unat (tb_key_len tb) + 165 \<le> length buf"
    and "req_code (tb_type tb) \<le> 16" and "tb_buf tb = Buf obj" and "152 \<le> length obj"
  shows "\<exists>w. do { w \<leftarrow> req_head (tb_txn_id tb) 1 buf; v \<leftarrow> tb_value (\<lambda>_. []) tb;
           lightfs_io_set_buf_meta_set (req_code (tb_type tb)) (tb_key_len tb) (tb_key tb) (tb_off tb)
             (ucast (tb_len tb)) v w } = Some w"
proof -
  have len: "length (get_at 0 (unat (tb_key_len tb)) (tb_key tb)) = unat (tb_key_len tb)"
      "length (get_at 0 152 obj) = 152"
    using assms(1,5) by (simp_all add: get_at_def)
  have "6 + unat (tb_key_len tb) \<le> length buf - 5" "6 \<le> length buf - 3" "5 \<le> length buf - 2"
      "6 + unat (tb_key_len tb) \<le> length buf - 7" "156 + unat (tb_key_len tb) \<le> length buf - 9"
    using assms(2) by simp_all
  with assms len show ?thesis
    by (simp add: req_head_def wr_defs lightfs_io_set_buf_meta_set_def lightfs_io_meta_set_value_def tb_value_def
        poke_def peek_def bug_on_def not_less)
qed

text \<open>
  A synchronous put releases its tag twice.  Its request has no return
  buffer, so the receiving thread releases the tag before it wakes the caller, and the
  caller releases it again.  Afterwards the transport is inconsistent: one more slot is
  announced than there are free tags.
\<close>

lemma sync_put_releases_twice:
  assumes "cz_wf (io_cz st)" and "cz_free (io_cz st) = tag # rest"
    and "tb_buf tb = Buf obj" and "152 \<le> length obj" and "unat (tb_key_len tb) \<le> length (tb_key tb)"
    and "unat (tb_key_len tb) + 165 \<le> length (io_bufs st tag)" and "req_code (tb_type tb) \<le> 16"
  shows "\<exists>st1 st2 st3.
           lightfs_io_sync_put_submit da st user tb = Done st1
         \<and> io_recv (device_answer st1 tag n data) tag = Done st2 \<and> tag \<in> set (cz_free (io_cz st2))
         \<and> lightfs_io_sync_put_finish st2 user = Done st3
         \<and> \<not> tags_ok (io_cz st3) \<and> cz_slots (io_cz st3) = length (cz_free (io_cz st3)) + 1"
proof -
  let ?fill = "\<lambda>buf. do { w \<leftarrow> req_head (tb_txn_id tb) 1 buf; v \<leftarrow> tb_value (\<lambda>_. []) tb;
      lightfs_io_set_buf_meta_set (req_code (tb_type tb)) (tb_key_len tb) (tb_key tb) (tb_off tb)
        (ucast (tb_len tb)) v w }"
  from fill_sync_put [OF assms(5-7,3,4)] obtain buf idx where fill: "?fill (io_bufs st tag) = Some (buf, idx)"
    by (metis surj_pair)
  from io_submit_sent [where fill = ?fill, OF assms(1,2) fill, of da user True None False False 0]
  obtain st1 where st1: "lightfs_io_sync_put_submit da st user tb = Done st1"
      and sent: "sent st1 user tag True None False False 0"
    unfolding lightfs_io_sync_put_submit_def by blast
  note range = sent_range(1) [OF sent]
  from recv_released [OF sent, of n data] obtain st2 where st2: "io_recv (device_answer st1 tag n data) tag = Done st2"
      "cz_wf (io_cz st2)" "cz_free (io_cz st2) = cz_free (io_cz st1) @ [tag]" "u_id (cz_users (io_cz st2) user) = tag"
      "acked (cz_reqs (io_cz st2) ! tag) = 1" "rq_item (cz_reqs (io_cz st2) ! tag) = Some tag"
    by auto
  have woken: "rq_sync (cz_reqs (io_cz st2) ! tag) \<longrightarrow> acked (cz_reqs (io_cz st2) ! tag) > 0" using st2(5) by simp
  from wait_woken [OF st2(2,4) range woken] obtain sw where sw: "io_wait st2 user = Done sw" "cz_wf (io_cz sw)"
      "cz_users (io_cz sw) = cz_users (io_cz st2)" "cz_free (io_cz sw) = cz_free (io_cz st2)"
      "rq_item (cz_reqs (io_cz sw) ! tag) = Some tag"
    unfolding st2(6) by blast
  have "tags_ok (io_cz sw)" "tag \<in> set (cz_free (io_cz sw))" using sw st2(3) by (simp_all add: cz_wf_def)
  from double_release [OF this sw(5)] obtain c where c: "cheeze_free_io (io_cz sw) tag = Done c" "\<not> tags_ok c"
      "cz_slots c = length (cz_free c) + 1" by blast
  then have "lightfs_io_sync_put_finish st2 user = Done (sw\<lparr>io_cz := c\<rparr>)"
    using sw st2(4) by (simp add: lightfs_io_sync_put_finish_def io_free_def)
  with st1 st2(1,3) c show ?thesis by (intro exI [of _ st1] exI [of _ st2] exI [of _ "sw\<lparr>io_cz := c\<rparr>"]) simp
qed

text \<open>
  Property C40: a flush can miss its wake-up.  The receiving thread releases the tag of an
  answered transfer at once.  If all other tags are in flight and another synchronous
  request is prepared before the flushing thread has looked at the completion, that
  request gets the same tag, resets the completion, and the flushing thread waits
  although its transfer has been answered.
\<close>

theorem flush_wakeup_lost:
  assumes "cz_wf (io_cz st)" and "cz_free (io_cz st) = [tag]" and "c_is_flush c"
    and "transfer_fill pages c (io_bufs st tag) = Some w" and "user' \<noteq> user"
  shows "\<exists>st1 st2 sq cz.
           lightfs_io_transfer_submit da st user pages c = Done (transfer_released c, writeback_ended c, st1)
         \<and> io_recv (device_answer st1 tag n data) tag = Done st2 \<and> acked (cz_reqs (io_cz st2) ! tag) = 1
         \<and> cheeze_prepare_io da (io_cz st2) user' True None transfer = Done (sq, cz)
         \<and> lightfs_io_transfer_finish (st2\<lparr>io_cz := cz\<rparr>) user = Block"
proof -
  obtain buf idx where fill: "transfer_fill pages c (io_bufs st tag) = Some (buf, idx)" using assms(4) by (cases w) auto
  from io_submit_sent [where fill = "transfer_fill pages c", OF assms(1,2) fill, of da user True None True True 0]
  obtain st1 where sub: "io_submit da st user True None True (transfer_fill pages c) True 0 = Done st1"
      and sent: "sent st1 user tag True None True True 0" and free1: "cz_free (io_cz st1) = []"
    by blast
  have st1: "lightfs_io_transfer_submit da st user pages c = Done (transfer_released c, writeback_ended c, st1)"
    using sub assms(3) by (simp add: lightfs_io_transfer_submit_def)
  from recv_released [OF sent, of n data] obtain st2 where st2: "io_recv (device_answer st1 tag n data) tag = Done st2"
      "cz_wf (io_cz st2)" "cz_free (io_cz st2) = [tag]" "u_id (cz_users (io_cz st2) user) = tag"
      "acked (cz_reqs (io_cz st2) ! tag) = 1"
    unfolding free1 by auto
  have ok: "tags_ok (io_cz st2)" and len: "tag < length (cz_reqs (io_cz st2))"
    using st2(2,3) by (auto simp: cz_wf_def tags_ok_def)
  note push = push_Done [OF ok st2(3), of user']
  obtain sq cz where prep: "cheeze_prepare_io da (io_cz st2) user' True None transfer = Done (sq, cz)"
      "cz_users cz user = cz_users (io_cz st2) user" "acked (cz_reqs cz ! tag) = 0" "rq_sync (cz_reqs cz ! tag)"
    using push assms(5) len by (simp add: cheeze_prepare_io_def Let_def)
  then have "lightfs_io_transfer_finish (st2\<lparr>io_cz := cz\<rparr>) user = Block"
    using st2(4) by (simp add: lightfs_io_transfer_finish_def io_wait_def cheeze_io_wait_def Let_def)
  with st1 st2(1,5) prep(1) show ?thesis by blast
qed

text \<open>A transport with every tag but the first in flight.\<close>

definition io_busy :: io where
  "io_busy = \<lparr>io_cz = (cheeze_init (\<lambda>_. \<lparr>u_id = 0, u_buf_len = 0, u_buf = 0, u_ubuf_len = 0, u_ret_buf = None\<rparr>))
                \<lparr>cz_slots := 1, cz_free := [0], cz_processing := [1..<CHEEZE_QUEUE_SIZE],
                 cz_qd := int CHEEZE_QUEUE_SIZE - 1,
                 cz_reqs := map (\<lambda>t. \<lparr>acked = 0, rq_sync = True, rq_transfer = False, rq_extra = None, rq_user = 0,
                                      rq_item = Some t\<rparr>) [0..<CHEEZE_QUEUE_SIZE]\<rparr>,
              io_bufs = (\<lambda>_. replicate 12 0)\<rparr>"

lemma io_busy_wf: "cz_wf (io_cz io_busy)"
  using queue_size_pos by (auto simp: cz_wf_def tags_ok_def io_busy_def cheeze_init_def)

theorem flush_wakeup_lost_witness:
  "\<exists>st1 st2 sq cz.
     lightfs_io_transfer_submit [0, HP_SIZE] io_busy 7 (\<lambda>_. []) sample_c_txn =
       Done (transfer_released sample_c_txn, writeback_ended sample_c_txn, st1)
   \<and> io_recv (device_answer st1 0 0 []) 0 = Done st2
   \<and> cheeze_prepare_io [0, HP_SIZE] (io_cz st2) 8 True None False = Done (sq, cz)
   \<and> lightfs_io_transfer_finish (st2\<lparr>io_cz := cz\<rparr>) 7 = Block"
proof -
  have "cz_free (io_cz io_busy) = [0]" "io_bufs io_busy 0 = replicate 12 0" by (simp_all add: io_busy_def)
  moreover have "c_is_flush sample_c_txn" by code_simp
  moreover have "transfer_fill (\<lambda>_. []) sample_c_txn (replicate 12 0) = Some ([3, 0, 0, 0, 2, 0, 10, 2, 0, 100, 7, 15], 12)"
    by code_simp
  ultimately show ?thesis
    using flush_wakeup_lost [OF io_busy_wf, of 0 sample_c_txn "\<lambda>_. []" _ 8 7 "[0, HP_SIZE]" 0 "[]" False] by fastforce
qed

end
