(* ===== verification/Kevin_Txn.thy ===== *)
theory Kevin_Txn
  imports Kevin_Io
begin

text \<open>
  What the threads of the file system do with a transaction, from
  \<open>kevinfs/lightfs_txn_hdlr.c\<close>: begin it, insert buffers, read through it, and iterate
  with a cursor.  Reads go to the device at once and, as in the request functions, are
  split at the wait.  What becomes of a committed transaction is the handler's part.
\<close>

section \<open>Beginning and filling a transaction\<close>

definition TXN_READONLY :: u32 where "TXN_READONLY = 268435456 OR 4"
definition TXN_MAY_WRITE :: u32 where "TXN_MAY_WRITE = 2"
definition TXN_SYNC_WRITE :: u32 where "TXN_SYNC_WRITE = 128"

text \<open>The second argument is the counter of transaction numbers in the handler.\<close>

definition lightfs_bstore_txn_begin :: "u32 \<Rightarrow> u32 \<Rightarrow> txn \<times> u32" where
  "lightfs_bstore_txn_begin flags txn_id =
     (if flags = TXN_READONLY then (lightfs_txn_init\<lparr>t_state := TXN_READ, t_id := txn_id\<rparr>, txn_id + 1)
      else if flags = TXN_SYNC_WRITE
      then (lightfs_txn_init\<lparr>t_state := set_flag (t_state lightfs_txn_init) TXN_SYNC\<rparr>, txn_id)
      else (lightfs_txn_init, txn_id))"

text \<open>The value of an insertion: bytes, or the page of a write-back.\<close>

datatype ins_value = IV_dbt dbt | IV_page nat u32

definition iv_size :: "ins_value \<Rightarrow> u32" where
  "iv_size v = (case v of IV_dbt d \<Rightarrow> d_size d | IV_page p sz \<Rightarrow> sz)"

definition txn_add :: "txn \<Rightarrow> txn_buf \<Rightarrow> txn" where
  "txn_add t tb = t\<lparr>t_cnt := t_cnt t + 1, t_size := t_size t + calc_txn_buf_size tb, t_bufs := t_bufs t @ [tb]\<rparr>"

text \<open>
  \<open>buf\<close> of a new buffer: an object of the slab for its type, or the page itself.  The
  page of a write-back cannot be cleared or copied to through this pointer.
\<close>

definition insert_buf :: "(nat \<Rightarrow> byte list option) \<Rightarrow> ins_value \<Rightarrow> lightfs_req_type \<Rightarrow> tb_data option" where
  "insert_buf km v ty =
     (if ty = LIGHTFS_META_SET then do { b \<leftarrow> km INODE_SIZE; Some (Buf b) }
      else if ty = LIGHTFS_DATA_SET_WB then (case v of IV_page p _ \<Rightarrow> Some (Page p) | IV_dbt _ \<Rightarrow> None)
      else do { b \<leftarrow> km PAGE_SIZE; Some (Buf b) })"

definition insert_fill :: "txn_buf \<Rightarrow> ins_value \<Rightarrow> u32 \<Rightarrow> lightfs_req_type \<Rightarrow> txn_buf option" where
  "insert_fill tb v off ty =
     (if iv_size v = 0 then
        (case tb_buf tb of
           Buf b \<Rightarrow> do {
             b \<leftarrow> poke (unat off) (replicate (PAGE_SIZE - unat off) 0) b;
             Some (tb\<lparr>tb_type := ty, tb_off := ucast off, tb_len := of_nat PAGE_SIZE,
                      tb_update := ucast (of_nat PAGE_SIZE - off), tb_buf := Buf b\<rparr>) }
         | _ \<Rightarrow> None)
      else if ty = LIGHTFS_DATA_SET_WB then Some (tb\<lparr>tb_type := ty, tb_off := 0\<rparr>)
      else (case v of
              IV_dbt d \<Rightarrow> do {
                data \<leftarrow> d_data d;
                tb \<leftarrow> txn_buf_setup_cpy tb data off (d_size d) ty;
                Some (tb\<lparr>tb_update := ucast (d_size d)\<rparr>) }
            | IV_page _ _ \<Rightarrow> None))"

definition lightfs_bstore_txn_insert ::
    "(nat \<Rightarrow> byte list option) \<Rightarrow> nat \<Rightarrow> txn \<Rightarrow> dbt \<Rightarrow> ins_value option \<Rightarrow> u32 \<Rightarrow> lightfs_req_type \<Rightarrow>
     (int \<times> txn) option" where
  "lightfs_bstore_txn_insert km db t key vl off ty = do {
     tb \<leftarrow> alloc_txn_buf_key_from_dbt km (lightfs_txn_buf_init\<lparr>tb_txn_id := t_id t, tb_db := db\<rparr>) key;
     case vl of
       None \<Rightarrow> Some (0, txn_add t (txn_buf_setup tb NoBuf off (of_nat PAGE_SIZE * off) ty))
     | Some v \<Rightarrow> do {
         b \<leftarrow> insert_buf km v ty;
         tb \<leftarrow> insert_fill (tb\<lparr>tb_buf := b\<rparr>) v off ty;
         Some (0, txn_add t (tb\<lparr>tb_len := 4096\<rparr>)) } }"

definition lightfs_bstore_txn_abort :: "txn \<Rightarrow> int" where
  "lightfs_bstore_txn_abort t = 0"

section \<open>Reading\<close>

definition get_buf :: "nat \<Rightarrow> txn \<Rightarrow> dbt \<Rightarrow> dbt \<Rightarrow> u32 \<Rightarrow> lightfs_req_type \<Rightarrow> txn_buf" where
  "get_buf db t key vl off ty =
     copy_txn_buf_key_from_dbt
       (txn_buf_setup (lightfs_txn_buf_init\<lparr>tb_txn_id := t_id t, tb_db := db\<rparr>)
          (case d_data vl of None \<Rightarrow> NoBuf | Some b \<Rightarrow> Buf b) off (d_size vl) ty) key"

definition lightfs_bstore_txn_get_submit ::
    "nat list \<Rightarrow> io \<Rightarrow> nat \<Rightarrow> nat \<Rightarrow> txn \<Rightarrow> dbt \<Rightarrow> dbt \<Rightarrow> u32 \<Rightarrow> lightfs_req_type \<Rightarrow> io res" where
  "lightfs_bstore_txn_get_submit da st user db t key vl off ty = lightfs_io_get_submit da st user (get_buf db t key vl off ty)"

definition lightfs_bstore_txn_get_finish ::
    "io \<Rightarrow> nat \<Rightarrow> nat \<Rightarrow> txn \<Rightarrow> dbt \<Rightarrow> dbt \<Rightarrow> u32 \<Rightarrow> lightfs_req_type \<Rightarrow> (int \<times> dbt \<times> io) res" where
  "lightfs_bstore_txn_get_finish st user db t key vl off ty =
     res_bind (lightfs_io_get_finish st user (get_buf db t key vl off ty)) (\<lambda>(tb, st).
       Done (if tb_ret tb = word_of_int DB_NOTFOUND then DB_NOTFOUND else 0,
             case tb_buf tb of Buf b \<Rightarrow> vl\<lparr>d_data := Some b\<rparr> | _ \<Rightarrow> vl, st))"

text \<open>
  \<open>get_multi\<close> hands the pages of the answer to a callback, which gets the key with the
  page's block number, written into the caller's key.  The callback transforms the
  caller's state; a fault in it is \<^term>\<open>None\<close>.
\<close>

definition get_multi_buf :: "nat \<Rightarrow> txn \<Rightarrow> dbt \<Rightarrow> u32 \<Rightarrow> lightfs_req_type \<Rightarrow> txn_buf" where
  "get_multi_buf db t key cnt ty =
     txn_buf_setup (copy_txn_buf_key_from_dbt (lightfs_txn_buf_init\<lparr>tb_txn_id := t_id t, tb_db := db\<rparr>) key)
       NoBuf 0 cnt ty"

definition lightfs_bstore_txn_get_multi_submit ::
    "nat list \<Rightarrow> io \<Rightarrow> nat \<Rightarrow> nat \<Rightarrow> txn \<Rightarrow> dbt \<Rightarrow> u32 \<Rightarrow> lightfs_req_type \<Rightarrow> io res" where
  "lightfs_bstore_txn_get_multi_submit da st user db t key cnt ty =
     lightfs_io_get_multi_submit da st user (get_multi_buf db t key cnt ty)"

fun get_multi_pages ::
    "(byte list \<Rightarrow> byte list \<Rightarrow> 'e \<Rightarrow> 'e option) \<Rightarrow> nat \<Rightarrow> nat \<Rightarrow> byte list \<Rightarrow> nat \<Rightarrow> u64 \<Rightarrow> byte list \<Rightarrow> 'e \<Rightarrow>
     (byte list \<times> 'e) option" where
  "get_multi_pages f 0 i key key_len block_num buf extra = Some (key, extra)"
| "get_multi_pages f (Suc n) i key key_len block_num buf extra = do {
     key \<leftarrow> lightfs_data_key_set_blocknum key key_len block_num;
     page \<leftarrow> peek (i * PAGE_SIZE) PAGE_SIZE buf;
     extra \<leftarrow> f key page extra;
     get_multi_pages f n (i + 1) key key_len (block_num + 1) buf extra }"

definition lightfs_bstore_txn_get_multi_finish ::
    "(byte list \<Rightarrow> byte list \<Rightarrow> 'e \<Rightarrow> 'e option) \<Rightarrow> io \<Rightarrow> nat \<Rightarrow> nat \<Rightarrow> txn \<Rightarrow> dbt \<Rightarrow> u32 \<Rightarrow> 'e \<Rightarrow> lightfs_req_type \<Rightarrow>
     (int \<times> dbt \<times> 'e \<times> io) res" where
  "lightfs_bstore_txn_get_multi_finish f st user db t key cnt extra ty =
     res_bind (lightfs_io_get_multi_finish st user (get_multi_buf db t key cnt ty)) (\<lambda>(tb, st).
       if tb_ret tb = word_of_int DB_NOTFOUND then Done (DB_NOTFOUND, key, extra, st)
       else case (do {
              k \<leftarrow> d_data key;
              block_num \<leftarrow> lightfs_data_key_get_blocknum k (unat (d_size key));
              buf \<leftarrow> (case tb_buf tb of Buf b \<Rightarrow> Some b | _ \<Rightarrow> None);
              get_multi_pages f (unat cnt) 0 k (unat (d_size key)) block_num buf extra }) of
           None \<Rightarrow> Fault
         | Some (k, extra) \<Rightarrow>
             res_bind (io_free st (unat (tb_ret tb))) (\<lambda>st. Done (0, key\<lparr>d_data := Some k\<rparr>, extra, st)))"

definition lightfs_bstore_txn_get_multi_reada ::
    "nat list \<Rightarrow> io \<Rightarrow> nat \<Rightarrow> nat \<Rightarrow> txn \<Rightarrow> dbt \<Rightarrow> u32 \<Rightarrow> nat \<Rightarrow> lightfs_req_type \<Rightarrow> (int \<times> nat \<times> io) res" where
  "lightfs_bstore_txn_get_multi_reada da st user db t key cnt extra ty =
     res_bind (lightfs_io_get_multi_reada_submit da st user (get_multi_buf db t key cnt ty) extra) (\<lambda>(tb, tag, st).
       Done (if tb_ret tb = word_of_int DB_NOTFOUND then DB_NOTFOUND else 0, tag, st))"

text \<open>\<open>sync_put\<close>: the put, then a commit request with the same buffer.\<close>

definition sync_put_buf ::
    "(nat \<Rightarrow> byte list option) \<Rightarrow> nat \<Rightarrow> txn \<Rightarrow> dbt \<Rightarrow> dbt \<Rightarrow> u32 \<Rightarrow> lightfs_req_type \<Rightarrow> txn_buf option" where
  "sync_put_buf km db t key vl off ty = do {
     b \<leftarrow> km INODE_SIZE;
     data \<leftarrow> d_data vl;
     tb \<leftarrow> txn_buf_setup_cpy (lightfs_txn_buf_init\<lparr>tb_txn_id := t_id t, tb_db := db, tb_buf := Buf b\<rparr>)
            data off (d_size vl) ty;
     alloc_txn_buf_key_from_dbt km (tb\<lparr>tb_len := of_nat PAGE_SIZE\<rparr>) key }"

definition lightfs_bstore_txn_sync_put_submit ::
    "(nat \<Rightarrow> byte list option) \<Rightarrow> nat list \<Rightarrow> io \<Rightarrow> nat \<Rightarrow> nat \<Rightarrow> txn \<Rightarrow> dbt \<Rightarrow> dbt \<Rightarrow> u32 \<Rightarrow> lightfs_req_type \<Rightarrow>
     (txn_buf \<times> io) res" where
  "lightfs_bstore_txn_sync_put_submit km da st user db t key vl off ty =
     (case sync_put_buf km db t key vl off ty of
        None \<Rightarrow> Fault
      | Some tb \<Rightarrow> res_bind (lightfs_io_sync_put_submit da st user tb) (\<lambda>st. Done (tb, st)))"

definition lightfs_bstore_txn_sync_put_commit :: "nat list \<Rightarrow> io \<Rightarrow> nat \<Rightarrow> nat \<Rightarrow> txn_buf \<Rightarrow> io res" where
  "lightfs_bstore_txn_sync_put_commit da st user user' tb =
     res_bind (lightfs_io_sync_put_finish st user) (\<lambda>st.
       lightfs_io_commit_submit da st user' (tb\<lparr>tb_type := LIGHTFS_COMMIT\<rparr>))"

definition lightfs_bstore_txn_sync_put_finish :: "io \<Rightarrow> nat \<Rightarrow> (int \<times> io) res" where
  "lightfs_bstore_txn_sync_put_finish st user' = res_bind (lightfs_io_commit_finish st user') (\<lambda>st. Done (0, st))"

section \<open>Cursors\<close>

text \<open>
  A cursor over an answer of the device: \<open>buf\<close> (\<^term>\<open>None\<close> before the first answer), its
  length, the index of the next entry, the tag that owns the buffer, and the buffer for
  its requests.
\<close>

record dbc =
  dbc_idx :: nat
  dbc_buf_len :: nat
  dbc_buf :: "byte list option"
  io_tag :: "nat option"
  dbc_extra :: txn_buf
  dbc_key :: dbt
  dbc_value :: dbt

definition lightfs_bstore_dbc_cursor :: "txn \<Rightarrow> lightfs_req_type \<Rightarrow> dbt \<Rightarrow> dbt \<Rightarrow> dbc" where
  "lightfs_bstore_dbc_cursor t ty k v =
     \<lparr>dbc_idx = 0, dbc_buf_len = 0, dbc_buf = None, io_tag = None,
      dbc_extra = txn_buf_setup (lightfs_txn_buf_init\<lparr>tb_txn_id := t_id t\<rparr>) NoBuf 0 0 ty,
      dbc_key = k, dbc_value = v\<rparr>"

definition dbc_get_size :: "dbc \<Rightarrow> u16 option" where
  "dbc_get_size c = do { buf \<leftarrow> dbc_buf c; b \<leftarrow> peek (dbc_idx c) 2 buf; Some (load_le b) }"

definition copy_dbt_from_dbc :: "dbc \<Rightarrow> dbt \<Rightarrow> (nat \<times> dbt) option" where
  "copy_dbt_from_dbc c d = do {
     sz \<leftarrow> dbc_get_size c;
     buf \<leftarrow> dbc_buf c;
     if sz = 0 then Some (2, d\<lparr>d_size := 0\<rparr>)
     else do {
       src \<leftarrow> peek (dbc_idx c + 2) (unat sz) buf;
       dst \<leftarrow> d_data d;
       dst \<leftarrow> poke 0 src dst;
       Some (2 + unat sz, d\<lparr>d_data := Some dst, d_size := ucast sz\<rparr>) } }"

text \<open>\<open>copy_value_dbt_from_dbc\<close> copies as many bytes as the caller asks for, not as the entry has.\<close>

definition copy_value_dbt_from_dbc :: "dbc \<Rightarrow> dbt \<Rightarrow> (nat \<times> dbt) option" where
  "copy_value_dbt_from_dbc c d = do {
     sz \<leftarrow> dbc_get_size c;
     buf \<leftarrow> dbc_buf c;
     if d_size d = 0 then Some (2 + unat sz, d)
     else do {
       src \<leftarrow> peek (dbc_idx c + 2) (unat (d_size d)) buf;
       dst \<leftarrow> d_data d;
       dst \<leftarrow> poke 0 src dst;
       Some (2 + unat sz, d\<lparr>d_data := Some dst\<rparr>) } }"

definition copy_entry :: "dbc \<Rightarrow> dbt \<Rightarrow> dbt \<Rightarrow> (dbc \<times> dbt \<times> dbt) option" where
  "copy_entry c key vl = do {
     (n, key) \<leftarrow> copy_dbt_from_dbc c key;
     let c = c\<lparr>dbc_idx := dbc_idx c + n\<rparr>;
     (m, vl) \<leftarrow> copy_value_dbt_from_dbc c vl;
     Some (c\<lparr>dbc_idx := dbc_idx c + m\<rparr>, key, vl) }"

text \<open>
  \<open>lightfs_bstore_dbc_c_get\<close> with entries left in the buffer, and with an exhausted one.
  A request for no bytes returns before anything is sent.
\<close>

definition lightfs_bstore_dbc_c_get_local :: "dbc \<Rightarrow> dbt \<Rightarrow> dbt \<Rightarrow> u32 \<Rightarrow> (int \<times> dbc \<times> dbt \<times> dbt) option" where
  "lightfs_bstore_dbc_c_get_local c key vl flags =
     (if flags = DB_SET_RANGE then
        (if dbc_idx c \<noteq> 0 then Some (0, c, key, vl)
         else do { (c, key, vl) \<leftarrow> copy_entry c key vl; Some (0, c, key, vl) })
      else do {
        sz \<leftarrow> dbc_get_size c;
        if sz = 0 then Some (DB_NOTFOUND, c\<lparr>dbc_idx := dbc_idx c + 2\<rparr>, key, vl)
        else if sz = 1 then Some (0, c\<lparr>dbc_idx := dbc_idx c + 2\<rparr>, key, vl)
        else do { (c, key, vl) \<leftarrow> copy_entry c key vl; Some (0, c, key, vl) } })"

definition lightfs_bstore_dbc_c_get_submit ::
    "nat list \<Rightarrow> io \<Rightarrow> nat \<Rightarrow> dbc \<Rightarrow> dbt \<Rightarrow> dbt \<Rightarrow> u32 \<Rightarrow> (int option \<times> dbc \<times> io) res" where
  "lightfs_bstore_dbc_c_get_submit da st user c key vl flags =
     (let tb = (dbc_extra c)\<lparr>tb_off := (if flags = DB_SET_RANGE then 1 else 0), tb_len := d_size vl\<rparr> in
      if d_size vl = 0 then Done (Some 0, c\<lparr>dbc_extra := tb\<rparr>, st)
      else
        let tb = copy_txn_buf_key_from_dbt tb key in
        res_bind (case io_tag c of None \<Rightarrow> Done st | Some tag \<Rightarrow> io_free st tag) (\<lambda>st.
        res_bind (lightfs_io_iter_submit da st user tb) (\<lambda>st.
          Done (None, c\<lparr>dbc_extra := tb, io_tag := None\<rparr>, st))))"

definition lightfs_bstore_dbc_c_get_finish :: "io \<Rightarrow> nat \<Rightarrow> dbc \<Rightarrow> (int \<times> dbc \<times> io) res" where
  "lightfs_bstore_dbc_c_get_finish st user c =
     res_bind (lightfs_io_iter_finish st user (dbc_extra c)) (\<lambda>(tag, tb, st).
       let c = c\<lparr>dbc_extra := tb, dbc_idx := 0, io_tag := Some tag\<rparr> in
       if tb_ret tb = word_of_int DB_NOTFOUND then Done (DB_NOTFOUND, c, st)
       else Done (0, c\<lparr>dbc_buf_len := unat (tb_ret tb),
                       dbc_buf := (case tb_buf tb of Buf b \<Rightarrow> Some b | _ \<Rightarrow> None)\<rparr>, st))"

text \<open>
  The call: entries that are left are copied, otherwise a request is sent.  \<^term>\<open>Inr\<close> is a
  call that waits for its answer, to be completed by \<open>lightfs_bstore_dbc_c_get_finish\<close>.
\<close>

definition lightfs_bstore_dbc_c_get ::
    "nat list \<Rightarrow> io \<Rightarrow> nat \<Rightarrow> dbc \<Rightarrow> dbt \<Rightarrow> dbt \<Rightarrow> u32 \<Rightarrow> ((int \<times> dbc \<times> dbt \<times> dbt \<times> io) + (dbc \<times> io)) res" where
  "lightfs_bstore_dbc_c_get da st user c key vl flags =
     (if dbc_idx c \<ge> dbc_buf_len c then
        res_bind (lightfs_bstore_dbc_c_get_submit da st user c key vl flags) (\<lambda>(r, c, st).
          Done (case r of Some ret \<Rightarrow> Inl (ret, c, key, vl, st) | None \<Rightarrow> Inr (c, st)))
      else case lightfs_bstore_dbc_c_get_local c key vl flags of
             None \<Rightarrow> Fault
           | Some (ret, c, key, vl) \<Rightarrow> Done (Inl (ret, c, key, vl, st)))"

text \<open>
  The \<open>getf\<close> variants.  The tag that \<open>iter\<close> returns is dropped, and neither \<open>buf\<close> nor
  \<open>buf_len\<close> is set from the answer.
\<close>

definition dbc_getf_submit :: "nat list \<Rightarrow> io \<Rightarrow> nat \<Rightarrow> dbc \<Rightarrow> u16 \<Rightarrow> u32 \<Rightarrow> dbt \<Rightarrow> (dbc \<times> io) res" where
  "dbc_getf_submit da st user c off flags key =
     (let tb = copy_txn_buf_key_from_dbt ((dbc_extra c)\<lparr>tb_off := off, tb_len := flags\<rparr>) key in
      res_bind (lightfs_io_iter_submit da st user tb) (\<lambda>st. Done (c\<lparr>dbc_extra := tb\<rparr>, st)))"

definition dbc_getf_local :: "(dbt \<Rightarrow> dbt \<Rightarrow> 'e \<Rightarrow> 'e) \<Rightarrow> dbc \<Rightarrow> 'e \<Rightarrow> (int \<times> dbc \<times> 'e) option" where
  "dbc_getf_local f c extra = do {
     (n, key) \<leftarrow> copy_dbt_from_dbc c (dbc_key c);
     let c = c\<lparr>dbc_key := key\<rparr>;
     if n = 0 then Some (DB_NOTFOUND, c, extra)
     else do {
       let c = c\<lparr>dbc_idx := dbc_idx c + n\<rparr>;
       (m, vl) \<leftarrow> copy_value_dbt_from_dbc c (dbc_value c);
       Some (0, c\<lparr>dbc_idx := dbc_idx c + m, dbc_value := vl\<rparr>, f key vl extra) } }"

definition dbc_getf_finish :: "(dbt \<Rightarrow> dbt \<Rightarrow> 'e \<Rightarrow> 'e) \<Rightarrow> io \<Rightarrow> nat \<Rightarrow> dbc \<Rightarrow> 'e \<Rightarrow> (int \<times> dbc \<times> 'e \<times> io) res" where
  "dbc_getf_finish f st user c extra =
     res_bind (lightfs_io_iter_finish st user (dbc_extra c)) (\<lambda>(_, tb, st).
       let c = c\<lparr>dbc_extra := tb, dbc_idx := 0\<rparr> in
       if tb_ret tb = word_of_int DB_NOTFOUND then Done (DB_NOTFOUND, c, extra, st)
       else case dbc_getf_local f c extra of
              None \<Rightarrow> Fault
            | Some (r, c, extra) \<Rightarrow> Done (r, c, extra, st))"

definition lightfs_bstore_dbc_c_getf_set_range_submit ::
    "nat list \<Rightarrow> io \<Rightarrow> nat \<Rightarrow> dbc \<Rightarrow> u32 \<Rightarrow> dbt \<Rightarrow> (dbc \<times> io) res" where
  "lightfs_bstore_dbc_c_getf_set_range_submit da st user c flags key = dbc_getf_submit da st user c 1 flags key"

text \<open>\<open>c_getf_next\<close> sends the three bytes \<open>asd\<close> as the key of its request.\<close>

definition lightfs_bstore_dbc_c_getf_next_submit :: "nat list \<Rightarrow> io \<Rightarrow> nat \<Rightarrow> dbc \<Rightarrow> u32 \<Rightarrow> (dbc \<times> io) res" where
  "lightfs_bstore_dbc_c_getf_next_submit da st user c flags =
     dbc_getf_submit da st user c 0 flags \<lparr>d_data = Some [97, 115, 100, 0], d_size = 3, d_ulen = 0, d_flags = 0\<rparr>"

definition lightfs_bstore_dbc_close :: "io \<Rightarrow> dbc \<Rightarrow> (int \<times> io) res" where
  "lightfs_bstore_dbc_close st c =
     res_bind (case io_tag c of None \<Rightarrow> Done st | Some tag \<Rightarrow> io_free st tag) (\<lambda>st. Done (0, st))"

section \<open>Size accounting\<close>

definition dbt_valid :: "dbt \<Rightarrow> bool" where
  "dbt_valid d \<longleftrightarrow> (case d_data d of None \<Rightarrow> False | Some b \<Rightarrow> unat (d_size d) \<le> length b)"

text \<open>What the file system passes to an insertion, by request type.\<close>

definition insertable :: "(nat \<Rightarrow> byte list) \<Rightarrow> ins_value option \<Rightarrow> u32 \<Rightarrow> lightfs_req_type \<Rightarrow> bool" where
  "insertable pages vl off ty \<longleftrightarrow>
     (case vl of
        None \<Rightarrow> ty \<in> {LIGHTFS_META_DEL, LIGHTFS_DATA_DEL, LIGHTFS_DATA_DEL_MULTI} \<and> unat off < 65536
      | Some (IV_page p sz) \<Rightarrow> ty = LIGHTFS_DATA_SET_WB \<and> sz \<noteq> 0 \<and> length (pages p) = PAGE_SIZE
      | Some (IV_dbt d) \<Rightarrow>
          dbt_valid d \<and>
          (ty = LIGHTFS_META_SET \<and> d_size d \<noteq> 0 \<and> unat off + unat (d_size d) \<le> INODE_SIZE
         \<or> ty \<in> {LIGHTFS_DATA_SET, LIGHTFS_DATA_SEQ_SET, LIGHTFS_DATA_UPDATE, LIGHTFS_META_UPDATE}
           \<and> unat off + unat (d_size d) \<le> PAGE_SIZE))"

definition txn_inv :: "(nat \<Rightarrow> byte list) \<Rightarrow> txn \<Rightarrow> bool" where
  "txn_inv pages t \<longleftrightarrow>
     (\<forall>tb\<in>set (t_bufs t). tb_ok pages tb) \<and> t_cnt t = of_nat (length (t_bufs t))
   \<and> 8 + total_size (t_bufs t) \<le> unat (t_size t)"

lemma txn_inv_init [simp]: "txn_inv pages lightfs_txn_init" "txn_inv pages (lightfs_txn_init\<lparr>t_state := st\<rparr>)"
  by (simp_all add: txn_inv_def lightfs_txn_init_def total_size_def)

lemma txn_inv_begin: "txn_inv pages (fst (lightfs_bstore_txn_begin flags i))"
  by (simp add: lightfs_bstore_txn_begin_def txn_inv_def lightfs_txn_init_def total_size_def)

lemma alloc_key_ok:
  assumes "memory_ok km" and "dbt_valid key" and "unat (d_size key) < 65536"
  shows "\<exists>k. alloc_txn_buf_key_from_dbt km tb key = Some (tb\<lparr>tb_key := k, tb_key_len := ucast (d_size key)\<rparr>)
           \<and> length k = unat (d_size key) \<and> k = dbt_bytes key"
proof -
  obtain b where b: "d_data key = Some b" "unat (d_size key) \<le> length b"
    using assms(2) by (auto simp: dbt_valid_def split: option.splits)
  obtain o1 where "km (unat (d_size key)) = Some o1" "length o1 = unat (d_size key)"
    using assms(1) by (auto simp: memory_ok_def)
  with b show ?thesis
    by (simp add: alloc_txn_buf_key_from_dbt_def dbt_bytes_def put_at_def get_at_def)
qed

text \<open>A buffer as an insertion leaves it: well-formed, and no larger on the wire than accounted for.\<close>

definition tb_inserted :: "(nat \<Rightarrow> byte list) \<Rightarrow> dbt \<Rightarrow> txn_buf \<Rightarrow> bool" where
  "tb_inserted pages key tb \<longleftrightarrow>
     tb_ok pages tb \<and> tb_key_bytes tb = dbt_bytes key \<and> wire_size tb \<le> unat (calc_txn_buf_size tb)
   \<and> unat (calc_txn_buf_size tb) \<le> 2 ^ 29"

lemma calc_size:
  assumes "unat (tb_len tb) \<le> 268431360"
  shows "unat (calc_txn_buf_size tb) = 7 + unat (tb_key_len tb) + unat (tb_len tb)"
proof -
  have small: "unat (tb_key_len tb) < 65536" using unsigned_less [of "tb_key_len tb", where ?'a = nat] by simp
  then have k: "unat (ucast (tb_key_len tb) :: u32) = unat (tb_key_len tb)"
    by (simp add: unsigned_ucast_eq take_bit_nat_eq_self_iff)
  from assms k small have "unat (7 + ucast (tb_key_len tb) + tb_len tb :: u32) = 7 + unat (tb_key_len tb) + unat (tb_len tb)"
    by (simp add: unat_word_ariths)
  then show ?thesis by (simp add: calc_txn_buf_size_def ac_simps)
qed

lemma inserted_value:
  assumes "length k = unat (d_size key)" and "k = dbt_bytes key" and "unat (d_size key) < 65536"
    and "tb_key tb = k" and "tb_key_len tb = ucast (d_size key)"
    and "tb_len tb = 4096" and "tb_value pages tb = Some v"
    and "tb_type tb = LIGHTFS_META_SET \<and> length v = INODE_SIZE
       \<or> tb_type tb \<in> {LIGHTFS_DATA_SET, LIGHTFS_DATA_SEQ_SET, LIGHTFS_DATA_UPDATE, LIGHTFS_META_UPDATE,
                      LIGHTFS_DATA_SET_WB} \<and> length v = PAGE_SIZE"
  shows "tb_inserted pages key tb"
proof -
  have kl: "unat (tb_key_len tb) = unat (d_size key)" using assms(3,5) by (simp add: unat_ucast_u16)
  have "unat (calc_txn_buf_size tb) = 4103 + unat (d_size key)"
    using calc_size [of tb] kl assms(6) by simp
  moreover have "tb_ok pages tb \<and> wire_size tb \<le> 4103 + unat (d_size key)"
    using assms(8) assms(1-7) kl
    by (elim disjE conjE insertE emptyE; simp add: tb_ok_def wire_of_def wire_size_def value_bytes_def INODE_SIZE_def PAGE_SIZE_def)
  moreover have "tb_key_bytes tb = dbt_bytes key" using assms(1,2,4) kl by (simp add: tb_key_bytes_def)
  ultimately show ?thesis using assms(3) by (simp add: tb_inserted_def)
qed

lemma inserted_del:
  assumes "length k = unat (d_size key)" and "k = dbt_bytes key" and "unat (d_size key) < 65536"
    and "tb_key tb = k" and "tb_key_len tb = ucast (d_size key)" and "unat off < 65536"
    and "tb_len tb = of_nat PAGE_SIZE * off"
    and "tb_type tb \<in> {LIGHTFS_META_DEL, LIGHTFS_DATA_DEL, LIGHTFS_DATA_DEL_MULTI}"
  shows "tb_inserted pages key tb"
proof -
  have kl: "unat (tb_key_len tb) = unat (d_size key)" using assms(3,5) by (simp add: unat_ucast_u16)
  have "unat (tb_len tb) = 4096 * unat off"
    using assms(6,7) by (simp add: PAGE_SIZE_def unat_word_ariths)
  then have "unat (calc_txn_buf_size tb) = 7 + unat (d_size key) + 4096 * unat off"
    using calc_size [of tb] kl assms(6) by simp
  with assms kl show ?thesis
    by (auto simp: tb_inserted_def tb_ok_def wire_of_def wire_size_def value_bytes_def tb_key_bytes_def)
qed

lemma insert_fill_dbt:
  assumes "d_data d = Some data" and "unat (d_size d) \<le> length data" and "unat off + unat (d_size d) \<le> length b"
    and "d_size d = 0 \<longrightarrow> length b = PAGE_SIZE" and "ty \<noteq> LIGHTFS_DATA_SET_WB"
  shows "\<exists>b' upd ln. insert_fill (tb\<lparr>tb_buf := Buf b\<rparr>) (IV_dbt d) off ty =
           Some (tb\<lparr>tb_type := ty, tb_off := ucast off, tb_len := ln, tb_update := upd, tb_buf := Buf b'\<rparr>)
         \<and> length b' = length b"
proof (cases "d_size d = 0")
  case True
  with assms have "unat off \<le> PAGE_SIZE" "length b = PAGE_SIZE" by simp_all
  with True show ?thesis
    by (intro exI [of _ "put_at (unat off) (replicate (PAGE_SIZE - unat off) 0) b"] exI [of _ "ucast (of_nat PAGE_SIZE - off)"]
        exI [of _ "of_nat PAGE_SIZE"]) (simp add: insert_fill_def iv_size_def)
next
  case False
  have "length (get_at 0 (unat (d_size d)) data) = unat (d_size d)" using assms(2) by (simp add: get_at_def)
  with False assms show ?thesis
    by (intro exI [of _ "put_at (unat off) (get_at 0 (unat (d_size d)) data) b"] exI [of _ "ucast (d_size d)"]
        exI [of _ "d_size d"]) (simp add: insert_fill_def iv_size_def txn_buf_setup_cpy_def)
qed

lemma txn_insert_buf:
  assumes "memory_ok km" and "dbt_valid key" and "unat (d_size key) < 65536" and "insertable pages vl off ty"
  shows "\<exists>tb. lightfs_bstore_txn_insert km db t key vl off ty = Some (0, txn_add t tb)
           \<and> tb_inserted pages key tb \<and> tb_type tb = ty"
proof -
  from alloc_key_ok [OF assms(1-3)] obtain k where
    k: "\<And>tb. alloc_txn_buf_key_from_dbt km tb key = Some (tb\<lparr>tb_key := k, tb_key_len := ucast (d_size key)\<rparr>)"
      "length k = unat (d_size key)" "k = dbt_bytes key"
    by (metis (mono_tags, lifting))
  let ?tb0 = "lightfs_txn_buf_init\<lparr>tb_txn_id := t_id t, tb_db := db, tb_key := k, tb_key_len := ucast (d_size key)\<rparr>"
  note built = inserted_value [OF k(2,3) assms(3)]
  obtain im pm where mem: "km INODE_SIZE = Some im" "length im = INODE_SIZE" "km PAGE_SIZE = Some pm" "length pm = PAGE_SIZE"
    using assms(1) by (meson memory_ok_def)
  show ?thesis
  proof (cases vl)
    case None
    let ?tb = "txn_buf_setup ?tb0 NoBuf off (of_nat PAGE_SIZE * off) ty"
    have "tb_inserted pages key ?tb"
      using None assms(4) by (intro inserted_del [OF k(2,3) assms(3), of _ off]) (simp_all add: txn_buf_setup_def insertable_def)
    with None k(1) show ?thesis
      by (intro exI [of _ ?tb]) (simp add: lightfs_bstore_txn_insert_def txn_buf_setup_def)
  next
    case (Some v)
    show ?thesis
    proof (cases v)
      case (IV_page p sz)
      let ?tb = "?tb0\<lparr>tb_buf := Page p, tb_type := ty, tb_off := 0, tb_len := 4096\<rparr>"
      have "tb_inserted pages key ?tb"
        using Some IV_page assms(4) by (intro built [of _ _ "pages p"]) (simp_all add: insertable_def tb_value_def)
      with Some IV_page assms(4) k(1) show ?thesis
        by (intro exI [of _ ?tb]) (simp add: lightfs_bstore_txn_insert_def insert_buf_def insert_fill_def iv_size_def insertable_def)
    next
      case (IV_dbt d)
      define b where "b = (if ty = LIGHTFS_META_SET then im else pm)"
      have buf: "insert_buf km v ty = Some (Buf b)"
        using Some IV_dbt assms(4) mem by (auto simp: insert_buf_def insertable_def b_def)
      have len: "length b = (if ty = LIGHTFS_META_SET then INODE_SIZE else PAGE_SIZE)" using mem by (simp add: b_def)
      obtain data where data: "d_data d = Some data" "unat (d_size d) \<le> length data"
        using Some IV_dbt assms(4) by (auto simp: insertable_def dbt_valid_def split: option.splits)
      have "unat off + unat (d_size d) \<le> length b" "d_size d = 0 \<longrightarrow> length b = PAGE_SIZE" "ty \<noteq> LIGHTFS_DATA_SET_WB"
        using Some IV_dbt assms(4) len by (auto simp: insertable_def)
      from insert_fill_dbt [OF data this, of ?tb0] IV_dbt
      obtain b' upd ln where fill: "insert_fill (?tb0\<lparr>tb_buf := Buf b\<rparr>) v off ty =
               Some (?tb0\<lparr>tb_type := ty, tb_off := ucast off, tb_len := ln, tb_update := upd, tb_buf := Buf b'\<rparr>)"
          "length b' = length b" by blast
      let ?tb = "?tb0\<lparr>tb_type := ty, tb_off := ucast off, tb_update := upd, tb_buf := Buf b', tb_len := 4096\<rparr>"
      have "tb_inserted pages key ?tb"
        using Some IV_dbt assms(4) fill(2) len by (intro built [of _ _ b']) (auto simp: insertable_def tb_value_def)
      with Some k(1) buf fill(1) show ?thesis
        by (intro exI [of _ ?tb]) (simp add: lightfs_bstore_txn_insert_def)
    qed
  qed
qed

text \<open>
  Property C30: an insertion never runs out of its buffer and keeps a transaction's
  accounting.  It appends one well-formed buffer for the given key, counts it, and
  \<open>size\<close> stays an upper bound of the bytes the transaction takes in a transfer request,
  whatever the request type.
\<close>

theorem txn_insert_accounts:
  assumes "memory_ok km" and "dbt_valid key" and "unat (d_size key) < 65536" and "insertable pages vl off ty"
    and "txn_inv pages t" and "unat (t_size t) \<le> 2 ^ 31"
  shows "\<exists>tb t'. lightfs_bstore_txn_insert km db t key vl off ty = Some (0, t')
           \<and> t_bufs t' = t_bufs t @ [tb] \<and> tb_type tb = ty \<and> tb_key_bytes tb = dbt_bytes key
           \<and> txn_inv pages t'"
proof -
  from txn_insert_buf [OF assms(1-4)] obtain tb where
    tb: "lightfs_bstore_txn_insert km db t key vl off ty = Some (0, txn_add t tb)" "tb_inserted pages key tb" "tb_type tb = ty"
    by blast
  have "unat (t_size t + calc_txn_buf_size tb) = unat (t_size t) + unat (calc_txn_buf_size tb)"
    using assms(6) tb(2) by (simp add: tb_inserted_def unat_word_ariths)
  then have "txn_inv pages (txn_add t tb)"
    using assms(5) tb(2) by (auto simp: txn_inv_def txn_add_def tb_inserted_def total_size_def)
  with tb show ?thesis
    by (intro exI [of _ tb] exI [of _ "txn_add t tb"]) (simp add: txn_add_def tb_inserted_def)
qed

definition km_zero :: "nat \<Rightarrow> byte list option" where
  "km_zero n = Some (replicate n 0)"

lemma memory_ok_zero: "memory_ok km_zero"
  by (simp add: memory_ok_def km_zero_def)

theorem txn_insert_accounts_witness:
  "\<exists>t'. lightfs_bstore_txn_insert km_zero 1 lightfs_txn_init (dbt_setup (data_key_of 7 258) 17) None 3 LIGHTFS_DATA_DEL_MULTI
          = Some (0, t') \<and> txn_inv (\<lambda>_. []) t'"
  using txn_insert_accounts [OF memory_ok_zero, of "dbt_setup (data_key_of 7 258) 17" "\<lambda>_. []" None 3
      LIGHTFS_DATA_DEL_MULTI lightfs_txn_init 1]
  by (auto simp: dbt_valid_def dbt_setup_def insertable_def lightfs_txn_init_def txn_inv_def total_size_def)

section \<open>The pages of a multi-block read\<close>

lemma set_blocknum_data:
  "lightfs_data_key_set_blocknum (data_key_of ino bn @ tail) 17 bn' = Some (data_key_of ino bn' @ tail)"
  by (simp add: lightfs_data_key_set_blocknum_def data_key_of_def put_at_def)

lemma get_blocknum_append: "lightfs_data_key_get_blocknum (data_key_of ino bn @ tail) 17 = Some bn"
  by (simp add: lightfs_data_key_get_blocknum_def data_key_of_def get_at_def load_store_be64)

text \<open>
  A multi-block read hands the pages of the answer to the callback in order, each with the
  key of its own block, and leaves the last block's number in the caller's key.
\<close>

lemma get_multi_pages_eq:
  assumes "(i + n) * PAGE_SIZE \<le> length buf"
  shows "get_multi_pages f n i (data_key_of ino bn0 @ tail) 17 bn buf extra =
         do { extra \<leftarrow> foldM (\<lambda>e j. f (data_key_of ino (bn + of_nat j) @ tail)
                                     (get_at ((i + j) * PAGE_SIZE) PAGE_SIZE buf) e) extra [0..<n];
              Some (data_key_of ino (if n = 0 then bn0 else bn + of_nat (n - 1)) @ tail, extra) }"
  using assms
proof (induction n arbitrary: i bn bn0 extra)
  case 0
  then show ?case by simp
next
  case (Suc n)
  let ?F = "\<lambda>i bn e j. f (data_key_of ino (bn + of_nat j) @ tail) (get_at ((i + j) * PAGE_SIZE) PAGE_SIZE buf) e"
  have page: "i * PAGE_SIZE + PAGE_SIZE \<le> length buf" using Suc.prems by (simp add: algebra_simps)
  have shift: "foldM (?F i bn) e [Suc 0..<Suc n] = foldM (?F (i + 1) (bn + 1)) e [0..<n]" for e
    by (simp add: map_Suc_upt [symmetric] foldM_map add.assoc del: map_Suc_upt upt_Suc)
  have first: "foldM (?F i bn) extra [0..<Suc n] =
        do { e \<leftarrow> f (data_key_of ino bn @ tail) (get_at (i * PAGE_SIZE) PAGE_SIZE buf) extra;
             foldM (?F (i + 1) (bn + 1)) e [0..<n] }"
    by (simp only: upt_conv_Cons [OF zero_less_Suc] foldM.simps shift) simp
  have last: "(if n = 0 then bn else bn + 1 + of_nat (n - 1)) = bn + of_nat n"
    by (cases n) simp_all
  have "get_multi_pages f (Suc n) i (data_key_of ino bn0 @ tail) 17 bn buf extra =
        do { extra \<leftarrow> f (data_key_of ino bn @ tail) (get_at (i * PAGE_SIZE) PAGE_SIZE buf) extra;
             get_multi_pages f n (i + 1) (data_key_of ino bn @ tail) 17 (bn + 1) buf extra }"
    using page by (simp add: set_blocknum_data)
  also have "\<dots> = do { extra \<leftarrow> f (data_key_of ino bn @ tail) (get_at (i * PAGE_SIZE) PAGE_SIZE buf) extra;
             extra \<leftarrow> foldM (?F (i + 1) (bn + 1)) extra [0..<n];
             Some (data_key_of ino (if n = 0 then bn else bn + 1 + of_nat (n - 1)) @ tail, extra) }"
    using Suc.prems by (subst Suc.IH) (simp_all add: algebra_simps)
  also have "\<dots> = do { extra \<leftarrow> foldM (?F i bn) extra [0..<Suc n];
             Some (data_key_of ino (bn + of_nat n) @ tail, extra) }"
    unfolding first by (simp only: last Option.bind_assoc)
  finally show ?case by simp
qed

section \<open>Iterating with a cursor\<close>

text \<open>An answer of the device to an iteration: length and bytes of each key and value, ended by a zero length.\<close>

definition enc_entry :: "byte list \<times> byte list \<Rightarrow> byte list" where
  "enc_entry e = store_le 2 (of_nat (length (fst e)) :: u16) @ fst e @ store_le 2 (of_nat (length (snd e)) :: u16) @ snd e"

definition enc_entries :: "(byte list \<times> byte list) list \<Rightarrow> byte list" where
  "enc_entries es = concat (map enc_entry es)"

text \<open>
  Repeated \<open>DB_NEXT\<close> until the end is reported or a request is sent, with the keys and values
  seen and whether a request was sent.
\<close>

fun dbc_collect :: "nat \<Rightarrow> nat list \<Rightarrow> io \<Rightarrow> nat \<Rightarrow> dbc \<Rightarrow> dbt \<Rightarrow> dbt \<Rightarrow> ((byte list \<times> byte list) list \<times> bool \<times> dbc \<times> io) res" where
  "dbc_collect 0 da st user c key vl = Block"
| "dbc_collect (Suc n) da st user c key vl =
     res_bind (lightfs_bstore_dbc_c_get da st user c key vl DB_NEXT) (\<lambda>r.
       case r of
         Inr (c, st) \<Rightarrow> Done ([], True, c, st)
       | Inl (ret, c, key, vl, st) \<Rightarrow>
           if ret = DB_NOTFOUND then Done ([], False, c, st)
           else res_bind (dbc_collect n da st user c key vl) (\<lambda>(es, x). Done ((dbt_bytes key, dbt_bytes vl) # es, x)))"

text \<open>
  What a caller sees that asks for \<open>n\<close> bytes of each value: the first \<open>n\<close> bytes from where the
  value starts, whatever its length.
\<close>

fun cursor_view :: "nat \<Rightarrow> (byte list \<times> byte list) list \<Rightarrow> byte list \<Rightarrow> (byte list \<times> byte list) list" where
  "cursor_view n [] rest = []"
| "cursor_view n (e # es) rest = (fst e, take n (snd e @ enc_entries es @ rest)) # cursor_view n es rest"

lemma cursor_view_exact: "\<forall>e \<in> set es. length (snd e) = n \<Longrightarrow> cursor_view n es rest = es"
  by (induction es) auto

text \<open>
  The buffers of the caller hold the key and what is asked for; the copy of a value stays
  inside a buffer with \<open>m\<close> bytes behind the answer.
\<close>

definition entry_fits :: "dbt \<Rightarrow> dbt \<Rightarrow> nat \<Rightarrow> byte list \<times> byte list \<Rightarrow> bool" where
  "entry_fits key vl m e \<longleftrightarrow>
     2 \<le> length (fst e) \<and> length (fst e) < 65536 \<and> length (snd e) < 65536 \<and> unat (d_size vl) \<le> length (snd e) + m
   \<and> (\<exists>kb vb. d_data key = Some kb \<and> length (fst e) \<le> length kb \<and> d_data vl = Some vb \<and> unat (d_size vl) \<le> length vb)"

lemma dbc_get_size_at:
  "dbc_buf c = Some (pre @ store_le 2 (w::u16) @ rest) \<Longrightarrow> dbc_idx c = length pre \<Longrightarrow> dbc_get_size c = Some w"
  by (simp add: dbc_get_size_def get_at_def)

lemma get_at_mid: "off = length pre \<Longrightarrow> n = length mid \<Longrightarrow> get_at off n (pre @ mid @ rest) = mid"
  by (simp add: get_at_def)

lemma of_nat_u16_small:
  assumes "2 \<le> n" and "n < 65536"
  shows "(of_nat n :: u16) \<noteq> 0" and "(of_nat n :: u16) \<noteq> 1"
proof -
  have "unat (of_nat n :: u16) = n" using assms(2) by simp
  with assms(1) show "(of_nat n :: u16) \<noteq> 0" "(of_nat n :: u16) \<noteq> 1" by auto
qed

lemma next_entry:
  assumes "entry_fits key vl (length rest) e" and "dbc_buf c = Some (pre @ enc_entry e @ rest)" and "dbc_idx c = length pre"
  shows "\<exists>key' vl'. lightfs_bstore_dbc_c_get_local c key vl DB_NEXT =
           Some (0, c\<lparr>dbc_idx := length (pre @ enc_entry e)\<rparr>, key', vl')
         \<and> dbt_bytes key' = fst e \<and> dbt_bytes vl' = take (unat (d_size vl)) (snd e @ rest)
         \<and> d_size vl' = d_size vl \<and> map_option length (d_data key') = map_option length (d_data key)
         \<and> map_option length (d_data vl') = map_option length (d_data vl)"
proof -
  obtain k v where e: "e = (k, v)" by (cases e)
  let ?kl = "of_nat (length k) :: u16" and ?vl = "of_nat (length v) :: u16" and ?n = "unat (d_size vl)"
  from assms(1) e have len: "2 \<le> length k" "length k < 65536" "length v < 65536" "?n \<le> length v + length rest"
    by (simp_all add: entry_fits_def)
  from assms(1) e obtain kb vb where bufs: "d_data key = Some kb" "length k \<le> length kb" "d_data vl = Some vb" "?n \<le> length vb"
    by (auto simp: entry_fits_def)
  have buf: "dbc_buf c = Some (pre @ store_le 2 ?kl @ k @ store_le 2 ?vl @ v @ rest)"
    using assms(2) e by (simp add: enc_entry_def)
  have ksz: "dbc_get_size c = Some ?kl" by (rule dbc_get_size_at [OF buf assms(3)])
  have kread: "get_at (length pre + 2) (length k) (pre @ store_le 2 ?kl @ k @ store_le 2 ?vl @ v @ rest) = k"
    using get_at_mid [of _ "pre @ store_le 2 ?kl" _ k "store_le 2 ?vl @ v @ rest"] by simp
  have nz: "?kl \<noteq> 0" "?kl \<noteq> 1" "unat ?kl = length k" "unat ?vl = length v"
    using of_nat_u16_small [OF len(1,2)] len by auto
  have k32: "unat (ucast ?kl :: u32) = length k" using len(2) by (simp add: unsigned_ucast_eq take_bit_nat_eq_self_iff)
  let ?key = "key\<lparr>d_data := Some (put_at 0 k kb), d_size := ucast ?kl\<rparr>"
  have kcopy: "copy_dbt_from_dbc c key = Some (2 + length k, ?key)"
    using ksz buf nz bufs assms(3) kread by (simp add: copy_dbt_from_dbc_def)
  let ?c = "c\<lparr>dbc_idx := length pre + (2 + length k)\<rparr>"
  have buf': "dbc_buf ?c = Some ((pre @ store_le 2 ?kl @ k) @ store_le 2 ?vl @ v @ rest)" using buf by simp
  have vsz: "dbc_get_size ?c = Some ?vl" by (rule dbc_get_size_at [OF buf']) simp
  have "get_at (length (pre @ store_le 2 ?kl @ k @ store_le 2 ?vl)) ?n ((pre @ store_le 2 ?kl @ k @ store_le 2 ?vl) @ (v @ rest)) = take ?n (v @ rest)"
    by (simp only: get_at_def drop_append) simp
  then have vread: "get_at (length pre + (2 + length k) + 2) ?n (pre @ store_le 2 ?kl @ k @ store_le 2 ?vl @ v @ rest) = take ?n (v @ rest)"
    by simp
  define v' where "v' = (if d_size vl = 0 then vl else vl\<lparr>d_data := Some (put_at 0 (take ?n (v @ rest)) vb)\<rparr>)"
  have vcopy: "copy_value_dbt_from_dbc ?c vl = Some (2 + length v, v')"
    using vsz buf nz bufs len vread by (simp add: copy_value_dbt_from_dbc_def v'_def)
  have "lightfs_bstore_dbc_c_get_local c key vl DB_NEXT =
      Some (0, c\<lparr>dbc_idx := length (pre @ enc_entry e)\<rparr>, ?key, v')"
    using ksz nz kcopy vcopy assms(3) e
    by (simp add: lightfs_bstore_dbc_c_get_local_def copy_entry_def DB_NEXT_def DB_SET_RANGE_def enc_entry_def)
  moreover have "dbt_bytes ?key = k" using k32 bufs by (simp add: dbt_bytes_def put_at_def)
  moreover have "dbt_bytes v' = take ?n (v @ rest)" using len(4) bufs by (simp add: v'_def dbt_bytes_def put_at_def min_def)
  moreover have "d_size v' = d_size vl" "map_option length (d_data v') = map_option length (d_data vl)"
    using len(4) bufs by (simp_all add: v'_def)
  ultimately show ?thesis using bufs e by (intro exI [of _ ?key] exI [of _ v']) simp
qed

lemma collect_answer:
  assumes "\<forall>e \<in> set es. entry_fits key vl (2 + length rest) e" and "dbc_buf c = Some (pre @ enc_entries es @ [0, 0] @ rest)"
    and "dbc_idx c = length pre" and "dbc_buf_len c = length pre + length (enc_entries es) + 2"
  shows "dbc_collect (Suc (length es)) da st user c key vl =
     Done (cursor_view (unat (d_size vl)) es ([0, 0] @ rest), False, c\<lparr>dbc_idx := dbc_buf_len c\<rparr>, st)"
  using assms
proof (induction es arbitrary: c key vl pre)
  case Nil
  have "[0, 0] = store_le 2 (0::u16)" by code_simp
  with Nil have "dbc_get_size c = Some 0" using dbc_get_size_at [of c pre 0 rest] by (simp add: enc_entries_def)
  with Nil show ?case
    by (simp add: lightfs_bstore_dbc_c_get_def lightfs_bstore_dbc_c_get_local_def DB_NEXT_def DB_SET_RANGE_def enc_entries_def)
next
  case (Cons e es)
  let ?rest = "enc_entries es @ [0, 0] @ rest"
  have fits: "entry_fits key vl (length ?rest) e" using Cons.prems(1) by (auto simp: entry_fits_def)
  have buf: "dbc_buf c = Some (pre @ enc_entry e @ ?rest)"
    using Cons.prems(2) by (simp add: enc_entries_def)
  from next_entry [OF fits buf Cons.prems(3)] obtain key' vl' where nxt:
    "lightfs_bstore_dbc_c_get_local c key vl DB_NEXT = Some (0, c\<lparr>dbc_idx := length (pre @ enc_entry e)\<rparr>, key', vl')"
    "dbt_bytes key' = fst e" "dbt_bytes vl' = take (unat (d_size vl)) (snd e @ ?rest)" "d_size vl' = d_size vl"
    "map_option length (d_data key') = map_option length (d_data key)"
    "map_option length (d_data vl') = map_option length (d_data vl)" by blast
  have "entry_fits key' vl' (2 + length rest) e'" if "e' \<in> set es" for e'
  proof -
    have "entry_fits key vl (2 + length rest) e'" using Cons.prems(1) that by simp
    then show ?thesis using nxt(4-6) by (auto simp: entry_fits_def)
  qed
  then have "dbc_collect (Suc (length es)) da st user (c\<lparr>dbc_idx := length (pre @ enc_entry e)\<rparr>) key' vl' =
      Done (cursor_view (unat (d_size vl')) es ([0, 0] @ rest), False,
            c\<lparr>dbc_idx := length (pre @ enc_entry e)\<rparr>\<lparr>dbc_idx := dbc_buf_len (c\<lparr>dbc_idx := length (pre @ enc_entry e)\<rparr>)\<rparr>, st)"
    using buf Cons.prems(4) by (intro Cons.IH [where pre = "pre @ enc_entry e"]) (simp_all add: enc_entries_def)
  moreover have "lightfs_bstore_dbc_c_get da st user c key vl DB_NEXT = Done (Inl (0, c\<lparr>dbc_idx := length (pre @ enc_entry e)\<rparr>, key', vl', st))"
    using nxt(1) Cons.prems(3,4) by (simp add: lightfs_bstore_dbc_c_get_def)
  ultimately show ?case using nxt(2-4)
    by (subst dbc_collect.simps) (simp add: DB_NOTFOUND_def del: dbc_collect.simps)
qed

lemma notfound_code: "n < 4294936307 \<Longrightarrow> (of_nat n :: u32) \<noteq> word_of_int DB_NOTFOUND"
proof
  assume n: "n < 4294936307" and eq: "(of_nat n :: u32) = word_of_int DB_NOTFOUND"
  have "uint (word_of_int DB_NOTFOUND :: u32) = 4294936307"
    unfolding DB_NOTFOUND_def uint_word_of_int by simp
  then have "unat (word_of_int DB_NOTFOUND :: u32) = 4294936307" by (simp only: unat_eq_nat_uint nat_numeral)
  moreover have "unat (of_nat n :: u32) = n" using n by simp
  ultimately show False using n eq by simp
qed

text \<open>
  Property C31: a cursor yields the answer of the device.  When the answer to a request
  arrives - keys and values with their lengths, in the buffer of its tag, ended by a zero
  length - the call that waited returns; an answer without entries is \<open>DB_NOTFOUND\<close>.  The
  calls with \<open>DB_NEXT\<close> that follow return the keys of exactly the entries of the answer, in
  its order, and then report the end, without another request.  With each key comes as much
  from the start of its value as the caller asked for: the value itself where it has this
  size, and what follows it in the buffer where it is shorter.
\<close>

theorem cursor_yields_answer:
  assumes "io_wait st user = Done st1" and "cz_users (io_cz st1) user = req"
    and "io_bufs st1 (u_id req) = enc_entries es @ [0, 0] @ rest" and "u_ubuf_len req = length (enc_entries es) + 2"
    and "length (enc_entries es) + 2 < 4294936307" and "\<forall>e \<in> set es. entry_fits key vl (2 + length rest) e"
  shows "(es = [] \<longrightarrow> (\<exists>c1. lightfs_bstore_dbc_c_get_finish st user c = Done (DB_NOTFOUND, c1, st1)))
       \<and> (es \<noteq> [] \<longrightarrow> (\<exists>c1. lightfs_bstore_dbc_c_get_finish st user c = Done (0, c1, st1) \<and> io_tag c1 = Some (u_id req)
            \<and> dbc_collect (Suc (length es)) da st1 user c1 key vl =
                Done (cursor_view (unat (d_size vl)) es ([0, 0] @ rest), False, c1\<lparr>dbc_idx := dbc_buf_len c1\<rparr>, st1)
            \<and> ((\<forall>e \<in> set es. length (snd e) = unat (d_size vl)) \<longrightarrow> cursor_view (unat (d_size vl)) es ([0, 0] @ rest) = es)))"
proof (cases "es = []")
  case True
  with assms show ?thesis
    by (simp add: lightfs_bstore_dbc_c_get_finish_def lightfs_io_iter_finish_def Let_def enc_entries_def)
next
  case False
  let ?n = "length (enc_entries es) + 2"
  obtain e es' where "es = e # es'" using False by (cases es) auto
  then have "?n \<noteq> 2" using assms(6) by (simp add: enc_entries_def enc_entry_def)
  moreover have "unat (of_nat n :: u32) = n" if "n < 4294936307" for n using that by simp
  note this [OF assms(5)]
  ultimately obtain c1 where
    c1: "lightfs_bstore_dbc_c_get_finish st user c = Done (0, c1, st1)" "dbc_buf c1 = Some ([] @ enc_entries es @ [0, 0] @ rest)"
      "dbc_idx c1 = length ([] :: byte list)" "dbc_buf_len c1 = length ([] :: byte list) + length (enc_entries es) + 2" "io_tag c1 = Some (u_id req)"
    using assms(1-4) notfound_code [OF assms(5)]
    by (simp add: lightfs_bstore_dbc_c_get_finish_def lightfs_io_iter_finish_def Let_def del: of_nat_add of_nat_numeral of_nat_Suc)
  with collect_answer [OF assms(6) c1(2-4), of da st1 user] cursor_view_exact False show ?thesis by blast
qed

text \<open>An answer with two entries, the second value longer than the one byte that is asked for.\<close>

definition sample_iter :: "nat \<Rightarrow> io" where
  "sample_iter n = io_init\<lparr>io_cz := (io_cz io_init)
     \<lparr>cz_reqs := [\<lparr>acked = n, rq_sync = True, rq_transfer = False, rq_extra = None, rq_user = 5, rq_item = None\<rparr>],
      cz_users := \<lambda>_. \<lparr>u_id = 0, u_buf_len = 0, u_buf = 0, u_ubuf_len = 17, u_ret_buf = None\<rparr>\<rparr>,
     io_bufs := \<lambda>_. [2, 0, 109, 9, 1, 0, 5, 2, 0, 109, 10, 2, 0, 6, 7, 0, 0]\<rparr>"

theorem cursor_yields_answer_witness:
  "\<exists>c1. lightfs_bstore_dbc_c_get_finish (sample_iter 1) 5 (lightfs_bstore_dbc_cursor lightfs_txn_init LIGHTFS_META_CURSOR dbt_init dbt_init) =
          Done (0, c1, sample_iter 0)
      \<and> dbc_collect 3 [] (sample_iter 0) 5 c1 (dbt_setup_buf [0, 0, 0] 3) (dbt_setup [0, 0] 1) =
          Done ([([109, 9], [5]), ([109, 10], [6])], False, c1\<lparr>dbc_idx := dbc_buf_len c1\<rparr>, sample_iter 0)"
proof -
  let ?es = "[([109, 9], [5]), ([109, 10], [6, 7])] :: (byte list \<times> byte list) list"
  have enc: "enc_entries ?es @ [0, 0] @ [] = [2, 0, 109, 9, 1, 0, 5, 2, 0, 109, 10, 2, 0, 6, 7, 0, 0]" by code_simp
  have "length (enc_entries ?es @ [0, 0] @ []) = 17" unfolding enc by simp
  then have len: "length (enc_entries ?es) + 2 = 17" by simp
  have wait: "io_wait (sample_iter 1) 5 = Done (sample_iter 0)" by (simp add: io_wait_def cheeze_io_wait_def sample_iter_def Let_def)
  have fits: "\<forall>e \<in> set ?es. entry_fits (dbt_setup_buf [0, 0, 0] 3) (dbt_setup [0, 0] 1) (2 + length ([] :: byte list)) e"
    by (simp add: entry_fits_def dbt_setup_def dbt_setup_buf_def)
  have size: "cursor_view (unat (d_size (dbt_setup [0, 0] 1))) ?es ([0, 0] @ []) = [([109, 9], [5]), ([109, 10], [6])]"
    by (simp add: dbt_setup_def)
  have three: "Suc (length ?es) = 3" by simp
  have hyps: "io_bufs (sample_iter 0) (u_id (cz_users (io_cz (sample_iter 0)) 5)) = enc_entries ?es @ [0, 0] @ []"
      "u_ubuf_len (cz_users (io_cz (sample_iter 0)) 5) = length (enc_entries ?es) + 2" "length (enc_entries ?es) + 2 < 4294936307"
    unfolding enc len by (simp_all add: sample_iter_def)
  from cursor_yields_answer [OF wait refl hyps fits, of "lightfs_bstore_dbc_cursor lightfs_txn_init LIGHTFS_META_CURSOR dbt_init dbt_init" "[]"]
  show ?thesis unfolding size three by blast
qed

text \<open>
  The callback variants of the cursor do not work on a new cursor.  They
  leave the answer's buffer where it is, so reading the first entry goes through a
  pointer that was never set, for every answer that is not empty.
\<close>

lemma getf_unset_buffer:
  assumes "io_wait st user = Done st'" and "u_ubuf_len (cz_users (io_cz st') user) = n" and "n \<noteq> 2" and "n < 4294936307"
    and "dbc_buf c = None"
  shows "dbc_getf_finish f st user c extra = Fault"
  using assms notfound_code [OF assms(4)]
  by (simp add: dbc_getf_finish_def lightfs_io_iter_finish_def Let_def dbc_getf_local_def copy_dbt_from_dbc_def dbc_get_size_def)

end
