(* ===== verification/Kevin_Hdlr.thy ===== *)
theory Kevin_Hdlr
  imports Kevin_Txn
begin

text \<open>
  The transaction handler of \<open>kevinfs/lightfs_txn_hdlr.c\<close>: threads commit transactions
  to its two lists, the handler thread collects them into committed transactions
  (\<open>c_txn\<close>) and transfers these to the device; two work queues run transfers of
  synchronous transactions and the release of transferred ones.  A \<open>c_txn\<close> is known by
  its address in a heap.
\<close>

section \<open>State\<close>

text \<open>
  \<open>struct __lightfs_txn_hdlr\<close>, with the pending works of \<open>workqs[0]\<close> and of
  \<open>commit_workq\<close>.  \<open>h_sent\<close> and \<open>h_completed\<close> record the calls to the transfer function
  of the I/O layer and the completions signalled, in order.
\<close>

record hdlr =
  h_txn_id :: u32
  h_txn_cnt :: u32
  h_ordered_cnt :: u32
  h_orderless_cnt :: u32
  h_committing_cnt :: u32
  h_running_cnt :: u32
  h_running_id :: u64
  h_txn_list :: "txn list"
  h_sync_list :: "txn list"
  h_ordered :: "nat list"
  h_orderless :: "nat list"
  h_heap :: "nat \<Rightarrow> c_txn option"
  h_next :: nat
  h_syncing_cnt :: u16
  h_running :: bool
  h_run :: "nat option"
  h_sync :: "nat option"
  h_workq_id :: u64
  h_commit_workq :: bool
  h_transfers :: "nat list"
  h_commits :: "nat list"
  h_tails :: "nat list"
  h_completed :: "nat list"
  h_sent :: "c_txn list"

definition txn_hdlr_alloc :: hdlr where
  "txn_hdlr_alloc =
     \<lparr>h_txn_id = 1, h_txn_cnt = 0, h_ordered_cnt = 0, h_orderless_cnt = 0, h_committing_cnt = 0, h_running_cnt = 0,
      h_running_id = 0, h_txn_list = [], h_sync_list = [], h_ordered = [], h_orderless = [], h_heap = Map.empty,
      h_next = 0, h_syncing_cnt = 0, h_running = True, h_run = None, h_sync = None, h_workq_id = 0, h_commit_workq = True,
      h_transfers = [], h_commits = [], h_tails = [], h_completed = [], h_sent = []\<rparr>"

section \<open>Committing\<close>

text \<open>
  A transaction without buffers or one that only reads is freed; a synchronous one is
  queued with its completion, and its thread then waits for it.
\<close>

definition lightfs_bstore_txn_commit :: "hdlr \<Rightarrow> txn \<Rightarrow> nat \<Rightarrow> hdlr" where
  "lightfs_bstore_txn_commit h t cp =
     (if t_cnt t = 0 then h
      else if has_flag (t_state t) TXN_READ then h
      else if has_flag (t_state t) TXN_SYNC then
        h\<lparr>h_txn_cnt := h_txn_cnt h + 1, h_txn_id := h_txn_id h + 1,
          h_sync_list := h_sync_list h @ [t\<lparr>t_completion := Some cp, t_id := h_txn_id h,
                                           t_state := set_flag (t_state t) TXN_COMMITTED\<rparr>],
          h_syncing_cnt := h_syncing_cnt h + 1\<rparr>
      else
        h\<lparr>h_txn_cnt := h_txn_cnt h + 1, h_txn_id := h_txn_id h + 1,
          h_txn_list := h_txn_list h @ [t\<lparr>t_id := h_txn_id h, t_state := set_flag (t_state t) TXN_COMMITTED\<rparr>]\<rparr>)"

section \<open>Committed transactions\<close>

text \<open>\<open>bits\<close> is what the new filter's memory holds.\<close>

definition lightfs_c_txn_create :: "byte list \<Rightarrow> hdlr \<Rightarrow> u32 \<Rightarrow> u64 \<Rightarrow> (nat \<times> hdlr) option" where
  "lightfs_c_txn_create bits h st workq_id = do {
     c \<leftarrow> lightfs_c_txn_init bits;
     let a = h_next h;
     let h = h\<lparr>h_heap := (h_heap h)(a := Some (c\<lparr>c_state := st, c_workq_id := workq_id\<rparr>)), h_next := a + 1\<rparr>;
     Some (a, if has_flag st TXN_ORDERED
              then h\<lparr>h_ordered := h_ordered h @ [a], h_ordered_cnt := h_ordered_cnt h + 1\<rparr>
              else h\<lparr>h_orderless := h_orderless h @ [a], h_orderless_cnt := h_orderless_cnt h + 1\<rparr>) }"

definition lightfs_c_txn_destroy :: "hdlr \<Rightarrow> nat \<Rightarrow> hdlr option" where
  "lightfs_c_txn_destroy h a = do {
     _ \<leftarrow> h_heap h a;
     Some (h\<lparr>h_ordered := filter (\<lambda>b. b \<noteq> a) (h_ordered h), h_orderless := filter (\<lambda>b. b \<noteq> a) (h_orderless h),
             h_heap := (h_heap h)(a := None)\<rparr>) }"

text \<open>The inserted transaction is the first one of the synchronous or of the other list.\<close>

definition first_txn :: "bool \<Rightarrow> hdlr \<Rightarrow> txn option" where
  "first_txn sync h = (case (if sync then h_sync_list h else h_txn_list h) of [] \<Rightarrow> None | t # _ \<Rightarrow> Some t)"

definition unlink_first :: "bool \<Rightarrow> hdlr \<Rightarrow> hdlr" where
  "unlink_first sync h =
     (if sync then h\<lparr>h_sync_list := tl (h_sync_list h)\<rparr> else h\<lparr>h_txn_list := tl (h_txn_list h)\<rparr>)"

definition lightfs_c_txn_insert :: "bool \<Rightarrow> hdlr \<Rightarrow> nat \<Rightarrow> hdlr option" where
  "lightfs_c_txn_insert sync h a = do {
     c \<leftarrow> h_heap h a;
     t \<leftarrow> first_txn sync h;
     f \<leftarrow> foldM (\<lambda>f tb. bloomfilter_set f (tb_key_bytes tb)) (c_filter c) (t_bufs t);
     let c = c\<lparr>c_filter := f\<rparr>;
     let t = t\<lparr>t_state := set_flag (t_state t) TXN_TRANSFERING\<rparr>;
     let h = (unlink_first sync h)\<lparr>h_txn_cnt := h_txn_cnt h - 1\<rparr>;
     if t_cnt t = 0 then do {
       bug_on (h_txn_cnt h > 10000000);
       Some (h\<lparr>h_heap := (h_heap h)(a := Some c)\<rparr>) }
     else Some (h\<lparr>h_heap := (h_heap h)(a := Some (c\<lparr>c_txns := c_txns c @ [t], c_size := c_size c + t_size t,
                                                   c_cnt := c_cnt c + t_cnt t\<rparr>))\<rparr>) }"

definition lightfs_bstore_c_txn_commit_flush :: "hdlr \<Rightarrow> nat \<Rightarrow> hdlr option" where
  "lightfs_bstore_c_txn_commit_flush h a = do {
     c \<leftarrow> h_heap h a;
     Some (if has_flag (c_state c) TXN_ORDERED
           then h\<lparr>h_ordered_cnt := h_ordered_cnt h - c_committing_cnt c\<rparr>
           else h\<lparr>h_orderless_cnt := h_orderless_cnt h - c_committing_cnt c\<rparr>) }"

definition commit_child :: "hdlr \<Rightarrow> nat \<Rightarrow> hdlr option" where
  "commit_child h ch = do {
     c \<leftarrow> h_heap h ch;
     let p = c_parents c - 1;
     let h = h\<lparr>h_heap := (h_heap h)(ch := Some (c\<lparr>c_parents := p\<rparr>))\<rparr>;
     Some (if p = 0
           then h\<lparr>h_ordered := filter (\<lambda>b. b \<noteq> ch) (h_ordered h),
                  h_orderless := filter (\<lambda>b. b \<noteq> ch) (h_orderless h) @ [ch],
                  h_orderless_cnt := h_orderless_cnt h + 1, h_ordered_cnt := h_ordered_cnt h - 1\<rparr>
           else h) }"

definition lightfs_c_txn_commit :: "hdlr \<Rightarrow> nat \<Rightarrow> hdlr option" where
  "lightfs_c_txn_commit h a = do {
     c \<leftarrow> h_heap h a;
     h \<leftarrow> foldM commit_child h (c_children c);
     lightfs_c_txn_destroy h a }"

text \<open>
  The callback runs once the transfer has been sent.  For an ordered \<open>c_txn\<close> it lets go of
  \<open>txn_spin\<close> after it has cleared \<open>sync_c_txn\<close>; \<open>h_tails\<close> holds the \<open>c_txn\<close>s of callbacks at
  that point, and \<open>lightfs_c_txn_transfer_end\<close> is the rest.
\<close>

definition lightfs_c_txn_transfer_cb :: "hdlr \<Rightarrow> nat \<Rightarrow> hdlr option" where
  "lightfs_c_txn_transfer_cb h a = do {
     c \<leftarrow> h_heap h a;
     h \<leftarrow> (if has_flag (c_state c) TXN_FLUSH then lightfs_bstore_c_txn_commit_flush h a else Some h);
     if has_flag (c_state c) TXN_ORDERED then do {
       comps \<leftarrow> those (map t_completion (c_txns c));
       Some (h\<lparr>h_completed := h_completed h @ comps,
               h_syncing_cnt := h_syncing_cnt h - of_nat (length (c_txns c)), h_sync := None,
               h_tails := h_tails h @ [a]\<rparr>) }
     else if h_running h \<and> h_commit_workq h then Some (h\<lparr>h_commits := h_commits h @ [a]\<rparr>)
     else lightfs_c_txn_commit h a }"

definition lightfs_c_txn_transfer_end :: "hdlr \<Rightarrow> nat \<Rightarrow> hdlr option" where
  "lightfs_c_txn_transfer_end h a = do {
     h \<leftarrow> lightfs_bstore_c_txn_commit_flush h a;
     lightfs_c_txn_commit h a }"

text \<open>The transfer releases the pages in write-back.\<close>

definition lightfs_c_txn_transfer :: "hdlr \<Rightarrow> nat \<Rightarrow> hdlr option" where
  "lightfs_c_txn_transfer h a = do {
     c \<leftarrow> h_heap h a;
     let c = c\<lparr>c_state := set_flag (c_state c) TXN_TRANSFERING\<rparr>;
     lightfs_c_txn_transfer_cb
       (h\<lparr>h_committing_cnt := h_committing_cnt h + 1, h_sent := h_sent h @ [c],
          h_heap := (h_heap h)(a := Some (transfer_released c))\<rparr>) a }"

section \<open>The handler thread\<close>

definition lightfs_txn_hdlr_check_state :: "hdlr \<Rightarrow> bool" where
  "lightfs_txn_hdlr_check_state h \<longleftrightarrow>
     h_txn_cnt h > 320 \<or> h_syncing_cnt h \<noteq> 0 \<or> h_sync_list h \<noteq> [] \<or> h_sync h \<noteq> None"

text \<open>
  Where the thread is in \<open>lightfs_txn_hdlr_run\<close>: at a label, or at a point in between
  where it does not hold \<open>txn_spin\<close>.  A step is what happens from there to the next such
  point; other threads may run between any two steps.  At the label \<open>skip_sync\<close> the thread
  holds the lock: letting others run there too only adds interleavings.
\<close>

datatype pc =
    Top | ProcessSync | CreateSync | InsertSync | SkipSync | CreateRun | InsertRun nat
  | TransferRun | ClearRun | TransferNow | ClearNow | WaitTxn | Stopped

definition process_sync :: "hdlr \<Rightarrow> (pc \<times> hdlr) option" where
  "process_sync h =
     (case h_sync_list h of
        [] \<Rightarrow>
          (case h_sync h of
             None \<Rightarrow> Some (SkipSync, h)
           | Some a \<Rightarrow> do {
               c \<leftarrow> h_heap h a;
               Some (SkipSync,
                     if has_flag (c_state c) TXN_TRANSFERING then h
                     else h\<lparr>h_heap := (h_heap h)(a := Some (c\<lparr>c_state := set_flag (c_state c) TXN_TRANSFERING\<rparr>)),
                            h_transfers := h_transfers h @ [a]\<rparr>) })
      | sync_txn # _ \<Rightarrow>
          (if \<not> has_flag (t_state sync_txn) TXN_COMMITTED then Some (SkipSync, h)
           else case h_sync h of
             None \<Rightarrow> Some (CreateSync, h)
           | Some a \<Rightarrow> do {
               c \<leftarrow> h_heap h a;
               if has_flag (c_state c) TXN_TRANSFERING then Some (SkipSync, h)
               else do { h \<leftarrow> lightfs_c_txn_insert True h a; Some (ProcessSync, h) } }))"

definition insert_sync :: "hdlr \<Rightarrow> (pc \<times> hdlr) option" where
  "insert_sync h = do {
     a \<leftarrow> h_sync h;
     c \<leftarrow> h_heap h a;
     t \<leftarrow> first_txn True h;
     h \<leftarrow> lightfs_c_txn_insert True
            (h\<lparr>h_heap := (h_heap h)(a := Some (c\<lparr>c_committing_cnt := 1, c_id := t_id t\<rparr>))\<rparr>) a;
     Some (ProcessSync, h) }"

definition skip_sync :: "hdlr \<Rightarrow> (pc \<times> hdlr) option" where
  "skip_sync h =
     (case h_txn_list h of
        [] \<Rightarrow>
          (case h_run h of
             None \<Rightarrow> Some (WaitTxn, h)
           | Some a \<Rightarrow> do {
               c \<leftarrow> h_heap h a;
               let c = (if c_committing_cnt c = 0 then c\<lparr>c_committing_cnt := h_running_cnt h\<rparr> else c);
               Some (TransferNow,
                     h\<lparr>h_heap := (h_heap h)(a := Some (c\<lparr>c_state := set_flag (c_state c) TXN_FLUSH\<rparr>)),
                       h_running_id := 0, h_running_cnt := 0\<rparr>) })
      | t # _ \<Rightarrow>
          (if \<not> has_flag (t_state t) TXN_COMMITTED then Some (WaitTxn, h)
           else if h_ordered_cnt h + h_orderless_cnt h > of_nat C_TXN_COMMITTING_LIMIT then Some (ProcessSync, h)
           else case h_run h of
             None \<Rightarrow> Some (CreateRun, h)
           | Some a \<Rightarrow> do {
               c \<leftarrow> h_heap h a;
               if diff_c_txn_and_txn c t < 0 then Some (TransferRun, h)
               else do { h \<leftarrow> lightfs_c_txn_insert False h a; Some (SkipSync, h) } }))"

definition insert_run :: "hdlr \<Rightarrow> nat \<Rightarrow> (pc \<times> hdlr) option" where
  "insert_run h a = do {
     t \<leftarrow> first_txn False h;
     let h = (if h_running_id h = 0 then h\<lparr>h_running_id := ucast (t_id t), h_workq_id := 0\<rparr> else h);
     c \<leftarrow> h_heap h a;
     h \<leftarrow> lightfs_c_txn_insert False (h\<lparr>h_heap := (h_heap h)(a := Some (c\<lparr>c_id := ucast (h_running_id h)\<rparr>))\<rparr>) a;
     let h = h\<lparr>h_running_cnt := h_running_cnt h + 1, h_run := Some a\<rparr>;
     if h_running_cnt h \<ge> of_nat RUNNING_C_TXN_LIMIT then do {
       c \<leftarrow> h_heap h a;
       Some (SkipSync,
             h\<lparr>h_heap := (h_heap h)(a := Some (c\<lparr>c_committing_cnt := h_running_cnt h,
                                               c_state := set_flag (c_state c) TXN_FLUSH\<rparr>)),
               h_running_id := 0, h_running_cnt := 0\<rparr>) }
     else Some (SkipSync, h) }"

definition hdlr_step :: "byte list \<Rightarrow> bool \<Rightarrow> pc \<times> hdlr \<Rightarrow> (pc \<times> hdlr) option" where
  "hdlr_step bits stop s =
     (let h = snd s in
      case fst s of
        Top \<Rightarrow>
          (if stop then
             (let h = h\<lparr>h_running := False\<rparr> in
              Some (if h_txn_cnt h = 0 \<and> h_sync_list h = [] \<and> h_txn_list h = [] then Stopped else ProcessSync, h))
           else Some (ProcessSync, h))
      | ProcessSync \<Rightarrow> process_sync h
      | CreateSync \<Rightarrow> do {
          (a, h) \<leftarrow> lightfs_c_txn_create bits h TXN_ORDERED (h_workq_id h);
          Some (InsertSync, h\<lparr>h_sync := Some a\<rparr>) }
      | InsertSync \<Rightarrow> insert_sync h
      | SkipSync \<Rightarrow> skip_sync h
      | CreateRun \<Rightarrow> do {
          (a, h) \<leftarrow> lightfs_c_txn_create bits h TXN_ORDERLESS (h_workq_id h);
          Some (InsertRun a, h) }
      | InsertRun a \<Rightarrow> insert_run h a
      | TransferRun \<Rightarrow> do { a \<leftarrow> h_run h; h \<leftarrow> lightfs_c_txn_transfer h a; Some (ClearRun, h) }
      | ClearRun \<Rightarrow> Some (SkipSync, h\<lparr>h_run := None\<rparr>)
      | TransferNow \<Rightarrow> do { a \<leftarrow> h_run h; h \<leftarrow> lightfs_c_txn_transfer h a; Some (ClearNow, h) }
      | ClearNow \<Rightarrow> Some (WaitTxn, h\<lparr>h_run := None\<rparr>)
      | WaitTxn \<Rightarrow> Some (Top, h)
      | Stopped \<Rightarrow> Some (Stopped, h))"

section \<open>Waiting for the device\<close>

text \<open>
  Inside \<open>lightfs_c_txn_transfer\<close> the caller sleeps in up to two places.  \<open>cheeze_push\<close> waits
  for a free tag, and \<open>cheeze_io\<close> waits for the answer when the request is synchronous
  (\<open>TXN_FLUSH\<close> or \<open>TXN_ORDERED\<close>); the callback runs in between.  At a moment
  \<open>(tag, answer)\<close> a tag is free or not and the awaited answer has arrived or not.  A state of
  the thread is where it is, whether it sleeps for an answer, and the handler's data.
\<close>

type_synonym moment = "bool \<times> bool"
type_synonym thread = "pc \<times> bool \<times> hdlr"

definition transfers :: "pc \<Rightarrow> bool" where
  "transfers p \<longleftrightarrow> p = TransferRun \<or> p = TransferNow"

definition awaits_answer :: "pc \<Rightarrow> hdlr \<Rightarrow> bool" where
  "awaits_answer p h \<longleftrightarrow>
     transfers p \<and> (case Option.bind (h_run h) (h_heap h) of None \<Rightarrow> False | Some c \<Rightarrow> c_is_flush c)"

definition thread_step :: "byte list \<Rightarrow> bool \<Rightarrow> moment \<Rightarrow> thread \<Rightarrow> thread res" where
  "thread_step bits stop mo t =
     (case t of (p, asleep, h) \<Rightarrow>
        if asleep then (if snd mo then Done (p, False, h) else Block)
        else if transfers p \<and> \<not> fst mo then Block
        else case hdlr_step bits stop (p, h) of
               None \<Rightarrow> Fault
             | Some (q, g) \<Rightarrow> Done (q, awaits_answer p h, g))"

text \<open>
  The thread over \<open>n\<close> moments; where it has to wait it stays as it is.  The first part of
  the result counts its moves.
\<close>

fun thread_run :: "byte list \<Rightarrow> bool \<Rightarrow> (nat \<Rightarrow> moment) \<Rightarrow> nat \<Rightarrow> thread \<Rightarrow> (nat \<times> thread) option" where
  "thread_run bits stop ins 0 t = Some (0, t)"
| "thread_run bits stop ins (Suc n) t =
     (case thread_step bits stop (ins 0) t of
        Fault \<Rightarrow> None
      | Block \<Rightarrow> thread_run bits stop (\<lambda>i. ins (Suc i)) n t
      | Done t \<Rightarrow> do { (m, t) \<leftarrow> thread_run bits stop (\<lambda>i. ins (Suc i)) n t; Some (Suc m, t) })"

text \<open>The transfer of a synchronous \<open>c_txn\<close> on its work queue, up to the end of the callback.\<close>

definition lightfs_c_txn_transfer_work :: "moment \<Rightarrow> hdlr \<Rightarrow> nat \<Rightarrow> hdlr res" where
  "lightfs_c_txn_transfer_work mo h a =
     (if \<not> fst mo then Block else case lightfs_c_txn_transfer h a of None \<Rightarrow> Fault | Some h \<Rightarrow> Done h)"

section \<open>All threads together\<close>

text \<open>
  The state of the system: the thread, the handler's data, and what has been committed,
  as number, size and buffers of each transaction, in order.
\<close>

type_synonym txn_entry = "u32 \<times> u32 \<times> txn_buf list"

record sys =
  s_pc :: pc
  s_hd :: hdlr
  s_log :: "txn_entry list"
  s_slog :: "txn_entry list"

definition txn_sig :: "txn \<Rightarrow> txn_entry" where
  "txn_sig t = (t_id t, t_size t, t_bufs t)"

text \<open>\<open>workq\<close> says whether the work queue for commits could be created.\<close>

definition sys_init :: "bool \<Rightarrow> sys" where
  "sys_init workq = \<lparr>s_pc = Top, s_hd = txn_hdlr_alloc\<lparr>h_commit_workq := workq\<rparr>, s_log = [], s_slog = []\<rparr>"

text \<open>A thread begins a transaction, and commits one of any kind.\<close>

definition sys_commit :: "sys \<Rightarrow> txn \<Rightarrow> nat \<Rightarrow> sys" where
  "sys_commit s t cp =
     (let entry = (h_txn_id (s_hd s), t_size t, t_bufs t);
          queued = (t_cnt t \<noteq> 0 \<and> \<not> has_flag (t_state t) TXN_READ);
          s' = s\<lparr>s_hd := lightfs_bstore_txn_commit (s_hd s) t cp\<rparr> in
      if queued \<and> has_flag (t_state t) TXN_SYNC then s'\<lparr>s_slog := s_slog s @ [entry]\<rparr>
      else if queued then s'\<lparr>s_log := s_log s @ [entry]\<rparr>
      else s')"

inductive sys_step :: "byte list \<Rightarrow> sys \<Rightarrow> sys \<Rightarrow> bool" for bits where
  start_txn: "sys_step bits s (s\<lparr>s_hd := (s_hd s)\<lparr>h_txn_id := snd (lightfs_bstore_txn_begin flags (h_txn_id (s_hd s)))\<rparr>\<rparr>)"
| commit: "sys_step bits s (sys_commit s t cp)"
| handler: "hdlr_step bits stop (s_pc s, s_hd s) = Some (p, h) \<Longrightarrow> sys_step bits s (s\<lparr>s_pc := p, s_hd := h\<rparr>)"
| transfer_work: "h_transfers (s_hd s) = xs @ a # ys \<Longrightarrow>
    lightfs_c_txn_transfer ((s_hd s)\<lparr>h_transfers := xs @ ys\<rparr>) a = Some h \<Longrightarrow> sys_step bits s (s\<lparr>s_hd := h\<rparr>)"
| transfer_end: "h_tails (s_hd s) = xs @ a # ys \<Longrightarrow>
    lightfs_c_txn_transfer_end ((s_hd s)\<lparr>h_tails := xs @ ys\<rparr>) a = Some h \<Longrightarrow> sys_step bits s (s\<lparr>s_hd := h\<rparr>)"
| commit_work: "h_commits (s_hd s) = xs @ a # ys \<Longrightarrow>
    lightfs_c_txn_commit ((s_hd s)\<lparr>h_commits := xs @ ys\<rparr>) a = Some h \<Longrightarrow> sys_step bits s (s\<lparr>s_hd := h\<rparr>)"

inductive reachable :: "byte list \<Rightarrow> sys \<Rightarrow> bool" for bits where
  start: "reachable bits (sys_init workq)"
| step: "reachable bits s \<Longrightarrow> sys_step bits s s' \<Longrightarrow> reachable bits s'"

end
