(* ===== verification/Kevin_Hdlr_Inv.thy ===== *)
theory Kevin_Hdlr_Inv
  imports Kevin_Hdlr
begin

text \<open>
  The invariant of the transaction handler and what follows from it for every
  interleaving of committing threads, handler thread and work queues: no object is used
  after it was freed, the counters agree with the objects, no transaction is lost,
  duplicated or reordered, and what is sent fits the request buffer.
\<close>

section \<open>The invariant\<close>

abbreviation c_ordered :: "c_txn \<Rightarrow> bool" where "c_ordered c \<equiv> has_flag (c_state c) TXN_ORDERED"
abbreviation c_flush :: "c_txn \<Rightarrow> bool" where "c_flush c \<equiv> has_flag (c_state c) TXN_FLUSH"
abbreviation c_transfering :: "c_txn \<Rightarrow> bool" where "c_transfering c \<equiv> has_flag (c_state c) TXN_TRANSFERING"

definition opt_list :: "'a option \<Rightarrow> 'a list" where
  "opt_list x = (case x of None \<Rightarrow> [] | Some a \<Rightarrow> [a])"

lemma opt_list_simps [simp]: "opt_list None = []" "opt_list (Some a) = [a]"
  by (simp_all add: opt_list_def)

text \<open>
  The \<open>c_txn\<close> that collects transactions, while the handler still owns it; the one it
  has created but not yet filled.
\<close>

definition live_run :: "pc \<Rightarrow> hdlr \<Rightarrow> nat option" where
  "live_run p h = (if p = ClearRun \<or> p = ClearNow then None else h_run h)"

definition new_run :: "pc \<Rightarrow> nat option" where
  "new_run p = (case p of InsertRun a \<Rightarrow> Some a | _ \<Rightarrow> None)"

text \<open>Every \<open>c_txn\<close> somebody still refers to: each has one owner and is allocated.\<close>

definition roles :: "pc \<Rightarrow> hdlr \<Rightarrow> nat list" where
  "roles p h = opt_list (live_run p h) @ opt_list (new_run p) @ opt_list (h_sync h) @ h_commits h @ h_tails h"

definition base_ok :: "hdlr \<Rightarrow> nat \<Rightarrow> bool" where
  "base_ok h a \<longleftrightarrow> a < h_next h \<and> (\<exists>c. h_heap h a = Some c \<and> c_children c = [] \<and> bf_inv (c_filter c))"

definition roles_ok :: "pc \<Rightarrow> hdlr \<Rightarrow> bool" where
  "roles_ok p h \<longleftrightarrow> distinct (roles p h) \<and> (\<forall>a\<in>set (roles p h). base_ok h a)"

text \<open>Size of a \<open>c_txn\<close>: the sum of its transactions, within the limit if each of them is.\<close>

definition c_acc :: "c_txn \<Rightarrow> bool" where
  "c_acc c \<longleftrightarrow>
     ((\<forall>t\<in>set (c_txns c). unat (t_size t) \<le> C_TXN_LIMIT_BYTES) \<longrightarrow>
      unat (c_size c) = sum_list (map (\<lambda>t. unat (t_size t)) (c_txns c)) \<and> unat (c_size c) \<le> C_TXN_LIMIT_BYTES)"

definition run_ok :: "pc \<Rightarrow> hdlr \<Rightarrow> c_txn \<Rightarrow> bool" where
  "run_ok p h c \<longleftrightarrow>
     \<not> c_ordered c \<and> c_txns c \<noteq> [] \<and> c_acc c
   \<and> h_orderless_cnt h = h_running_cnt h + c_committing_cnt c \<and> (c_flush c \<longleftrightarrow> c_committing_cnt c \<noteq> 0)
   \<and> (c_committing_cnt c \<noteq> 0 \<longleftrightarrow> h_running_cnt h = 0) \<and> c_committing_cnt c \<le> 16
   \<and> (p = TransferNow \<longrightarrow> c_committing_cnt c \<noteq> 0)"

definition new_ok :: "c_txn \<Rightarrow> bool" where
  "new_ok c \<longleftrightarrow> \<not> c_ordered c \<and> \<not> c_flush c \<and> c_txns c = [] \<and> c_committing_cnt c = 0 \<and> c_size c = 0"

definition sync_ok :: "pc \<Rightarrow> hdlr \<Rightarrow> nat \<Rightarrow> c_txn \<Rightarrow> bool" where
  "sync_ok p h a c \<longleftrightarrow>
     c_ordered c \<and> \<not> c_flush c \<and> (\<forall>t\<in>set (c_txns c). t_completion t \<noteq> None)
   \<and> (if p = InsertSync then \<not> c_transfering c \<and> c_txns c = [] else c_committing_cnt c = 1)
   \<and> h_transfers h = (if c_transfering c then [a] else [])"

definition run_part :: "pc \<Rightarrow> hdlr \<Rightarrow> bool" where
  "run_part p h \<longleftrightarrow>
     h_running_cnt h \<le> 15
   \<and> (\<forall>a. live_run p h = Some a \<longrightarrow>
        p \<noteq> CreateRun \<and> new_run p = None \<and> (\<exists>c. h_heap h a = Some c \<and> run_ok p h c))
   \<and> (live_run p h = None \<longrightarrow>
        p \<noteq> TransferRun \<and> p \<noteq> TransferNow
      \<and> (new_run p = None \<longrightarrow> h_orderless_cnt h = h_running_cnt h)
      \<and> (\<forall>a. new_run p = Some a \<longrightarrow>
           h_orderless_cnt h = h_running_cnt h + 1 \<and> (\<exists>c. h_heap h a = Some c \<and> new_ok c)))"

definition sync_part :: "pc \<Rightarrow> hdlr \<Rightarrow> bool" where
  "sync_part p h \<longleftrightarrow>
     (\<forall>a. h_sync h = Some a \<longrightarrow> p \<noteq> CreateSync \<and> (\<exists>c. h_heap h a = Some c \<and> sync_ok p h a c))
   \<and> (h_sync h = None \<longrightarrow> p \<noteq> InsertSync \<and> h_transfers h = [])
   \<and> h_ordered_cnt h = of_nat (length (opt_list (h_sync h)) + length (h_tails h))
   \<and> (\<forall>a\<in>set (h_tails h). \<exists>c. h_heap h a = Some c \<and> c_ordered c \<and> c_committing_cnt c = 1)"

definition txns_of :: "hdlr \<Rightarrow> nat option \<Rightarrow> txn list" where
  "txns_of h x = (case Option.bind x (h_heap h) of None \<Rightarrow> [] | Some c \<Rightarrow> c_txns c)"

lemma txns_of_simps [simp]: "txns_of h None = []" "h_heap h a = Some c \<Longrightarrow> txns_of h (Some a) = c_txns c"
  by (simp_all add: txns_of_def)

lemma txns_of_heap: "h_heap h' = h_heap h \<Longrightarrow> txns_of h' x = txns_of h x"
  by (simp add: txns_of_def)

definition lists_part :: "pc \<Rightarrow> hdlr \<Rightarrow> bool" where
  "lists_part p h \<longleftrightarrow>
     (\<forall>t\<in>set (h_txn_list h) \<union> set (h_sync_list h). has_flag (t_state t) TXN_COMMITTED \<and> t_cnt t \<noteq> 0)
   \<and> (\<forall>t\<in>set (h_sync_list h). t_completion t \<noteq> None)
   \<and> h_txn_cnt h = of_nat (length (h_txn_list h) + length (h_sync_list h))
   \<and> h_syncing_cnt h = of_nat (length (h_sync_list h) + length (txns_of h (h_sync h)))
   \<and> (p = CreateSync \<or> p = InsertSync \<longrightarrow> h_sync_list h \<noteq> [])
   \<and> (p = CreateRun \<or> new_run p \<noteq> None \<longrightarrow> h_txn_list h \<noteq> [])"

definition sent_txns :: "bool \<Rightarrow> hdlr \<Rightarrow> txn list" where
  "sent_txns sync h = concat (map c_txns (filter (\<lambda>c. c_ordered c = sync) (h_sent h)))"

definition content_part :: "sys \<Rightarrow> bool" where
  "content_part s \<longleftrightarrow>
     (let h = s_hd s in
      s_log s = map txn_sig (sent_txns False h @ txns_of h (live_run (s_pc s) h) @ h_txn_list h)
    \<and> s_slog s = map txn_sig (sent_txns True h @ txns_of h (h_sync h) @ h_sync_list h)
    \<and> map Some (h_completed h) = map t_completion (sent_txns True h)
    \<and> (\<forall>c\<in>set (h_sent h). \<not> c_ordered c \<longrightarrow> c_acc c))"

definition hinv :: "sys \<Rightarrow> bool" where
  "hinv s \<longleftrightarrow> roles_ok (s_pc s) (s_hd s) \<and> run_part (s_pc s) (s_hd s) \<and> sync_part (s_pc s) (s_hd s)
     \<and> lists_part (s_pc s) (s_hd s) \<and> content_part s"

lemmas hinv_defs = roles_ok_def roles_def run_part_def sync_part_def lists_part_def content_part_def

lemma hinv_init: "hinv (sys_init workq)"
  by (simp add: hinv_def hinv_defs sys_init_def txn_hdlr_alloc_def live_run_def new_run_def txns_of_def sent_txns_def)

section \<open>State flags\<close>

lemma flag_nz: "TXN_TRANSFERING \<noteq> 0" "TXN_FLUSH \<noteq> 0" "TXN_COMMITTED \<noteq> 0"
  by (simp_all add: txn_state_defs)

lemma set_transfering [simp]:
  "has_flag (set_flag st TXN_TRANSFERING) TXN_TRANSFERING"
  "has_flag (set_flag st TXN_TRANSFERING) TXN_ORDERED = has_flag st TXN_ORDERED"
  "has_flag (set_flag st TXN_TRANSFERING) TXN_FLUSH = has_flag st TXN_FLUSH"
  by (simp_all add: has_flag_set_flag_same flag_nz) (simp_all add: has_flag_set_flag_other txn_state_defs)

lemma set_flush [simp]:
  "has_flag (set_flag st TXN_FLUSH) TXN_FLUSH"
  "has_flag (set_flag st TXN_FLUSH) TXN_ORDERED = has_flag st TXN_ORDERED"
  by (simp_all add: has_flag_set_flag_same flag_nz) (simp_all add: has_flag_set_flag_other txn_state_defs)

lemma set_committed [simp]: "has_flag (set_flag st TXN_COMMITTED) TXN_COMMITTED"
  by (simp add: has_flag_set_flag_same flag_nz)

lemma fresh_flags [simp]:
  "has_flag TXN_ORDERED TXN_ORDERED" "\<not> has_flag TXN_ORDERED TXN_FLUSH" "\<not> has_flag TXN_ORDERED TXN_TRANSFERING"
  "\<not> has_flag TXN_ORDERLESS TXN_ORDERED" "\<not> has_flag TXN_ORDERLESS TXN_FLUSH"
  by (simp_all add: has_flag_def txn_state_defs)

section \<open>What the operations do to an allocated object\<close>

lemma c_txn_init_ok:
  assumes "length bits \<ge> C_TXN_BLOOM_M_BYTES"
  shows "\<exists>f. bf_inv f \<and> lightfs_c_txn_init bits =
           Some \<lparr>c_id = 0, c_txns = [], c_children = [], c_size = 0, c_parents = 0, c_state = TXN_CREATED,
                 c_filter = f, c_workq_id = 0, c_committing_cnt = 0, c_cnt = 0\<rparr>"
  using bloomfilter_init_inv [of "of_nat (C_TXN_BLOOM_M_BYTES * 8)" "\<lparr>bf_m = 0, bf_k = 0, bit_vector = bits\<rparr>"
      "of_nat C_TXN_BLOOM_K"] assms
  by (auto simp: lightfs_c_txn_init_def C_TXN_BLOOM_M_BYTES_def)

definition c_add :: "c_txn \<Rightarrow> bloomfilter \<Rightarrow> txn \<Rightarrow> c_txn" where
  "c_add c f t = c\<lparr>c_filter := f, c_txns := c_txns c @ [t\<lparr>t_state := set_flag (t_state t) TXN_TRANSFERING\<rparr>],
                   c_size := c_size c + t_size t, c_cnt := c_cnt c + t_cnt t\<rparr>"

lemma c_add_sel [simp]:
  "c_state (c_add c f t) = c_state c" "c_children (c_add c f t) = c_children c" "c_filter (c_add c f t) = f"
  "c_committing_cnt (c_add c f t) = c_committing_cnt c" "c_size (c_add c f t) = c_size c + t_size t"
  "c_txns (c_add c f t) = c_txns c @ [t\<lparr>t_state := set_flag (t_state t) TXN_TRANSFERING\<rparr>]"
  by (simp_all add: c_add_def)

lemma insert_Some:
  assumes "h_heap h a = Some c" and "bf_inv (c_filter c)" and "first_txn sync h = Some t" and "t_cnt t \<noteq> 0"
  shows "\<exists>f. bf_inv f \<and> lightfs_c_txn_insert sync h a =
           Some ((unlink_first sync h)\<lparr>h_txn_cnt := h_txn_cnt h - 1, h_heap := (h_heap h)(a := Some (c_add c f t))\<rparr>)"
proof -
  from foldM_inv [of bf_inv "t_bufs t" "\<lambda>f tb. bloomfilter_set f (tb_key_bytes tb)" "c_filter c"] bf_set_total assms(2)
  obtain f where "foldM (\<lambda>f tb. bloomfilter_set f (tb_key_bytes tb)) (c_filter c) (t_bufs t) = Some f" "bf_inv f"
    by blast
  with assms show ?thesis
    by (intro exI [of _ f]) (simp add: lightfs_c_txn_insert_def Let_def c_add_def unlink_first_def)
qed

definition h_drop :: "hdlr \<Rightarrow> nat \<Rightarrow> hdlr" where
  "h_drop h a = h\<lparr>h_ordered := filter (\<lambda>b. b \<noteq> a) (h_ordered h), h_orderless := filter (\<lambda>b. b \<noteq> a) (h_orderless h),
                  h_heap := (h_heap h)(a := None)\<rparr>"

lemma h_drop_sel [simp]:
  "h_heap (h_drop h a) = (h_heap h)(a := None)" "h_txn_cnt (h_drop h a) = h_txn_cnt h"
  "h_ordered_cnt (h_drop h a) = h_ordered_cnt h" "h_orderless_cnt (h_drop h a) = h_orderless_cnt h"
  "h_running_cnt (h_drop h a) = h_running_cnt h" "h_txn_list (h_drop h a) = h_txn_list h"
  "h_sync_list (h_drop h a) = h_sync_list h" "h_next (h_drop h a) = h_next h" "h_run (h_drop h a) = h_run h"
  "h_syncing_cnt (h_drop h a) = h_syncing_cnt h" "h_sync (h_drop h a) = h_sync h" "h_sent (h_drop h a) = h_sent h"
  "h_transfers (h_drop h a) = h_transfers h" "h_commits (h_drop h a) = h_commits h" "h_tails (h_drop h a) = h_tails h"
  "h_completed (h_drop h a) = h_completed h"
  by (simp_all add: h_drop_def)

lemma commit_Some: "h_heap h a = Some c \<Longrightarrow> c_children c = [] \<Longrightarrow> lightfs_c_txn_commit h a = Some (h_drop h a)"
  by (simp add: lightfs_c_txn_commit_def lightfs_c_txn_destroy_def h_drop_def)

lemma released_sel [simp]:
  "c_state (transfer_released c) = c_state c" "c_children (transfer_released c) = c_children c"
  "c_filter (transfer_released c) = c_filter c" "c_committing_cnt (transfer_released c) = c_committing_cnt c"
  "length (c_txns (transfer_released c)) = length (c_txns c)"
  "map t_completion (c_txns (transfer_released c)) = map t_completion (c_txns c)"
  by (simp_all add: transfer_released_def)

definition h_send :: "hdlr \<Rightarrow> nat \<Rightarrow> c_txn \<Rightarrow> hdlr" where
  "h_send h a c =
     (let c = c\<lparr>c_state := set_flag (c_state c) TXN_TRANSFERING\<rparr> in
      h\<lparr>h_committing_cnt := h_committing_cnt h + 1, h_sent := h_sent h @ [c],
        h_heap := (h_heap h)(a := Some (transfer_released c))\<rparr>)"

lemma h_send_sel [simp]:
  "h_heap (h_send h a c) = (h_heap h)(a := Some (transfer_released (c\<lparr>c_state := set_flag (c_state c) TXN_TRANSFERING\<rparr>)))"
  "h_sent (h_send h a c) = h_sent h @ [c\<lparr>c_state := set_flag (c_state c) TXN_TRANSFERING\<rparr>]"
  "h_txn_cnt (h_send h a c) = h_txn_cnt h"
  "h_ordered_cnt (h_send h a c) = h_ordered_cnt h" "h_orderless_cnt (h_send h a c) = h_orderless_cnt h"
  "h_running_cnt (h_send h a c) = h_running_cnt h" "h_txn_list (h_send h a c) = h_txn_list h"
  "h_sync_list (h_send h a c) = h_sync_list h" "h_next (h_send h a c) = h_next h" "h_run (h_send h a c) = h_run h"
  "h_syncing_cnt (h_send h a c) = h_syncing_cnt h" "h_sync (h_send h a c) = h_sync h"
  "h_transfers (h_send h a c) = h_transfers h" "h_commits (h_send h a c) = h_commits h" "h_tails (h_send h a c) = h_tails h"
  "h_completed (h_send h a c) = h_completed h" "h_running (h_send h a c) = h_running h" "h_commit_workq (h_send h a c) = h_commit_workq h"
  by (simp_all add: h_send_def Let_def)

lemma live_run_upd [simp]:
  "live_run p (h\<lparr>h_txn_id := x_txn_id\<rparr>) = live_run p h" "live_run p (h\<lparr>h_txn_cnt := x_txn_cnt\<rparr>) = live_run p h"
  "live_run p (h\<lparr>h_ordered_cnt := x_ordered_cnt\<rparr>) = live_run p h" "live_run p (h\<lparr>h_orderless_cnt := x_orderless_cnt\<rparr>) = live_run p h"
  "live_run p (h\<lparr>h_committing_cnt := x_committing_cnt\<rparr>) = live_run p h" "live_run p (h\<lparr>h_running_cnt := x_running_cnt\<rparr>) = live_run p h"
  "live_run p (h\<lparr>h_running_id := x_running_id\<rparr>) = live_run p h" "live_run p (h\<lparr>h_txn_list := x_txn_list\<rparr>) = live_run p h"
  "live_run p (h\<lparr>h_sync_list := x_sync_list\<rparr>) = live_run p h" "live_run p (h\<lparr>h_ordered := x_ordered\<rparr>) = live_run p h"
  "live_run p (h\<lparr>h_orderless := x_orderless\<rparr>) = live_run p h" "live_run p (h\<lparr>h_heap := x_heap\<rparr>) = live_run p h"
  "live_run p (h\<lparr>h_next := x_next\<rparr>) = live_run p h" "live_run p (h\<lparr>h_syncing_cnt := x_syncing_cnt\<rparr>) = live_run p h"
  "live_run p (h\<lparr>h_running := x_running\<rparr>) = live_run p h" "live_run p (h\<lparr>h_sync := x_sync\<rparr>) = live_run p h"
  "live_run p (h\<lparr>h_workq_id := x_workq_id\<rparr>) = live_run p h" "live_run p (h\<lparr>h_transfers := x_transfers\<rparr>) = live_run p h"
  "live_run p (h\<lparr>h_commits := x_commits\<rparr>) = live_run p h"
  "live_run p (h\<lparr>h_tails := x_tails\<rparr>) = live_run p h" "live_run p (h\<lparr>h_completed := x_completed\<rparr>) = live_run p h"
  "live_run p (h\<lparr>h_sent := x_sent\<rparr>) = live_run p h" "live_run p (h_drop h a) = live_run p h"
  "live_run p (h_send h a c) = live_run p h"
  by (simp_all add: live_run_def h_send_def Let_def)

lemma transfer_run_Some:
  assumes "h_heap h a = Some c" and "\<not> c_ordered c" and "c_children c = []"
  shows "lightfs_c_txn_transfer h a =
           Some (let h1 = (h_send h a c)\<lparr>h_orderless_cnt := h_orderless_cnt h - (if c_flush c then c_committing_cnt c else 0)\<rparr> in
                 if h_running h \<and> h_commit_workq h then h1\<lparr>h_commits := h_commits h @ [a]\<rparr> else h_drop h1 a)"
proof -
  let ?h = "h_send h a c"
  have heap: "h_heap ?h a = Some (transfer_released (c\<lparr>c_state := set_flag (c_state c) TXN_TRANSFERING\<rparr>))" by simp
  let ?h1 = "?h\<lparr>h_orderless_cnt := h_orderless_cnt h - (if c_flush c then c_committing_cnt c else 0)\<rparr>"
  have flush: "(if c_flush c then lightfs_bstore_c_txn_commit_flush ?h a else Some ?h) = Some ?h1"
    using assms heap by (simp add: lightfs_bstore_c_txn_commit_flush_def)
  have "lightfs_c_txn_commit ?h1 a = Some (h_drop ?h1 a)"
    using assms heap by (simp add: commit_Some)
  then have cb: "lightfs_c_txn_transfer_cb ?h a =
      Some (if h_running h \<and> h_commit_workq h then ?h1\<lparr>h_commits := h_commits h @ [a]\<rparr> else h_drop ?h1 a)"
    using assms flush heap by (simp add: lightfs_c_txn_transfer_cb_def)
  have "lightfs_c_txn_transfer h a = lightfs_c_txn_transfer_cb ?h a"
    using assms by (simp add: lightfs_c_txn_transfer_def h_send_def Let_def)
  with cb show ?thesis by (simp add: Let_def)
qed

lemma those_completions:
  "\<forall>t\<in>set ts. t_completion t \<noteq> None \<Longrightarrow> \<exists>cps. those (map t_completion ts) = Some cps \<and> map Some cps = map t_completion ts"
  by (induction ts) auto

lemma transfer_sync_Some:
  assumes "h_heap h a = Some c" and "c_ordered c" and "\<not> c_flush c"
    and "\<forall>t\<in>set (c_txns c). t_completion t \<noteq> None"
  shows "\<exists>cps. map Some cps = map t_completion (c_txns c) \<and> lightfs_c_txn_transfer h a =
           Some ((h_send h a c)\<lparr>h_completed := h_completed h @ cps,
                   h_syncing_cnt := h_syncing_cnt h - of_nat (length (c_txns c)), h_sync := None,
                   h_tails := h_tails h @ [a]\<rparr>)"
proof -
  from those_completions [OF assms(4)] obtain cps where
    cps: "those (map t_completion (c_txns c)) = Some cps" "map Some cps = map t_completion (c_txns c)" by blast
  let ?h = "h_send h a c"
  have heap: "h_heap ?h a = Some (transfer_released (c\<lparr>c_state := set_flag (c_state c) TXN_TRANSFERING\<rparr>))" by simp
  have "lightfs_c_txn_transfer_cb ?h a =
          Some (?h\<lparr>h_completed := h_completed h @ cps,
                   h_syncing_cnt := h_syncing_cnt h - of_nat (length (c_txns c)), h_sync := None,
                   h_tails := h_tails h @ [a]\<rparr>)"
    using assms heap cps by (simp add: lightfs_c_txn_transfer_cb_def Let_def)
  moreover have "lightfs_c_txn_transfer h a = lightfs_c_txn_transfer_cb ?h a"
    using assms by (simp add: lightfs_c_txn_transfer_def h_send_def Let_def)
  ultimately show ?thesis using cps(2) by (intro exI [of _ cps]) simp
qed

lemma transfer_end_Some:
  assumes "h_heap h a = Some c" and "c_ordered c" and "c_children c = []"
  shows "lightfs_c_txn_transfer_end h a = Some (h_drop (h\<lparr>h_ordered_cnt := h_ordered_cnt h - c_committing_cnt c\<rparr>) a)"
  using assms by (simp add: lightfs_c_txn_transfer_end_def lightfs_bstore_c_txn_commit_flush_def commit_Some)

section \<open>Every step keeps the invariant\<close>

lemma txn_sig_state [simp]: "txn_sig (t\<lparr>t_state := st\<rparr>) = txn_sig t"
  by (simp add: txn_sig_def)

text \<open>Each part only looks at some fields, and at the heap only where somebody refers to it.\<close>

lemma base_ok_frame: "base_ok h b \<Longrightarrow> h_heap h' b = h_heap h b \<Longrightarrow> h_next h \<le> h_next h' \<Longrightarrow> base_ok h' b"
  by (auto simp: base_ok_def)

lemma txns_of_frame: "(\<And>b. x = Some b \<Longrightarrow> h_heap h' b = h_heap h b) \<Longrightarrow> txns_of h' x = txns_of h x"
  by (cases x) (simp_all add: txns_of_def)

lemma roles_frame:
  assumes "roles_ok p h" and "live_run p' h' = live_run p h" and "new_run p' = new_run p" and "h_sync h' = h_sync h"
    and "h_commits h' = h_commits h" and "h_tails h' = h_tails h" and "\<And>b. base_ok h b \<Longrightarrow> base_ok h' b"
  shows "roles_ok p' h'"
  using assms unfolding roles_ok_def roles_def by simp

lemma roles_shrink:
  assumes "roles_ok p h" and "set (roles p' h') \<subseteq> set (roles p h) - {a}" and "distinct (roles p' h')"
    and "\<And>b. base_ok h b \<Longrightarrow> b \<noteq> a \<Longrightarrow> base_ok h' b"
  shows "roles_ok p' h'"
  using assms unfolding roles_ok_def by blast

lemma run_frame:
  assumes "run_part p h" and "live_run p' h' = live_run p h" and "new_run p' = new_run p"
    and "\<And>b. live_run p h = Some b \<or> new_run p = Some b \<Longrightarrow> h_heap h' b = h_heap h b"
    and "h_orderless_cnt h' = h_orderless_cnt h" and "h_running_cnt h' = h_running_cnt h"
    and "p' = p \<or> p' \<noteq> TransferNow \<and> (p' = CreateRun \<longrightarrow> live_run p h = None) \<and> (p' = TransferRun \<longrightarrow> live_run p h \<noteq> None)"
  shows "run_part p' h'"
  using assms unfolding run_part_def run_ok_def by auto

lemma sync_frame:
  assumes "sync_part p h" and "h_sync h' = h_sync h" and "h_tails h' = h_tails h"
    and "\<And>b. h_sync h = Some b \<or> b \<in> set (h_tails h) \<Longrightarrow> h_heap h' b = h_heap h b"
    and "h_ordered_cnt h' = h_ordered_cnt h" and "h_transfers h' = h_transfers h"
    and "p' = p \<or> p \<noteq> InsertSync \<and> p' \<noteq> InsertSync \<and> (p' = CreateSync \<longrightarrow> h_sync h = None)"
  shows "sync_part p' h'"
proof (cases "h_sync h")
  case None
  with assms show ?thesis by (auto simp: sync_part_def)
next
  case (Some b)
  with assms(1) obtain c where c: "h_heap h b = Some c" "sync_ok p h b c" "p \<noteq> CreateSync" by (auto simp: sync_part_def)
  have "sync_ok p' h' b c" using c(2) assms(6,7) by (auto simp: sync_ok_def)
  with Some c assms show ?thesis by (auto simp: sync_part_def)
qed

lemma lists_frame:
  assumes "lists_part p h" and "h_txn_list h' = h_txn_list h" and "h_sync_list h' = h_sync_list h"
    and "h_txn_cnt h' = h_txn_cnt h" and "h_syncing_cnt h' = h_syncing_cnt h"
    and "txns_of h' (h_sync h') = txns_of h (h_sync h)"
    and "p' = p \<or> ((p' = CreateSync \<or> p' = InsertSync \<longrightarrow> h_sync_list h \<noteq> [])
                 \<and> (p' = CreateRun \<or> new_run p' \<noteq> None \<longrightarrow> h_txn_list h \<noteq> []))"
  shows "lists_part p' h'"
  using assms unfolding lists_part_def by auto

lemma content_frame:
  assumes "content_part s" and "s_log s' = s_log s" and "s_slog s' = s_slog s"
    and "h_sent (s_hd s') = h_sent (s_hd s)" and "h_completed (s_hd s') = h_completed (s_hd s)"
    and "map txn_sig (txns_of (s_hd s') (live_run (s_pc s') (s_hd s')) @ h_txn_list (s_hd s')) =
         map txn_sig (txns_of (s_hd s) (live_run (s_pc s) (s_hd s)) @ h_txn_list (s_hd s))"
    and "map txn_sig (txns_of (s_hd s') (h_sync (s_hd s')) @ h_sync_list (s_hd s')) =
         map txn_sig (txns_of (s_hd s) (h_sync (s_hd s)) @ h_sync_list (s_hd s))"
  shows "content_part s'"
proof -
  have eq: "sent_txns b (s_hd s') = sent_txns b (s_hd s)" for b using assms(4) by (simp add: sent_txns_def)
  from assms(1) show ?thesis
    unfolding content_part_def Let_def assms(2-5) eq map_append [of _ "sent_txns _ _"] assms(6,7) .
qed

lemma content_send:
  assumes "content_part s" and "s_log s' = s_log s" and "s_slog s' = s_slog s"
    and "h_sent (s_hd s') = h_sent (s_hd s) @ [c]" and "\<not> c_ordered c \<longrightarrow> c_acc c"
    and "map Some (h_completed (s_hd s')) =
         map Some (h_completed (s_hd s)) @ (if c_ordered c then map t_completion (c_txns c) else [])"
    and "(if c_ordered c then [] else c_txns c) @ txns_of (s_hd s') (live_run (s_pc s') (s_hd s')) @ h_txn_list (s_hd s') =
         txns_of (s_hd s) (live_run (s_pc s) (s_hd s)) @ h_txn_list (s_hd s)"
    and "(if c_ordered c then c_txns c else []) @ txns_of (s_hd s') (h_sync (s_hd s')) @ h_sync_list (s_hd s') =
         txns_of (s_hd s) (h_sync (s_hd s)) @ h_sync_list (s_hd s)"
  shows "content_part s'"
proof -
  have sent: "sent_txns b (s_hd s') = sent_txns b (s_hd s) @ (if c_ordered c = b then c_txns c else [])" for b
    using assms(4) by (simp add: sent_txns_def)
  from assms(1) show ?thesis
    unfolding content_part_def Let_def assms(2,3,4,6) assms(7,8) [symmetric] sent using assms(5) by auto
qed

lemma inv_commit: "hinv s \<Longrightarrow> hinv (sys_commit s t cp)"
proof -
  assume inv: "hinv s"
  let ?h = "s_hd s"
  consider (skip) "t_cnt t = 0 \<or> has_flag (t_state t) TXN_READ"
    | (sync) "t_cnt t \<noteq> 0" "\<not> has_flag (t_state t) TXN_READ" "has_flag (t_state t) TXN_SYNC"
    | (async) "t_cnt t \<noteq> 0" "\<not> has_flag (t_state t) TXN_READ" "\<not> has_flag (t_state t) TXN_SYNC"
    by blast
  then show ?thesis
  proof cases
    case skip
    then have "sys_commit s t cp = s" by (auto simp: sys_commit_def lightfs_bstore_txn_commit_def Let_def)
    with inv show ?thesis by simp
  next
    case sync
    let ?s = "sys_commit s t cp"
    let ?t = "t\<lparr>t_completion := Some cp, t_id := h_txn_id ?h, t_state := set_flag (t_state t) TXN_COMMITTED\<rparr>"
    have s': "s_pc ?s = s_pc s" "s_log ?s = s_log s" "s_slog ?s = s_slog s @ [txn_sig ?t]"
        "s_hd ?s = ?h\<lparr>h_txn_cnt := h_txn_cnt ?h + 1, h_txn_id := h_txn_id ?h + 1,
           h_sync_list := h_sync_list ?h @ [?t], h_syncing_cnt := h_syncing_cnt ?h + 1\<rparr>"
      using sync by (simp_all add: sys_commit_def lightfs_bstore_txn_commit_def Let_def txn_sig_def)
    from inv have parts: "roles_ok (s_pc s) ?h" "run_part (s_pc s) ?h" "sync_part (s_pc s) ?h"
        "lists_part (s_pc s) ?h" "content_part s"
      by (simp_all add: hinv_def)
    have same: "live_run (s_pc s) (s_hd ?s) = live_run (s_pc s) ?h" "\<And>x. txns_of (s_hd ?s) x = txns_of ?h x"
        "\<And>b. sent_txns b (s_hd ?s) = sent_txns b ?h"
      by (simp_all add: s' live_run_def txns_of_def sent_txns_def)
    have "roles_ok (s_pc s) (s_hd ?s)" by (rule roles_frame [OF parts(1)]) (simp_all add: same, simp_all add: s' base_ok_def)
    moreover have "run_part (s_pc s) (s_hd ?s)" by (rule run_frame [OF parts(2)]) (simp_all add: same, simp_all add: s')
    moreover have "sync_part (s_pc s) (s_hd ?s)" by (rule sync_frame [OF parts(3)]) (simp_all add: s')
    moreover have "lists_part (s_pc s) (s_hd ?s)"
      using parts(4) sync unfolding lists_part_def same by (auto simp: s')
    moreover have "content_part ?s"
      using parts(5) unfolding content_part_def Let_def same s'(1-3) by (simp add: s')
    ultimately show ?thesis by (simp add: hinv_def s'(1))
  next
    case async
    let ?s = "sys_commit s t cp"
    let ?t = "t\<lparr>t_id := h_txn_id ?h, t_state := set_flag (t_state t) TXN_COMMITTED\<rparr>"
    have s': "s_pc ?s = s_pc s" "s_log ?s = s_log s @ [txn_sig ?t]" "s_slog ?s = s_slog s"
        "s_hd ?s = ?h\<lparr>h_txn_cnt := h_txn_cnt ?h + 1, h_txn_id := h_txn_id ?h + 1, h_txn_list := h_txn_list ?h @ [?t]\<rparr>"
      using async by (simp_all add: sys_commit_def lightfs_bstore_txn_commit_def Let_def txn_sig_def)
    from inv have parts: "roles_ok (s_pc s) ?h" "run_part (s_pc s) ?h" "sync_part (s_pc s) ?h"
        "lists_part (s_pc s) ?h" "content_part s"
      by (simp_all add: hinv_def)
    have same: "live_run (s_pc s) (s_hd ?s) = live_run (s_pc s) ?h" "\<And>x. txns_of (s_hd ?s) x = txns_of ?h x"
        "\<And>b. sent_txns b (s_hd ?s) = sent_txns b ?h"
      by (simp_all add: s' live_run_def txns_of_def sent_txns_def)
    have "roles_ok (s_pc s) (s_hd ?s)" by (rule roles_frame [OF parts(1)]) (simp_all add: same, simp_all add: s' base_ok_def)
    moreover have "run_part (s_pc s) (s_hd ?s)" by (rule run_frame [OF parts(2)]) (simp_all add: same, simp_all add: s')
    moreover have "sync_part (s_pc s) (s_hd ?s)" by (rule sync_frame [OF parts(3)]) (simp_all add: s')
    moreover have "lists_part (s_pc s) (s_hd ?s)"
      using parts(4) async unfolding lists_part_def same by (auto simp: s')
    moreover have "content_part ?s"
      using parts(5) unfolding content_part_def Let_def same s'(1-3) by (simp add: s')
    ultimately show ?thesis by (simp add: hinv_def s'(1))
  qed
qed

lemma hinvD:
  assumes "hinv s"
  shows "roles_ok (s_pc s) (s_hd s)" "run_part (s_pc s) (s_hd s)" "sync_part (s_pc s) (s_hd s)"
    "lists_part (s_pc s) (s_hd s)" "content_part s"
  using assms by (simp_all add: hinv_def)

lemma hinvI:
  "roles_ok (s_pc s) (s_hd s) \<Longrightarrow> run_part (s_pc s) (s_hd s) \<Longrightarrow> sync_part (s_pc s) (s_hd s) \<Longrightarrow>
   lists_part (s_pc s) (s_hd s) \<Longrightarrow> content_part s \<Longrightarrow> hinv s"
  by (simp add: hinv_def)

text \<open>Nobody else refers to the object in a role.\<close>

lemma role_sync:
  assumes "roles_ok p h" and "h_sync h = Some a"
  shows "base_ok h a" "live_run p h \<noteq> Some a" "new_run p \<noteq> Some a" "a \<notin> set (h_commits h)" "a \<notin> set (h_tails h)"
  using assms by (auto simp: roles_ok_def roles_def)

lemma role_run:
  assumes "roles_ok p h" and "live_run p h = Some a"
  shows "base_ok h a" "h_sync h \<noteq> Some a" "new_run p \<noteq> Some a" "a \<notin> set (h_commits h)" "a \<notin> set (h_tails h)"
  using assms by (auto simp: roles_ok_def roles_def)

lemma role_new:
  assumes "roles_ok p h" and "new_run p = Some a"
  shows "base_ok h a" "h_sync h \<noteq> Some a" "live_run p h \<noteq> Some a" "a \<notin> set (h_commits h)" "a \<notin> set (h_tails h)"
  using assms by (auto simp: roles_ok_def roles_def)

lemma role_commit:
  assumes "roles_ok p h" and "h_commits h = xs @ a # ys"
  shows "base_ok h a" "h_sync h \<noteq> Some a" "live_run p h \<noteq> Some a" "new_run p \<noteq> Some a" "a \<notin> set xs" "a \<notin> set ys" "a \<notin> set (h_tails h)"
  using assms by (auto simp: roles_ok_def roles_def)

lemma role_tail:
  assumes "roles_ok p h" and "h_tails h = xs @ a # ys"
  shows "base_ok h a" "h_sync h \<noteq> Some a" "live_run p h \<noteq> Some a" "new_run p \<noteq> Some a" "a \<notin> set xs" "a \<notin> set ys"
    "a \<notin> set (h_commits h)"
  using assms by (auto simp: roles_ok_def roles_def)

lemma role_fresh:
  assumes "roles_ok p h"
  shows "h_sync h \<noteq> Some (h_next h)" "live_run p h \<noteq> Some (h_next h)" "new_run p \<noteq> Some (h_next h)"
    "h_next h \<notin> set (h_commits h)" "h_next h \<notin> set (h_tails h)"
  using assms by (auto simp: roles_ok_def roles_def base_ok_def)

lemma inv_commit_work:
  assumes "hinv s" and "h_commits (s_hd s) = xs @ a # ys"
  shows "\<exists>h. lightfs_c_txn_commit ((s_hd s)\<lparr>h_commits := xs @ ys\<rparr>) a = Some h \<and> hinv (s\<lparr>s_hd := h\<rparr>)"
proof -
  note parts = hinvD [OF assms(1)]
  let ?h = "s_hd s"
  let ?h' = "h_drop (?h\<lparr>h_commits := xs @ ys\<rparr>) a"
  note role = role_commit [OF parts(1) assms(2)]
  obtain c where c: "h_heap ?h a = Some c" "c_children c = []" using role(1) by (auto simp: base_ok_def)
  have step: "lightfs_c_txn_commit (?h\<lparr>h_commits := xs @ ys\<rparr>) a = Some ?h'"
    using c by (intro commit_Some [of _ _ c]) simp_all
  have live: "live_run p ?h' = live_run p ?h" for p by (simp add: live_run_def)
  have heap: "b \<noteq> a \<Longrightarrow> h_heap ?h' b = h_heap ?h b" for b by simp
  have tx: "txns_of ?h' (live_run (s_pc s) ?h) = txns_of ?h (live_run (s_pc s) ?h)"
      "txns_of ?h' (h_sync ?h) = txns_of ?h (h_sync ?h)"
    using role(2,3) by (auto intro!: txns_of_frame)
  have base: "base_ok ?h b \<Longrightarrow> b \<noteq> a \<Longrightarrow> base_ok ?h' b" for b by (erule base_ok_frame) simp_all
  have "roles_ok (s_pc s) ?h'"
    using parts(1) assms(2) by (intro roles_shrink [OF parts(1) _ _ base]) (auto simp: roles_ok_def roles_def live)
  moreover have "run_part (s_pc s) ?h'"
    by (rule run_frame [OF parts(2) live refl]) (use role in auto)
  moreover have "sync_part (s_pc s) ?h'"
    by (rule sync_frame [OF parts(3)]) (use role in auto)
  moreover have "lists_part (s_pc s) ?h'"
    by (rule lists_frame [OF parts(4)]) (use tx in simp_all)
  moreover have "content_part (s\<lparr>s_hd := ?h'\<rparr>)"
    by (rule content_frame [OF parts(5)]) (simp_all add: live tx)
  ultimately have "hinv (s\<lparr>s_hd := ?h'\<rparr>)" by (intro hinvI) simp_all
  with step show ?thesis by blast
qed

lemma inv_transfer_work:
  assumes "hinv s" and "h_transfers (s_hd s) = xs @ a # ys"
  shows "\<exists>h. lightfs_c_txn_transfer ((s_hd s)\<lparr>h_transfers := xs @ ys\<rparr>) a = Some h \<and> hinv (s\<lparr>s_hd := h\<rparr>) \<and> h_sync h = None"
proof -
  note parts = hinvD [OF assms(1)]
  let ?h = "s_hd s" and ?p = "s_pc s"
  from parts(3) assms(2) obtain b c where b: "h_sync ?h = Some b" "h_heap ?h b = Some c" "sync_ok ?p ?h b c"
    by (cases "h_sync ?h") (auto simp: sync_part_def)
  from b(3) assms(2) have ab: "b = a" "xs = []" "ys = []" and tr: "c_transfering c"
    by (auto simp: sync_ok_def Cons_eq_append_conv append_eq_Cons_conv split: if_splits)
  from b(3) tr have c: "c_ordered c" "\<not> c_flush c" "\<forall>t\<in>set (c_txns c). t_completion t \<noteq> None"
      "c_committing_cnt c = 1" "?p \<noteq> InsertSync"
    by (auto simp: sync_ok_def split: if_splits)
  note role = role_sync [OF parts(1) b(1)]
  have ch: "c_children c = []" "bf_inv (c_filter c)" using role(1) b(2) by (simp_all add: base_ok_def)
  let ?g = "?h\<lparr>h_transfers := []\<rparr>"
  have "h_heap ?g b = Some c" using b(2) by simp
  from transfer_sync_Some [OF this c(1-3)] obtain cps where cps: "map Some cps = map t_completion (c_txns c)"
    and step: "lightfs_c_txn_transfer ?g b =
           Some ((h_send ?g b c)\<lparr>h_completed := h_completed ?g @ cps,
                   h_syncing_cnt := h_syncing_cnt ?g - of_nat (length (c_txns c)), h_sync := None,
                   h_tails := h_tails ?g @ [b]\<rparr>)" by blast
  let ?h' = "(h_send ?g b c)\<lparr>h_completed := h_completed ?g @ cps,
                   h_syncing_cnt := h_syncing_cnt ?g - of_nat (length (c_txns c)), h_sync := None,
                   h_tails := h_tails ?g @ [b]\<rparr>"
  have live: "live_run q ?h' = live_run q ?h" for q by simp
  have tx: "txns_of ?h' (live_run ?p ?h) = txns_of ?h (live_run ?p ?h)" by (rule txns_of_frame) (use role(2) in auto)
  have base: "base_ok ?h d \<Longrightarrow> base_ok ?h' d" for d using role(1) ch b(2) by (auto simp: base_ok_def)
  have "roles_ok ?p ?h'"
    using parts(1) b(1) base unfolding roles_ok_def roles_def live by auto
  moreover have "run_part ?p ?h'" by (rule run_frame [OF parts(2) live refl]) (use role in auto)
  moreover have "sync_part ?p ?h'" using parts(3) c b(1) role(5) by (auto simp: sync_part_def)
  moreover have "lists_part ?p ?h'" using parts(4) b(1,2) by (simp add: lists_part_def)
  moreover have "content_part (s\<lparr>s_hd := ?h'\<rparr>)"
    by (rule content_send [OF parts(5), of _ "c\<lparr>c_state := set_flag (c_state c) TXN_TRANSFERING\<rparr>"])
      (use b(1,2) cps c(1) tx in simp_all)
  ultimately have "hinv (s\<lparr>s_hd := ?h'\<rparr>)" by (intro hinvI) simp_all
  with step ab show ?thesis by simp
qed

lemma inv_transfer_end:
  assumes "hinv s" and "h_tails (s_hd s) = xs @ a # ys"
  shows "\<exists>h. lightfs_c_txn_transfer_end ((s_hd s)\<lparr>h_tails := xs @ ys\<rparr>) a = Some h \<and> hinv (s\<lparr>s_hd := h\<rparr>)"
proof -
  note parts = hinvD [OF assms(1)]
  let ?h = "s_hd s" and ?p = "s_pc s"
  note role = role_tail [OF parts(1) assms(2)]
  from parts(3) assms(2) obtain c where c: "h_heap ?h a = Some c" "c_ordered c" "c_committing_cnt c = 1"
    by (auto simp: sync_part_def)
  have ch: "c_children c = []" using role(1) c(1) by (simp add: base_ok_def)
  let ?h' = "h_drop (?h\<lparr>h_tails := xs @ ys, h_ordered_cnt := h_ordered_cnt ?h - 1\<rparr>) a"
  have step: "lightfs_c_txn_transfer_end (?h\<lparr>h_tails := xs @ ys\<rparr>) a = Some ?h'"
    using c ch by (subst transfer_end_Some [of _ _ c]) simp_all
  have live: "live_run p ?h' = live_run p ?h" for p by simp
  have tx: "txns_of ?h' (live_run ?p ?h) = txns_of ?h (live_run ?p ?h)" "txns_of ?h' (h_sync ?h) = txns_of ?h (h_sync ?h)"
    by (rule txns_of_frame, use role in auto)+
  have base: "base_ok ?h b \<Longrightarrow> b \<noteq> a \<Longrightarrow> base_ok ?h' b" for b by (erule base_ok_frame) simp_all
  have "roles_ok ?p ?h'"
    using parts(1) assms(2) by (intro roles_shrink [OF parts(1) _ _ base]) (auto simp: roles_ok_def roles_def live)
  moreover have "run_part ?p ?h'" by (rule run_frame [OF parts(2) live refl]) (use role in auto)
  moreover have "sync_part ?p ?h'"
  proof -
    have "h_heap ?h' b = h_heap ?h b" if "b \<noteq> a" for b using that by simp
    then show ?thesis using parts(3) role assms(2) by (auto simp: sync_part_def sync_ok_def)
  qed
  moreover have "lists_part ?p ?h'" by (rule lists_frame [OF parts(4)]) (use tx in simp_all)
  moreover have "content_part (s\<lparr>s_hd := ?h'\<rparr>)"
    by (rule content_frame [OF parts(5)]) (use live tx in simp_all)
  ultimately have "hinv (s\<lparr>s_hd := ?h'\<rparr>)" by (intro hinvI) simp_all
  with step show ?thesis by blast
qed

subsection \<open>Steps of the thread that only move it\<close>

definition plain :: "pc \<Rightarrow> bool" where
  "plain p \<longleftrightarrow> p \<notin> {ClearRun, ClearNow, InsertSync, TransferNow} \<and> new_run p = None"

lemma plain_simps [simp]:
  "plain Top" "plain ProcessSync" "plain CreateSync" "plain SkipSync" "plain CreateRun" "plain TransferRun"
  "plain WaitTxn" "plain Stopped"
  by (simp_all add: plain_def new_run_def)

lemma plain_live: "plain p \<Longrightarrow> live_run p h = h_run h" "plain p \<Longrightarrow> new_run p = None"
  by (auto simp: plain_def live_run_def)

lemma inv_goto:
  assumes "hinv s" and "plain (s_pc s)" and "plain p"
    and "p = CreateSync \<longrightarrow> h_sync (s_hd s) = None \<and> h_sync_list (s_hd s) \<noteq> []"
    and "p = CreateRun \<longrightarrow> h_run (s_hd s) = None \<and> h_txn_list (s_hd s) \<noteq> []"
    and "p = TransferRun \<longrightarrow> h_run (s_hd s) \<noteq> None"
  shows "hinv (s\<lparr>s_pc := p\<rparr>)"
proof -
  note parts = hinvD [OF assms(1)]
  note live = plain_live [OF assms(2)] plain_live [OF assms(3)]
  have "roles_ok p (s_hd s)" by (rule roles_frame [OF parts(1)]) (simp_all add: live)
  moreover have "run_part p (s_hd s)"
    by (rule run_frame [OF parts(2)]) (use assms in \<open>simp_all add: live plain_def\<close>)
  moreover have "sync_part p (s_hd s)" by (rule sync_frame [OF parts(3)]) (use assms in \<open>simp_all add: plain_def\<close>)
  moreover have "lists_part p (s_hd s)"
    by (rule lists_frame [OF parts(4)]) (use assms in \<open>auto simp: live plain_def\<close>)
  moreover have "content_part (s\<lparr>s_pc := p\<rparr>)" by (rule content_frame [OF parts(5)]) (simp_all add: live)
  ultimately show ?thesis by (intro hinvI) simp_all
qed

lemma inv_flags:
  assumes "hinv s"
  shows "hinv (s\<lparr>s_hd := (s_hd s)\<lparr>h_running := r, h_txn_id := i\<rparr>\<rparr>)"
proof -
  note parts = hinvD [OF assms]
  let ?h = "s_hd s" and ?h' = "(s_hd s)\<lparr>h_running := r, h_txn_id := i\<rparr>"
  have live: "live_run p ?h' = live_run p ?h" for p by (simp add: live_run_def)
  have tx: "txns_of ?h' x = txns_of ?h x" for x by (simp add: txns_of_def)
  have "roles_ok (s_pc s) ?h'" by (rule roles_frame [OF parts(1)]) (simp_all add: live base_ok_def)
  moreover have "run_part (s_pc s) ?h'" by (rule run_frame [OF parts(2) live refl]) simp_all
  moreover have "sync_part (s_pc s) ?h'" by (rule sync_frame [OF parts(3)]) simp_all
  moreover have "lists_part (s_pc s) ?h'" by (rule lists_frame [OF parts(4)]) (simp_all add: tx)
  moreover have "content_part (s\<lparr>s_hd := ?h'\<rparr>)" by (rule content_frame [OF parts(5)]) (simp_all add: live tx)
  ultimately show ?thesis by (intro hinvI) simp_all
qed

lemma inv_running: "hinv s \<Longrightarrow> hinv (s\<lparr>s_hd := (s_hd s)\<lparr>h_running := r\<rparr>\<rparr>)"
  using inv_flags [where s = s and r = r and i = "h_txn_id (s_hd s)"] by (cases "s_hd s") simp

lemma inv_txn_id: "hinv s \<Longrightarrow> hinv (s\<lparr>s_hd := (s_hd s)\<lparr>h_txn_id := i\<rparr>\<rparr>)"
  using inv_flags [where s = s and r = "h_running (s_hd s)" and i = i] by (cases "s_hd s") simp

subsection \<open>Steps that work on the synchronous \<open>c_txn\<close>\<close>

lemma inv_sync_upd:
  assumes "hinv s" and "h_sync (s_hd s) = Some a" and "h_heap (s_hd s) a = Some c"
    and "s_pc s = InsertSync \<or> plain (s_pc s)" and "p = ProcessSync \<or> p = SkipSync"
    and "c_children c' = []" and "bf_inv (c_filter c')"
    and "sync_ok p ((s_hd s)\<lparr>h_transfers := ts\<rparr>) a c'"
    and "map txn_sig (c_txns c' @ l) = map txn_sig (c_txns c @ h_sync_list (s_hd s))"
    and "set l \<subseteq> set (h_sync_list (s_hd s))" and "n = of_nat (length (h_txn_list (s_hd s)) + length l)"
  shows "hinv (s\<lparr>s_pc := p, s_hd := (s_hd s)\<lparr>h_sync_list := l, h_txn_cnt := n,
                 h_heap := (h_heap (s_hd s))(a := Some c'), h_transfers := ts\<rparr>\<rparr>)"
proof -
  note parts = hinvD [OF assms(1)]
  let ?h = "s_hd s" and ?p = "s_pc s"
  let ?g = "?h\<lparr>h_sync_list := l, h_txn_cnt := n, h_heap := (h_heap ?h)(a := Some c'), h_transfers := ts\<rparr>"
  note role = role_sync [OF parts(1) assms(2)]
  have live: "live_run p ?g = live_run ?p ?h" "new_run p = None" "new_run ?p = None"
    using assms(4,5) plain_live by (auto simp: live_run_def plain_def new_run_def)
  have tx: "txns_of ?g (live_run ?p ?h) = txns_of ?h (live_run ?p ?h)" by (rule txns_of_frame) (use role(2) in auto)
  have base: "base_ok ?h b \<Longrightarrow> base_ok ?g b" for b using role(1) assms(6,7) by (auto simp: base_ok_def)
  have "roles_ok p ?g"
    by (rule roles_frame [OF parts(1) live(1)]) (use base live in auto)
  moreover have "run_part p ?g"
    by (rule run_frame [OF parts(2) live(1)]) (use role live assms(5) in auto)
  moreover have "sync_part p ?g" using parts(3) role(5) assms(2,5,8) by (auto simp: sync_part_def sync_ok_def)
  moreover have "lists_part p ?g"
  proof -
    have "length (c_txns c') + length l = length (c_txns c) + length (h_sync_list ?h)"
      using arg_cong [OF assms(9), of length] by simp
    then show ?thesis using parts(4) assms(2,3,5,10,11) live(2) by (auto simp: lists_part_def add.commute)
  qed
  moreover have "content_part (s\<lparr>s_pc := p, s_hd := ?g\<rparr>)"
    by (rule content_frame [OF parts(5)]) (use assms(2,3,9) live tx in simp_all)
  ultimately show ?thesis by (intro hinvI) simp_all
qed

definition step_ok :: "byte list \<Rightarrow> bool \<Rightarrow> sys \<Rightarrow> bool" where
  "step_ok bits stop s \<longleftrightarrow>
     (\<exists>p h. hdlr_step bits stop (s_pc s, s_hd s) = Some (p, h) \<and> hinv (s\<lparr>s_pc := p, s_hd := h\<rparr>))"

lemma step_okI: "hdlr_step bits stop (s_pc s, s_hd s) = Some (p, h) \<Longrightarrow> hinv (s\<lparr>s_pc := p, s_hd := h\<rparr>) \<Longrightarrow> step_ok bits stop s"
  by (auto simp: step_ok_def)

lemma stay [simp]: "s\<lparr>s_pc := p, s_hd := s_hd s\<rparr> = s\<lparr>s_pc := p\<rparr>" for s :: sys
  by simp

lemma sync_part_Some:
  assumes "sync_part p h" and "h_sync h = Some a"
  shows "\<exists>c. h_heap h a = Some c \<and> sync_ok p h a c"
  using assms by (simp add: sync_part_def)

lemma first_committed:
  assumes "lists_part p h" and "first_txn sync h = Some t"
  shows "has_flag (t_state t) TXN_COMMITTED" "t_cnt t \<noteq> 0" "sync \<Longrightarrow> t_completion t \<noteq> None"
  using assms by (cases "h_sync_list h"; cases "h_txn_list h"; cases sync; auto simp: lists_part_def first_txn_def)+

lemma inv_insert_sync:
  assumes "hinv s" and "h_sync (s_hd s) = Some a" and "h_heap (s_hd s) a = Some c"
    and "s_pc s = InsertSync \<or> plain (s_pc s)" and "\<not> c_transfering c" and "h_sync_list (s_hd s) = t # l"
    and "bf_inv f" and "c_committing_cnt c' = 1"
    and "c_txns c' = c_txns c" and "c_state c' = c_state c" and "c_children c' = []"
  shows "hinv (s\<lparr>s_pc := ProcessSync, s_hd := (s_hd s)\<lparr>h_sync_list := l, h_txn_cnt := h_txn_cnt (s_hd s) - 1,
                 h_heap := (h_heap (s_hd s))(a := Some (c_add c' f t))\<rparr>\<rparr>)"
proof -
  let ?h = "s_hd s"
  note parts = hinvD [OF assms(1)]
  from sync_part_Some [OF parts(3) assms(2)] assms(3) have ok: "sync_ok (s_pc s) ?h a c" by simp
  have t: "t_completion t \<noteq> None" using first_committed(3) [OF parts(4), of True t] assms(6) by (simp add: first_txn_def)
  have ts: "h_transfers ?h = []" using ok assms(5) by (simp add: sync_ok_def)
  have "sync_ok ProcessSync (?h\<lparr>h_transfers := []\<rparr>) a (c_add c' f t)"
    using ok t assms(5,8-10) by (auto simp: sync_ok_def)
  moreover have "h_txn_cnt ?h - 1 = of_nat (length (h_txn_list ?h) + length l)"
    using parts(4) assms(6) by (simp add: lists_part_def)
  ultimately have "hinv (s\<lparr>s_pc := ProcessSync, s_hd := ?h\<lparr>h_sync_list := l, h_txn_cnt := h_txn_cnt ?h - 1,
                 h_heap := (h_heap ?h)(a := Some (c_add c' f t)), h_transfers := []\<rparr>\<rparr>)"
    using assms by (intro inv_sync_upd [where c = c]) auto
  then show ?thesis by (simp add: ts [symmetric])
qed

lemma first_simps [simp]:
  "first_txn True h = (case h_sync_list h of [] \<Rightarrow> None | t # _ \<Rightarrow> Some t)"
  "first_txn False h = (case h_txn_list h of [] \<Rightarrow> None | t # _ \<Rightarrow> Some t)"
  "unlink_first True h = h\<lparr>h_sync_list := tl (h_sync_list h)\<rparr>"
  "unlink_first False h = h\<lparr>h_txn_list := tl (h_txn_list h)\<rparr>"
  by (simp_all add: first_txn_def unlink_first_def)

lemma step_process_sync:
  assumes "hinv s" and "s_pc s = ProcessSync"
  shows "step_ok bits stop s"
proof -
  let ?h = "s_hd s"
  note parts = hinvD [OF assms(1)]
  have stp: "hdlr_step bits stop (s_pc s, s_hd s) = process_sync ?h" by (simp add: hdlr_step_def assms(2))
  have skip: "hinv (s\<lparr>s_pc := SkipSync\<rparr>)" by (rule inv_goto [OF assms(1)]) (simp_all add: assms(2))
  show ?thesis
  proof (cases "h_sync ?h")
    case None
    show ?thesis
    proof (cases "h_sync_list ?h")
      case Nil
      with None stp skip show ?thesis by (intro step_okI [of _ _ _ SkipSync ?h]) (simp_all add: process_sync_def)
    next
      case (Cons t l)
      have "has_flag (t_state t) TXN_COMMITTED" using first_committed(1) [OF parts(4), of True t] Cons by simp
      with None Cons stp have "hdlr_step bits stop (s_pc s, s_hd s) = Some (CreateSync, ?h)" by (simp add: process_sync_def)
      moreover have "hinv (s\<lparr>s_pc := CreateSync\<rparr>)"
        by (rule inv_goto [OF assms(1)]) (simp_all add: assms(2) None Cons)
      ultimately show ?thesis by (intro step_okI [of _ _ _ CreateSync ?h]) simp_all
    qed
  next
    case (Some a)
    from sync_part_Some [OF parts(3) this] obtain c where c: "h_heap ?h a = Some c" "sync_ok ProcessSync ?h a c"
      using assms(2) by auto
    have b: "bf_inv (c_filter c)" "c_children c = []" using role_sync(1) [OF parts(1) Some] c(1) by (simp_all add: base_ok_def)
    show ?thesis
    proof (cases "h_sync_list ?h")
      case Nil
      show ?thesis
      proof (cases "c_transfering c")
        case True
        with Nil Some c stp skip show ?thesis by (intro step_okI [of _ _ _ SkipSync ?h]) (simp_all add: process_sync_def)
      next
        case False
        let ?c = "c\<lparr>c_state := set_flag (c_state c) TXN_TRANSFERING\<rparr>"
        have ts: "h_transfers ?h = []" using c(2) False by (simp add: sync_ok_def)
        have "sync_ok SkipSync (?h\<lparr>h_transfers := [a]\<rparr>) a ?c" using c(2) by (simp add: sync_ok_def)
        then have "hinv (s\<lparr>s_pc := SkipSync, s_hd := ?h\<lparr>h_sync_list := h_sync_list ?h, h_txn_cnt := h_txn_cnt ?h,
                 h_heap := (h_heap ?h)(a := Some ?c), h_transfers := [a]\<rparr>\<rparr>)"
          using assms Some c b parts(4) by (intro inv_sync_upd [where c = c]) (auto simp: lists_part_def)
        then show ?thesis
          using stp Nil Some c(1) False ts by (intro step_okI) (simp_all add: process_sync_def)
      qed
    next
      case (Cons t l)
      have t: "has_flag (t_state t) TXN_COMMITTED" "t_cnt t \<noteq> 0"
        using first_committed(1,2) [OF parts(4), of True t] Cons by simp_all
      show ?thesis
      proof (cases "c_transfering c")
        case True
        with Cons t Some c stp skip show ?thesis by (intro step_okI [of _ _ _ SkipSync ?h]) (simp_all add: process_sync_def)
      next
        case False
        from insert_Some [OF c(1) b(1), of True t] t Cons obtain f where f: "bf_inv f" "lightfs_c_txn_insert True ?h a =
           Some (?h\<lparr>h_sync_list := l, h_txn_cnt := h_txn_cnt ?h - 1, h_heap := (h_heap ?h)(a := Some (c_add c f t))\<rparr>)"
          by auto
        have "c_committing_cnt c = 1" using c(2) by (simp add: sync_ok_def)
        with inv_insert_sync [OF assms(1) Some c(1) _ False Cons f(1), of c] assms(2) b
        have inv: "hinv (s\<lparr>s_pc := ProcessSync, s_hd := ?h\<lparr>h_sync_list := l, h_txn_cnt := h_txn_cnt ?h - 1,
                 h_heap := (h_heap ?h)(a := Some (c_add c f t))\<rparr>\<rparr>)" by simp
        show ?thesis
          by (rule step_okI [OF _ inv]) (use stp Cons t Some c False f(2) in \<open>simp add: process_sync_def\<close>)
      qed
    qed
  qed
qed

lemma step_insert_sync:
  assumes "hinv s" and "s_pc s = InsertSync"
  shows "step_ok bits stop s"
proof -
  let ?h = "s_hd s"
  note parts = hinvD [OF assms(1)]
  from parts(3) assms(2) obtain a where a: "h_sync ?h = Some a" by (cases "h_sync ?h") (auto simp: sync_part_def)
  from sync_part_Some [OF parts(3) this] obtain c where c: "h_heap ?h a = Some c" "sync_ok InsertSync ?h a c"
    using assms(2) by auto
  have b: "bf_inv (c_filter c)" "c_children c = []" using role_sync(1) [OF parts(1) a] c(1) by (simp_all add: base_ok_def)
  from parts(4) assms(2) obtain t l where l: "h_sync_list ?h = t # l" by (cases "h_sync_list ?h") (auto simp: lists_part_def)
  have t: "t_cnt t \<noteq> 0" using first_committed(2) [OF parts(4), of True t] l by simp
  let ?c = "c\<lparr>c_committing_cnt := 1, c_id := t_id t\<rparr>"
  let ?g = "?h\<lparr>h_heap := (h_heap ?h)(a := Some ?c)\<rparr>"
  from insert_Some [of ?g a ?c True t] b t l obtain f where f: "bf_inv f" "lightfs_c_txn_insert True ?g a =
       Some (?h\<lparr>h_sync_list := l, h_txn_cnt := h_txn_cnt ?h - 1, h_heap := (h_heap ?h)(a := Some (c_add ?c f t))\<rparr>)"
    by auto
  have "\<not> c_transfering c" using c(2) by (simp add: sync_ok_def)
  from inv_insert_sync [OF assms(1) a c(1) _ this l f(1), of ?c] assms(2) b
  have inv: "hinv (s\<lparr>s_pc := ProcessSync, s_hd := ?h\<lparr>h_sync_list := l, h_txn_cnt := h_txn_cnt ?h - 1,
                 h_heap := (h_heap ?h)(a := Some (c_add ?c f t))\<rparr>\<rparr>)" by simp
  show ?thesis
    by (rule step_okI [OF _ inv]) (use a c l f(2) assms(2) in \<open>simp add: hdlr_step_def insert_sync_def Let_def\<close>)
qed

lemma create_Some:
  assumes "length bits \<ge> C_TXN_BLOOM_M_BYTES"
  shows "\<exists>c. bf_inv (c_filter c) \<and> c_children c = [] \<and> c_txns c = [] \<and> c_size c = 0 \<and> c_committing_cnt c = 0
           \<and> c_state c = st
           \<and> lightfs_c_txn_create bits h st w =
               Some (h_next h,
                 if has_flag st TXN_ORDERED
                 then h\<lparr>h_heap := (h_heap h)(h_next h := Some c), h_next := h_next h + 1,
                        h_ordered := h_ordered h @ [h_next h], h_ordered_cnt := h_ordered_cnt h + 1\<rparr>
                 else h\<lparr>h_heap := (h_heap h)(h_next h := Some c), h_next := h_next h + 1,
                        h_orderless := h_orderless h @ [h_next h], h_orderless_cnt := h_orderless_cnt h + 1\<rparr>)"
proof -
  from c_txn_init_ok [OF assms] obtain f where f: "bf_inv f"
    "lightfs_c_txn_init bits =
           Some \<lparr>c_id = 0, c_txns = [], c_children = [], c_size = 0, c_parents = 0, c_state = TXN_CREATED,
                 c_filter = f, c_workq_id = 0, c_committing_cnt = 0, c_cnt = 0\<rparr>" by blast
  then show ?thesis
    by (intro exI [of _ "\<lparr>c_id = 0, c_txns = [], c_children = [], c_size = 0, c_parents = 0, c_state = st,
                 c_filter = f, c_workq_id = w, c_committing_cnt = 0, c_cnt = 0\<rparr>"])
      (simp add: lightfs_c_txn_create_def Let_def)
qed

lemma step_create_sync:
  assumes "hinv s" and "s_pc s = CreateSync" and "length bits \<ge> C_TXN_BLOOM_M_BYTES"
  shows "step_ok bits stop s"
proof -
  let ?h = "s_hd s"
  note parts = hinvD [OF assms(1)]
  from parts(3) assms(2) have none: "h_sync ?h = None" "h_transfers ?h = []"
    by (auto simp: sync_part_def)
  note fresh = role_fresh [OF parts(1), unfolded assms(2)]
  from create_Some [OF assms(3), of TXN_ORDERED ?h "h_workq_id ?h"] obtain c where
    c: "bf_inv (c_filter c)" "c_children c = []" "c_txns c = []" "c_committing_cnt c = 0" "c_state c = TXN_ORDERED"
      "lightfs_c_txn_create bits ?h TXN_ORDERED (h_workq_id ?h) =
               Some (h_next ?h, ?h\<lparr>h_heap := (h_heap ?h)(h_next ?h := Some c), h_next := h_next ?h + 1,
                        h_ordered := h_ordered ?h @ [h_next ?h], h_ordered_cnt := h_ordered_cnt ?h + 1\<rparr>)" by auto
  let ?g = "?h\<lparr>h_heap := (h_heap ?h)(h_next ?h := Some c), h_next := h_next ?h + 1,
               h_ordered := h_ordered ?h @ [h_next ?h], h_ordered_cnt := h_ordered_cnt ?h + 1, h_sync := Some (h_next ?h)\<rparr>"
  have live: "live_run InsertSync ?g = live_run (s_pc s) ?h" "new_run InsertSync = new_run (s_pc s)"
    by (simp_all add: assms(2) live_run_def new_run_def)
  have tx: "txns_of ?g (live_run (s_pc s) ?h) = txns_of ?h (live_run (s_pc s) ?h)"
    by (rule txns_of_frame) (use fresh assms(2) in auto)
  have base: "base_ok ?h b \<Longrightarrow> base_ok ?g b" for b by (auto simp: base_ok_def)
  have new: "base_ok ?g (h_next ?h)" using c by (simp add: base_ok_def)
  have "roles_ok InsertSync ?g"
    using parts(1) fresh base new unfolding roles_ok_def roles_def live assms(2) none
    by (auto simp: live_run_def new_run_def opt_list_def split: option.splits)
  moreover have "run_part InsertSync ?g"
    by (rule run_frame [OF parts(2) live]) (use fresh assms(2) in auto)
  moreover have "sync_part InsertSync ?g" using parts(3) c none fresh(5) by (auto simp: sync_part_def sync_ok_def)
  moreover have "lists_part InsertSync ?g"
    by (rule lists_frame [OF parts(4)]) (use parts(4) c none assms(2) live in \<open>auto simp: new_run_def lists_part_def\<close>)
  moreover have "content_part (s\<lparr>s_pc := InsertSync, s_hd := ?g\<rparr>)"
    by (rule content_frame [OF parts(5)]) (use c none live tx in simp_all)
  ultimately have inv: "hinv (s\<lparr>s_pc := InsertSync, s_hd := ?g\<rparr>)" by (intro hinvI) simp_all
  show ?thesis by (rule step_okI [OF _ inv]) (simp add: hdlr_step_def assms(2) c(6) Let_def)
qed

subsection \<open>Steps that work on the collecting \<open>c_txn\<close>\<close>

lemma c_acc_add:
  assumes "c_acc c" and "\<not> diff_c_txn_and_txn c t < 0"
  shows "c_acc (c_add c f t)"
proof -
  have "unat (c_size c + t_size t) = unat (c_size c) + unat (t_size t) \<and> unat (c_size c) + unat (t_size t) \<le> C_TXN_LIMIT_BYTES"
    if "unat (c_size c) \<le> C_TXN_LIMIT_BYTES" "unat (t_size t) \<le> C_TXN_LIMIT_BYTES"
  proof -
    have "unat (c_size c) + unat (t_size t) \<le> C_TXN_LIMIT_BYTES"
      using diff_c_txn_negative [of c t] assms(2) that by (simp add: C_TXN_LIMIT_BYTES_def)
    moreover from this have "unat (c_size c + t_size t) = unat (c_size c) + unat (t_size t)"
      by (intro unat_add_lem [THEN iffD1]) (simp add: C_TXN_LIMIT_BYTES_def)
    ultimately show ?thesis by simp
  qed
  with assms(1) show ?thesis by (auto simp: c_acc_def)
qed

lemma inv_run_upd:
  assumes "hinv s" and "h_run (s_hd s) = Some a" and "h_heap (s_hd s) a = Some c" and "s_pc s = SkipSync"
    and "p = SkipSync \<or> p = TransferNow" and "c_children c' = []" and "bf_inv (c_filter c')" and "rc \<le> 15"
    and "run_ok p ((s_hd s)\<lparr>h_running_cnt := rc\<rparr>) c'"
    and "map txn_sig (c_txns c' @ l) = map txn_sig (c_txns c @ h_txn_list (s_hd s))"
    and "set l \<subseteq> set (h_txn_list (s_hd s))" and "n = of_nat (length l + length (h_sync_list (s_hd s)))"
  shows "hinv (s\<lparr>s_pc := p, s_hd := (s_hd s)\<lparr>h_txn_list := l, h_txn_cnt := n,
                 h_heap := (h_heap (s_hd s))(a := Some c'), h_running_id := ri, h_running_cnt := rc\<rparr>\<rparr>)"
proof -
  note parts = hinvD [OF assms(1)]
  let ?h = "s_hd s"
  let ?g = "?h\<lparr>h_txn_list := l, h_txn_cnt := n, h_heap := (h_heap ?h)(a := Some c'), h_running_id := ri, h_running_cnt := rc\<rparr>"
  have live: "live_run p ?g = Some a" "live_run (s_pc s) ?h = Some a" "new_run p = None" "new_run (s_pc s) = None"
    using assms(2,4,5) by (auto simp: live_run_def new_run_def)
  note role = role_run [OF parts(1) live(2)]
  have tx: "txns_of ?g (h_sync ?h) = txns_of ?h (h_sync ?h)" by (rule txns_of_frame) (use role(2) in auto)
  have base: "base_ok ?h b \<Longrightarrow> base_ok ?g b" for b using role(1) assms(6,7) by (auto simp: base_ok_def)
  have "roles_ok p ?g"
    by (rule roles_frame [OF parts(1)]) (use live base in simp_all)
  moreover have "run_part p ?g" unfolding run_part_def live using assms(5,8,9) by (auto simp: run_ok_def)
  moreover have "sync_part p ?g"
    by (rule sync_frame [OF parts(3)]) (use role(2,5) assms(4,5) in auto)
  moreover have "lists_part p ?g" using parts(4) assms(4,5,11,12) tx live by (auto simp: lists_part_def)
  moreover have "content_part (s\<lparr>s_pc := p, s_hd := ?g\<rparr>)"
    by (rule content_frame [OF parts(5)]) (use assms(3,10) live tx in simp_all)
  ultimately show ?thesis by (intro hinvI) simp_all
qed

lemma step_skip_sync:
  assumes "hinv s" and "s_pc s = SkipSync"
  shows "step_ok bits stop s"
proof -
  let ?h = "s_hd s"
  note parts = hinvD [OF assms(1)]
  have stp: "hdlr_step bits stop (s_pc s, s_hd s) = skip_sync ?h" by (simp add: hdlr_step_def assms(2))
  have live: "live_run SkipSync ?h = h_run ?h" by (simp add: live_run_def)
  have go: "step_ok bits stop s" if "skip_sync ?h = Some (p, ?h)" "plain p" "p \<noteq> CreateSync"
      "p = CreateRun \<longrightarrow> h_run ?h = None \<and> h_txn_list ?h \<noteq> []" "p = TransferRun \<longrightarrow> h_run ?h \<noteq> None" for p
    using that stp inv_goto [OF assms(1), of p] assms(2) by (intro step_okI [of _ _ _ p ?h]) simp_all
  have run: "\<exists>c. h_heap ?h a = Some c \<and> run_ok SkipSync ?h c \<and> bf_inv (c_filter c) \<and> c_children c = []"
    if "h_run ?h = Some a" for a
    using parts(2) role_run(1) [OF parts(1), of a] that assms(2) by (auto simp: run_part_def base_ok_def live)
  show ?thesis
  proof (cases "h_txn_list ?h")
    case Nil
    show ?thesis
    proof (cases "h_run ?h")
      case None
      with Nil show ?thesis by (intro go [of WaitTxn]) (simp_all add: skip_sync_def)
    next
      case (Some a)
      from run [OF this] obtain c where c: "h_heap ?h a = Some c" "run_ok SkipSync ?h c" "bf_inv (c_filter c)" "c_children c = []"
        by blast
      let ?c = "(if c_committing_cnt c = 0 then c\<lparr>c_committing_cnt := h_running_cnt ?h\<rparr> else c)"
      let ?d = "?c\<lparr>c_state := set_flag (c_state ?c) TXN_FLUSH\<rparr>"
      have rc: "h_running_cnt ?h \<le> 15" using parts(2) by (simp add: run_part_def)
      then have "h_running_cnt ?h \<le> 16" by (rule order_trans) simp
      then have "run_ok TransferNow (?h\<lparr>h_running_cnt := 0\<rparr>) ?d"
        using c(2) by (auto simp: run_ok_def c_acc_def)
      then have inv: "hinv (s\<lparr>s_pc := TransferNow, s_hd := ?h\<lparr>h_txn_list := h_txn_list ?h, h_txn_cnt := h_txn_cnt ?h,
                 h_heap := (h_heap ?h)(a := Some ?d), h_running_id := 0, h_running_cnt := 0\<rparr>\<rparr>)"
        using parts(4) assms Some c by (intro inv_run_upd [where c = c]) (auto simp: lists_part_def)
      show ?thesis
        by (rule step_okI [OF _ inv]) (use stp Nil Some c(1) in \<open>simp add: skip_sync_def Let_def\<close>)
    qed
  next
    case (Cons t l)
    have t: "has_flag (t_state t) TXN_COMMITTED" "t_cnt t \<noteq> 0"
      using first_committed(1,2) [OF parts(4), of False t] Cons by simp_all
    show ?thesis
    proof (cases "h_ordered_cnt ?h + h_orderless_cnt ?h > of_nat C_TXN_COMMITTING_LIMIT")
      case True
      with Cons t show ?thesis by (intro go [of ProcessSync]) (simp_all add: skip_sync_def)
    next
      case lim: False
      show ?thesis
      proof (cases "h_run ?h")
        case None
        with Cons t lim show ?thesis by (intro go [of CreateRun]) (simp_all add: skip_sync_def)
      next
        case (Some a)
        from run [OF this] obtain c where
          c: "h_heap ?h a = Some c" "run_ok SkipSync ?h c" "bf_inv (c_filter c)" "c_children c = []" by blast
        show ?thesis
        proof (cases "diff_c_txn_and_txn c t < 0")
          case True
          with Cons t lim Some c(1) show ?thesis by (intro go [of TransferRun]) (simp_all add: skip_sync_def)
        next
          case False
          from insert_Some [OF c(1,3), of False t] t Cons obtain f where f: "bf_inv f" "lightfs_c_txn_insert False ?h a =
             Some (?h\<lparr>h_txn_list := l, h_txn_cnt := h_txn_cnt ?h - 1, h_heap := (h_heap ?h)(a := Some (c_add c f t))\<rparr>)"
            by auto
          have "run_ok SkipSync (?h\<lparr>h_running_cnt := h_running_cnt ?h\<rparr>) (c_add c f t)"
            using c(2) c_acc_add [OF _ False] by (simp add: run_ok_def)
          then have "hinv (s\<lparr>s_pc := SkipSync, s_hd := ?h\<lparr>h_txn_list := l, h_txn_cnt := h_txn_cnt ?h - 1,
                 h_heap := (h_heap ?h)(a := Some (c_add c f t)), h_running_id := h_running_id ?h,
                 h_running_cnt := h_running_cnt ?h\<rparr>\<rparr>)"
            using parts(2,4) assms Some c f(1) Cons
            by (intro inv_run_upd [where c = c]) (auto simp: lists_part_def run_part_def)
          then have inv: "hinv (s\<lparr>s_pc := SkipSync, s_hd := ?h\<lparr>h_txn_list := l, h_txn_cnt := h_txn_cnt ?h - 1,
                 h_heap := (h_heap ?h)(a := Some (c_add c f t))\<rparr>\<rparr>)" by simp
          show ?thesis
            by (rule step_okI [OF _ inv]) (use stp Cons t lim Some c(1) False f(2) in \<open>simp add: skip_sync_def\<close>)
        qed
      qed
    qed
  qed
qed

lemma step_create_run:
  assumes "hinv s" and "s_pc s = CreateRun" and "length bits \<ge> C_TXN_BLOOM_M_BYTES"
  shows "step_ok bits stop s"
proof -
  let ?h = "s_hd s"
  note parts = hinvD [OF assms(1)]
  have live: "live_run p ?h = None" if "p = CreateRun \<or> p = InsertRun (h_next ?h)" for p
    using parts(2) assms(2) that by (cases "h_run ?h") (auto simp: run_part_def live_run_def)
  have cnt: "h_running_cnt ?h \<le> 15" "h_orderless_cnt ?h = h_running_cnt ?h"
    using parts(2) assms(2) live by (auto simp: run_part_def new_run_def)
  note fresh = role_fresh [OF parts(1), unfolded assms(2)]
  from create_Some [OF assms(3), of TXN_ORDERLESS ?h "h_workq_id ?h"] obtain c where
    c: "bf_inv (c_filter c)" "c_children c = []" "c_txns c = []" "c_size c = 0" "c_committing_cnt c = 0"
      "c_state c = TXN_ORDERLESS"
      "lightfs_c_txn_create bits ?h TXN_ORDERLESS (h_workq_id ?h) =
               Some (h_next ?h, ?h\<lparr>h_heap := (h_heap ?h)(h_next ?h := Some c), h_next := h_next ?h + 1,
                        h_orderless := h_orderless ?h @ [h_next ?h], h_orderless_cnt := h_orderless_cnt ?h + 1\<rparr>)" by auto
  let ?p = "InsertRun (h_next ?h)"
  let ?g = "?h\<lparr>h_heap := (h_heap ?h)(h_next ?h := Some c), h_next := h_next ?h + 1,
               h_orderless := h_orderless ?h @ [h_next ?h], h_orderless_cnt := h_orderless_cnt ?h + 1\<rparr>"
  have new: "new_run ?p = Some (h_next ?h)" by (simp add: new_run_def)
  have tx: "txns_of ?g (h_sync ?h) = txns_of ?h (h_sync ?h)" by (rule txns_of_frame) (use fresh in auto)
  have base: "base_ok ?h b \<Longrightarrow> base_ok ?g b" for b by (auto simp: base_ok_def)
  have "base_ok ?g (h_next ?h)" using c by (simp add: base_ok_def)
  then have "roles_ok ?p ?g"
    using parts(1) fresh base assms(2) unfolding roles_ok_def roles_def
    by (auto simp: live new opt_list_def split: option.splits)
  moreover have "run_part ?p ?g" using c cnt by (simp add: run_part_def live new new_ok_def)
  moreover have "sync_part ?p ?g" by (rule sync_frame [OF parts(3)]) (use fresh assms(2) in auto)
  moreover have "lists_part ?p ?g" using parts(4) assms(2) tx by (simp add: lists_part_def new)
  moreover have "content_part (s\<lparr>s_pc := ?p, s_hd := ?g\<rparr>)"
    by (rule content_frame [OF parts(5)]) (use live tx assms(2) in simp_all)
  ultimately have inv: "hinv (s\<lparr>s_pc := ?p, s_hd := ?g\<rparr>)" by (intro hinvI) simp_all
  show ?thesis by (rule step_okI [OF _ inv]) (simp add: hdlr_step_def assms(2) c(7) Let_def)
qed

lemma inv_new_filled:
  assumes "hinv s" and "s_pc s = InsertRun a" and "h_txn_list (s_hd s) = t # l" and "c_txns c' = [t']" and "txn_sig t' = txn_sig t"
    and "c_children c' = []" and "bf_inv (c_filter c')" and "rc \<le> 15" and "run_ok SkipSync ((s_hd s)\<lparr>h_running_cnt := rc\<rparr>) c'"
    and "h_txn_cnt h' = h_txn_cnt (s_hd s) - 1" and "h_heap h' = (h_heap (s_hd s))(a := Some c')" and "h_run h' = Some a"
    and "h_running_cnt h' = rc" and "h_orderless_cnt h' = h_orderless_cnt (s_hd s)" and "h_ordered_cnt h' = h_ordered_cnt (s_hd s)"
    and "h_txn_list h' = l" and "h_sync_list h' = h_sync_list (s_hd s)" and "h_sync h' = h_sync (s_hd s)"
    and "h_syncing_cnt h' = h_syncing_cnt (s_hd s)" and "h_transfers h' = h_transfers (s_hd s)" and "h_next h' = h_next (s_hd s)"
    and "h_commits h' = h_commits (s_hd s)" and "h_tails h' = h_tails (s_hd s)" and "h_completed h' = h_completed (s_hd s)" and "h_sent h' = h_sent (s_hd s)"
  shows "hinv (s\<lparr>s_pc := SkipSync, s_hd := h'\<rparr>)"
proof -
  let ?h = "s_hd s"
  note parts = hinvD [OF assms(1)]
  have new: "new_run (s_pc s) = Some a" by (simp add: assms(2) new_run_def)
  have old: "live_run (s_pc s) ?h = None" using parts(2) new by (cases "live_run (s_pc s) ?h") (auto simp: run_part_def)
  have live: "live_run SkipSync h' = Some a" "new_run SkipSync = None" using assms(12) by (simp_all add: live_run_def new_run_def)
  note role = role_new [OF parts(1) new]
  have tx: "txns_of h' (h_sync h') = txns_of ?h (h_sync ?h)" unfolding assms(18)
    by (rule txns_of_frame) (use role(2) assms(11) in auto)
  have base: "base_ok ?h b \<Longrightarrow> base_ok h' b" for b using role(1) assms(6,7,11,21) by (auto simp: base_ok_def)
  have "roles_ok SkipSync h'"
    using parts(1) base by (auto simp: roles_ok_def roles_def live old new assms(18,22,23))
  moreover have "run_part SkipSync h'" unfolding run_part_def live using assms(8,9,11,13,14) by (simp add: run_ok_def)
  moreover have "sync_part SkipSync h'"
    by (rule sync_frame [OF parts(3)]) (use role(2,5) assms in auto)
  moreover have "lists_part SkipSync h'"
    using parts(4) tx unfolding lists_part_def assms(3,10,16-19) by (auto simp: new_run_def)
  moreover have "content_part (s\<lparr>s_pc := SkipSync, s_hd := h'\<rparr>)"
    by (rule content_frame [OF parts(5)]) (use assms(3-5,11,16,17,24,25) live old tx in simp_all)
  ultimately show ?thesis by (intro hinvI) simp_all
qed

lemma c_acc_state [simp]: "c_acc (c\<lparr>c_state := st\<rparr>) = c_acc c"
  by (simp add: c_acc_def)

lemma word_le_15:
  assumes "(w :: u32) \<le> 15"
  shows "w + 1 \<noteq> 0" "16 \<le> w + 1 \<longleftrightarrow> w = 15" "w \<noteq> 15 \<Longrightarrow> w + 1 \<le> 15" "w + 1 \<le> 16"
proof -
  have u: "unat w \<le> 15" using assms by (simp add: word_le_nat_alt)
  then have s: "unat (w + 1) = unat w + 1" using unat_add_lem [of w 1] by simp
  show "w + 1 \<noteq> 0" using s by (metis Suc_eq_plus1 old.nat.distinct(2) unat_0)
  show "16 \<le> w + 1 \<longleftrightarrow> w = 15" using s u by (auto simp: word_le_nat_alt word_unat_eq_iff)
  show "w \<noteq> 15 \<Longrightarrow> w + 1 \<le> 15" using s u by (auto simp: word_le_nat_alt word_unat_eq_iff)
  show "w + 1 \<le> 16" using s u by (simp add: word_le_nat_alt)
qed

lemma step_insert_run:
  assumes "hinv s" and "s_pc s = InsertRun a"
  shows "step_ok bits stop s"
proof -
  let ?h = "s_hd s"
  note parts = hinvD [OF assms(1)]
  have new: "new_run (s_pc s) = Some a" by (simp add: assms(2) new_run_def)
  from parts(2) new obtain c where c: "h_heap ?h a = Some c" "new_ok c" and
    cnt: "h_running_cnt ?h \<le> 15" "h_orderless_cnt ?h = h_running_cnt ?h + 1"
    by (cases "live_run (s_pc s) ?h") (auto simp: run_part_def)
  have b: "bf_inv (c_filter c)" "c_children c = []" using role_new(1) [OF parts(1) new] c(1) by (simp_all add: base_ok_def)
  from parts(4) new obtain t l where l: "h_txn_list ?h = t # l" by (cases "h_txn_list ?h") (auto simp: lists_part_def)
  have t: "t_cnt t \<noteq> 0" using first_committed(2) [OF parts(4), of False t] l by simp
  define g where "g = (if h_running_id ?h = 0 then ?h\<lparr>h_running_id := ucast (t_id t), h_workq_id := 0\<rparr> else ?h)"
  have g: "h_txn_cnt g = h_txn_cnt ?h" "h_heap g = h_heap ?h" "h_running_cnt g = h_running_cnt ?h"
      "h_orderless_cnt g = h_orderless_cnt ?h" "h_ordered_cnt g = h_ordered_cnt ?h" "h_txn_list g = h_txn_list ?h"
      "h_sync_list g = h_sync_list ?h" "h_sync g = h_sync ?h" "h_syncing_cnt g = h_syncing_cnt ?h"
      "h_transfers g = h_transfers ?h" "h_next g = h_next ?h" "h_commits g = h_commits ?h" "h_tails g = h_tails ?h"
      "h_completed g = h_completed ?h" "h_sent g = h_sent ?h"
    by (simp_all add: g_def)
  let ?c = "c\<lparr>c_id := ucast (h_running_id g)\<rparr>"
  let ?i = "g\<lparr>h_heap := (h_heap ?h)(a := Some ?c)\<rparr>"
  from insert_Some [of ?i a ?c False t] b t l obtain f where f: "bf_inv f" "lightfs_c_txn_insert False ?i a =
       Some (g\<lparr>h_txn_list := l, h_txn_cnt := h_txn_cnt ?h - 1, h_heap := (h_heap ?h)(a := Some (c_add ?c f t))\<rparr>)"
    by (auto simp: g)
  let ?j = "g\<lparr>h_txn_list := l, h_txn_cnt := h_txn_cnt ?h - 1, h_heap := (h_heap ?h)(a := Some (c_add ?c f t)),
              h_running_cnt := h_running_cnt ?h + 1, h_run := Some a\<rparr>"
  let ?d = "(c_add ?c f t)\<lparr>c_committing_cnt := h_running_cnt ?h + 1, c_state := set_flag (c_state c) TXN_FLUSH\<rparr>"
  let ?k = "?j\<lparr>h_heap := (h_heap ?h)(a := Some ?d), h_running_id := 0, h_running_cnt := 0\<rparr>"
  note w = word_le_15 [OF cnt(1)]
  have "insert_run ?h a = do {
       h \<leftarrow> lightfs_c_txn_insert False ?i a;
       let h = h\<lparr>h_running_cnt := h_running_cnt h + 1, h_run := Some a\<rparr>;
       if h_running_cnt h \<ge> of_nat RUNNING_C_TXN_LIMIT then do {
         c \<leftarrow> h_heap h a;
         Some (SkipSync,
               h\<lparr>h_heap := (h_heap h)(a := Some (c\<lparr>c_committing_cnt := h_running_cnt h,
                                                 c_state := set_flag (c_state c) TXN_FLUSH\<rparr>)),
                 h_running_id := 0, h_running_cnt := 0\<rparr>) }
       else Some (SkipSync, h) }"
    unfolding insert_run_def first_simps l list.case bind.bind_lunit Let_def g_def [symmetric] by (simp add: g c)
  then have stp: "hdlr_step bits stop (s_pc s, s_hd s) = Some (SkipSync, if h_running_cnt ?h = 15 then ?k else ?j)"
    using f(2) w(2) by (simp add: hdlr_step_def assms(2) Let_def RUNNING_C_TXN_LIMIT_def g)
  let ?t = "t\<lparr>t_state := set_flag (t_state t) TXN_TRANSFERING\<rparr>"
  have acc: "c_acc (c_add ?c f t)" "c_acc ?d" "c_txns ?c = []" "c_committing_cnt ?c = 0" "\<not> c_ordered ?c" "\<not> c_flush ?c"
    using c(2) by (simp_all add: c_acc_def new_ok_def)
  have "hinv (s\<lparr>s_pc := SkipSync, s_hd := if h_running_cnt ?h = 15 then ?k else ?j\<rparr>)"
  proof (cases "h_running_cnt ?h = 15")
    case True
    have ok: "run_ok SkipSync (?h\<lparr>h_running_cnt := 0\<rparr>) ?d" using acc cnt(2) w by (simp add: run_ok_def)
    show ?thesis
      by (rule inv_new_filled [OF assms l, where c' = ?d and rc = 0 and t' = ?t, OF _ _ _ _ _ ok])
        (use True acc b f(1) g in simp_all)
  next
    case False
    have ok: "run_ok SkipSync (?h\<lparr>h_running_cnt := h_running_cnt ?h + 1\<rparr>) (c_add ?c f t)"
      using acc cnt(2) w by (simp add: run_ok_def)
    show ?thesis
      by (rule inv_new_filled [OF assms l, where c' = "c_add ?c f t" and t' = ?t and rc = "h_running_cnt ?h + 1", OF _ _ _ _ _ ok])
        (use False acc b f(1) w g in simp_all)
  qed
  then show ?thesis by (rule step_okI [OF stp])
qed

lemma step_transfer:
  assumes "hinv s" and "s_pc s = TransferRun \<and> p = ClearRun \<or> s_pc s = TransferNow \<and> p = ClearNow"
  shows "step_ok bits stop s"
proof -
  let ?h = "s_hd s"
  note parts = hinvD [OF assms(1)]
  have pre: "live_run (s_pc s) ?h = h_run ?h" "new_run (s_pc s) = None" "new_run p = None" "live_run p g = None" for g
    using assms(2) by (auto simp: live_run_def new_run_def)
  from parts(2) assms(2) pre obtain a where a: "h_run ?h = Some a" by (cases "h_run ?h") (auto simp: run_part_def)
  with pre have live: "live_run (s_pc s) ?h = Some a" by simp
  from parts(2) live obtain c where c: "h_heap ?h a = Some c" "run_ok (s_pc s) ?h c" by (auto simp: run_part_def)
  note role = role_run [OF parts(1) live]
  have ch: "c_children c = []" "bf_inv (c_filter c)" using role(1) c(1) by (simp_all add: base_ok_def)
  let ?n = "h_orderless_cnt ?h - (if c_flush c then c_committing_cnt c else 0)"
  have cnt: "?n = h_running_cnt ?h" "h_running_cnt ?h \<le> 15" "\<not> c_ordered c" "c_acc c"
    using c(2) parts(2) by (auto simp: run_ok_def run_part_def)
  let ?g = "(h_send ?h a c)\<lparr>h_orderless_cnt := ?n\<rparr>"
  define h' where "h' = (if h_running ?h \<and> h_commit_workq ?h then ?g\<lparr>h_commits := h_commits ?h @ [a]\<rparr> else h_drop ?g a)"
  have stp: "hdlr_step bits stop (s_pc s, s_hd s) = Some (p, h')"
    using assms(2) a transfer_run_Some [OF c(1) cnt(3) ch(1)] by (auto simp: hdlr_step_def Let_def h'_def)
  have h': "h_sync h' = h_sync ?h" "h_tails h' = h_tails ?h" "h_next h' = h_next ?h" "h_orderless_cnt h' = h_running_cnt ?h"
      "h_running_cnt h' = h_running_cnt ?h" "h_ordered_cnt h' = h_ordered_cnt ?h" "h_transfers h' = h_transfers ?h"
      "h_txn_list h' = h_txn_list ?h" "h_sync_list h' = h_sync_list ?h" "h_txn_cnt h' = h_txn_cnt ?h"
      "h_syncing_cnt h' = h_syncing_cnt ?h" "h_completed h' = h_completed ?h"
      "h_sent h' = h_sent ?h @ [c\<lparr>c_state := set_flag (c_state c) TXN_TRANSFERING\<rparr>]"
    using cnt(1) by (simp_all add: h'_def)
  have heap: "b \<noteq> a \<Longrightarrow> h_heap h' b = h_heap ?h b" for b by (simp add: h'_def)
  have tx: "txns_of h' (h_sync h') = txns_of ?h (h_sync ?h)" unfolding h'
    by (rule txns_of_frame) (use role(2) heap in auto)
  have base: "base_ok ?h b \<Longrightarrow> b \<noteq> a \<Longrightarrow> base_ok h' b" for b using heap h'(3) by (simp add: base_ok_def)
  have "roles_ok p h'"
  proof (cases "h_running ?h \<and> h_commit_workq ?h")
    case True
    then have "base_ok h' a" using role(1) c(1) ch by (simp add: h'_def base_ok_def)
    moreover have "h_commits h' = h_commits ?h @ [a]" using True by (simp add: h'_def)
    ultimately show ?thesis using parts(1) base unfolding roles_ok_def roles_def pre(1,2,3,4) a h'(1,2) by auto
  next
    case False
    then have "h_commits h' = h_commits ?h" by (simp add: h'_def)
    then show ?thesis using parts(1) base unfolding roles_ok_def roles_def pre(1,2,3,4) a h'(1,2) by auto
  qed
  moreover have "run_part p h'" using cnt(2) assms(2) by (auto simp: run_part_def pre h')
  moreover have "sync_part p h'"
  proof (rule sync_frame [OF parts(3)])
    show "h_heap h' b = h_heap ?h b" if "h_sync ?h = Some b \<or> b \<in> set (h_tails ?h)" for b
      using role(2,5) heap that by (cases "b = a") auto
  qed (use h' assms(2) in auto)
  moreover have "lists_part p h'"
    by (rule lists_frame [OF parts(4)]) (use h' tx assms(2) pre in auto)
  moreover have "content_part (s\<lparr>s_pc := p, s_hd := h'\<rparr>)"
    by (rule content_send [OF parts(5), of _ "c\<lparr>c_state := set_flag (c_state c) TXN_TRANSFERING\<rparr>"])
      (use h' tx cnt c(1) pre a in simp_all)
  ultimately have "hinv (s\<lparr>s_pc := p, s_hd := h'\<rparr>)" by (intro hinvI) simp_all
  with stp show ?thesis by (rule step_okI)
qed

lemma step_clear:
  assumes "hinv s" and "s_pc s = ClearRun \<and> p = SkipSync \<or> s_pc s = ClearNow \<and> p = WaitTxn"
  shows "step_ok bits stop s"
proof -
  let ?h = "s_hd s" and ?g = "(s_hd s)\<lparr>h_run := None\<rparr>"
  note parts = hinvD [OF assms(1)]
  have live: "live_run p ?g = live_run (s_pc s) ?h" "new_run p = new_run (s_pc s)" "live_run (s_pc s) ?h = None"
    using assms(2) by (auto simp: live_run_def new_run_def)
  have tx: "txns_of ?g x = txns_of ?h x" for x by (simp add: txns_of_def)
  have "roles_ok p ?g" by (rule roles_frame [OF parts(1) live(1,2)]) (simp_all add: base_ok_def)
  moreover have "run_part p ?g" by (rule run_frame [OF parts(2) live(1,2)]) (use assms(2) in auto)
  moreover have "sync_part p ?g" by (rule sync_frame [OF parts(3)]) (use assms(2) in auto)
  moreover have "lists_part p ?g" by (rule lists_frame [OF parts(4)]) (use assms(2) in \<open>auto simp: tx new_run_def\<close>)
  moreover have "content_part (s\<lparr>s_pc := p, s_hd := ?g\<rparr>)"
    by (rule content_frame [OF parts(5)]) (use live in \<open>simp_all add: tx\<close>)
  ultimately have inv: "hinv (s\<lparr>s_pc := p, s_hd := ?g\<rparr>)" by (intro hinvI) simp_all
  show ?thesis by (rule step_okI [OF _ inv]) (use assms(2) in \<open>auto simp: hdlr_step_def Let_def\<close>)
qed

lemma step_top:
  assumes "hinv s" and "s_pc s = Top"
  shows "step_ok bits stop s"
proof (cases stop)
  case True
  let ?h = "(s_hd s)\<lparr>h_running := False\<rparr>"
  define p where "p = (if h_txn_cnt ?h = 0 \<and> h_sync_list ?h = [] \<and> h_txn_list ?h = [] then Stopped else ProcessSync)"
  have stp: "hdlr_step bits stop (s_pc s, s_hd s) = Some (p, ?h)" using True by (simp add: hdlr_step_def assms(2) Let_def p_def)
  have "hinv (s\<lparr>s_pc := p\<rparr>)" by (rule inv_goto [OF assms(1)]) (simp_all add: assms(2) p_def)
  from inv_running [OF this, of False] show ?thesis by (intro step_okI [OF stp]) simp
next
  case False
  have "hinv (s\<lparr>s_pc := ProcessSync\<rparr>)" by (rule inv_goto [OF assms(1)]) (simp_all add: assms(2))
  with False show ?thesis by (intro step_okI [of _ _ _ ProcessSync "s_hd s"]) (simp_all add: hdlr_step_def assms(2) Let_def)
qed

lemma step_all:
  assumes "hinv s" and "length bits \<ge> C_TXN_BLOOM_M_BYTES"
  shows "step_ok bits stop s"
proof (cases "s_pc s")
  case WaitTxn
  have "hinv (s\<lparr>s_pc := Top\<rparr>)" by (rule inv_goto [OF assms(1)]) (simp_all add: WaitTxn)
  then show ?thesis by (intro step_okI [of _ _ _ Top "s_hd s"]) (simp_all add: hdlr_step_def WaitTxn Let_def)
next
  case Stopped
  have "hinv (s\<lparr>s_pc := Stopped\<rparr>)" by (rule inv_goto [OF assms(1)]) (simp_all add: Stopped)
  then show ?thesis by (intro step_okI [of _ _ _ Stopped "s_hd s"]) (simp_all add: hdlr_step_def Stopped Let_def)
qed (use assms in \<open>auto intro: step_top step_process_sync step_create_sync step_insert_sync step_skip_sync
       step_create_run step_insert_run step_transfer step_clear\<close>)

lemma inv_step:
  assumes "sys_step bits s s'" and "hinv s" and "length bits \<ge> C_TXN_BLOOM_M_BYTES"
  shows "hinv s'"
  using assms(1)
proof (cases rule: sys_step.cases)
  case (start_txn flags)
  with inv_txn_id [OF assms(2)] show ?thesis by simp
next
  case (commit t cp)
  with inv_commit [OF assms(2)] show ?thesis by simp
next
  case (handler stop p h)
  with step_all [OF assms(2,3), of stop] show ?thesis by (auto simp: step_ok_def)
next
  case (transfer_work xs a ys h)
  with inv_transfer_work [OF assms(2) transfer_work(2)] show ?thesis by auto
next
  case (transfer_end xs a ys h)
  with inv_transfer_end [OF assms(2) transfer_end(2)] show ?thesis by auto
next
  case (commit_work xs a ys h)
  with inv_commit_work [OF assms(2) commit_work(2)] show ?thesis by auto
qed

lemma reachable_hinv: "reachable bits s \<Longrightarrow> length bits \<ge> C_TXN_BLOOM_M_BYTES \<Longrightarrow> hinv s"
  by (induction rule: reachable.induct) (auto intro: hinv_init inv_step)

end
