(* ===== verification/Kevin_Hdlr_Thms.thy ===== *)
theory Kevin_Hdlr_Thms
  imports Kevin_Hdlr_Inv
begin

text \<open>
  What the invariant of \<open>Kevin_Hdlr_Inv\<close> says about the transaction handler: safety of
  every step, the counters, a refinement to two queues that deliver in order, completions
  of synchronous transactions, sizes of the requests, and that a pass of the thread ends
  with everything transferred.
\<close>

section \<open>What the operations leave alone\<close>

lemma insert_shape:
  "lightfs_c_txn_insert sync h a = Some h' \<Longrightarrow>
   first_txn sync h \<noteq> None \<and> (\<exists>n hp. h' = (unlink_first sync h)\<lparr>h_txn_cnt := n, h_heap := hp\<rparr>)"
  unfolding lightfs_c_txn_insert_def Let_def bug_on_def by (auto split: Option.bind_splits if_splits)

lemma insert_frame:
  assumes "lightfs_c_txn_insert sync h a = Some h'"
  shows "h_sync_list h' = (if sync then tl (h_sync_list h) else h_sync_list h)"
    "h_txn_list h' = (if sync then h_txn_list h else tl (h_txn_list h))"
    "h_run h' = h_run h" "h_sync h' = h_sync h" "h_transfers h' = h_transfers h" "h_sent h' = h_sent h" "h_tails h' = h_tails h"
    "(if sync then h_sync_list h else h_txn_list h) \<noteq> []"
  using insert_shape [OF assms] by (auto simp: unlink_first_def first_txn_def)

lemma children_frame:
  "foldM commit_child h cs = Some h' \<Longrightarrow>
   h_sync_list h' = h_sync_list h \<and> h_txn_list h' = h_txn_list h \<and> h_run h' = h_run h \<and> h_sync h' = h_sync h
 \<and> h_transfers h' = h_transfers h \<and> h_sent h' = h_sent h \<and> h_tails h' = h_tails h"
  by (induction cs arbitrary: h) (fastforce simp: commit_child_def Let_def bind_eq_Some_conv split: if_splits)+

lemma commit_frame:
  assumes "lightfs_c_txn_commit h a = Some h'"
  shows "h_sync_list h' = h_sync_list h" "h_txn_list h' = h_txn_list h" "h_run h' = h_run h" "h_sync h' = h_sync h"
    "h_transfers h' = h_transfers h" "h_sent h' = h_sent h" "h_tails h' = h_tails h"
  using assms by (auto simp: lightfs_c_txn_commit_def lightfs_c_txn_destroy_def bind_eq_Some_conv dest!: children_frame)

lemma flush_frame:
  assumes "lightfs_bstore_c_txn_commit_flush h a = Some h'"
  shows "h_sync_list h' = h_sync_list h" "h_txn_list h' = h_txn_list h" "h_run h' = h_run h" "h_sync h' = h_sync h"
    "h_transfers h' = h_transfers h" "h_sent h' = h_sent h" "h_tails h' = h_tails h"
  using assms by (auto simp: lightfs_bstore_c_txn_commit_flush_def bind_eq_Some_conv)

lemma end_frame:
  assumes "lightfs_c_txn_transfer_end h a = Some h'"
  shows "h_run h' = h_run h" "h_sync h' = h_sync h" "h_transfers h' = h_transfers h" "h_sent h' = h_sent h"
  using assms by (auto simp: lightfs_c_txn_transfer_end_def bind_eq_Some_conv commit_frame flush_frame)

lemma cb_frame:
  assumes "lightfs_c_txn_transfer_cb h a = Some h'"
  shows "h_sync_list h' = h_sync_list h" "h_txn_list h' = h_txn_list h" "h_run h' = h_run h"
    "h_transfers h' = h_transfers h" "h_sent h' = h_sent h" "h_sync h' = h_sync h \<or> h_sync h' = None"
  using assms
  by (auto simp: lightfs_c_txn_transfer_cb_def Let_def bind_eq_Some_conv commit_frame flush_frame split: if_splits)

lemma transfer_frame:
  assumes "lightfs_c_txn_transfer h a = Some h'"
  shows "h_sync_list h' = h_sync_list h" "h_txn_list h' = h_txn_list h" "h_run h' = h_run h"
    "h_transfers h' = h_transfers h" "\<exists>c. h_sent h' = h_sent h @ [c]" "h_sync h' = h_sync h \<or> h_sync h' = None"
  using assms by (auto simp: lightfs_c_txn_transfer_def Let_def bind_eq_Some_conv cb_frame dest: cb_frame(6))

lemma create_frame:
  assumes "lightfs_c_txn_create bits h st w = Some (a, h')"
  shows "h_sync_list h' = h_sync_list h" "h_txn_list h' = h_txn_list h" "h_run h' = h_run h" "h_sync h' = h_sync h"
    "h_transfers h' = h_transfers h" "h_sent h' = h_sent h" "h_tails h' = h_tails h"
  using assms by (auto simp: lightfs_c_txn_create_def Let_def bind_eq_Some_conv)

lemma insert_run_frame:
  assumes "insert_run h a = Some (p, h')"
  shows "p = SkipSync" "h_sync_list h' = h_sync_list h" "h_txn_list h' = tl (h_txn_list h)" "h_txn_list h \<noteq> []"
    "h_run h' = Some a" "h_sync h' = h_sync h" "h_transfers h' = h_transfers h" "h_sent h' = h_sent h" "h_tails h' = h_tails h"
proof -
  from assms obtain g h1 where ins: "lightfs_c_txn_insert False g a = Some h1" and
    g: "h_sync_list g = h_sync_list h" "h_txn_list g = h_txn_list h" "h_sync g = h_sync h" "h_transfers g = h_transfers h"
      "h_sent g = h_sent h" "h_tails g = h_tails h" and
    r: "p = SkipSync" "h_sync_list h' = h_sync_list h1" "h_txn_list h' = h_txn_list h1" "h_run h' = Some a"
      "h_sync h' = h_sync h1" "h_transfers h' = h_transfers h1" "h_sent h' = h_sent h1" "h_tails h' = h_tails h1"
    unfolding insert_run_def Let_def by (fastforce split: Option.bind_splits if_splits)
  note f = insert_frame [OF ins]
  show "p = SkipSync" "h_sync_list h' = h_sync_list h" "h_txn_list h' = tl (h_txn_list h)" "h_txn_list h \<noteq> []"
    "h_run h' = Some a" "h_sync h' = h_sync h" "h_transfers h' = h_transfers h" "h_sent h' = h_sent h" "h_tails h' = h_tails h"
    using f g r by simp_all
qed

lemma insert_sync_frame:
  assumes "insert_sync h = Some (p, h')"
  shows "p = ProcessSync" "h_sync_list h' = tl (h_sync_list h)" "h_txn_list h' = h_txn_list h" "h_sync_list h \<noteq> []"
    "h_run h' = h_run h" "h_sync h' = h_sync h" "h_transfers h' = h_transfers h" "h_sent h' = h_sent h" "h_tails h' = h_tails h"
proof -
  from assms obtain g h1 a where ins: "lightfs_c_txn_insert True g a = Some h1" "p = ProcessSync" "h' = h1" and
    g: "h_sync_list g = h_sync_list h" "h_txn_list g = h_txn_list h" "h_sync g = h_sync h" "h_transfers g = h_transfers h"
      "h_sent g = h_sent h" "h_tails g = h_tails h" "h_run g = h_run h"
    unfolding insert_sync_def by (fastforce split: Option.bind_splits)
  note f = insert_frame [OF ins(1)]
  show "p = ProcessSync" "h_sync_list h' = tl (h_sync_list h)" "h_txn_list h' = h_txn_list h" "h_sync_list h \<noteq> []"
    "h_run h' = h_run h" "h_sync h' = h_sync h" "h_transfers h' = h_transfers h" "h_sent h' = h_sent h" "h_tails h' = h_tails h"
    using f g ins(2,3) by simp_all
qed

lemma process_sync_frame:
  assumes "process_sync h = Some (p, h')"
  shows "h_txn_list h' = h_txn_list h" "h_run h' = h_run h" "h_sync h' = h_sync h" "h_sent h' = h_sent h"
    "h_tails h' = h_tails h"
    "p = SkipSync \<and> h_sync_list h' = h_sync_list h
   \<or> p = CreateSync \<and> h_sync_list h' = h_sync_list h \<and> h_sync_list h \<noteq> [] \<and> h_sync h = None
   \<or> p = ProcessSync \<and> h_sync_list h' = tl (h_sync_list h) \<and> h_sync_list h \<noteq> []"
  using assms unfolding process_sync_def
  by (auto simp: insert_frame split: Option.bind_splits if_splits list.splits option.splits)

lemma skip_sync_frame:
  assumes "skip_sync h = Some (p, h')"
  shows "h_sync_list h' = h_sync_list h" "h_run h' = h_run h" "h_sync h' = h_sync h" "h_sent h' = h_sent h"
    "h_transfers h' = h_transfers h" "h_tails h' = h_tails h"
  using assms unfolding skip_sync_def Let_def
  by (auto simp: insert_frame split: Option.bind_splits if_splits list.splits option.splits)

section \<open>Safety\<close>

lemma counters:
  assumes "hinv s"
  shows "h_orderless_cnt (s_hd s) \<le> 16"
    "h_ordered_cnt (s_hd s) = of_nat (length (opt_list (h_sync (s_hd s))) + length (h_tails (s_hd s)))"
    "length (h_tails (s_hd s)) < 54 \<Longrightarrow> \<not> h_ordered_cnt (s_hd s) + h_orderless_cnt (s_hd s) > of_nat C_TXN_COMMITTING_LIMIT"
proof -
  let ?h = "s_hd s" and ?p = "s_pc s"
  note parts = hinvD [OF assms]
  have r: "h_running_cnt ?h \<le> 15" using parts(2) by (simp add: run_part_def)
  have le: "h_running_cnt ?h \<le> 16" using r by (rule order_trans) simp
  show o: "h_orderless_cnt ?h \<le> 16"
  proof (cases "live_run ?p ?h")
    case None
    with parts(2) have "h_orderless_cnt ?h = h_running_cnt ?h \<or> h_orderless_cnt ?h = h_running_cnt ?h + 1"
      by (cases "new_run ?p") (auto simp: run_part_def)
    with le word_le_15(4) [OF r] show ?thesis by auto
  next
    case (Some a)
    with parts(2) obtain c where "run_ok ?p ?h c" by (auto simp: run_part_def)
    then have "h_orderless_cnt ?h = h_running_cnt ?h + c_committing_cnt c" "c_committing_cnt c \<le> 16"
        "c_committing_cnt c = 0 \<or> h_running_cnt ?h = 0"
      by (auto simp: run_ok_def)
    with le show ?thesis by auto
  qed
  show n: "h_ordered_cnt ?h = of_nat (length (opt_list (h_sync ?h)) + length (h_tails ?h))"
    using parts(3) by (simp add: sync_part_def)
  assume few: "length (h_tails ?h) < 54"
  have le54: "length (opt_list (h_sync ?h)) + length (h_tails ?h) \<le> 54" using few by (cases "h_sync ?h") simp_all
  then have "unat (h_ordered_cnt ?h) \<le> 54" unfolding n by (simp add: unat_of_nat take_bit_eq_mod del: of_nat_add)
  moreover have "unat (h_orderless_cnt ?h) \<le> 16" using o by (simp add: word_le_nat_alt)
  ultimately have "unat (h_ordered_cnt ?h + h_orderless_cnt ?h) \<le> 70" by (simp add: unat_word_ariths)
  then show "\<not> h_ordered_cnt ?h + h_orderless_cnt ?h > of_nat C_TXN_COMMITTING_LIMIT"
    by (simp add: word_less_nat_alt C_TXN_COMMITTING_LIMIT_def)
qed

text \<open>
  Property C23: in every interleaving of committing threads, the handler thread and the two
  work queues, no step touches a \<open>c_txn\<close> that was freed, takes a transaction from an empty
  list, or fires an assertion: the thread can always go on, and every queued transfer,
  every unfinished callback and every queued release runs to its end.
\<close>

theorem handler_never_faults:
  assumes "reachable bits s" and "length bits \<ge> C_TXN_BLOOM_M_BYTES"
  shows "hdlr_step bits stop (s_pc s, s_hd s) \<noteq> None
     \<and> (\<forall>xs a ys. h_transfers (s_hd s) = xs @ a # ys \<longrightarrow>
          lightfs_c_txn_transfer ((s_hd s)\<lparr>h_transfers := xs @ ys\<rparr>) a \<noteq> None)
     \<and> (\<forall>xs a ys. h_tails (s_hd s) = xs @ a # ys \<longrightarrow>
          lightfs_c_txn_transfer_end ((s_hd s)\<lparr>h_tails := xs @ ys\<rparr>) a \<noteq> None)
     \<and> (\<forall>xs a ys. h_commits (s_hd s) = xs @ a # ys \<longrightarrow>
          lightfs_c_txn_commit ((s_hd s)\<lparr>h_commits := xs @ ys\<rparr>) a \<noteq> None)"
proof (intro conjI allI impI)
  note inv = reachable_hinv [OF assms]
  show "hdlr_step bits stop (s_pc s, s_hd s) \<noteq> None" using step_all [OF inv assms(2), of stop] by (auto simp: step_ok_def)
  show "h_transfers (s_hd s) = xs @ a # ys \<Longrightarrow> lightfs_c_txn_transfer ((s_hd s)\<lparr>h_transfers := xs @ ys\<rparr>) a \<noteq> None" for xs a ys
    using inv_transfer_work [OF inv, of xs a ys] by auto
  show "h_tails (s_hd s) = xs @ a # ys \<Longrightarrow> lightfs_c_txn_transfer_end ((s_hd s)\<lparr>h_tails := xs @ ys\<rparr>) a \<noteq> None" for xs a ys
    using inv_transfer_end [OF inv, of xs a ys] by auto
  show "h_commits (s_hd s) = xs @ a # ys \<Longrightarrow> lightfs_c_txn_commit ((s_hd s)\<lparr>h_commits := xs @ ys\<rparr>) a \<noteq> None" for xs a ys
    using inv_commit_work [OF inv, of xs a ys] by auto
qed

text \<open>
  Property C28: the counters count.  Whatever the interleaving, at most sixteen ordinary
  \<open>c_txn\<close>s are counted as not flushed, and the synchronous ones counted are exactly the one
  being filled or sent and those whose callback has not finished; so unless 54 callbacks
  are caught between two of their lines at once, the thread never finds more than
  \<open>C_TXN_COMMITTING_LIMIT\<close> and never spins in the loop that waits for fewer.
\<close>

theorem committing_limit_unreachable:
  assumes "reachable bits s" and "length bits \<ge> C_TXN_BLOOM_M_BYTES"
  shows "h_orderless_cnt (s_hd s) \<le> of_nat RUNNING_C_TXN_LIMIT
     \<and> h_ordered_cnt (s_hd s) = of_nat ((if h_sync (s_hd s) = None then 0 else 1) + length (h_tails (s_hd s)))
     \<and> (length (h_tails (s_hd s)) < 54 \<longrightarrow>
          \<not> h_ordered_cnt (s_hd s) + h_orderless_cnt (s_hd s) > of_nat C_TXN_COMMITTING_LIMIT)"
  using counters [OF reachable_hinv [OF assms]]
  by (cases "h_sync (s_hd s)") (simp_all add: RUNNING_C_TXN_LIMIT_def)

section \<open>Refinement to two queues\<close>

text \<open>The handler as such a component, for the synchronous or the other transactions.\<close>

definition pending :: "bool \<Rightarrow> sys \<Rightarrow> txn_entry list" where
  "pending sync s =
     (let h = s_hd s in
      map txn_sig (if sync then txns_of h (h_sync h) @ h_sync_list h
                   else txns_of h (live_run (s_pc s) h) @ h_txn_list h))"

definition delivered :: "bool \<Rightarrow> sys \<Rightarrow> txn_entry list" where
  "delivered sync s = map txn_sig (sent_txns sync (s_hd s))"

definition committed :: "bool \<Rightarrow> sys \<Rightarrow> txn_entry list" where
  "committed sync s = (if sync then s_slog s else s_log s)"

lemma committed_split: "hinv s \<Longrightarrow> committed sync s = delivered sync s @ pending sync s"
  by (drule hinvD(5)) (simp add: content_part_def committed_def delivered_def pending_def Let_def)

lemma delivered_grows: "h_sent (s_hd s') = h_sent (s_hd s) @ cs \<Longrightarrow> \<exists>xs. delivered sync s' = delivered sync s @ xs"
  by (simp add: delivered_def sent_txns_def)

lemma step_sent:
  assumes "hdlr_step bits stop (p, h) = Some (p', h')"
  shows "\<exists>cs. h_sent h' = h_sent h @ cs"
proof (cases p)
  case TransferRun
  then show ?thesis using assms by (auto simp: hdlr_step_def bind_eq_Some_conv dest: transfer_frame(5))
next
  case TransferNow
  then show ?thesis using assms by (auto simp: hdlr_step_def bind_eq_Some_conv dest: transfer_frame(5))
qed (use assms in \<open>auto simp: hdlr_step_def Let_def bind_eq_Some_conv create_frame insert_run_frame
       insert_sync_frame process_sync_frame skip_sync_frame split: if_splits\<close>)

lemma step_delivery:
  assumes "hinv s" and "sys_step bits s s'"
  shows "committed sync s' = committed sync s \<and> (\<exists>xs. delivered sync s' = delivered sync s @ xs)
       \<or> (\<exists>x. committed sync s' = committed sync s @ [x]) \<and> delivered sync s' = delivered sync s"
  using assms(2)
proof (cases rule: sys_step.cases)
  case (start_txn flags)
  then show ?thesis by (simp add: committed_def delivered_def sent_txns_def)
next
  case (commit t cp)
  have "h_sent (s_hd s') = h_sent (s_hd s)"
    by (simp add: commit sys_commit_def lightfs_bstore_txn_commit_def Let_def)
  then show ?thesis by (auto simp: commit sys_commit_def Let_def committed_def delivered_def sent_txns_def)
next
  case (handler stop p h)
  with step_sent [OF handler(2)] delivered_grows [of s' s] show ?thesis by (auto simp: committed_def)
next
  case (transfer_work xs a ys h)
  with transfer_frame(5) [OF transfer_work(3)] delivered_grows [of s' s] show ?thesis by (auto simp: committed_def)
next
  case (transfer_end xs a ys h)
  with end_frame [OF transfer_end(3)] show ?thesis by (simp add: committed_def delivered_def sent_txns_def)
next
  case (commit_work xs a ys h)
  with commit_frame [OF commit_work(3)] show ?thesis by (simp add: committed_def delivered_def sent_txns_def)
qed

interpretation hd: ordered_delivery "\<lambda>s. hinv s \<and> C_TXN_BLOOM_M_BYTES \<le> length bits" "sys_step bits"
    "committed sync" "delivered sync" "pending sync" for bits sync
proof
  show "hinv s \<and> C_TXN_BLOOM_M_BYTES \<le> length bits \<Longrightarrow> sys_step bits s s' \<Longrightarrow>
      hinv s' \<and> C_TXN_BLOOM_M_BYTES \<le> length bits" for s s' by (blast intro: inv_step)
qed (blast intro: committed_split, blast dest: step_delivery)

text \<open>
  Property C22: for the synchronous and for the other transactions, the handler refines a
  queue.  Every step of every thread either appends the one transaction it commits or
  moves the oldest pending ones, in order, to those handed to the device; nothing is lost,
  duplicated or overtaken.
\<close>

theorem handler_refines_fifo:
  assumes "reachable bits s" and "length bits \<ge> C_TXN_BLOOM_M_BYTES" and "sys_step bits s s'"
  shows "fifo_step (pending sync s, delivered sync s) (pending sync s', delivered sync s')"
  using hd.refines_step [of s bits s'] reachable_hinv [OF assms(1,2)] assms(2,3) by blast

text \<open>
  Property C24: at any time the transactions committed so far are exactly those handed to the
  device followed by those still held, in the order of their numbers, for both kinds; and
  the completions signalled to waiting threads are exactly those of the synchronous
  transactions handed to the device, in that order.
\<close>

theorem committed_is_sent_or_pending:
  assumes "reachable bits s" and "length bits \<ge> C_TXN_BLOOM_M_BYTES"
  shows "committed sync s = delivered sync s @ pending sync s
     \<and> map Some (h_completed (s_hd s)) = map t_completion (sent_txns True (s_hd s))"
  using committed_split [OF reachable_hinv [OF assms]] hinvD(5) [OF reachable_hinv [OF assms]]
  by (simp add: content_part_def Let_def)

section \<open>A pass of the thread\<close>

fun hdlr_run :: "byte list \<Rightarrow> bool \<Rightarrow> nat \<Rightarrow> pc \<times> hdlr \<Rightarrow> (pc \<times> hdlr) option" where
  "hdlr_run bits stop 0 s = Some s"
| "hdlr_run bits stop (Suc n) s = do { s \<leftarrow> hdlr_step bits stop s; hdlr_run bits stop n s }"

definition hmeasure :: "pc \<Rightarrow> hdlr \<Rightarrow> nat" where
  "hmeasure p h =
     (let n = 4 * length (h_sync_list h) + 8 * length (h_txn_list h) in
      case p of
        Top \<Rightarrow> n + 8 | ProcessSync \<Rightarrow> n + 7 | CreateSync \<Rightarrow> n + 6 | InsertSync \<Rightarrow> n + 5
      | SkipSync \<Rightarrow> n + (if h_run h = None then 3 else 6)
      | CreateRun \<Rightarrow> n + 2 | InsertRun _ \<Rightarrow> n + 1 | TransferRun \<Rightarrow> n + 5 | ClearRun \<Rightarrow> n + 4
      | TransferNow \<Rightarrow> n + 5 | ClearNow \<Rightarrow> n + 4 | WaitTxn \<Rightarrow> 0 | Stopped \<Rightarrow> 0)"

definition front :: "pc \<Rightarrow> bool" where
  "front p \<longleftrightarrow> p \<in> {Top, ProcessSync, CreateSync, InsertSync}"

text \<open>Between passes nothing is being collected, and the synchronous \<open>c_txn\<close> is on its way.\<close>

definition idle :: "pc \<Rightarrow> hdlr \<Rightarrow> bool" where
  "idle p h \<longleftrightarrow>
     (p \<in> {Top, WaitTxn, Stopped} \<longrightarrow> h_run h = None)
   \<and> (p = CreateRun \<longrightarrow> h_run h = None)
   \<and> (p \<notin> {ProcessSync, CreateSync, InsertSync} \<and> h_sync h \<noteq> None \<longrightarrow> h_transfers h \<noteq> [])"

text \<open>While no other thread runs.\<close>

definition quiet :: "pc \<Rightarrow> hdlr \<Rightarrow> bool" where
  "quiet p h \<longleftrightarrow> p \<in> {TransferNow, ClearNow, WaitTxn, Stopped} \<longrightarrow> h_txn_list h = []"

definition squiet :: "pc \<Rightarrow> hdlr \<Rightarrow> bool" where
  "squiet p h \<longleftrightarrow> (if front p then h_transfers h = [] else h_sync_list h = [])"

lemma skip_sync_cases:
  assumes "hinv s" and "s_pc s = SkipSync" and "skip_sync (s_hd s) = Some (p, h)"
  shows "p = WaitTxn \<and> h_run h = None \<and> h_txn_list (s_hd s) = [] \<and> h_txn_list h = []
   \<or> p = TransferNow \<and> h_run h \<noteq> None \<and> h_txn_list (s_hd s) = [] \<and> h_txn_list h = []
   \<or> p = CreateRun \<and> h_run h = None \<and> h_txn_list h = h_txn_list (s_hd s)
   \<or> p = TransferRun \<and> h_run h \<noteq> None \<and> h_txn_list h = h_txn_list (s_hd s)
   \<or> p = SkipSync \<and> h_run h \<noteq> None \<and> h_txn_list (s_hd s) \<noteq> [] \<and> h_txn_list h = tl (h_txn_list (s_hd s))
   \<or> p = ProcessSync \<and> length (h_tails (s_hd s)) \<ge> 54"
proof (cases "h_txn_list (s_hd s)")
  case Nil
  with assms(3) show ?thesis by (auto simp: skip_sync_def Let_def split: Option.bind_splits option.splits)
next
  case (Cons t l)
  have "has_flag (t_state t) TXN_COMMITTED" using first_committed(1) [OF hinvD(4) [OF assms(1)], of False t] Cons by simp
  with Cons assms(3) counters(3) [OF assms(1)] show ?thesis
    by (cases "length (h_tails (s_hd s)) < 54")
      (auto simp: skip_sync_def insert_frame split: Option.bind_splits option.splits if_splits)
qed

lemma transfer_tails:
  assumes "hinv s" and "s_pc s = TransferRun \<or> s_pc s = TransferNow"
    and "h_run (s_hd s) = Some a" and "lightfs_c_txn_transfer (s_hd s) a = Some h"
  shows "h_tails h = h_tails (s_hd s)"
proof -
  note parts = hinvD [OF assms(1)]
  have live: "live_run (s_pc s) (s_hd s) = Some a" using assms(2,3) by (auto simp: live_run_def)
  with parts(2) obtain c where c: "h_heap (s_hd s) a = Some c" "\<not> c_ordered c" by (auto simp: run_part_def run_ok_def)
  then have "c_children c = []" using role_run(1) [OF parts(1) live] by (simp add: base_ok_def)
  from transfer_run_Some [OF c this] assms(4) show ?thesis by (auto simp: Let_def split: if_splits)
qed

lemma process_sync_transfers:
  assumes "hinv s" and "s_pc s = ProcessSync" and "process_sync (s_hd s) = Some (p, h)"
  shows "p = SkipSync \<Longrightarrow> h_sync h \<noteq> None \<longrightarrow> h_transfers h \<noteq> []"
    "h_transfers (s_hd s) = [] \<Longrightarrow> p \<noteq> SkipSync \<Longrightarrow> h_transfers h = []"
    "h_transfers (s_hd s) = [] \<Longrightarrow> p = SkipSync \<Longrightarrow> h_sync_list h = []"
proof -
  let ?h = "s_hd s"
  note parts = hinvD [OF assms(1)]
  have comm: "has_flag (t_state t) TXN_COMMITTED" if "h_sync_list ?h = t # l" for t l
    using first_committed(1) [OF parts(4), of True t] that by simp
  have tr: "c_transfering c \<longleftrightarrow> h_transfers ?h \<noteq> []" if "h_sync ?h = Some a" "h_heap ?h a = Some c" for a c
    using sync_part_Some [OF parts(3) that(1)] that(2) by (auto simp: sync_ok_def)
  show "p = SkipSync \<Longrightarrow> h_sync h \<noteq> None \<longrightarrow> h_transfers h \<noteq> []"
    using assms(3) comm tr by (auto simp: process_sync_def split: list.splits option.splits Option.bind_splits if_splits)
  show "h_transfers ?h = [] \<Longrightarrow> p \<noteq> SkipSync \<Longrightarrow> h_transfers h = []"
    using assms(3) by (auto simp: process_sync_def insert_frame split: list.splits option.splits Option.bind_splits if_splits)
  show "h_transfers ?h = [] \<Longrightarrow> p = SkipSync \<Longrightarrow> h_sync_list h = []"
    using assms(3) comm tr by (auto simp: process_sync_def split: list.splits option.splits Option.bind_splits if_splits)
qed

definition advances :: "pc \<Rightarrow> hdlr \<Rightarrow> pc \<Rightarrow> hdlr \<Rightarrow> bool" where
  "advances p h p' h' \<longleftrightarrow>
     hmeasure p' h' < hmeasure p h \<and> (quiet p h \<longrightarrow> quiet p' h') \<and> (squiet p h \<longrightarrow> squiet p' h') \<and> h_tails h' = h_tails h"

lemma length_tl_less: "xs \<noteq> [] \<Longrightarrow> length (tl xs) < length xs"
  by (cases xs) simp_all

lemma pass_step:
  assumes "hinv s" and "hdlr_step bits stop (s_pc s, s_hd s) = Some (p, h)" and "s_pc s \<noteq> WaitTxn" and "s_pc s \<noteq> Stopped"
  shows "(length (h_tails (s_hd s)) < 54 \<longrightarrow> advances (s_pc s) (s_hd s) p h) \<and> (idle (s_pc s) (s_hd s) \<longrightarrow> idle p h)"
proof -
  let ?h = "s_hd s"
  note defs = hdlr_step_def hmeasure_def idle_def quiet_def squiet_def front_def advances_def
  show ?thesis
  proof (cases "s_pc s")
    case Top
    with assms(2) show ?thesis by (auto simp: defs Let_def split: if_splits)
  next
    case ProcessSync
    with assms(2) have st: "process_sync ?h = Some (p, h)" by (simp add: hdlr_step_def)
    note f = process_sync_frame [OF st] and tr = process_sync_transfers [OF assms(1) ProcessSync st]
    from f(6) show ?thesis
      using f(1-5) tr length_tl_less [of "h_sync_list ?h"] ProcessSync by (elim disjE conjE; simp add: defs Let_def)
  next
    case CreateSync
    with assms(2) show ?thesis by (auto simp: defs Let_def bind_eq_Some_conv create_frame)
  next
    case InsertSync
    with assms(2) have st: "insert_sync ?h = Some (p, h)" by (simp add: hdlr_step_def)
    note f = insert_sync_frame [OF st]
    from f(4) obtain t l where "h_sync_list ?h = t # l" by (cases "h_sync_list ?h") auto
    with f InsertSync show ?thesis by (simp add: defs Let_def)
  next
    case SkipSync
    with assms(2) have st: "skip_sync ?h = Some (p, h)" by (simp add: hdlr_step_def)
    from skip_sync_cases [OF assms(1) SkipSync st] show ?thesis
      using skip_sync_frame [OF st] length_tl_less [of "h_txn_list ?h"] SkipSync
      by (cases "h_run ?h"; elim disjE conjE; simp add: defs Let_def)
  next
    case CreateRun
    with assms(2) show ?thesis by (auto simp: defs Let_def bind_eq_Some_conv create_frame)
  next
    case (InsertRun a)
    with assms(2) have st: "insert_run ?h a = Some (p, h)" by (simp add: hdlr_step_def)
    note f = insert_run_frame [OF st]
    from f(4) obtain t l where "h_txn_list ?h = t # l" by (cases "h_txn_list ?h") auto
    with f InsertRun show ?thesis by (simp add: defs Let_def)
  next
    case TransferRun
    with assms(2) obtain a where tr: "lightfs_c_txn_transfer ?h a = Some h" "p = ClearRun" "h_run ?h = Some a"
      by (auto simp: hdlr_step_def Let_def bind_eq_Some_conv)
    note f = transfer_frame [OF tr(1)] and tl = transfer_tails [OF assms(1) _ tr(3,1)]
    from f(6) show ?thesis using f(1-4) tr(2) TransferRun tl by (auto simp: defs Let_def)
  next
    case TransferNow
    with assms(2) obtain a where tr: "lightfs_c_txn_transfer ?h a = Some h" "p = ClearNow" "h_run ?h = Some a"
      by (auto simp: hdlr_step_def Let_def bind_eq_Some_conv)
    note f = transfer_frame [OF tr(1)] and tl = transfer_tails [OF assms(1) _ tr(3,1)]
    from f(6) show ?thesis using f(1-4) tr(2) TransferNow tl by (auto simp: defs Let_def)
  next
    case ClearRun
    with assms(2) show ?thesis by (auto simp: defs Let_def)
  next
    case ClearNow
    with assms(2) show ?thesis by (auto simp: defs Let_def)
  qed (use assms in auto)
qed

lemma idle_step:
  assumes "sys_step bits s s'" and "hinv s" and "idle (s_pc s) (s_hd s)"
  shows "idle (s_pc s') (s_hd s')"
  using assms(1)
proof (cases rule: sys_step.cases)
  case (start_txn flags)
  with assms(3) show ?thesis by (simp add: idle_def)
next
  case (commit t cp)
  with assms(3) show ?thesis by (simp add: idle_def sys_commit_def lightfs_bstore_txn_commit_def Let_def)
next
  case (handler stop p h)
  show ?thesis
  proof (cases "s_pc s = WaitTxn \<or> s_pc s = Stopped")
    case True
    with handler assms(3) show ?thesis by (auto simp: idle_def hdlr_step_def Let_def front_def)
  next
    case False
    with pass_step [OF assms(2) handler(2)] assms(3) handler(1) show ?thesis by simp
  qed
next
  case (transfer_work xs a ys h)
  with inv_transfer_work [OF assms(2) transfer_work(2)] have "h_sync h = None" by auto
  with transfer_work(1,3) assms(3) show ?thesis by (simp add: idle_def transfer_frame)
next
  case (transfer_end xs a ys h)
  with end_frame [OF transfer_end(3)] assms(3) show ?thesis by (simp add: idle_def)
next
  case (commit_work xs a ys h)
  with commit_frame [OF commit_work(3)] assms(3) show ?thesis by (simp add: idle_def)
qed

lemma reachable_idle: "reachable bits s \<Longrightarrow> length bits \<ge> C_TXN_BLOOM_M_BYTES \<Longrightarrow> idle (s_pc s) (s_hd s)"
proof (induction rule: reachable.induct)
  case start
  show ?case by (simp add: sys_init_def txn_hdlr_alloc_def idle_def)
next
  case (step s s')
  then show ?case by (blast intro: idle_step reachable_hinv)
qed

lemma pass_ends:
  assumes "hinv s" and "idle (s_pc s) (s_hd s)" and "length (h_tails (s_hd s)) < 54" and "length bits \<ge> C_TXN_BLOOM_M_BYTES"
  shows "\<exists>k p h. k \<le> hmeasure (s_pc s) (s_hd s) \<and> hdlr_run bits stop k (s_pc s, s_hd s) = Some (p, h)
           \<and> (p = WaitTxn \<or> p = Stopped) \<and> hinv (s\<lparr>s_pc := p, s_hd := h\<rparr>) \<and> idle p h
           \<and> (quiet (s_pc s) (s_hd s) \<longrightarrow> quiet p h) \<and> (squiet (s_pc s) (s_hd s) \<longrightarrow> squiet p h)"
  using assms(1-3)
proof (induction "hmeasure (s_pc s) (s_hd s)" arbitrary: s rule: less_induct)
  case less
  show ?case
  proof (cases "s_pc s = WaitTxn \<or> s_pc s = Stopped")
    case True
    with less.prems show ?thesis by (intro exI [of _ 0] exI [of _ "s_pc s"] exI [of _ "s_hd s"]) auto
  next
    case False
    from step_all [OF less.prems(1) assms(4), of stop] obtain p h where
      st: "hdlr_step bits stop (s_pc s, s_hd s) = Some (p, h)" and inv: "hinv (s\<lparr>s_pc := p, s_hd := h\<rparr>)"
      by (auto simp: step_ok_def)
    have adv: "advances (s_pc s) (s_hd s) p h" and idle: "idle p h"
      using pass_step [OF less.prems(1) st] less.prems(2,3) False by simp_all
    let ?s = "s\<lparr>s_pc := p, s_hd := h\<rparr>"
    obtain k p' h' where run: "k \<le> hmeasure p h" "hdlr_run bits stop k (p, h) = Some (p', h')"
        "p' = WaitTxn \<or> p' = Stopped" "hinv (s\<lparr>s_pc := p', s_hd := h'\<rparr>)" "idle p' h'"
        "quiet p h \<longrightarrow> quiet p' h'" "squiet p h \<longrightarrow> squiet p' h'"
      using less.hyps [of ?s] inv idle adv less.prems(3) by (auto simp: advances_def)
    have "Suc k \<le> hmeasure (s_pc s) (s_hd s)" using run(1) adv by (simp add: advances_def)
    moreover have "hdlr_run bits stop (Suc k) (s_pc s, s_hd s) = Some (p', h')" using st run(2) by simp
    moreover have "quiet (s_pc s) (s_hd s) \<longrightarrow> quiet p' h'" "squiet (s_pc s) (s_hd s) \<longrightarrow> squiet p' h'"
      using run(6,7) adv by (simp_all add: advances_def)
    ultimately show ?thesis using run(3-5) by blast
  qed
qed

lemma drained:
  assumes "hinv s" and "idle (s_pc s) (s_hd s)" and "s_pc s = WaitTxn \<or> s_pc s = Stopped" and "h_txn_list (s_hd s) = []"
  shows "pending False s = []"
  using assms by (auto simp: pending_def Let_def idle_def live_run_def)

text \<open>Where the transfer of the I/O layer sleeps.\<close>

lemma transfer_sleeps:
  "lightfs_io_transfer_submit da st user pages c = Block \<longleftrightarrow> cz_slots (io_cz st) = 0"
  "lightfs_io_transfer_finish st user = Block \<longleftrightarrow>
     (let rq = cz_reqs (io_cz st) ! u_id (cz_users (io_cz st) user) in rq_sync rq \<and> acked rq = 0)"
  by (auto simp: lightfs_io_transfer_submit_def io_submit_def cheeze_prepare_io_def cheeze_push_def Let_def
      lightfs_io_transfer_finish_def io_wait_def cheeze_io_wait_def split: list.splits option.splits)

text \<open>Tags and answers keep coming.\<close>

definition served :: "(nat \<Rightarrow> moment) \<Rightarrow> bool" where
  "served ins \<longleftrightarrow> (\<forall>i. (\<exists>j \<ge> i. fst (ins j)) \<and> (\<exists>j \<ge> i. snd (ins j)))"

lemma served_tail: "served ins \<Longrightarrow> served (\<lambda>i. ins (n + i))"
proof -
  assume *: "served ins"
  have "\<exists>j \<ge> i. P (ins (n + j))" if "\<And>i. \<exists>j \<ge> i. P (ins j)" for P i
  proof -
    from that [of "n + i"] obtain j where "n + i \<le> j" "P (ins j)" by blast
    then show ?thesis by (intro exI [of _ "j - n"]) auto
  qed
  with * show ?thesis unfolding served_def by blast
qed

lemma run_append:
  "thread_run bits stop ins (m + n) t =
     do { (a, t) \<leftarrow> thread_run bits stop ins m t; (b, t) \<leftarrow> thread_run bits stop (\<lambda>i. ins (m + i)) n t; Some (a + b, t) }"
proof (induction m arbitrary: ins t)
  case 0
  show ?case by (simp split: Option.bind_splits prod.splits)
next
  case (Suc m)
  then show ?case by (auto split: res.splits Option.bind_splits prod.splits)
qed

lemma run_waits: "(\<And>i. i < n \<Longrightarrow> thread_step bits stop (ins i) t = Block) \<Longrightarrow> thread_run bits stop ins n t = Some (0, t)"
proof (induction n arbitrary: ins)
  case (Suc n)
  then have "thread_run bits stop (\<lambda>i. ins (Suc i)) n t = Some (0, t)" by simp
  with Suc.prems [of 0] show ?case by simp
qed simp

lemma wait_then_move:
  assumes "\<exists>j. Q (ins j)" and "\<And>mo. Q mo \<Longrightarrow> thread_step bits stop mo t = Done t'"
    and "\<And>mo. \<not> Q mo \<Longrightarrow> thread_step bits stop mo t = Block"
  shows "\<exists>n. thread_run bits stop ins n t = Some (1, t')"
proof -
  define j where "j = (LEAST j. Q (ins j))"
  have j: "Q (ins j)" "\<And>i. i < j \<Longrightarrow> \<not> Q (ins i)" unfolding j_def using assms(1) by (auto intro: LeastI dest: not_less_Least)
  have "thread_run bits stop ins j t = Some (0, t)" using j(2) assms(3) by (intro run_waits) simp
  then have "thread_run bits stop ins (j + 1) t = Some (1, t')" using assms(2) [OF j(1)] by (subst run_append) simp
  then show ?thesis by blast
qed

lemma step_gets_done:
  assumes "served ins" and "hdlr_step bits stop (p, h) = Some (q, g)"
  shows "\<exists>n m. m \<le> 2 \<and> thread_run bits stop ins n (p, False, h) = Some (m, q, False, g)"
proof -
  let ?Q = "\<lambda>mo :: moment. transfers p \<longrightarrow> fst mo"
  have tag: "\<exists>j. ?Q (ins j)" using assms(1) by (auto simp: served_def)
  have "\<exists>n. thread_run bits stop ins n (p, False, h) = Some (1, q, awaits_answer p h, g)"
    by (rule wait_then_move [OF tag]) (auto simp: thread_step_def assms(2))
  then obtain n where n: "thread_run bits stop ins n (p, False, h) = Some (1, q, awaits_answer p h, g)" by blast
  show ?thesis
  proof (cases "awaits_answer p h")
    case False
    with n show ?thesis by (intro exI [of _ n] exI [of _ 1]) simp
  next
    case True
    have ans: "\<exists>j. snd (ins (n + j))" using served_tail [OF assms(1), of n] by (auto simp: served_def)
    have "\<exists>m. thread_run bits stop (\<lambda>i. ins (n + i)) m (q, True, g) = Some (1, q, False, g)"
      by (rule wait_then_move [where Q = snd, OF ans]) (simp_all add: thread_step_def)
    then obtain m where "thread_run bits stop (\<lambda>i. ins (n + i)) m (q, True, g) = Some (1, q, False, g)" by blast
    with n True have "thread_run bits stop ins (n + m) (p, False, h) = Some (2, q, False, g)" by (simp add: run_append)
    then show ?thesis by blast
  qed
qed

lemma run_gets_done:
  assumes "served ins" and "hdlr_run bits stop k (p, h) = Some (q, g)"
  shows "\<exists>n m. m \<le> 2 * k \<and> thread_run bits stop ins n (p, False, h) = Some (m, q, False, g)"
  using assms
proof (induction k arbitrary: ins p h)
  case 0
  then show ?case by (intro exI [of _ 0]) simp
next
  case (Suc k)
  then obtain p1 h1 where st: "hdlr_step bits stop (p, h) = Some (p1, h1)" "hdlr_run bits stop k (p1, h1) = Some (q, g)"
    by (auto simp: bind_eq_Some_conv)
  from step_gets_done [OF Suc.prems(1) st(1)] obtain n m where
    n: "m \<le> 2" "thread_run bits stop ins n (p, False, h) = Some (m, p1, False, h1)" by blast
  from Suc.IH [OF served_tail [OF Suc.prems(1)] st(2), of n] obtain n' m' where
    n': "m' \<le> 2 * k" "thread_run bits stop (\<lambda>i. ins (n + i)) n' (p1, False, h1) = Some (m', q, False, g)" by blast
  have "thread_run bits stop ins (n + n') (p, False, h) = Some (m + m', q, False, g)" using n(2) n'(2) by (simp add: run_append)
  with n(1) n'(1) show ?case by (intro exI [of _ "n + n'"] exI [of _ "m + m'"]) simp
qed

text \<open>
  Property C25: a pass of the handler thread ends.  Assume that no other thread commits,
  transfers or releases anything meanwhile, that fewer than 54 synchronous transfers are in
  the last part of their callback, and that free tags and the device's answers keep coming.
  Then from the top of its loop, with all its waiting for tags and answers, the thread
  reaches the wait for new work (or its end, when it is told to stop) after at most eight
  moves per synchronous and sixteen per other queued transaction, plus sixteen.  It is not
  asleep then, and every ordinary transaction committed before is handed to the device, in
  order.
\<close>

theorem pass_transfers_all:
  assumes "reachable bits s" and "length bits \<ge> C_TXN_BLOOM_M_BYTES" and "s_pc s = Top" and "length (h_tails (s_hd s)) < 54"
    and "served ins"
  shows "\<exists>n moves p h. moves \<le> 8 * length (h_sync_list (s_hd s)) + 16 * length (h_txn_list (s_hd s)) + 16
           \<and> thread_run bits stop ins n (Top, False, s_hd s) = Some (moves, p, False, h) \<and> (p = WaitTxn \<or> p = Stopped)
           \<and> h_txn_list h = [] \<and> map txn_sig (sent_txns False h) = s_log s"
proof -
  note inv = reachable_hinv [OF assms(1,2)]
  have "quiet (s_pc s) (s_hd s)" by (simp add: quiet_def assms(3))
  with pass_ends [OF inv reachable_idle [OF assms(1,2)] assms(4,2), of stop] obtain k p h where
    r: "k \<le> hmeasure (s_pc s) (s_hd s)" "hdlr_run bits stop k (s_pc s, s_hd s) = Some (p, h)" "p = WaitTxn \<or> p = Stopped"
      "hinv (s\<lparr>s_pc := p, s_hd := h\<rparr>)" "idle p h" "quiet p h" by auto
  let ?s = "s\<lparr>s_pc := p, s_hd := h\<rparr>"
  have l: "h_txn_list h = []" using r(3,6) by (auto simp: quiet_def)
  have "pending False ?s = []" by (rule drained) (use r l in simp_all)
  with committed_split [OF r(4), of False] have sent: "map txn_sig (sent_txns False h) = s_log s"
    by (simp add: committed_def delivered_def)
  have k: "2 * k \<le> 8 * length (h_sync_list (s_hd s)) + 16 * length (h_txn_list (s_hd s)) + 16"
    using r(1) assms(3) by (simp add: hmeasure_def Let_def)
  from run_gets_done [OF assms(5) r(2)] obtain n m where
    "m \<le> 2 * k" "thread_run bits stop ins n (Top, False, s_hd s) = Some (m, p, False, h)" unfolding assms(3) by blast
  with k r(3) l sent show ?thesis by (intro exI [of _ n] exI [of _ m] exI [of _ p] exI [of _ h] conjI) simp_all
qed

text \<open>
  Property C26: \<open>fsync\<close> returns.  Assume, as for a pass of the thread, no interference of other
  threads, fewer than 54 callbacks in their last part, and tags and answers that keep coming;
  and that no transfer of a synchronous \<open>c_txn\<close> is queued.  The next pass of the thread ends and
  has put all queued synchronous transactions into one \<open>c_txn\<close> and queued its transfer, unless
  there was nothing to send; that transfer gets a tag at a later moment, and then every
  synchronous transaction committed before has been handed to the device, in order, and every
  thread waiting for one has been woken, in the same order.
\<close>

theorem fsync_returns:
  assumes "reachable bits s" and "length bits \<ge> C_TXN_BLOOM_M_BYTES" and "s_pc s = Top" and "length (h_tails (s_hd s)) < 54"
    and "h_transfers (s_hd s) = []" and "served ins"
  shows "\<exists>n moves p h. thread_run bits stop ins n (Top, False, s_hd s) = Some (moves, p, False, h)
           \<and> (p = WaitTxn \<or> p = Stopped) \<and> h_sync_list h = []
           \<and> (\<exists>h'. (h_transfers h = [] \<and> h' = h
                 \<or> (\<exists>a. h_transfers h = [a] \<and> (\<exists>j \<ge> n. lightfs_c_txn_transfer_work (ins j) (h\<lparr>h_transfers := []\<rparr>) a = Done h')))
                \<and> map txn_sig (sent_txns True h') = s_slog s
                \<and> map Some (h_completed h') = map t_completion (sent_txns True h'))"
proof -
  note inv = reachable_hinv [OF assms(1,2)]
  have "squiet (s_pc s) (s_hd s)" by (simp add: squiet_def front_def assms(3,5))
  with pass_ends [OF inv reachable_idle [OF assms(1,2)] assms(4,2), of stop] obtain k p h where
    r: "hdlr_run bits stop k (s_pc s, s_hd s) = Some (p, h)" "p = WaitTxn \<or> p = Stopped"
      "hinv (s\<lparr>s_pc := p, s_hd := h\<rparr>)" "idle p h" "squiet p h" by auto
  from run_gets_done [OF assms(6) r(1)] obtain n m where
    run: "thread_run bits stop ins n (Top, False, s_hd s) = Some (m, p, False, h)" unfolding assms(3) by blast
  let ?s = "s\<lparr>s_pc := p, s_hd := h\<rparr>"
  have l: "h_sync_list h = []" using r(2,5) by (auto simp: squiet_def front_def)
  note comp = hinvD(5) [unfolded content_part_def Let_def]
  have "\<exists>h'. (h_transfers h = [] \<and> h' = h
                 \<or> (\<exists>a. h_transfers h = [a] \<and> (\<exists>j \<ge> n. lightfs_c_txn_transfer_work (ins j) (h\<lparr>h_transfers := []\<rparr>) a = Done h')))
                \<and> map txn_sig (sent_txns True h') = s_slog s
                \<and> map Some (h_completed h') = map t_completion (sent_txns True h')"
  proof (cases "h_sync h")
    case None
    then have tr: "h_transfers h = []" using hinvD(3) [OF r(3)] by (simp add: sync_part_def)
    have "pending True ?s = []" using None l by (simp add: pending_def)
    with committed_split [OF r(3), of True] have "map txn_sig (sent_txns True h) = s_slog s"
      by (simp add: committed_def delivered_def)
    with tr comp [OF r(3)] show ?thesis by auto
  next
    case (Some a)
    with r(2,4) have "h_transfers h \<noteq> []" by (auto simp: idle_def)
    with sync_part_Some [OF hinvD(3) [OF r(3)], of a] Some have tr: "h_transfers (s_hd ?s) = [] @ a # []"
      by (auto simp: sync_ok_def split: if_splits)
    from inv_transfer_work [OF r(3) tr] obtain h' where
      h': "lightfs_c_txn_transfer (h\<lparr>h_transfers := []\<rparr>) a = Some h'" "hinv (?s\<lparr>s_hd := h'\<rparr>)" "h_sync h' = None" by auto
    have "h_sync_list h' = []" using transfer_frame(1) [OF h'(1)] l by simp
    with h'(3) have "pending True (?s\<lparr>s_hd := h'\<rparr>) = []" by (simp add: pending_def)
    with committed_split [OF h'(2), of True] have sent: "map txn_sig (sent_txns True h') = s_slog s"
      by (simp add: committed_def delivered_def)
    from assms(6) obtain j where "j \<ge> n" "fst (ins j)" by (auto simp: served_def)
    then have "\<exists>j \<ge> n. lightfs_c_txn_transfer_work (ins j) (h\<lparr>h_transfers := []\<rparr>) a = Done h'"
      using h'(1) by (auto simp: lightfs_c_txn_transfer_work_def)
    with tr sent comp [OF h'(2)] show ?thesis by (intro exI [of _ h']) simp
  qed
  with run r(2) l show ?thesis by blast
qed

section \<open>Sizes\<close>

text \<open>A committed transaction whose size covers its buffers in a request and is within the limit.\<close>

definition entry_ok :: "(nat \<Rightarrow> byte list) \<Rightarrow> txn_entry \<Rightarrow> bool" where
  "entry_ok pages e =
     (case e of (_, sz, tbs) \<Rightarrow>
        (\<forall>tb\<in>set tbs. tb_ok pages tb) \<and> 8 + total_size tbs \<le> unat sz \<and> unat sz \<le> C_TXN_LIMIT_BYTES)"

lemma sent_entry:
  assumes "hinv s" and "c \<in> set (h_sent (s_hd s))" and "\<not> c_ordered c" and "t \<in> set (c_txns c)"
  shows "txn_sig t \<in> set (s_log s)"
  using committed_split [OF assms(1), of False] assms(2-4)
  by (auto simp: committed_def delivered_def sent_txns_def)

lemma total_size_concat: "total_size (concat xss) = sum_list (map total_size xss)"
  by (induction xss) (simp_all add: total_size_def)

text \<open>
  Property C27: the limit the handler collects to keeps requests inside their buffer.  If
  every transaction committed so far was well formed, then whatever ordinary \<open>c_txn\<close> was
  handed to the transfer function is written completely into a two-megabyte buffer,
  within \<open>C_TXN_LIMIT_BYTES\<close> and seven bytes, and decodes to exactly its buffers in order.
\<close>

theorem sent_request_fits:
  assumes "reachable bits s" and "length bits \<ge> C_TXN_BLOOM_M_BYTES" and "\<forall>e\<in>set (s_log s). entry_ok pages e"
    and "c \<in> set (h_sent (s_hd s))" and "\<not> c_ordered c" and "length (c_bufs c) < 65535" and "length buf = CHEEZE_BUF_SIZE"
  shows "\<exists>buf' idx. transfer_fill pages c buf = Some (buf', idx) \<and> length buf' = CHEEZE_BUF_SIZE
           \<and> idx \<le> C_TXN_LIMIT_BYTES + 7
           \<and> decode buf' = Some (c_id c,
               map (\<lambda>tb. the (wire_of pages tb)) (c_bufs c) @ (if c_is_flush c then [W_commit] else []))"
proof -
  note inv = reachable_hinv [OF assms(1,2)]
  have ok: "entry_ok pages (txn_sig t)" if "t \<in> set (c_txns c)" for t
    using sent_entry [OF inv assms(4,5) that] assms(3) by blast
  have "c_acc c" using hinvD(5) [OF inv] assms(4,5) by (simp add: content_part_def Let_def)
  moreover have "\<forall>t\<in>set (c_txns c). unat (t_size t) \<le> C_TXN_LIMIT_BYTES" using ok by (simp add: entry_ok_def txn_sig_def)
  ultimately have sum: "sum_list (map (\<lambda>t. unat (t_size t)) (c_txns c)) \<le> C_TXN_LIMIT_BYTES" by (auto simp: c_acc_def)
  have "total_size (c_bufs c) = sum_list (map (\<lambda>t. total_size (t_bufs t)) (c_txns c))"
    by (simp add: c_bufs_def total_size_concat o_def)
  also have "\<dots> \<le> sum_list (map (\<lambda>t. unat (t_size t)) (c_txns c))"
    by (rule sum_list_mono) (use ok in \<open>fastforce simp: entry_ok_def txn_sig_def\<close>)
  finally have total: "total_size (c_bufs c) \<le> C_TXN_LIMIT_BYTES" using sum by simp
  then have "7 + total_size (c_bufs c) \<le> length buf" using assms(7) by (simp add: C_TXN_LIMIT_BYTES_def CHEEZE_BUF_SIZE_def)
  moreover have "\<forall>tb\<in>set (c_bufs c). tb_ok pages tb" using ok by (auto simp: c_bufs_def entry_ok_def txn_sig_def)
  ultimately show ?thesis using transfer_decodes [of c pages buf] assms(6,7) total by auto
qed

section \<open>Concrete runs\<close>

text \<open>One ordinary and one synchronous transaction have been committed.\<close>

definition sample_bits :: "byte list" where
  "sample_bits = replicate C_TXN_BLOOM_M_BYTES 0"

definition sample_txn :: txn where
  "sample_txn = lightfs_txn_init\<lparr>t_cnt := 1, t_size := 20, t_bufs := [sample_del]\<rparr>"

definition sample_sys :: sys where
  "sample_sys = sys_commit (sys_commit (sys_init True) sample_txn 0) (sample_txn\<lparr>t_state := TXN_SYNC\<rparr>) 7"

lemma sample_bits_length: "length sample_bits \<ge> C_TXN_BLOOM_M_BYTES"
  by (simp add: sample_bits_def)

lemma sample_reachable: "reachable sample_bits sample_sys"
  unfolding sample_sys_def by (intro reachable.step [OF _ sys_step.commit] reachable.start)

lemma sample_flags [simp]: "\<not> has_flag (t_state sample_txn) TXN_READ" "\<not> has_flag (t_state sample_txn) TXN_SYNC"
  "has_flag TXN_SYNC TXN_SYNC" "\<not> has_flag TXN_SYNC TXN_READ"
  by (simp_all add: sample_txn_def lightfs_txn_init_def has_flag_def txn_state_defs)

lemma sample_state:
  "s_pc sample_sys = Top" "s_log sample_sys = [(1, 20, [sample_del])]" "s_slog sample_sys = [(2, 20, [sample_del])]"
  "length (h_txn_list (s_hd sample_sys)) = 1" "length (h_sync_list (s_hd sample_sys)) = 1"
  "h_transfers (s_hd sample_sys) = []" "h_sent (s_hd sample_sys) = []" "h_tails (s_hd sample_sys) = []"
  "h_completed (s_hd sample_sys) = []"
  by (simp_all add: sample_sys_def sys_commit_def sys_init_def txn_hdlr_alloc_def lightfs_bstore_txn_commit_def Let_def)
    (simp_all add: sample_txn_def)

lemma sample_tails: "length (h_tails (s_hd sample_sys)) < 54"
  by (simp add: sample_state)

theorem handler_never_faults_witness:
  "hdlr_step sample_bits True (s_pc sample_sys, s_hd sample_sys) \<noteq> None \<and> h_sync_list (s_hd sample_sys) \<noteq> []"
  using handler_never_faults [OF sample_reachable sample_bits_length, of True] sample_state(5) by auto

theorem committing_limit_unreachable_witness:
  "h_orderless_cnt (s_hd sample_sys) \<le> of_nat RUNNING_C_TXN_LIMIT \<and> length (h_txn_list (s_hd sample_sys)) = 1"
  using committing_limit_unreachable [OF sample_reachable sample_bits_length] sample_state by blast

theorem handler_refines_fifo_witness:
  "fifo_step (pending False sample_sys, delivered False sample_sys)
     (pending False (sys_commit sample_sys sample_txn 0), delivered False (sys_commit sample_sys sample_txn 0))"
  by (rule handler_refines_fifo [OF sample_reachable sample_bits_length sys_step.commit])

theorem committed_is_sent_or_pending_witness:
  "delivered True sample_sys @ pending True sample_sys = [(2, 20, [sample_del])]"
  using committed_is_sent_or_pending [OF sample_reachable sample_bits_length, of True] sample_state
  by (simp add: committed_def)

text \<open>A tag is free at every other moment, an answer has arrived at every third.\<close>

definition sample_ins :: "nat \<Rightarrow> moment" where
  "sample_ins i = (even i, i mod 3 = 0)"

lemma sample_served: "served sample_ins"
proof -
  have "\<exists>j \<ge> i. fst (sample_ins j)" "\<exists>j \<ge> i. snd (sample_ins j)" for i
    by (intro exI [of _ "6 * i"], simp add: sample_ins_def)+
  then show ?thesis by (simp add: served_def)
qed

theorem pass_transfers_all_witness:
  "served sample_ins
 \<and> (\<exists>n moves p h. moves \<le> 40 \<and> thread_run sample_bits False sample_ins n (Top, False, s_hd sample_sys) = Some (moves, p, False, h)
     \<and> map txn_sig (sent_txns False h) = [(1, 20, [sample_del])])"
  using pass_transfers_all [OF sample_reachable sample_bits_length sample_state(1) sample_tails sample_served, of False] sample_served
  unfolding sample_state by fastforce

theorem fsync_returns_witness:
  "\<exists>n moves p h h'. thread_run sample_bits False sample_ins n (Top, False, s_hd sample_sys) = Some (moves, p, False, h)
     \<and> h_sync_list h = [] \<and> h_completed (s_hd sample_sys) = []
     \<and> (h' = h \<or> (\<exists>a. \<exists>j \<ge> n. lightfs_c_txn_transfer_work (sample_ins j) (h\<lparr>h_transfers := []\<rparr>) a = Done h'))
     \<and> map txn_sig (sent_txns True h') = [(2, 20, [sample_del])] \<and> length (h_completed h') = 1"
proof -
  from fsync_returns [OF sample_reachable sample_bits_length sample_state(1) sample_tails sample_state(6) sample_served, of False]
  obtain n m p h h' where r: "thread_run sample_bits False sample_ins n (Top, False, s_hd sample_sys) = Some (m, p, False, h)"
      "h_sync_list h = []" "map txn_sig (sent_txns True h') = [(2, 20, [sample_del])]"
      "h_transfers h = [] \<and> h' = h
     \<or> (\<exists>a. h_transfers h = [a] \<and> (\<exists>j \<ge> n. lightfs_c_txn_transfer_work (sample_ins j) (h\<lparr>h_transfers := []\<rparr>) a = Done h'))"
      "map Some (h_completed h') = map t_completion (sent_txns True h')"
    unfolding sample_state by (elim exE conjE)
  have "length (h_completed h') = 1" using arg_cong [OF r(5), of length] arg_cong [OF r(3), of length] by simp
  moreover have "h' = h \<or> (\<exists>a. \<exists>j \<ge> n. lightfs_c_txn_transfer_work (sample_ins j) (h\<lparr>h_transfers := []\<rparr>) a = Done h')"
    using r(4) by blast
  ultimately show ?thesis using r(1-3) sample_state(9)
    by (intro exI [of _ n] exI [of _ m] exI [of _ p] exI [of _ h] exI [of _ h'] conjI) simp_all
qed

lemma reachable_run:
  "hdlr_run bits stop k (s_pc s, s_hd s) = Some (p, h) \<Longrightarrow> reachable bits s \<Longrightarrow> reachable bits (s\<lparr>s_pc := p, s_hd := h\<rparr>)"
proof (induction k arbitrary: s)
  case 0
  then show ?case by auto
next
  case (Suc k)
  then obtain q g where st: "hdlr_step bits stop (s_pc s, s_hd s) = Some (q, g)" "hdlr_run bits stop k (q, g) = Some (p, h)"
    by (auto simp: bind_eq_Some_conv)
  have "reachable bits (s\<lparr>s_pc := q, s_hd := g\<rparr>)" by (rule reachable.step [OF Suc.prems(2) sys_step.handler [OF st(1)]])
  from Suc.IH [of "s\<lparr>s_pc := q, s_hd := g\<rparr>", OF _ this] st(2) show ?case by simp
qed

lemma sample_sent:
  "\<exists>s c. reachable sample_bits s \<and> s_log s = [(1, 20, [sample_del])] \<and> c \<in> set (h_sent (s_hd s)) \<and> \<not> c_ordered c
     \<and> c_bufs c = [sample_del]"
proof -
  have idle: "idle (s_pc sample_sys) (s_hd sample_sys)" by (rule reachable_idle [OF sample_reachable sample_bits_length])
  have "quiet (s_pc sample_sys) (s_hd sample_sys)" by (simp add: quiet_def sample_state(1))
  with pass_ends [OF reachable_hinv [OF sample_reachable sample_bits_length] idle sample_tails sample_bits_length, of False]
  obtain k p h where r: "hdlr_run sample_bits False k (s_pc sample_sys, s_hd sample_sys) = Some (p, h)"
      "p = WaitTxn \<or> p = Stopped" "idle p h" "quiet p h" by blast
  let ?s = "sample_sys\<lparr>s_pc := p, s_hd := h\<rparr>"
  have re: "reachable sample_bits ?s" by (rule reachable_run [OF r(1) sample_reachable])
  note inv = reachable_hinv [OF re sample_bits_length]
  have "pending False ?s = []" by (rule drained [OF inv]) (use r in \<open>auto simp: quiet_def\<close>)
  with committed_split [OF inv, of False] sample_state(2)
  have log: "map txn_sig (sent_txns False h) = [(1, 20, [sample_del])]" by (simp add: committed_def delivered_def)
  then obtain t where t: "sent_txns False h = [t]" "t_bufs t = [sample_del]" by (auto simp: txn_sig_def)
  then obtain c where c: "c \<in> set (h_sent h)" "\<not> c_ordered c" "t \<in> set (c_txns c)"
    by (force simp: sent_txns_def dest: arg_cong [of _ _ set])
  have "c \<in> set (filter (\<lambda>c. c_ordered c = False) (h_sent h))" using c by simp
  then obtain xs ys where sp: "filter (\<lambda>c. c_ordered c = False) (h_sent h) = xs @ c # ys" by (meson split_list)
  have "concat (map c_txns xs) @ c_txns c @ concat (map c_txns ys) = [t]"
    using t(1) sp by (simp add: sent_txns_def)
  with c(3) have "c_txns c = [t]" by (auto simp: append_eq_Cons_conv Cons_eq_append_conv)
  with t(2) have "c_bufs c = [sample_del]" by (simp add: c_bufs_def)
  with re c sample_state(2) show ?thesis by (intro exI [of _ ?s] exI [of _ c]) simp
qed

theorem sent_request_fits_witness:
  "\<exists>(s :: sys) c buf' idx. c \<in> set (h_sent (s_hd s)) \<and> transfer_fill (\<lambda>_. []) c (replicate CHEEZE_BUF_SIZE 0) = Some (buf', idx)
     \<and> idx \<le> C_TXN_LIMIT_BYTES + 7"
proof -
  obtain s c where sc: "reachable sample_bits s" "s_log s = [(1, 20, [sample_del])]" "c \<in> set (h_sent (s_hd s))" "\<not> c_ordered c"
      "c_bufs c = [sample_del]" using sample_sent by blast
  have "tb_ok (\<lambda>_. []) sample_del" "total_size [sample_del] = 5"
    by (simp_all add: tb_ok_def sample_del_def wire_of_def wire_size_def value_bytes_def total_size_def
        lightfs_txn_buf_init_def Let_def)
  then have "\<forall>e\<in>set (s_log s). entry_ok (\<lambda>_. []) e" using sc(2) by (simp add: entry_ok_def C_TXN_LIMIT_BYTES_def)
  from sent_request_fits [OF sc(1) sample_bits_length this sc(3,4), of "replicate CHEEZE_BUF_SIZE 0"] sc(5)
  have "\<exists>buf' idx. transfer_fill (\<lambda>_. []) c (replicate CHEEZE_BUF_SIZE 0) = Some (buf', idx) \<and> idx \<le> C_TXN_LIMIT_BYTES + 7"
    by auto
  with sc(3) show ?thesis by blast
qed

end
