(* ===== verification/Kevin_Queue.thy ===== *)
theory Kevin_Queue
  imports Kevin_Prelude
begin

text \<open>
  The bounded tag queue of \<open>kevinfs/lightfs_queue.c\<close>.  An item is its index in
  \<open>item_arr\<close>; the kernel lists are lists of indices, the semaphores their counts.
  Each operation is split where the code leaves its spinlock, so that the interleaving
  of concurrent operations is a step relation over the same definitions.
\<close>

section \<open>Operations\<close>

record 'd lightfs_queue =
  slots :: nat
  items :: nat
  free_tag_list :: "nat list"
  processing_tag_list :: "nat list"
  item_arr :: "'d option list"
  cap :: nat


definition down_items :: "'d lightfs_queue \<Rightarrow> 'd lightfs_queue res" where
  "down_items q = (if items q = 0 then Block else Done (q\<lparr>items := items q - 1\<rparr>))"

definition up_slots :: "'d lightfs_queue \<Rightarrow> 'd lightfs_queue" where
  "up_slots q = q\<lparr>slots := slots q + 1\<rparr>"



definition peek_locked :: "'d lightfs_queue \<Rightarrow> ('d option \<times> 'd lightfs_queue) res" where
  "peek_locked q =
     (case processing_tag_list q of
        [] \<Rightarrow> Fault
      | tag # rest \<Rightarrow> Done (item_arr q ! tag, q\<lparr>processing_tag_list := rest\<rparr>))"

definition pop_locked :: "'d lightfs_queue \<Rightarrow> nat \<Rightarrow> 'd lightfs_queue res" where
  "pop_locked q tag =
     (if tag < length (item_arr q) \<and> tag \<notin> set (free_tag_list q) \<and> tag \<notin> set (processing_tag_list q)
      then Done (q\<lparr>free_tag_list := free_tag_list q @ [tag]\<rparr>) else Fault)"



definition lightfs_queue_peek :: "'d lightfs_queue \<Rightarrow> ('d option \<times> 'd lightfs_queue) res" where
  "lightfs_queue_peek q = res_bind (down_items q) peek_locked"

definition lightfs_queue_pop :: "'d lightfs_queue \<Rightarrow> nat \<Rightarrow> 'd lightfs_queue res" where
  "lightfs_queue_pop q tag = res_bind (pop_locked q tag) (\<lambda>q. Done (up_slots q))"


definition lightfs_queue_is_empty :: "'d lightfs_queue \<Rightarrow> bool" where
  "lightfs_queue_is_empty q \<longleftrightarrow> processing_tag_list q = []"


text \<open>\<open>lightfs_queue_exit\<close> frees the items of the array, by index.\<close>

definition lightfs_queue_exit :: "'d lightfs_queue \<Rightarrow> nat list" where
  "lightfs_queue_exit q = [0..<cap q]"

section \<open>Interleaved operations\<close>



















end
