(* ===== verification/Kevin_Pages.thy ===== *)
theory Kevin_Pages
  imports Kevin_Txn
begin

text \<open>
  Pages of the page cache and the vector of pages a read fills, from
  \<open>kevinfs/lightfs_fs.h\<close>, with the arithmetic between file positions and blocks.  A page is
  named by a number; its contents and flags are in a store of frames.  Of the kernel, the
  sorting of a list and the insertion into the page cache are parameters \<open>srt\<close> and \<open>added\<close>.
  File positions are never negative here.
\<close>

section \<open>Positions and blocks\<close>

definition block_get_num_by_position :: "u64 \<Rightarrow> u64" where
  "block_get_num_by_position pos = drop_bit PAGE_SHIFT pos + 1"

definition block_get_off_by_position :: "u64 \<Rightarrow> u64" where
  "block_get_off_by_position pos = pos AND (of_nat PAGE_SIZE - 1)"

definition lightfs_get_block_num_by_size :: "u64 \<Rightarrow> u64" where
  "lightfs_get_block_num_by_size sz = (if sz = 0 then 0 else drop_bit PAGE_SHIFT (sz - 1) + 1)"

lemma unat_drop_bit_page: "unat (drop_bit PAGE_SHIFT w :: u64) = unat w div 4096"
  by (simp add: PAGE_SHIFT_def drop_bit_eq_div unat_div_distrib)

lemma unat_page_off: "unat (block_get_off_by_position w) = unat w mod 4096"
proof -
  have "w AND (of_nat PAGE_SIZE - 1) = take_bit 12 w"
    by (simp add: PAGE_SIZE_def take_bit_eq_mask mask_eq_exp_minus_1)
  then show ?thesis by (simp add: block_get_off_by_position_def take_bit_eq_mod unat_mod_distrib)
qed

text \<open>The number of blocks of a file is its size in blocks, rounded up.\<close>

lemma unat_block_num_by_size: "unat (lightfs_get_block_num_by_size sz) = (unat sz + 4095) div 4096"
proof (cases "sz = 0")
  case True
  then show ?thesis by (simp add: lightfs_get_block_num_by_size_def)
next
  case False
  have lt: "unat sz < 18446744073709551616" using unsigned_less [of sz, where ?'a = nat] by simp
  have pos: "0 < unat sz" using False by (simp add: unat_gt_0)
  have "unat (sz - 1) = unat sz - 1" using False by (simp add: unat_minus_one)
  then have "unat (drop_bit PAGE_SHIFT (sz - 1)) = (unat sz - 1) div 4096" by (simp add: unat_drop_bit_page)
  moreover have "(unat sz - 1) div 4096 < 18446744073709551615" using lt by linarith
  ultimately have "unat (drop_bit PAGE_SHIFT (sz - 1) + 1) = (unat sz - 1) div 4096 + 1"
    by (simp add: unat_word_ariths)
  moreover have "unat sz + 4095 = (unat sz - 1) + 4096" using pos by simp
  then have "(unat sz - 1) div 4096 + 1 = (unat sz + 4095) div 4096" by simp
  ultimately show ?thesis using False by (simp add: lightfs_get_block_num_by_size_def)
qed

section \<open>Pages\<close>

record page =
  pg_index :: u64
  pg_data :: "byte list"
  pg_uptodate :: bool
  pg_error :: bool
  pg_locked :: bool
  pg_dirty :: bool
  pg_writeback :: bool

type_synonym frames = "nat \<Rightarrow> page"

definition PAGE_TO_BLOCK_NUM :: "page \<Rightarrow> u64" where
  "PAGE_TO_BLOCK_NUM p = pg_index p + 1"

text \<open>Clearing, and copying to, part of a page.\<close>

definition zero_user_segment :: "frames \<Rightarrow> nat \<Rightarrow> nat \<Rightarrow> nat \<Rightarrow> frames option" where
  "zero_user_segment fr p a b = do {
     bug_on (b > PAGE_SIZE);
     d \<leftarrow> poke a (replicate (b - a) 0) (pg_data (fr p));
     Some (fr(p := (fr p)\<lparr>pg_data := d\<rparr>)) }"

definition page_write :: "frames \<Rightarrow> nat \<Rightarrow> nat \<Rightarrow> byte list \<Rightarrow> frames option" where
  "page_write fr p off data = do {
     d \<leftarrow> poke off data (pg_data (fr p));
     Some (fr(p := (fr p)\<lparr>pg_data := d\<rparr>)) }"

section \<open>Vectors of pages\<close>

record lightfs_io =
  lio_max_vecs :: u16
  lio_vcnt :: u16
  lio_bvidx :: u16
  lio_vec :: "nat list"

definition vec_at :: "lightfs_io \<Rightarrow> nat \<Rightarrow> nat option" where
  "vec_at lio i = (if i < length (lio_vec lio) then Some (lio_vec lio ! i) else None)"

definition lightfs_io_current_page :: "lightfs_io \<Rightarrow> nat option" where
  "lightfs_io_current_page lio = do {
     bug_on (lio_bvidx lio \<ge> lio_vcnt lio);
     vec_at lio (unat (lio_bvidx lio)) }"

definition lightfs_io_first_page :: "lightfs_io \<Rightarrow> nat option" where
  "lightfs_io_first_page lio = vec_at lio 0"

definition lightfs_io_last_page :: "lightfs_io \<Rightarrow> nat option" where
  "lightfs_io_last_page lio = (if lio_vcnt lio = 0 then None else vec_at lio (unat (lio_vcnt lio) - 1))"

definition lightfs_io_page_at :: "lightfs_io \<Rightarrow> nat \<Rightarrow> nat option" where
  "lightfs_io_page_at lio idx = do {
     bug_on (unat (lio_vcnt lio) \<le> idx);
     vec_at lio idx }"

definition lightfs_io_advance_page :: "lightfs_io \<Rightarrow> lightfs_io option" where
  "lightfs_io_advance_page lio = do {
     bug_on (lio_bvidx lio \<ge> lio_vcnt lio);
     Some (lio\<lparr>lio_bvidx := lio_bvidx lio + 1\<rparr>) }"

definition lightfs_io_job_done :: "lightfs_io \<Rightarrow> bool" where
  "lightfs_io_job_done lio \<longleftrightarrow> lio_bvidx lio \<ge> lio_vcnt lio"

definition lightfs_io_alloc :: "bool \<Rightarrow> nat \<Rightarrow> lightfs_io option" where
  "lightfs_io_alloc kmalloc_failed nr_iovecs =
     (if kmalloc_failed then None
      else Some \<lparr>lio_max_vecs = of_nat nr_iovecs, lio_vcnt = 0, lio_bvidx = 0, lio_vec = []\<rparr>)"

definition lightfs_page_cmp :: "frames \<Rightarrow> nat \<Rightarrow> nat \<Rightarrow> int" where
  "lightfs_page_cmp fr a b =
     (if pg_index (fr a) < pg_index (fr b) then 1
      else if pg_index (fr a) > pg_index (fr b) then - 1
      else 0)"

definition lightfs_io_add_page :: "lightfs_io \<Rightarrow> nat \<Rightarrow> lightfs_io option" where
  "lightfs_io_add_page lio p = do {
     bug_on (lio_vcnt lio \<ge> lio_max_vecs lio);
     Some (lio\<lparr>lio_vec := lio_vec lio @ [p], lio_vcnt := lio_vcnt lio + 1\<rparr>) }"

fun setup_loop :: "(nat \<Rightarrow> bool) \<Rightarrow> nat \<Rightarrow> nat list \<Rightarrow> lightfs_io \<Rightarrow> lightfs_io option" where
  "setup_loop added 0 ps lio = do { bug_on (ps \<noteq> []); Some lio }"
| "setup_loop added (Suc n) ps lio = do {
     bug_on (ps = []);
     lio \<leftarrow> (if added (last ps) then lightfs_io_add_page lio (last ps) else Some lio);
     setup_loop added n (butlast ps) lio }"

definition lightfs_io_setup ::
    "((nat \<Rightarrow> nat \<Rightarrow> int) \<Rightarrow> nat list \<Rightarrow> nat list) \<Rightarrow> (nat \<Rightarrow> bool) \<Rightarrow> frames \<Rightarrow> lightfs_io \<Rightarrow> nat list \<Rightarrow> nat \<Rightarrow>
     lightfs_io option" where
  "lightfs_io_setup srt added fr lio ps nr_pages = setup_loop added nr_pages (srt (lightfs_page_cmp fr) ps) lio"

definition on_pages :: "(page \<Rightarrow> page) \<Rightarrow> frames \<Rightarrow> lightfs_io \<Rightarrow> frames option" where
  "on_pages f fr lio =
     foldM (\<lambda>fr i. do { p \<leftarrow> vec_at lio i; Some (fr(p := f (fr p))) }) fr [0..<unat (lio_vcnt lio)]"

definition lightfs_io_set_pages_uptodate :: "frames \<Rightarrow> lightfs_io \<Rightarrow> frames option" where
  "lightfs_io_set_pages_uptodate = on_pages (\<lambda>p. p\<lparr>pg_uptodate := True\<rparr>)"

definition lightfs_io_set_pages_error :: "frames \<Rightarrow> lightfs_io \<Rightarrow> frames option" where
  "lightfs_io_set_pages_error = on_pages (\<lambda>p. p\<lparr>pg_uptodate := False, pg_error := True\<rparr>)"

definition lightfs_io_unlock_pages :: "frames \<Rightarrow> lightfs_io \<Rightarrow> frames option" where
  "lightfs_io_unlock_pages = on_pages (\<lambda>p. p\<lparr>pg_locked := False\<rparr>)"

end
