(* ===== verification/Kevin_Cache.thy ===== *)
theory Kevin_Cache
  imports Kevin_Rbtree
begin

text \<open>
  The metadata cache of \<open>kevinfs/lightfs_cache.c\<close>: a hash table of items, keyed by metadata
  key, in which the item of a directory has a search tree of its cached entries.  The
  checksum \<open>crc32\<close> and the kernel's reduction of a hash to a bucket are parameters
  \<open>crc\<close> and \<open>hmin\<close>: nothing is assumed about collisions.  The lock table has one lock per
  bucket, so the loop over it runs once.  Structures come from slab caches; an item whose
  key or value could not be copied faults here, at the place of the failed copy, and in
  the code at its first use.
\<close>

section \<open>Items, directories and the table\<close>

definition FSEED :: u32 where "FSEED = 0"
definition SSEED :: u32 where "SSEED = 17"

record dcache_entry =
  is_full :: bool
  dc_root :: "nat kvtree"
  dc_child :: u32
  dc_e_child :: u32

record ht_cache_item =
  ci_key :: "byte list"
  ci_value :: "byte list"
  is_weak_del :: bool
  is_evicted :: bool
  ci_fp :: u32
  ci_dcache :: "dcache_entry option"
  ci_parent :: "nat option"

record ht_cache =
  hc_table :: "nat \<Rightarrow> nat list"
  hc_heap :: "nat \<Rightarrow> ht_cache_item option"
  hc_next :: nat

definition lightfs_cache_create :: "bool \<Rightarrow> int \<times> ht_cache" where
  "lightfs_cache_create kmalloc_failed =
     (if kmalloc_failed then - ENOMEM else 0, \<lparr>hc_table = \<lambda>_. [], hc_heap = Map.empty, hc_next = 0\<rparr>)"

definition lightfs_ht_func :: "(u32 \<Rightarrow> byte list \<Rightarrow> u32) \<Rightarrow> u32 \<Rightarrow> byte list \<Rightarrow> u32" where
  "lightfs_ht_func crc seed buf = crc seed buf"

text \<open>Comparison of two keys given with their sizes.\<close>

definition same_key :: "byte list \<Rightarrow> byte list \<Rightarrow> bool" where
  "same_key a b \<longleftrightarrow> lightfs_keycmp a (of_nat (length a)) b (of_nat (length b)) = 0"

text \<open>The loop over a bucket that looks for a key.\<close>

fun ht_scan :: "(nat \<Rightarrow> ht_cache_item option) \<Rightarrow> u32 \<Rightarrow> byte list \<Rightarrow> nat list \<Rightarrow> nat option option" where
  "ht_scan hp fp key [] = Some None"
| "ht_scan hp fp key (a # as) = do {
     it \<leftarrow> hp a;
     if ci_fp it = fp \<and> same_key (ci_key it) key then Some (Some a) else ht_scan hp fp key as }"

definition ht_find :: "(u32 \<Rightarrow> byte list \<Rightarrow> u32) \<Rightarrow> (u32 \<Rightarrow> nat) \<Rightarrow> ht_cache \<Rightarrow> byte list \<Rightarrow> nat option option" where
  "ht_find crc hmin c key =
     ht_scan (hc_heap c) (lightfs_ht_func crc SSEED key) key (hc_table c (hmin (lightfs_ht_func crc FSEED key)))"

definition upd_item :: "ht_cache \<Rightarrow> nat \<Rightarrow> ht_cache_item \<Rightarrow> ht_cache" where
  "upd_item c a it = c\<lparr>hc_heap := (hc_heap c)(a := Some it)\<rparr>"

section \<open>Entries of a directory\<close>

definition lightfs_dcache_entry_init :: "ht_cache_item \<Rightarrow> ht_cache_item" where
  "lightfs_dcache_entry_init it = it\<lparr>ci_dcache := Some \<lparr>is_full = True, dc_root = \<langle>\<rangle>, dc_child = 0, dc_e_child = 0\<rparr>\<rparr>"

definition lightfs_dcache_entry_free :: "ht_cache_item \<Rightarrow> ht_cache_item" where
  "lightfs_dcache_entry_free it = it\<lparr>ci_dcache := None\<rparr>"

text \<open>The descent of \<open>lightfs_dcache_insert\<close>.\<close>

fun dcache_link :: "nat kvtree \<Rightarrow> byte list \<times> nat \<Rightarrow> nat kvtree option" where
  "dcache_link \<langle>\<rangle> node = Some \<langle>\<langle>\<rangle>, node, \<langle>\<rangle>\<rangle>"
| "dcache_link \<langle>l, this, r\<rangle> node =
     (let result = lightfs_keycmp (fst node) (of_nat (length (fst node))) (fst this) (of_nat (length (fst this))) in
      if result < 0 then do { l \<leftarrow> dcache_link l node; Some \<langle>l, this, r\<rangle> }
      else if result > 0 then do { r \<leftarrow> dcache_link r node; Some \<langle>l, this, r\<rangle> }
      else None)"

definition lightfs_dcache_insert ::
    "(byte list \<Rightarrow> nat kvtree \<Rightarrow> nat kvtree) \<Rightarrow> dcache_entry \<Rightarrow> byte list \<times> nat \<Rightarrow> int \<times> dcache_entry" where
  "lightfs_dcache_insert ic d node =
     (case dcache_link (dc_root d) node of
        None \<Rightarrow> (- 1, d)
      | Some t \<Rightarrow> (0, d\<lparr>dc_root := ic (fst node) t\<rparr>))"

definition lightfs_dcache_invalidate :: "ht_cache \<Rightarrow> nat \<Rightarrow> (int \<times> ht_cache) option" where
  "lightfs_dcache_invalidate c a = do {
     it \<leftarrow> hc_heap c a;
     case ci_parent it of
       None \<Rightarrow> Some (DB_NOTFOUND, c)
     | Some p \<Rightarrow> do {
         pit \<leftarrow> hc_heap c p;
         d \<leftarrow> ci_dcache pit;
         Some (0, upd_item c p (pit\<lparr>ci_dcache := Some (d\<lparr>is_full := True, dc_e_child := dc_e_child d + 1\<rparr>)\<rparr>)) } }"

text \<open>The parent pointer is followed without a test.\<close>

definition lightfs_dcache_del ::
    "(byte list \<Rightarrow> nat kvtree \<Rightarrow> nat kvtree) \<Rightarrow> ht_cache \<Rightarrow> nat \<Rightarrow> (int \<times> ht_cache) option" where
  "lightfs_dcache_del er c a = do {
     it \<leftarrow> hc_heap c a;
     p \<leftarrow> ci_parent it;
     pit \<leftarrow> hc_heap c p;
     d \<leftarrow> ci_dcache pit;
     Some (0, upd_item c p (pit\<lparr>ci_dcache := Some (d\<lparr>dc_root := er (ci_key it) (dc_root d)\<rparr>)\<rparr>)) }"

section \<open>Operations\<close>

text \<open>\<open>memcpy (value->data, cache_item->value.data, value->size)\<close>\<close>

definition item_value :: "ht_cache_item \<Rightarrow> dbt \<Rightarrow> dbt option" where
  "item_value it vl = do {
     dst \<leftarrow> d_data vl;
     src \<leftarrow> peek 0 (unat (d_size vl)) (ci_value it);
     dst \<leftarrow> poke 0 src dst;
     Some (vl\<lparr>d_data := Some dst\<rparr>) }"

definition lightfs_ht_cache_get ::
    "(u32 \<Rightarrow> byte list \<Rightarrow> u32) \<Rightarrow> (u32 \<Rightarrow> nat) \<Rightarrow> ht_cache \<Rightarrow> byte list \<Rightarrow> dbt \<Rightarrow> (int \<times> dbt \<times> ht_cache) option" where
  "lightfs_ht_cache_get crc hmin c key vl = do {
     r \<leftarrow> ht_find crc hmin c key;
     case r of
       None \<Rightarrow> Some (DB_NOTFOUND, vl, c)
     | Some a \<Rightarrow> do {
         it \<leftarrow> hc_heap c a;
         vl \<leftarrow> item_value it vl;
         if is_weak_del it \<and> is_evicted it
         then Some (DB_FOUND_FREE, vl, upd_item c a (it\<lparr>is_weak_del := False, is_evicted := False\<rparr>))
         else Some (0, vl, c) } }"

text \<open>\<open>_dbt_copy\<close>, \<open>_dbt_copy_meta\<close> and \<open>_dbt_no_alloc_copy\<close> of an item's parts.\<close>

definition lightfs_ht_cache_item_init ::
    "(nat \<Rightarrow> byte list option) \<Rightarrow> byte list \<Rightarrow> byte list \<Rightarrow> ht_cache_item option" where
  "lightfs_ht_cache_item_init km key vl = do {
     k \<leftarrow> must_copy km key;
     v \<leftarrow> km INODE_SIZE;
     v \<leftarrow> poke 0 vl v;
     Some \<lparr>ci_key = k, ci_value = v, is_weak_del = False, is_evicted = False, ci_fp = 0, ci_dcache = None, ci_parent = None\<rparr> }"

text \<open>The loop that hangs a new item into the tree of its directory, wherever the directory is found.\<close>

definition dir_link ::
    "(byte list \<Rightarrow> nat kvtree \<Rightarrow> nat kvtree) \<Rightarrow> u32 \<Rightarrow> byte list \<Rightarrow> nat \<Rightarrow> ht_cache \<Rightarrow> nat \<Rightarrow> ht_cache option" where
  "dir_link ic dir_fp dir_key a c p = do {
     pit \<leftarrow> hc_heap c p;
     if ci_fp pit = dir_fp \<and> same_key (ci_key pit) dir_key then do {
       d \<leftarrow> ci_dcache pit;
       it \<leftarrow> hc_heap c a;
       let (_, d) = lightfs_dcache_insert ic d (ci_key it, a);
       let c = upd_item c p (pit\<lparr>ci_dcache := Some (d\<lparr>dc_child := dc_child d + 1\<rparr>)\<rparr>);
       it \<leftarrow> hc_heap c a;
       Some (upd_item c a (it\<lparr>ci_parent := Some p\<rparr>)) }
     else Some c }"

definition lightfs_ht_cache_put ::
    "(u32 \<Rightarrow> byte list \<Rightarrow> u32) \<Rightarrow> (u32 \<Rightarrow> nat) \<Rightarrow> (nat \<Rightarrow> byte list option) \<Rightarrow>
     (byte list \<Rightarrow> nat kvtree \<Rightarrow> nat kvtree) \<Rightarrow> ht_cache \<Rightarrow> byte list \<Rightarrow> byte list \<Rightarrow> byte list option \<Rightarrow> bool \<Rightarrow>
     (int \<times> ht_cache) option" where
  "lightfs_ht_cache_put crc hmin km ic c key vl dir_key is_dir = do {
     r \<leftarrow> ht_find crc hmin c key;
     case r of
       Some a \<Rightarrow> do {
         it \<leftarrow> hc_heap c a;
         v \<leftarrow> poke 0 vl (ci_value it);
         Some (0, upd_item c a (it\<lparr>ci_value := v, is_weak_del := False, is_evicted := False\<rparr>)) }
     | None \<Rightarrow> do {
         it \<leftarrow> lightfs_ht_cache_item_init km key vl;
         let it = it\<lparr>ci_fp := lightfs_ht_func crc SSEED key\<rparr>;
         let it = (if is_dir then lightfs_dcache_entry_init it else it);
         let a = hc_next c;
         let hkey = hmin (lightfs_ht_func crc FSEED key);
         let c = c\<lparr>hc_heap := (hc_heap c)(a := Some it), hc_next := a + 1,
                   hc_table := (hc_table c)(hkey := a # hc_table c hkey)\<rparr>;
         c \<leftarrow> (case dir_key of
                None \<Rightarrow> Some c
              | Some dk \<Rightarrow> foldM (dir_link ic (lightfs_ht_func crc SSEED dk) dk a) c
                             (hc_table c (hmin (lightfs_ht_func crc FSEED dk))));
         Some (0, c) } }"

definition lightfs_ht_cache_del ::
    "(u32 \<Rightarrow> byte list \<Rightarrow> u32) \<Rightarrow> (u32 \<Rightarrow> nat) \<Rightarrow> (byte list \<Rightarrow> nat kvtree \<Rightarrow> nat kvtree) \<Rightarrow> ht_cache \<Rightarrow> byte list \<Rightarrow>
     bool \<Rightarrow> (int \<times> ht_cache) option" where
  "lightfs_ht_cache_del crc hmin er c key is_dir = do {
     r \<leftarrow> ht_find crc hmin c key;
     case r of
       None \<Rightarrow> Some (DB_NOTFOUND, c)
     | Some a \<Rightarrow> do {
         let hkey = hmin (lightfs_ht_func crc FSEED key);
         let c = c\<lparr>hc_table := (hc_table c)(hkey := filter (\<lambda>b. b \<noteq> a) (hc_table c hkey))\<rparr>;
         (_, c) \<leftarrow> lightfs_dcache_del er c a;
         it \<leftarrow> hc_heap c a;
         _ \<leftarrow> (if is_dir then do { p \<leftarrow> ci_parent it; pit \<leftarrow> hc_heap c p; bug_on (ci_dcache pit = None) } else Some ());
         Some (0, c\<lparr>hc_heap := (hc_heap c)(a := None)\<rparr>) } }"

definition lightfs_ht_cache_weak_del ::
    "(u32 \<Rightarrow> byte list \<Rightarrow> u32) \<Rightarrow> (u32 \<Rightarrow> nat) \<Rightarrow> ht_cache \<Rightarrow> byte list \<Rightarrow> (int \<times> ht_cache) option" where
  "lightfs_ht_cache_weak_del crc hmin c key = do {
     r \<leftarrow> ht_find crc hmin c key;
     case r of
       None \<Rightarrow> Some (DB_NOTFOUND, c)
     | Some a \<Rightarrow> do {
         (_, c) \<leftarrow> lightfs_dcache_invalidate c a;
         it \<leftarrow> hc_heap c a;
         Some (0, upd_item c a (it\<lparr>is_weak_del := True, is_evicted := True\<rparr>)) } }"

definition lightfs_ht_cache_close :: "ht_cache \<Rightarrow> ht_cache" where
  "lightfs_ht_cache_close c =
     c\<lparr>hc_heap := (\<lambda>a. if \<exists>b < 1048576. a \<in> set (hc_table c b) then None else hc_heap c a), hc_table := \<lambda>_. []\<rparr>"

section \<open>Listing a directory\<close>

record dcache_dbc_wrap =
  dw_node :: "nat option"
  dw_right :: "byte list option"

definition lightfs_dcache_cursor :: "bool \<Rightarrow> int + dcache_dbc_wrap" where
  "lightfs_dcache_cursor kmalloc_failed =
     (if kmalloc_failed then Inl (- ENOMEM) else Inr \<lparr>dw_node = None, dw_right = None\<rparr>)"

definition rb_first :: "'v kvtree \<Rightarrow> (byte list \<times> 'v) option" where
  "rb_first t = (case inorder t of [] \<Rightarrow> None | x # _ \<Rightarrow> Some x)"

text \<open>Key and value of an item copied to the caller.\<close>

definition emit_item :: "ht_cache_item \<Rightarrow> dbt \<Rightarrow> dbt \<Rightarrow> (dbt \<times> dbt) option" where
  "emit_item it key vl = do {
     kb \<leftarrow> d_data key;
     kb \<leftarrow> poke 0 (ci_key it) kb;
     vl \<leftarrow> item_value it vl;
     Some (key\<lparr>d_data := Some kb, d_size := of_nat (length (ci_key it))\<rparr>, vl) }"

definition c_get_range ::
    "(u32 \<Rightarrow> byte list \<Rightarrow> u32) \<Rightarrow> (u32 \<Rightarrow> nat) \<Rightarrow> ht_cache \<Rightarrow> dcache_dbc_wrap \<Rightarrow> dbt \<Rightarrow> dbt \<Rightarrow>
     (int \<times> dcache_dbc_wrap \<times> dbt \<times> dbt) option" where
  "c_get_range crc hmin c w key vl =
     (case dw_node w of
        Some a \<Rightarrow> do {
          it \<leftarrow> hc_heap c a;
          (key, vl) \<leftarrow> emit_item it key vl;
          Some (0, w, key, vl) }
      | None \<Rightarrow> do {
          r \<leftarrow> ht_find crc hmin c (dbt_bytes key);
          case r of
            None \<Rightarrow> Some (DB_NOTFOUND_DCACHE_FULL, w, key, vl)
          | Some a \<Rightarrow> do {
              dir \<leftarrow> hc_heap c a;
              d \<leftarrow> ci_dcache dir;
              case rb_first (dc_root d) of
                None \<Rightarrow> Some (DB_NOTFOUND_DCACHE_FULL, w, key, vl)
              | Some (_, b) \<Rightarrow> do {
                  it \<leftarrow> hc_heap c b;
                  (key, vl) \<leftarrow> emit_item it key vl;
                  Some (0, w\<lparr>dw_node := Some b\<rparr>, key, vl) } } })"

definition c_get_next ::
    "ht_cache \<Rightarrow> dcache_dbc_wrap \<Rightarrow> dbt \<Rightarrow> dbt \<Rightarrow> (int \<times> dcache_dbc_wrap \<times> dbt \<times> dbt) option" where
  "c_get_next c w key vl =
     (case dw_node w of
        None \<Rightarrow> Some (DB_NOTFOUND_DCACHE_FULL, w, key, vl)
      | Some a \<Rightarrow> do {
          it \<leftarrow> hc_heap c a;
          p \<leftarrow> ci_parent it;
          pit \<leftarrow> hc_heap c p;
          d \<leftarrow> ci_dcache pit;
          case rb_next (dc_root d) (ci_key it) of
            None \<Rightarrow> Some (DB_NOTFOUND_DCACHE_FULL, w\<lparr>dw_node := None\<rparr>, key, vl)
          | Some (_, b) \<Rightarrow> do {
              it \<leftarrow> hc_heap c b;
              if (case dw_right w of
                    None \<Rightarrow> False
                  | Some r \<Rightarrow> lightfs_keycmp (ci_key it) (of_nat (length (ci_key it))) r (of_nat (length r)) > 0)
              then Some (DB_NOTFOUND_DCACHE_FULL, w\<lparr>dw_node := None\<rparr>, key, vl)
              else do {
                (key, vl) \<leftarrow> emit_item it key vl;
                Some (0, w\<lparr>dw_node := Some b\<rparr>, key, vl) } } })"

definition lightfs_dcache_c_get ::
    "(u32 \<Rightarrow> byte list \<Rightarrow> u32) \<Rightarrow> (u32 \<Rightarrow> nat) \<Rightarrow> ht_cache \<Rightarrow> dcache_dbc_wrap \<Rightarrow> dbt \<Rightarrow> dbt \<Rightarrow> u32 \<Rightarrow>
     (int \<times> dcache_dbc_wrap \<times> dbt \<times> dbt) option" where
  "lightfs_dcache_c_get crc hmin c w key vl flags =
     (if flags = DB_SET_RANGE then c_get_range crc hmin c w key vl else c_get_next c w key vl)"

section \<open>Invariant\<close>

text \<open>
  An item is in exactly the bucket of its key, and no two items have the same key.
\<close>

definition item_ok :: "(u32 \<Rightarrow> byte list \<Rightarrow> u32) \<Rightarrow> ht_cache_item \<Rightarrow> bool" where
  "item_ok crc it \<longleftrightarrow>
     length (ci_key it) < 65536 \<and> length (ci_value it) = INODE_SIZE \<and> ci_fp it = crc SSEED (ci_key it)"

definition table_ok :: "(u32 \<Rightarrow> byte list \<Rightarrow> u32) \<Rightarrow> (u32 \<Rightarrow> nat) \<Rightarrow> ht_cache \<Rightarrow> bool" where
  "table_ok crc hmin c \<longleftrightarrow>
     (\<forall>b. distinct (hc_table c b))
   \<and> (\<forall>a b. a \<in> set (hc_table c b) \<longleftrightarrow> (\<exists>it. hc_heap c a = Some it \<and> hmin (crc FSEED (ci_key it)) = b))
   \<and> (\<forall>a it. hc_heap c a = Some it \<longrightarrow> a < hc_next c \<and> item_ok crc it)
   \<and> (\<forall>a b it jt. hc_heap c a = Some it \<longrightarrow> hc_heap c b = Some jt \<longrightarrow> ci_key it = ci_key jt \<longrightarrow> a = b)"

text \<open>The tree of a directory holds exactly the items that have it as their parent.\<close>

definition children :: "ht_cache \<Rightarrow> nat \<Rightarrow> byte list \<Rightarrow> nat \<Rightarrow> bool" where
  "children c p k a \<longleftrightarrow> (\<exists>it. hc_heap c a = Some it \<and> ci_key it = k \<and> ci_parent it = Some p)"

definition dirs_ok :: "ht_cache \<Rightarrow> bool" where
  "dirs_ok c \<longleftrightarrow>
     (\<forall>p pit d. hc_heap c p = Some pit \<longrightarrow> ci_dcache pit = Some d \<longrightarrow>
        kv_bst (dc_root d) \<and> (\<forall>k a. kv_map (dc_root d) k = Some a \<longleftrightarrow> children c p k a))
   \<and> (\<forall>p k a. children c p k a \<longrightarrow> p \<noteq> a \<and> (\<exists>pit d. hc_heap c p = Some pit \<and> ci_dcache pit = Some d))"

definition cache_inv :: "(u32 \<Rightarrow> byte list \<Rightarrow> u32) \<Rightarrow> (u32 \<Rightarrow> nat) \<Rightarrow> ht_cache \<Rightarrow> bool" where
  "cache_inv crc hmin c \<longleftrightarrow> table_ok crc hmin c \<and> dirs_ok c"

text \<open>What the cache stands for: value and eviction mark of each key.\<close>

definition cache_abs ::
    "(u32 \<Rightarrow> byte list \<Rightarrow> u32) \<Rightarrow> (u32 \<Rightarrow> nat) \<Rightarrow> ht_cache \<Rightarrow> byte list \<rightharpoonup> byte list \<times> bool" where
  "cache_abs crc hmin c key =
     (if length key < 65536 then
        case ht_find crc hmin c key of
          Some (Some a) \<Rightarrow> map_option (\<lambda>it. (ci_value it, is_weak_del it \<and> is_evicted it)) (hc_heap c a)
        | _ \<Rightarrow> None
      else None)"

lemma cache_inv_create: "cache_inv crc hmin (snd (lightfs_cache_create b))"
  by (simp add: cache_inv_def table_ok_def dirs_ok_def children_def lightfs_cache_create_def)

lemma same_key_eq: "length a < 65536 \<Longrightarrow> length b < 65536 \<Longrightarrow> same_key a b \<longleftrightarrow> a = b"
  by (simp add: same_key_def lightfs_keycmp_env kc.cmp_eq)

lemma ht_scan_eq:
  assumes "\<forall>a\<in>set as. \<exists>it. hp a = Some it \<and> length (ci_key it) < 65536 \<and> ci_fp it = crc SSEED (ci_key it)"
    and "length key < 65536"
  shows "ht_scan hp (crc SSEED key) key as =
           Some (find (\<lambda>a. \<exists>it. hp a = Some it \<and> ci_key it = key) as)"
  using assms(1)
proof (induction as)
  case (Cons a as)
  then obtain it where it: "hp a = Some it" "length (ci_key it) < 65536" "ci_fp it = crc SSEED (ci_key it)" by auto
  then have "ci_fp it = crc SSEED key \<and> same_key (ci_key it) key \<longleftrightarrow> ci_key it = key"
    using assms(2) same_key_eq by auto
  with Cons it show ?case by auto
qed simp

lemma find_holder:
  assumes "table_ok crc hmin c" and "length key < 65536"
  shows "ht_find crc hmin c key =
           Some (find (\<lambda>a. \<exists>it. hc_heap c a = Some it \<and> ci_key it = key) (hc_table c (hmin (crc FSEED key))))"
  unfolding ht_find_def lightfs_ht_func_def
  by (rule ht_scan_eq [OF _ assms(2)]) (use assms(1) in \<open>auto simp: table_ok_def item_ok_def\<close>)

lemma find_present:
  assumes "table_ok crc hmin c" and "hc_heap c a = Some it"
  shows "ht_find crc hmin c (ci_key it) = Some (Some a)"
proof -
  let ?P = "\<lambda>b. \<exists>jt. hc_heap c b = Some jt \<and> ci_key jt = ci_key it"
  let ?as = "hc_table c (hmin (crc FSEED (ci_key it)))"
  have a: "a \<in> set ?as" "?P a" using assms unfolding table_ok_def by blast+
  then have "find ?P ?as \<noteq> None" by (auto simp: find_None_iff)
  then obtain b where b: "find ?P ?as = Some b" by blast
  then have "?P b" by (auto simp: find_Some_iff)
  with assms have "b = a" unfolding table_ok_def by metis
  with b show ?thesis using find_holder [OF assms(1), of "ci_key it"] assms by (simp add: table_ok_def item_ok_def)
qed

lemma find_absent:
  assumes "table_ok crc hmin c" and "length key < 65536" and "\<And>a it. hc_heap c a = Some it \<Longrightarrow> ci_key it \<noteq> key"
  shows "ht_find crc hmin c key = Some None"
  using find_holder [OF assms(1,2)] assms(3) by (auto simp: find_None_iff)

lemma find_cases:
  assumes "table_ok crc hmin c" and "length key < 65536"
  obtains (absent) "ht_find crc hmin c key = Some None" "\<And>a it. hc_heap c a = Some it \<Longrightarrow> ci_key it \<noteq> key"
  | (present) a it where "ht_find crc hmin c key = Some (Some a)" "hc_heap c a = Some it" "ci_key it = key"
proof (cases "\<exists>a it. hc_heap c a = Some it \<and> ci_key it = key")
  case True
  then obtain a it where "hc_heap c a = Some it" "ci_key it = key" by blast
  with find_present [OF assms(1)] present show ?thesis by auto
next
  case False
  with find_absent [OF assms] absent show ?thesis by blast
qed

lemma abs_present:
  assumes "table_ok crc hmin c" and "hc_heap c a = Some it"
  shows "cache_abs crc hmin c (ci_key it) = Some (ci_value it, is_weak_del it \<and> is_evicted it)"
  using find_present [OF assms] assms by (simp add: cache_abs_def table_ok_def item_ok_def)

lemma abs_absent:
  assumes "table_ok crc hmin c" and "\<And>a it. hc_heap c a = Some it \<Longrightarrow> ci_key it \<noteq> key"
  shows "cache_abs crc hmin c key = None"
  using find_absent [OF assms(1) _ assms(2)] by (simp add: cache_abs_def)

lemma abs_Some_iff:
  assumes "table_ok crc hmin c"
  shows "cache_abs crc hmin c key = Some x \<longleftrightarrow>
    (\<exists>a it. hc_heap c a = Some it \<and> ci_key it = key \<and> x = (ci_value it, is_weak_del it \<and> is_evicted it))"
proof (cases "\<exists>a it. hc_heap c a = Some it \<and> ci_key it = key")
  case True
  then obtain a it where h: "hc_heap c a = Some it" "ci_key it = key" by blast
  with abs_present [OF assms h(1)] have e: "cache_abs crc hmin c key = Some (ci_value it, is_weak_del it \<and> is_evicted it)" by simp
  have "a' = a" if "hc_heap c a' = Some it'" "ci_key it' = key" for a' it'
    using assms h that unfolding table_ok_def by metis
  then show ?thesis using e h by auto
next
  case False
  then show ?thesis using abs_absent [OF assms, of key] by auto
qed

section \<open>Operations keep the invariant\<close>

lemma upd_sel [simp]:
  "hc_heap (upd_item c a it) = (hc_heap c)(a \<mapsto> it)" "hc_table (upd_item c a it) = hc_table c"
  "hc_next (upd_item c a it) = hc_next c"
  by (simp_all add: upd_item_def)

text \<open>An assignment to an item that leaves key, fingerprint and size of the value.\<close>

definition same_id :: "ht_cache_item \<Rightarrow> ht_cache_item \<Rightarrow> bool" where
  "same_id it it' \<longleftrightarrow> ci_key it' = ci_key it \<and> ci_fp it' = ci_fp it \<and> length (ci_value it') = length (ci_value it)"

lemma table_okI:
  assumes "\<And>b. distinct (hc_table c b)"
    and "\<And>a b. a \<in> set (hc_table c b) \<longleftrightarrow> (\<exists>it. hc_heap c a = Some it \<and> hmin (crc FSEED (ci_key it)) = b)"
    and "\<And>a it. hc_heap c a = Some it \<Longrightarrow> a < hc_next c \<and> item_ok crc it"
    and "\<And>a b it jt. hc_heap c a = Some it \<Longrightarrow> hc_heap c b = Some jt \<Longrightarrow> ci_key it = ci_key jt \<Longrightarrow> a = b"
  shows "table_ok crc hmin c"
  unfolding table_ok_def by (intro conjI allI impI) (simp_all add: assms(1-3), rule assms(4))

lemma table_okD:
  assumes "table_ok crc hmin c"
  shows "distinct (hc_table c b)"
    and "a \<in> set (hc_table c b) \<longleftrightarrow> (\<exists>it. hc_heap c a = Some it \<and> hmin (crc FSEED (ci_key it)) = b)"
    and "hc_heap c a = Some it \<Longrightarrow> a < hc_next c \<and> item_ok crc it"
    and "hc_heap c a = Some it \<Longrightarrow> hc_heap c x = Some jt \<Longrightarrow> ci_key it = ci_key jt \<Longrightarrow> a = x"
  using assms unfolding table_ok_def by blast+

lemma table_ok_upd:
  assumes "table_ok crc hmin c" and "hc_heap c a = Some it" and "same_id it it'"
  shows "table_ok crc hmin (upd_item c a it')"
proof (rule table_okI)
  note t = table_okD [OF assms(1)]
  have key: "ci_key it' = ci_key it" using assms(3) by (simp add: same_id_def)
  fix x y b jt kt
  show "distinct (hc_table (upd_item c a it') b)" using t(1) by simp
  show "x \<in> set (hc_table (upd_item c a it') b) \<longleftrightarrow>
      (\<exists>jt. hc_heap (upd_item c a it') x = Some jt \<and> hmin (crc FSEED (ci_key jt)) = b)"
    using t(2) [of x b] assms(2) key by (cases "x = a") simp_all
  assume x: "hc_heap (upd_item c a it') x = Some jt"
  show "x < hc_next (upd_item c a it') \<and> item_ok crc jt"
    using t(3) [of x] t(3) [OF assms(2)] x assms(3) by (cases "x = a") (auto simp: item_ok_def same_id_def)
  obtain jo where jo: "hc_heap c x = Some jo" "ci_key jo = ci_key jt" using x assms(2) key by (cases "x = a") auto
  assume y: "hc_heap (upd_item c a it') y = Some kt" "ci_key jt = ci_key kt"
  obtain ko where "hc_heap c y = Some ko" "ci_key ko = ci_key kt" using y assms(2) key by (cases "y = a") auto
  then show "x = y" using t(4) [OF jo(1)] jo(2) y(2) by simp
qed

text \<open>A change of the item of one key leaves what the cache holds under the other keys.\<close>

lemma abs_change:
  assumes "table_ok crc hmin c" and "table_ok crc hmin c'" and "hc_heap c' = (hc_heap c)(a := new)"
    and "\<And>it. hc_heap c a = Some it \<Longrightarrow> ci_key it = k" and "\<And>it. new = Some it \<Longrightarrow> ci_key it = k"
    and "cache_abs crc hmin c' k = y"
  shows "cache_abs crc hmin c' = (cache_abs crc hmin c)(k := y)"
proof
  fix key
  have "cache_abs crc hmin c' key = Some x \<longleftrightarrow> cache_abs crc hmin c key = Some x" if "key \<noteq> k" for x
  proof -
    have "hc_heap c' b = Some it \<and> ci_key it = key \<longleftrightarrow> hc_heap c b = Some it \<and> ci_key it = key" for b it
      using assms(3-5) that by (cases "b = a") auto
    then show ?thesis unfolding abs_Some_iff [OF assms(1)] abs_Some_iff [OF assms(2)] by blast
  qed
  then have "cache_abs crc hmin c' key = cache_abs crc hmin c key" if "key \<noteq> k"
    using that by (cases "cache_abs crc hmin c key"; cases "cache_abs crc hmin c' key") auto
  then show "cache_abs crc hmin c' key = ((cache_abs crc hmin c)(k := y)) key" using assms(6) by simp
qed

lemma abs_upd:
  assumes "table_ok crc hmin c" and "hc_heap c a = Some it" and "same_id it it'"
  shows "cache_abs crc hmin (upd_item c a it') =
           (cache_abs crc hmin c)(ci_key it \<mapsto> (ci_value it', is_weak_del it' \<and> is_evicted it'))"
proof -
  have key: "ci_key it' = ci_key it" using assms(3) by (simp add: same_id_def)
  note t' = table_ok_upd [OF assms]
  have "cache_abs crc hmin (upd_item c a it') (ci_key it) = Some (ci_value it', is_weak_del it' \<and> is_evicted it')"
    using abs_present [OF t', where a = a and it = it'] key by simp
  then show ?thesis using assms(2) key by (intro abs_change [OF assms(1) t', of a "Some it'"]) simp_all
qed

lemma children_upd:
  assumes "hc_heap c a = Some it" and "ci_key it' = ci_key it" and "ci_parent it' = ci_parent it"
  shows "children (upd_item c a it') = children c"
  using assms by (auto simp: fun_eq_iff children_def)

lemma dirs_okD:
  assumes "dirs_ok c" and "hc_heap c p = Some pit" and "ci_dcache pit = Some d"
  shows "kv_bst (dc_root d)" and "kv_map (dc_root d) k = Some a \<longleftrightarrow> children c p k a"
  using assms unfolding dirs_ok_def by blast+

lemma dirs_okE:
  assumes "dirs_ok c" and "children c p k a"
  obtains pit d where "p \<noteq> a" "hc_heap c p = Some pit" "ci_dcache pit = Some d"
  using assms unfolding dirs_ok_def by blast

lemma dirs_okI:
  assumes "\<And>p pit d. hc_heap c p = Some pit \<Longrightarrow> ci_dcache pit = Some d \<Longrightarrow>
      kv_bst (dc_root d) \<and> (\<forall>k a. kv_map (dc_root d) k = Some a \<longleftrightarrow> children c p k a)"
    and "\<And>p k a. children c p k a \<Longrightarrow> p \<noteq> a \<and> (\<exists>pit d. hc_heap c p = Some pit \<and> ci_dcache pit = Some d)"
  shows "dirs_ok c"
  unfolding dirs_ok_def using assms by blast

lemma dirs_ok_upd:
  assumes "dirs_ok c" and "hc_heap c a = Some it" and "ci_key it' = ci_key it" and "ci_parent it' = ci_parent it"
    and "map_option dc_root (ci_dcache it') = map_option dc_root (ci_dcache it)"
  shows "dirs_ok (upd_item c a it')"
proof (rule dirs_okI, unfold children_upd [OF assms(2-4)])
  fix p pit d assume "hc_heap (upd_item c a it') p = Some pit" "ci_dcache pit = Some d"
  then obtain pit' d' where p: "hc_heap c p = Some pit'" "ci_dcache pit' = Some d'" "dc_root d' = dc_root d"
    using assms(2,5) by (cases "p = a"; cases "ci_dcache it") auto
  show "kv_bst (dc_root d) \<and> (\<forall>k b. kv_map (dc_root d) k = Some b \<longleftrightarrow> children c p k b)"
    using dirs_okD [OF assms(1) p(1,2)] p(3) by simp
next
  fix p k b assume "children c p k b"
  with assms(1) obtain pit d where "p \<noteq> b" "hc_heap c p = Some pit" "ci_dcache pit = Some d" by (rule dirs_okE)
  then show "p \<noteq> b \<and> (\<exists>pit d. hc_heap (upd_item c a it') p = Some pit \<and> ci_dcache pit = Some d)"
    using assms(2,5) by (cases "p = a") auto
qed

lemma cache_inv_upd:
  assumes "cache_inv crc hmin c" and "hc_heap c a = Some it" and "same_id it it'" and "ci_parent it' = ci_parent it"
    and "map_option dc_root (ci_dcache it') = map_option dc_root (ci_dcache it)"
  shows "cache_inv crc hmin (upd_item c a it')"
  using assms table_ok_upd dirs_ok_upd by (simp add: cache_inv_def same_id_def)

lemma upd_same_abs:
  assumes "cache_inv crc hmin c" and "hc_heap c a = Some it" and "same_id it it'"
    and "ci_value it' = ci_value it" and "is_weak_del it' \<and> is_evicted it' \<longleftrightarrow> is_weak_del it \<and> is_evicted it"
  shows "cache_abs crc hmin (upd_item c a it') = cache_abs crc hmin c"
proof -
  have t: "table_ok crc hmin c" using assms(1) by (simp add: cache_inv_def)
  show ?thesis using abs_upd [OF t assms(2,3)] abs_present [OF t assms(2)] assms(4,5) by (simp add: fun_upd_idem)
qed

subsection \<open>Lookup\<close>

definition meta_buf :: "dbt \<Rightarrow> bool" where
  "meta_buf vl \<longleftrightarrow> unat (d_size vl) = INODE_SIZE \<and> (\<exists>b. d_data vl = Some b \<and> length b = INODE_SIZE)"

lemma item_value_ok:
  assumes "meta_buf vl" and "length (ci_value it) = INODE_SIZE"
  shows "item_value it vl = Some (vl\<lparr>d_data := Some (ci_value it)\<rparr>)"
  using assms by (auto simp: item_value_def meta_buf_def get_at_def put_at_def)

lemma cache_get_ok:
  assumes "cache_inv crc hmin c" and "length key < 65536" and "meta_buf vl"
  shows "case cache_abs crc hmin c key of
      None \<Rightarrow> lightfs_ht_cache_get crc hmin c key vl = Some (DB_NOTFOUND, vl, c)
    | Some (v, evicted) \<Rightarrow> length v = INODE_SIZE \<and>
        (\<exists>c'. lightfs_ht_cache_get crc hmin c key vl =
                Some (if evicted then DB_FOUND_FREE else 0, vl\<lparr>d_data := Some v\<rparr>, c')
            \<and> cache_inv crc hmin c' \<and> cache_abs crc hmin c' = (cache_abs crc hmin c)(key \<mapsto> (v, False)))"
proof -
  have t: "table_ok crc hmin c" using assms(1) by (simp add: cache_inv_def)
  from t assms(2) show ?thesis
  proof (cases rule: find_cases)
    case absent
    then show ?thesis using abs_absent [OF t absent(2)] by (simp add: lightfs_ht_cache_get_def)
  next
    case (present a it)
    have len: "length (ci_value it) = INODE_SIZE" using t present(2) by (auto simp: table_ok_def item_ok_def)
    let ?it' = "it\<lparr>is_weak_del := False, is_evicted := False\<rparr>"
    have upd: "cache_inv crc hmin (upd_item c a ?it')"
      "cache_abs crc hmin (upd_item c a ?it') = (cache_abs crc hmin c)(key \<mapsto> (ci_value it, False))"
      using cache_inv_upd [OF assms(1) present(2), of ?it'] abs_upd [OF t present(2), of ?it'] present(3)
      by (simp_all add: same_id_def)
    show ?thesis
      using abs_present [OF t present(2)] present upd assms(1) len item_value_ok [OF assms(3) len]
      by (auto simp: lightfs_ht_cache_get_def fun_upd_idem)
  qed
qed

subsection \<open>Eviction mark\<close>

lemma dcache_invalidate_ok:
  assumes "cache_inv crc hmin c" and "hc_heap c a = Some it"
  shows "\<exists>r c'. lightfs_dcache_invalidate c a = Some (r, c') \<and> cache_inv crc hmin c'
           \<and> hc_heap c' a = Some it \<and> cache_abs crc hmin c' = cache_abs crc hmin c"
proof (cases "ci_parent it")
  case None
  then show ?thesis using assms by (simp add: lightfs_dcache_invalidate_def)
next
  case (Some p)
  then have "children c p (ci_key it) a" using assms(2) by (simp add: children_def)
  then obtain pit d where p: "p \<noteq> a" "hc_heap c p = Some pit" "ci_dcache pit = Some d"
    using assms(1) unfolding cache_inv_def dirs_ok_def by blast
  let ?pit = "pit\<lparr>ci_dcache := Some (d\<lparr>is_full := True, dc_e_child := dc_e_child d + 1\<rparr>)\<rparr>"
  have "cache_inv crc hmin (upd_item c p ?pit)" "cache_abs crc hmin (upd_item c p ?pit) = cache_abs crc hmin c"
    using cache_inv_upd [OF assms(1) p(2), of ?pit] upd_same_abs [OF assms(1) p(2), of ?pit] p(3)
    by (simp_all add: same_id_def)
  then show ?thesis using Some p assms(2) by (simp add: lightfs_dcache_invalidate_def)
qed

lemma cache_weak_del_ok:
  assumes "cache_inv crc hmin c" and "length key < 65536"
  shows "case cache_abs crc hmin c key of
      None \<Rightarrow> lightfs_ht_cache_weak_del crc hmin c key = Some (DB_NOTFOUND, c)
    | Some (v, _) \<Rightarrow> \<exists>c'. lightfs_ht_cache_weak_del crc hmin c key = Some (0, c')
            \<and> cache_inv crc hmin c' \<and> cache_abs crc hmin c' = (cache_abs crc hmin c)(key \<mapsto> (v, True))"
proof -
  have t: "table_ok crc hmin c" using assms(1) by (simp add: cache_inv_def)
  from t assms(2) show ?thesis
  proof (cases rule: find_cases)
    case absent
    then show ?thesis using abs_absent [OF t absent(2)] by (simp add: lightfs_ht_cache_weak_del_def)
  next
    case (present a it)
    obtain r c1 where c1: "lightfs_dcache_invalidate c a = Some (r, c1)" "cache_inv crc hmin c1"
        "hc_heap c1 a = Some it" "cache_abs crc hmin c1 = cache_abs crc hmin c"
      using dcache_invalidate_ok [OF assms(1) present(2)] by blast
    let ?it' = "it\<lparr>is_weak_del := True, is_evicted := True\<rparr>"
    have "cache_inv crc hmin (upd_item c1 a ?it')"
      "cache_abs crc hmin (upd_item c1 a ?it') = (cache_abs crc hmin c)(key \<mapsto> (ci_value it, True))"
      using cache_inv_upd [OF c1(2,3), of ?it'] abs_upd [OF _ c1(3), of crc hmin ?it'] c1(2,4) present(3)
      by (simp_all add: same_id_def cache_inv_def)
    then show ?thesis using abs_present [OF t present(2)] present c1
      by (simp add: lightfs_ht_cache_weak_del_def)
  qed
qed

subsection \<open>Insertion\<close>

lemma dcache_link_eq:
  assumes "\<forall>x\<in>set_tree t. length (fst x) < 65536" and "length (fst node) < 65536"
  shows "dcache_link t node = rb_link t node"
  using assms by (induction t) (simp_all add: Let_def lightfs_keycmp_env)

lemma dcache_insert_ok:
  assumes "kv_bst (dc_root d)" and "kv_map (dc_root d) k = None" and "rb_lib_ok ic er"
    and "\<forall>x\<in>set_tree (dc_root d). length (fst x) < 65536" and "length k < 65536"
  shows "\<exists>t. lightfs_dcache_insert ic d (k, a) = (0, d\<lparr>dc_root := t\<rparr>) \<and> kv_bst t \<and> kv_map t = (kv_map (dc_root d))(k \<mapsto> a)"
proof -
  have ic: "\<And>j s. inorder (ic j s) = inorder s" using assms(3) by (simp add: rb_lib_ok_def)
  have "lightfs_dcache_insert ic d (k, a) =
      (fst (rb_kv_insert ic (dc_root d) (k, a)), d\<lparr>dc_root := snd (rb_kv_insert ic (dc_root d) (k, a))\<rparr>)"
    using assms(4,5) by (simp add: lightfs_dcache_insert_def dcache_link_eq rb_kv_insert_def split: option.splits)
  then show ?thesis
    using rb_insert_ok [of "dc_root d" k ic a, OF assms(1,2) ic]
    by (intro exI [of _ "snd (rb_kv_insert ic (dc_root d) (k, a))"]) simp
qed

text \<open>A fresh item, not yet in a directory.\<close>

definition add_item :: "ht_cache \<Rightarrow> nat \<Rightarrow> ht_cache_item \<Rightarrow> ht_cache" where
  "add_item c hkey it =
     c\<lparr>hc_heap := (hc_heap c)(hc_next c := Some it), hc_next := hc_next c + 1,
       hc_table := (hc_table c)(hkey := hc_next c # hc_table c hkey)\<rparr>"

lemma add_item_sel [simp]:
  "hc_heap (add_item c hkey it) = (hc_heap c)(hc_next c \<mapsto> it)" "hc_next (add_item c hkey it) = hc_next c + 1"
  "hc_table (add_item c hkey it) = (hc_table c)(hkey := hc_next c # hc_table c hkey)"
  by (simp_all add: add_item_def)

lemma next_free: "table_ok crc hmin c \<Longrightarrow> hc_heap c (hc_next c) = None"
  using table_okD(3) [of crc hmin c "hc_next c"] by (cases "hc_heap c (hc_next c)") auto

lemma table_ok_add:
  assumes "table_ok crc hmin c" and "\<And>a it. hc_heap c a = Some it \<Longrightarrow> ci_key it \<noteq> ci_key new" and "item_ok crc new"
  shows "table_ok crc hmin (add_item c (hmin (crc FSEED (ci_key new))) new)" (is "table_ok _ _ ?c")
proof (rule table_okI)
  note t = table_okD [OF assms(1)]
  have free: "hc_heap c (hc_next c) = None" by (rule next_free [OF assms(1)])
  then have notin: "hc_next c \<notin> set (hc_table c b)" for b using t(2) by simp
  fix x y b it jt
  show "distinct (hc_table ?c b)" using t(1) notin by simp
  show "x \<in> set (hc_table ?c b) \<longleftrightarrow> (\<exists>it. hc_heap ?c x = Some it \<and> hmin (crc FSEED (ci_key it)) = b)"
    using t(2) [of x b] notin by (cases "x = hc_next c") auto
  assume x: "hc_heap ?c x = Some it"
  show "x < hc_next ?c \<and> item_ok crc it"
    using t(3) [of x it] x assms(3) by (cases "x = hc_next c") auto
  assume y: "hc_heap ?c y = Some jt" "ci_key it = ci_key jt"
  show "x = y"
  proof (cases "x = hc_next c \<or> y = hc_next c")
    case True
    then show ?thesis using x y assms(2) [of x it] assms(2) [of y jt] by (cases "x = y") auto
  next
    case False
    then show ?thesis using x y t(4) [of x it y jt] by simp
  qed
qed

lemma dirs_ok_add:
  assumes "table_ok crc hmin c" and "dirs_ok c" and "ci_parent new = None"
    and "\<And>d. ci_dcache new = Some d \<Longrightarrow> dc_root d = \<langle>\<rangle>"
  shows "dirs_ok (add_item c hkey new)"
proof -
  have free: "hc_heap c (hc_next c) = None" by (rule next_free [OF assms(1)])
  have ch: "children (add_item c hkey new) = children c"
    using free assms(3) by (auto simp: fun_eq_iff children_def)
  have none: "\<not> children c (hc_next c) k a" for k a using free by (auto elim: dirs_okE [OF assms(2)])
  show ?thesis
  proof (rule dirs_okI, unfold ch)
    fix p pit d assume *: "hc_heap (add_item c hkey new) p = Some pit" "ci_dcache pit = Some d"
    show "kv_bst (dc_root d) \<and> (\<forall>k a. kv_map (dc_root d) k = Some a \<longleftrightarrow> children c p k a)"
    proof (cases "p = hc_next c")
      case True
      then show ?thesis using * assms(4) none by (simp add: kv_map_def)
    next
      case False
      then show ?thesis using * dirs_okD [OF assms(2), of p pit d] by simp
    qed
  next
    fix p k a assume "children c p k a"
    with assms(2) obtain pit d where "p \<noteq> a" "hc_heap c p = Some pit" "ci_dcache pit = Some d" by (rule dirs_okE)
    then show "p \<noteq> a \<and> (\<exists>pit d. hc_heap (add_item c hkey new) p = Some pit \<and> ci_dcache pit = Some d)"
      using free by auto
  qed
qed

lemma abs_add:
  assumes "table_ok crc hmin c" and "\<And>a it. hc_heap c a = Some it \<Longrightarrow> ci_key it \<noteq> ci_key new" and "item_ok crc new"
  shows "cache_abs crc hmin (add_item c (hmin (crc FSEED (ci_key new))) new) =
           (cache_abs crc hmin c)(ci_key new \<mapsto> (ci_value new, is_weak_del new \<and> is_evicted new))"
proof -
  let ?c = "add_item c (hmin (crc FSEED (ci_key new))) new"
  have t': "table_ok crc hmin ?c" by (rule table_ok_add [OF assms])
  have "cache_abs crc hmin ?c (ci_key new) = Some (ci_value new, is_weak_del new \<and> is_evicted new)"
    using abs_present [OF t', where a = "hc_next c" and it = new] by simp
  then show ?thesis
    using next_free [OF assms(1)] by (intro abs_change [OF assms(1) t', of "hc_next c" "Some new"]) simp_all
qed

text \<open>Hanging an item into the tree of a directory.\<close>

lemma tree_keys_short:
  assumes "cache_inv crc hmin c" and "hc_heap c p = Some pit" and "ci_dcache pit = Some d"
  shows "\<forall>x\<in>set_tree (dc_root d). length (fst x) < 65536"
proof
  fix x assume x: "x \<in> set_tree (dc_root d)"
  have "dirs_ok c" using assms(1) by (simp add: cache_inv_def)
  note d = dirs_okD [OF this assms(2,3)]
  have "kv_map (dc_root d) (fst x) = Some (snd x)" using kv_map_Some_iff [OF d(1)] x by simp
  then have "children c p (fst x) (snd x)" by (simp add: d(2))
  then show "length (fst x) < 65536"
    using assms(1) table_okD(3) [of crc hmin c] by (fastforce simp: children_def cache_inv_def item_ok_def)
qed

lemma dirs_ok_link:
  assumes dirs: "dirs_ok c" and a: "hc_heap c a = Some it" "ci_parent it = None"
    and p: "hc_heap c p = Some pit" "ci_dcache pit = Some d" "p \<noteq> a"
    and fresh: "kv_map (dc_root d) (ci_key it) = None"
    and tr: "kv_bst tr" "kv_map tr = (kv_map (dc_root d))(ci_key it \<mapsto> a)"
  defines "pit' \<equiv> pit\<lparr>ci_dcache := Some (d\<lparr>dc_root := tr, dc_child := dc_child d + 1\<rparr>)\<rparr>"
    and "it' \<equiv> it\<lparr>ci_parent := Some p\<rparr>"
  shows "dirs_ok (upd_item (upd_item c p pit') a it')" (is "dirs_ok ?c")
proof (rule dirs_okI)
  have ch: "children ?c q k x \<longleftrightarrow> children c q k x \<or> (q = p \<and> k = ci_key it \<and> x = a)" for q k x
    using a p by (auto simp: children_def it'_def pit'_def)
  {
    fix q qit e assume q: "hc_heap ?c q = Some qit" "ci_dcache qit = Some e"
    show "kv_bst (dc_root e) \<and> (\<forall>k x. kv_map (dc_root e) k = Some x \<longleftrightarrow> children ?c q k x)"
    proof (cases "q = p")
      case True
      then have "dc_root e = tr" using q p(3) by (auto simp: pit'_def)
      then show ?thesis using tr fresh True by (auto simp: ch dirs_okD(2) [OF dirs p(1,2), symmetric])
    next
      case False
      then have "\<exists>qit. hc_heap c q = Some qit \<and> ci_dcache qit = Some e"
        using q a(1) by (cases "q = a") (auto simp: it'_def)
      then show ?thesis using dirs_okD [OF dirs] False by (auto simp: ch)
    qed
  next
    fix q k x assume "children ?c q k x"
    then have "q \<noteq> x \<and> (\<exists>qit e. hc_heap c q = Some qit \<and> ci_dcache qit = Some e)"
      unfolding ch using p by (auto elim: dirs_okE [OF dirs])
    then show "q \<noteq> x \<and> (\<exists>qit e. hc_heap ?c q = Some qit \<and> ci_dcache qit = Some e)"
      using a(1) p(1) by (auto simp: it'_def pit'_def)
  }
qed

lemma key_fresh:
  assumes "cache_inv crc hmin c" and "hc_heap c a = Some it" "ci_parent it = None"
    and "hc_heap c p = Some pit" "ci_dcache pit = Some d"
  shows "kv_map (dc_root d) (ci_key it) = None"
proof (rule ccontr)
  have t: "table_ok crc hmin c" and dirs: "dirs_ok c" using assms(1) by (simp_all add: cache_inv_def)
  assume "kv_map (dc_root d) (ci_key it) \<noteq> None"
  then obtain x where "children c p (ci_key it) x" using dirs_okD(2) [OF dirs assms(4,5)] by auto
  then obtain xt where "hc_heap c x = Some xt" "ci_key xt = ci_key it" "ci_parent xt = Some p"
    by (auto simp: children_def)
  with table_okD(4) [OF t, of x xt a it] assms(2,3) show False by auto
qed

lemma dir_link_ok:
  assumes inv: "cache_inv crc hmin c" and lib: "rb_lib_ok ic er"
    and a: "hc_heap c a = Some it" "ci_parent it = None"
    and p: "hc_heap c p = Some pit" "ci_dcache pit = Some d" "p \<noteq> a" and dk: "length dk < 65536" "ci_key pit = dk"
  shows "\<exists>c'. dir_link ic (crc SSEED dk) dk a c p = Some c' \<and> cache_inv crc hmin c'
           \<and> cache_abs crc hmin c' = cache_abs crc hmin c
           \<and> (\<forall>x y. hc_heap c x = Some y \<longrightarrow> (\<exists>y'. hc_heap c' x = Some y' \<and> same_id y y'))"
proof -
  have t: "table_ok crc hmin c" and dirs: "dirs_ok c" using inv by (simp_all add: cache_inv_def)
  have it: "item_ok crc it" and pit: "item_ok crc pit" using table_okD(3) [OF t] a(1) p(1) by blast+
  note fresh = key_fresh [OF inv a p(1,2)]
  obtain tr where tr: "lightfs_dcache_insert ic d (ci_key it, a) = (0, d\<lparr>dc_root := tr\<rparr>)" "kv_bst tr"
      "kv_map tr = (kv_map (dc_root d))(ci_key it \<mapsto> a)"
    using dcache_insert_ok [OF dirs_okD(1) [OF dirs p(1,2)] fresh lib tree_keys_short [OF inv p(1,2)]] it
    by (auto simp: item_ok_def)
  define pit' where "pit' = pit\<lparr>ci_dcache := Some (d\<lparr>dc_root := tr, dc_child := dc_child d + 1\<rparr>)\<rparr>"
  define it' where "it' = it\<lparr>ci_parent := Some p\<rparr>"
  define c1 where "c1 = upd_item c p pit'"
  have ids: "same_id pit pit'" "same_id it it'" by (simp_all add: pit'_def it'_def same_id_def)
  have run: "dir_link ic (crc SSEED dk) dk a c p = Some (upd_item c1 a it')"
    using a p dk tr(1) pit same_key_eq [of dk dk]
    by (simp add: dir_link_def item_ok_def c1_def pit'_def it'_def)
  have a1: "hc_heap c1 a = Some it" using a(1) p(3) by (simp add: c1_def)
  have t1: "table_ok crc hmin c1" unfolding c1_def by (rule table_ok_upd [OF t p(1) ids(1)])
  have t2: "table_ok crc hmin (upd_item c1 a it')" by (rule table_ok_upd [OF t1 a1 ids(2)])
  have abs1: "cache_abs crc hmin c1 = cache_abs crc hmin c"
    unfolding c1_def by (rule upd_same_abs [OF inv p(1) ids(1)]) (simp_all add: pit'_def)
  have abs: "cache_abs crc hmin (upd_item c1 a it') = cache_abs crc hmin c"
    using abs_upd [OF t1 a1 ids(2)] abs_present [OF t1 a1] by (simp add: it'_def abs1 fun_upd_idem)
  have dirs2: "dirs_ok (upd_item c1 a it')"
    unfolding c1_def pit'_def it'_def by (rule dirs_ok_link [OF dirs a p fresh tr(2,3)])
  have "\<exists>y'. hc_heap (upd_item c1 a it') x = Some y' \<and> same_id y y'" if "hc_heap c x = Some y" for x y
    using that a p ids by (auto simp: c1_def same_id_def)
  then show ?thesis using run t2 dirs2 abs by (auto simp: cache_inv_def)
qed

lemma dir_link_skip:
  assumes "\<forall>x\<in>set xs. \<exists>it. hc_heap c x = Some it \<and> item_ok crc it \<and> ci_key it \<noteq> dk" and "length dk < 65536"
  shows "foldM (dir_link ic fp dk a) c xs = Some c"
  using assms(1)
proof (induction xs)
  case (Cons x xs)
  then obtain it where it: "hc_heap c x = Some it" "length (ci_key it) < 65536" "ci_key it \<noteq> dk"
    by (auto simp: item_ok_def)
  then have "dir_link ic fp dk a c x = Some c" using same_key_eq [OF it(2) assms(2)] by (simp add: dir_link_def)
  with Cons show ?case by simp
qed simp

lemma dir_loop_ok:
  assumes inv: "cache_inv crc hmin c" and lib: "rb_lib_ok ic er"
    and a: "hc_heap c a = Some it" "ci_parent it = None" and dk: "ci_key it \<noteq> dk" "length dk < 65536"
    and dir: "\<And>p pit. hc_heap c p = Some pit \<Longrightarrow> ci_key pit = dk \<Longrightarrow> ci_dcache pit \<noteq> None"
  shows "\<exists>c'. foldM (dir_link ic (crc SSEED dk) dk a) c (hc_table c (hmin (crc FSEED dk))) = Some c'
           \<and> cache_inv crc hmin c' \<and> cache_abs crc hmin c' = cache_abs crc hmin c"
proof -
  let ?xs = "hc_table c (hmin (crc FSEED dk))"
  have t: "table_ok crc hmin c" using inv by (simp add: cache_inv_def)
  have all: "\<exists>xt. hc_heap c x = Some xt \<and> item_ok crc xt" if "x \<in> set ?xs" for x
    using table_okD(2,3) [OF t] that by blast
  show ?thesis
  proof (cases "\<exists>p pit. hc_heap c p = Some pit \<and> ci_key pit = dk")
    case False
    have "\<forall>x\<in>set ?xs. \<exists>xt. hc_heap c x = Some xt \<and> item_ok crc xt \<and> ci_key xt \<noteq> dk"
      using all False by blast
    from dir_link_skip [OF this dk(2)] show ?thesis using inv by simp
  next
    case True
    then obtain p pit where p: "hc_heap c p = Some pit" "ci_key pit = dk" by blast
    then obtain d where d: "ci_dcache pit = Some d" using dir by blast
    have "p \<in> set ?xs" using table_okD(2) [OF t, of p] p by blast
    then obtain ys zs where xs: "?xs = ys @ p # zs" by (meson split_list)
    have pa: "p \<noteq> a" using p a(1) dk(1) by auto
    have other: "\<exists>xt. hc_heap c x = Some xt \<and> item_ok crc xt \<and> ci_key xt \<noteq> dk" if "x \<in> set ys \<union> set zs" for x
    proof -
      have "x \<noteq> p" using table_okD(1) [OF t, of "hmin (crc FSEED dk)"] that unfolding xs by auto
      moreover have "x \<in> set ?xs" using that unfolding xs by auto
      then obtain xt where "hc_heap c x = Some xt" "item_ok crc xt" using all by blast
      ultimately show ?thesis using table_okD(4) [OF t, of x xt p pit] p by blast
    qed
    obtain c' where c': "dir_link ic (crc SSEED dk) dk a c p = Some c'" "cache_inv crc hmin c'"
        "cache_abs crc hmin c' = cache_abs crc hmin c"
        "\<And>x y. hc_heap c x = Some y \<Longrightarrow> \<exists>y'. hc_heap c' x = Some y' \<and> same_id y y'"
      using dir_link_ok [OF inv lib a p(1) d pa dk(2) p(2)] by blast
    have "\<forall>x\<in>set zs. \<exists>xt. hc_heap c' x = Some xt \<and> item_ok crc xt \<and> ci_key xt \<noteq> dk"
      using other c'(4) by (fastforce simp: same_id_def item_ok_def)
    then show ?thesis
      using dir_link_skip [of ys c crc dk] dir_link_skip [of zs c' crc dk] other dk(2) c'(1-3)
      by (simp add: xs foldM_append)
  qed
qed

text \<open>The directory an item is put into is not the item, and cached as a directory if it is cached.\<close>

definition dir_arg_ok :: "ht_cache \<Rightarrow> byte list \<Rightarrow> byte list option \<Rightarrow> bool" where
  "dir_arg_ok c key dir_key \<longleftrightarrow>
     (\<forall>dk. dir_key = Some dk \<longrightarrow> dk \<noteq> key \<and> length dk < 65536
        \<and> (\<forall>p pit. hc_heap c p = Some pit \<longrightarrow> ci_key pit = dk \<longrightarrow> ci_dcache pit \<noteq> None))"

lemma item_init_ok:
  assumes "memory_ok km" and "length vl = INODE_SIZE"
  shows "lightfs_ht_cache_item_init km key vl =
    Some \<lparr>ci_key = key, ci_value = vl, is_weak_del = False, is_evicted = False, ci_fp = 0, ci_dcache = None, ci_parent = None\<rparr>"
proof -
  obtain v where "km INODE_SIZE = Some v" "length v = INODE_SIZE" using assms(1) by (auto simp: memory_ok_def)
  then show ?thesis using assms by (simp add: lightfs_ht_cache_item_init_def put_at_def)
qed

lemma cache_put_new:
  assumes inv: "cache_inv crc hmin c" and lib: "rb_lib_ok ic er" and mem: "memory_ok km"
    and key: "length key < 65536" and vl: "length vl = INODE_SIZE" and dir: "dir_arg_ok c key dir_key"
    and absent: "ht_find crc hmin c key = Some None" "\<And>a it. hc_heap c a = Some it \<Longrightarrow> ci_key it \<noteq> key"
  shows "\<exists>c'. lightfs_ht_cache_put crc hmin km ic c key vl dir_key is_dir = Some (0, c')
           \<and> cache_inv crc hmin c' \<and> cache_abs crc hmin c' = (cache_abs crc hmin c)(key \<mapsto> (vl, False))"
proof -
  have t: "table_ok crc hmin c" and dirs: "dirs_ok c" using inv by (simp_all add: cache_inv_def)
  define new where "new = \<lparr>ci_key = key, ci_value = vl, is_weak_del = False, is_evicted = False, ci_fp = crc SSEED key,
    ci_dcache = (if is_dir then Some \<lparr>is_full = True, dc_root = \<langle>\<rangle>, dc_child = 0, dc_e_child = 0\<rparr> else None),
    ci_parent = None\<rparr>"
  define c1 where "c1 = add_item c (hmin (crc FSEED key)) new"
  have new: "item_ok crc new" "ci_key new = key" using key vl by (simp_all add: new_def item_ok_def)
  have run: "lightfs_ht_cache_put crc hmin km ic c key vl dir_key is_dir =
      map_option (Pair 0) (case dir_key of None \<Rightarrow> Some c1
        | Some dk \<Rightarrow> foldM (dir_link ic (crc SSEED dk) dk (hc_next c)) c1 (hc_table c1 (hmin (crc FSEED dk))))"
    using absent(1)
    by (simp add: lightfs_ht_cache_put_def lightfs_ht_func_def lightfs_dcache_entry_init_def Let_def
        item_init_ok [OF mem vl] c1_def add_item_def new_def map_conv_bind_option comp_def split: option.splits)
  have t1: "table_ok crc hmin c1" and abs1: "cache_abs crc hmin c1 = (cache_abs crc hmin c)(key \<mapsto> (vl, False))"
    using table_ok_add [OF t, of new] abs_add [OF t, of new] absent(2) new by (simp_all add: c1_def new_def)
  have "dirs_ok c1" unfolding c1_def by (rule dirs_ok_add [OF t dirs]) (auto simp: new_def split: if_splits)
  with t1 have inv1: "cache_inv crc hmin c1" by (simp add: cache_inv_def)
  show ?thesis
  proof (cases dir_key)
    case None
    then show ?thesis using run inv1 abs1 by simp
  next
    case (Some dk)
    have heap: "hc_heap c1 (hc_next c) = Some new" "ci_parent new = None" by (simp_all add: c1_def new_def)
    have dk: "ci_key new \<noteq> dk" "length dk < 65536" using dir Some new(2) by (auto simp: dir_arg_ok_def)
    have "ci_dcache pit \<noteq> None" if "hc_heap c1 p = Some pit" "ci_key pit = dk" for p pit
      using that dir Some dk new(2) by (cases "p = hc_next c") (auto simp: c1_def dir_arg_ok_def)
    from dir_loop_ok [OF inv1 lib heap dk this] show ?thesis using run Some abs1 by auto
  qed
qed

lemma cache_put_ok:
  assumes inv: "cache_inv crc hmin c" and lib: "rb_lib_ok ic er" and mem: "memory_ok km"
    and key: "length key < 65536" and vl: "length vl = INODE_SIZE" and dir: "dir_arg_ok c key dir_key"
  shows "\<exists>c'. lightfs_ht_cache_put crc hmin km ic c key vl dir_key is_dir = Some (0, c')
           \<and> cache_inv crc hmin c' \<and> cache_abs crc hmin c' = (cache_abs crc hmin c)(key \<mapsto> (vl, False))"
proof -
  have t: "table_ok crc hmin c" using inv by (simp add: cache_inv_def)
  from t key show ?thesis
  proof (cases rule: find_cases)
    case absent
    then show ?thesis by (rule cache_put_new [OF assms])
  next
    case (present a it)
    have len: "length (ci_value it) = INODE_SIZE" using table_okD(3) [OF t present(2)] by (simp add: item_ok_def)
    let ?it' = "it\<lparr>ci_value := vl, is_weak_del := False, is_evicted := False\<rparr>"
    have id: "same_id it ?it'" using len vl by (simp add: same_id_def)
    have "poke 0 vl (ci_value it) = Some vl" using len vl by (simp add: put_at_def)
    then show ?thesis
      using present cache_inv_upd [OF inv present(2) id] abs_upd [OF t present(2) id]
      by (simp add: lightfs_ht_cache_put_def)
  qed
qed

subsection \<open>Removal\<close>

definition del_item :: "ht_cache \<Rightarrow> nat \<Rightarrow> nat \<Rightarrow> ht_cache" where
  "del_item c hkey a =
     c\<lparr>hc_heap := (hc_heap c)(a := None), hc_table := (hc_table c)(hkey := filter (\<lambda>b. b \<noteq> a) (hc_table c hkey))\<rparr>"

lemma del_item_sel [simp]:
  "hc_heap (del_item c hkey a) = (hc_heap c)(a := None)" "hc_next (del_item c hkey a) = hc_next c"
  "hc_table (del_item c hkey a) = (hc_table c)(hkey := filter (\<lambda>b. b \<noteq> a) (hc_table c hkey))"
  by (simp_all add: del_item_def)

lemma table_ok_del:
  assumes "table_ok crc hmin c" and "hc_heap c a = Some it"
  shows "table_ok crc hmin (del_item c (hmin (crc FSEED (ci_key it))) a)"
proof (rule table_okI, goal_cases)
  case (2 x b)
  then show ?case
    using table_okD(2) [OF assms(1), of x b] table_okD(2) [OF assms(1), of a b] assms(2) by (cases "x = a") auto
qed (use table_okD(1,3,4) [OF assms(1)] in \<open>auto split: if_splits\<close>)

lemma abs_del:
  assumes "table_ok crc hmin c" and "hc_heap c a = Some it"
  shows "cache_abs crc hmin (del_item c (hmin (crc FSEED (ci_key it))) a) = (cache_abs crc hmin c)(ci_key it := None)"
proof (rule abs_change [OF assms(1) table_ok_del [OF assms], of a None])
  show "cache_abs crc hmin (del_item c (hmin (crc FSEED (ci_key it))) a) (ci_key it) = None"
    using table_okD(4) [OF assms(1) _ assms(2)]
    by (intro abs_absent [OF table_ok_del [OF assms]]) (auto split: if_splits)
qed (use assms(2) in simp_all)

lemma dirs_ok_del:
  assumes dirs: "dirs_ok c" and a: "hc_heap c a = Some it" "ci_parent it = Some p" and none: "\<And>k x. \<not> children c a k x"
    and p: "hc_heap c p = Some pit" "ci_dcache pit = Some d"
    and tr: "kv_bst tr" "kv_map tr = (kv_map (dc_root d))(ci_key it := None)"
  shows "dirs_ok (del_item (upd_item c p (pit\<lparr>ci_dcache := Some (d\<lparr>dc_root := tr\<rparr>)\<rparr>)) hkey a)" (is "dirs_ok ?c")
proof (rule dirs_okI)
  have mine: "children c p (ci_key it) a" using a by (simp add: children_def)
  with dirs have pa: "p \<noteq> a" by (auto elim: dirs_okE)
  have ch: "children ?c q k x \<longleftrightarrow> children c q k x \<and> x \<noteq> a" for q k x
    using p by (auto simp: children_def)
  have uniq: "k = ci_key it \<longleftrightarrow> x = a" if "children c p k x" for k x
  proof
    assume "k = ci_key it"
    then show "x = a" using that mine dirs_okD(2) [OF dirs p] by (metis option.inject)
  next
    assume "x = a"
    then show "k = ci_key it" using that a by (auto simp: children_def)
  qed
  {
    fix q qit e assume q: "hc_heap ?c q = Some qit" "ci_dcache qit = Some e"
    then have qa: "q \<noteq> a" by auto
    show "kv_bst (dc_root e) \<and> (\<forall>k x. kv_map (dc_root e) k = Some x \<longleftrightarrow> children ?c q k x)"
    proof (cases "q = p")
      case True
      then have "dc_root e = tr" using q qa by auto
      then show ?thesis using tr True uniq by (auto simp: ch dirs_okD(2) [OF dirs p])
    next
      case False
      then have o: "hc_heap c q = Some qit" using q qa by simp
      have "x \<noteq> a" if "children c q k x" for k x using that a False by (auto simp: children_def)
      then show ?thesis using dirs_okD [OF dirs o q(2)] by (auto simp: ch)
    qed
  next
    fix q k x assume "children ?c q k x"
    then have c: "children c q k x" by (simp add: ch)
    with dirs obtain qit e where "q \<noteq> x" "hc_heap c q = Some qit" "ci_dcache qit = Some e" by (rule dirs_okE)
    moreover have "q \<noteq> a" using c none by blast
    ultimately show "q \<noteq> x \<and> (\<exists>qit e. hc_heap ?c q = Some qit \<and> ci_dcache qit = Some e)" using p by auto
  }
qed

text \<open>What the caller must know before it removes an item: it is in a directory, and nothing is in it.\<close>

definition removable :: "ht_cache \<Rightarrow> byte list \<Rightarrow> bool" where
  "removable c key \<longleftrightarrow>
     (\<forall>a it. hc_heap c a = Some it \<longrightarrow> ci_key it = key \<longrightarrow> ci_parent it \<noteq> None \<and> (\<forall>k x. \<not> children c a k x))"

lemma cache_del_ok:
  assumes inv: "cache_inv crc hmin c" and lib: "rb_lib_ok ic er" and key: "length key < 65536" and rem: "removable c key"
  shows "if cache_abs crc hmin c key = None
         then lightfs_ht_cache_del crc hmin er c key is_dir = Some (DB_NOTFOUND, c)
         else \<exists>c'. lightfs_ht_cache_del crc hmin er c key is_dir = Some (0, c')
              \<and> cache_inv crc hmin c' \<and> cache_abs crc hmin c' = (cache_abs crc hmin c)(key := None)"
proof -
  have t: "table_ok crc hmin c" and dirs: "dirs_ok c" using inv by (simp_all add: cache_inv_def)
  from t key show ?thesis
  proof (cases rule: find_cases)
    case absent
    then show ?thesis using abs_absent [OF t absent(2)] by (simp add: lightfs_ht_cache_del_def)
  next
    case (present a it)
    obtain p where par: "ci_parent it = Some p" and none: "\<And>k x. \<not> children c a k x"
      using rem present(2,3) unfolding removable_def by blast
    have "children c p key a" using present par by (simp add: children_def)
    with dirs obtain pit d where p: "p \<noteq> a" "hc_heap c p = Some pit" "ci_dcache pit = Some d" by (rule dirs_okE)
    define pit' where "pit' = pit\<lparr>ci_dcache := Some (d\<lparr>dc_root := er key (dc_root d)\<rparr>)\<rparr>"
    define c1 where "c1 = upd_item c p pit'"
    have bst: "kv_bst (dc_root d)" by (rule dirs_okD(1) [OF dirs p(2,3)])
    have "inorder (er key (dc_root d)) = filter (\<lambda>x. fst x \<noteq> key) (inorder (dc_root d))"
      using lib kv_bst_distinct [OF bst] by (simp add: rb_lib_ok_def)
    note tr = rb_erase_ok [of "dc_root d" er key, OF bst this]
    have id: "same_id pit pit'" by (simp add: same_id_def pit'_def)
    have t1: "table_ok crc hmin c1" unfolding c1_def by (rule table_ok_upd [OF t p(2) id])
    have a1: "hc_heap c1 a = Some it" using p(1) present(2) by (simp add: c1_def)
    have abs1: "cache_abs crc hmin c1 = cache_abs crc hmin c"
      unfolding c1_def by (rule upd_same_abs [OF inv p(2) id]) (simp_all add: pit'_def)
    define c2 where "c2 = del_item c1 (hmin (crc FSEED key)) a"
    have "dirs_ok c2" unfolding c2_def c1_def pit'_def
      using dirs_ok_del [OF dirs present(2) par none p(2,3), of "er key (dc_root d)"] tr present(3) by simp
    then have inv2: "cache_inv crc hmin c2" using table_ok_del [OF t1 a1] present(3) by (simp add: c2_def cache_inv_def)
    have abs2: "cache_abs crc hmin c2 = (cache_abs crc hmin c)(key := None)"
      using abs_del [OF t1 a1] present(3) abs1 by (simp add: c2_def)
    have "lightfs_ht_cache_del crc hmin er c key is_dir = Some (0, c2)"
      using present par p
      by (simp add: lightfs_ht_cache_del_def lightfs_dcache_del_def lightfs_ht_func_def Let_def upd_item_def
          c2_def c1_def del_item_def pit'_def fun_upd_twist)
    then show ?thesis using inv2 abs2 abs_present [OF t present(2)] present(3) by simp
  qed
qed

section \<open>The cache as a map\<close>

text \<open>
  Property C29: the metadata cache behaves as a map from keys to values with an eviction
  mark, whatever the checksums collide on.  A lookup returns the value of the key, with
  \<open>DB_FOUND_FREE\<close> and clearing the mark if it was marked, or \<open>DB_NOTFOUND\<close>; an insertion
  replaces value and mark; a weak removal marks; a removal removes.  None of them changes
  another key, and each keeps the table, the fingerprints and the directory trees
  consistent.
\<close>

theorem cache_refines_map:
  assumes "cache_inv crc hmin c" and "rb_lib_ok ic er" and "memory_ok km" and "length key < 65536"
  defines "m \<equiv> cache_abs crc hmin c"
  shows "(\<forall>vl. meta_buf vl \<longrightarrow>
            (case m key of
               None \<Rightarrow> lightfs_ht_cache_get crc hmin c key vl = Some (DB_NOTFOUND, vl, c)
             | Some (v, evicted) \<Rightarrow> \<exists>c'. lightfs_ht_cache_get crc hmin c key vl =
                   Some (if evicted then DB_FOUND_FREE else 0, vl\<lparr>d_data := Some v\<rparr>, c')
                 \<and> cache_inv crc hmin c' \<and> cache_abs crc hmin c' = m(key \<mapsto> (v, False))))
       \<and> (\<forall>v dir_key is_dir. length v = INODE_SIZE \<longrightarrow> dir_arg_ok c key dir_key \<longrightarrow>
            (\<exists>c'. lightfs_ht_cache_put crc hmin km ic c key v dir_key is_dir = Some (0, c')
               \<and> cache_inv crc hmin c' \<and> cache_abs crc hmin c' = m(key \<mapsto> (v, False))))
       \<and> (case m key of
            None \<Rightarrow> lightfs_ht_cache_weak_del crc hmin c key = Some (DB_NOTFOUND, c)
          | Some (v, _) \<Rightarrow> \<exists>c'. lightfs_ht_cache_weak_del crc hmin c key = Some (0, c')
               \<and> cache_inv crc hmin c' \<and> cache_abs crc hmin c' = m(key \<mapsto> (v, True)))
       \<and> (\<forall>is_dir. removable c key \<longrightarrow>
            (if m key = None then lightfs_ht_cache_del crc hmin er c key is_dir = Some (DB_NOTFOUND, c)
             else \<exists>c'. lightfs_ht_cache_del crc hmin er c key is_dir = Some (0, c')
               \<and> cache_inv crc hmin c' \<and> cache_abs crc hmin c' = m(key := None)))"
proof (unfold m_def, intro conjI allI impI, goal_cases)
  case (1 vl)
  then show ?case using cache_get_ok [OF assms(1,4)] by (auto split: option.splits prod.splits)
next
  case (2 v dir_key is_dir)
  then show ?case by (rule cache_put_ok [OF assms(1-4)])
next
  case 3
  then show ?case by (rule cache_weak_del_ok [OF assms(1,4)])
next
  case (4 is_dir)
  then show ?case by (rule cache_del_ok [OF assms(1,2,4)])
qed

theorem cache_refines_map_witness:
  "\<exists>c'. lightfs_ht_cache_put (\<lambda>seed _. seed) unat (\<lambda>n. Some (replicate n 0)) (\<lambda>_ t. t)
     (snd (lightfs_cache_create False)) [109, 1] (replicate 152 5) None True = Some (0, c')
   \<and> cache_abs (\<lambda>seed _. seed) unat c' = [[109, 1] \<mapsto> (replicate 152 5, False)]"
proof -
  let ?c = "snd (lightfs_cache_create False)"
  have "cache_abs (\<lambda>seed _. seed) unat ?c = Map.empty"
    by (auto simp: cache_abs_def ht_find_def lightfs_cache_create_def)
  then show ?thesis
    using cache_refines_map [of "\<lambda>seed _. seed" unat ?c, OF cache_inv_create spine_lib_ok memory_ok_zeros, of "[109, 1]",
        THEN conjunct2, THEN conjunct1, rule_format, of "replicate 152 5" None True]
    by (auto simp: INODE_SIZE_def dir_arg_ok_def)
qed

text \<open>
  Removing an item that was cached without its directory faults:
  \<open>lightfs_dcache_del\<close> follows the parent pointer, which only an insertion that finds the
  directory in the cache sets.  Marking the same item evicted is safe.
\<close>

lemma cache_del_orphan:
  assumes "cache_inv crc hmin c" and "hc_heap c a = Some it" and "ci_parent it = None"
  shows "lightfs_ht_cache_del crc hmin er c (ci_key it) is_dir = None
       \<and> lightfs_ht_cache_weak_del crc hmin c (ci_key it) \<noteq> None"
proof -
  have t: "table_ok crc hmin c" using assms(1) by (simp add: cache_inv_def)
  have len: "length (ci_key it) < 65536" using table_okD(3) [OF t assms(2)] by (simp add: item_ok_def)
  have "cache_abs crc hmin c (ci_key it) \<noteq> None" using abs_present [OF t assms(2)] by simp
  then have "lightfs_ht_cache_weak_del crc hmin c (ci_key it) \<noteq> None"
    using cache_weak_del_ok [OF assms(1) len] by (auto split: option.splits)
  then show ?thesis
    using find_present [OF t assms(2)] assms(2,3) by (simp add: lightfs_ht_cache_del_def lightfs_dcache_del_def)
qed

end
