(* ===== verification/Kevin_Bstore.thy ===== *)
theory Kevin_Bstore
  imports Kevin_Pages Kevin_Cache Kevin_Hdlr
begin

text \<open>
  The block store of \<open>kevinfs/lightfs_bstore.c\<close> over the transactions, the metadata cache
  and the device, with the wrappers of \<open>kevinfs/lightfs_db.c\<close>.  What the functions take from
  the kernel is collected in a record.  A read is the whole call here: the device is a
  function from keys to answers, and Property \<open>read_path_equivalent\<close> shows that submitting
  the request, receiving that answer and finishing is this call.  Metadata is the 152 bytes
  of \<open>struct lightfs_metadata\<close>.
\<close>

record kern =
  k_km :: "nat \<Rightarrow> byte list option"
  k_crc :: "u32 \<Rightarrow> byte list \<Rightarrow> u32"
  k_hmin :: "u32 \<Rightarrow> nat"
  k_ic :: "byte list \<Rightarrow> nat kvtree \<Rightarrow> nat kvtree"
  k_er :: "byte list \<Rightarrow> nat kvtree \<Rightarrow> nat kvtree"

definition kern_ok :: "kern \<Rightarrow> bool" where
  "kern_ok k \<longleftrightarrow> memory_ok (k_km k) \<and> rb_lib_ok (k_ic k) (k_er k)"

type_synonym device = "byte list \<Rightarrow> byte list"

section \<open>Databases\<close>

text \<open>
  A read of the inode size takes that many bytes whatever the device reports; the answer
  in the buffer is taken to be that long.
\<close>

definition lightfs_db_get :: "device \<Rightarrow> dbt \<Rightarrow> dbt \<Rightarrow> (int \<times> dbt) option" where
  "lightfs_db_get dev key vl =
     (let ans = dev (dbt_bytes key) in
      if ans = [] then Some (DB_NOTFOUND, vl)
      else do {
        obj \<leftarrow> d_data vl;
        v \<leftarrow> peek 0 (if unat (d_size vl) = 152 then 152 else length ans) ans;
        obj \<leftarrow> poke 0 v obj;
        Some (0, vl\<lparr>d_data := Some obj\<rparr>) })"

definition lightfs_db_put ::
    "(nat \<Rightarrow> byte list option) \<Rightarrow> nat \<Rightarrow> txn \<Rightarrow> dbt \<Rightarrow> ins_value \<Rightarrow> lightfs_req_type \<Rightarrow> (int \<times> txn) option" where
  "lightfs_db_put km db t key vl ty = lightfs_bstore_txn_insert km db t key (Some vl) 0 ty"

definition lightfs_db_seq_put ::
    "(nat \<Rightarrow> byte list option) \<Rightarrow> nat \<Rightarrow> txn \<Rightarrow> dbt \<Rightarrow> ins_value \<Rightarrow> lightfs_req_type \<Rightarrow> (int \<times> txn) option" where
  "lightfs_db_seq_put km db t key vl ty = lightfs_bstore_txn_insert km db t key (Some vl) 0 ty"

definition lightfs_db_update ::
    "(nat \<Rightarrow> byte list option) \<Rightarrow> nat \<Rightarrow> txn \<Rightarrow> dbt \<Rightarrow> ins_value \<Rightarrow> u64 \<Rightarrow> lightfs_req_type \<Rightarrow> (int \<times> txn) option" where
  "lightfs_db_update km db t key vl offset ty = lightfs_bstore_txn_insert km db t key (Some vl) (ucast offset) ty"

definition lightfs_db_del ::
    "(nat \<Rightarrow> byte list option) \<Rightarrow> nat \<Rightarrow> txn \<Rightarrow> dbt \<Rightarrow> lightfs_req_type \<Rightarrow> (int \<times> txn) option" where
  "lightfs_db_del km db t key ty = lightfs_bstore_txn_insert km db t key None 1 ty"

definition lightfs_db_del_multi ::
    "(nat \<Rightarrow> byte list option) \<Rightarrow> nat \<Rightarrow> txn \<Rightarrow> dbt option \<Rightarrow> u32 \<Rightarrow> lightfs_req_type \<Rightarrow> (int \<times> txn) option" where
  "lightfs_db_del_multi km db t min_key key_cnt ty =
     (case min_key of
        None \<Rightarrow> Some (0, t)
      | Some key \<Rightarrow> lightfs_bstore_txn_insert km db t key None key_cnt ty)"

text \<open>
  A multi-block read hands the pages of the answer to its callback and leaves the last
  block number in the key; an empty answer is not found.
\<close>

definition lightfs_db_get_multi ::
    "device \<Rightarrow> dbt \<Rightarrow> u32 \<Rightarrow> (byte list \<Rightarrow> byte list \<Rightarrow> 'e \<Rightarrow> 'e option) \<Rightarrow> 'e \<Rightarrow> (int \<times> dbt \<times> 'e) option" where
  "lightfs_db_get_multi dev key cnt f extra =
     (let ans = dev (dbt_bytes key) in
      if ans = [] then Some (DB_NOTFOUND, key, extra)
      else do {
        k \<leftarrow> d_data key;
        block_num \<leftarrow> lightfs_data_key_get_blocknum k (unat (d_size key));
        (k, extra) \<leftarrow> get_multi_pages f (unat cnt) 0 k (unat (d_size key)) block_num ans extra;
        Some (0, key\<lparr>d_data := Some k\<rparr>, extra) })"

section \<open>The inode number in the metadata database\<close>

definition LIGHTFS_ROOT_INO :: u64 where "LIGHTFS_ROOT_INO = 0"

definition ino_key :: "byte list" where
  "ino_key = [109, 0, 0, 0, 0, 0, 0, 0, 0, 110, 101, 120, 116, 95, 105, 110, 111, 0]"

text \<open>The number is read and written in the memory of the caller's variable.\<close>

definition ino_of :: "dbt \<Rightarrow> u64" where
  "ino_of d = (case d_data d of None \<Rightarrow> 0 | Some b \<Rightarrow> load_le b)"

definition lightfs_bstore_get_ino ::
    "kern \<Rightarrow> device \<Rightarrow> nat \<Rightarrow> txn \<Rightarrow> u64 \<Rightarrow> (int \<times> u64 \<times> txn) option" where
  "lightfs_bstore_get_ino k dev meta_db t ino = do {
     let ino_key_dbt = dbt_setup ino_key (length ino_key);
     (ret, ino_val_dbt) \<leftarrow> lightfs_db_get dev ino_key_dbt (dbt_setup (store_le 8 ino) 8);
     if ret = DB_NOTFOUND then do {
       let ino = LIGHTFS_ROOT_INO + 1;
       (ret, t) \<leftarrow> lightfs_db_put (k_km k) meta_db t ino_key_dbt (IV_dbt (dbt_setup (store_le 8 ino) 8)) LIGHTFS_META_SET;
       Some (ret, ino, t) }
     else Some (ret, ino_of ino_val_dbt, t) }"

definition lightfs_bstore_update_ino ::
    "kern \<Rightarrow> device \<Rightarrow> nat \<Rightarrow> txn \<Rightarrow> u64 \<Rightarrow> u64 \<Rightarrow> (int \<times> txn) option" where
  "lightfs_bstore_update_ino k dev meta_db t ino curr_ino = do {
     let ino_key_dbt = dbt_setup ino_key (length ino_key);
     (ret, ino_val_dbt) \<leftarrow> lightfs_db_get dev ino_key_dbt (dbt_setup (store_le 8 curr_ino) 8);
     if ret = 0 \<and> ino > ino_of ino_val_dbt then
       lightfs_db_put (k_km k) meta_db t ino_key_dbt (IV_dbt (dbt_setup (store_le 8 ino) 8)) LIGHTFS_META_SET
     else Some (ret, t) }"

section \<open>Updating a block in place\<close>

text \<open>
  The value after an update at \<open>offset\<close>, a signed 64-bit number, with \<open>buf\<close>; an empty \<open>buf\<close>
  truncates.  Sizes are 64-bit numbers that wrap around.  The first component is the result of
  the callback, the second the value given to \<open>set_val\<close>.
\<close>

definition env_update_cb ::
    "(nat \<Rightarrow> byte list option) \<Rightarrow> byte list option \<Rightarrow> u64 \<Rightarrow> byte list \<Rightarrow> (int \<times> dbt option) option" where
  "env_update_cb km old_val offset buf =
     (if length buf = 0 then
        (case old_val of
           None \<Rightarrow> Some (0, Some ((dbt_setup [] 0)\<lparr>d_data := None\<rparr>))
         | Some old \<Rightarrow>
             let newval_size = (if of_nat (length old) < offset then of_nat (length old) else offset) in
             case km (unat newval_size) of
               None \<Rightarrow> Some (- ENOMEM, None)
             | Some newval \<Rightarrow> do {
                 src \<leftarrow> peek 0 (unat newval_size) old;
                 newval \<leftarrow> poke 0 src newval;
                 Some (0, Some (dbt_setup newval (unat newval_size))) })
      else
        let newval_size = offset + of_nat (length buf);
            newval_size = (case old_val of
                             None \<Rightarrow> newval_size
                           | Some old \<Rightarrow> if of_nat (length old) > newval_size then of_nat (length old) else newval_size) in
        case km (unat newval_size) of
          None \<Rightarrow> Some (- ENOMEM, None)
        | Some newval \<Rightarrow> do {
            newval \<leftarrow> (case old_val of
                         Some old \<Rightarrow> do {
                           newval \<leftarrow> poke 0 old newval;
                           if sint offset > int (length old)
                           then poke (length old) (replicate (unat (offset - of_nat (length old))) 0) newval
                           else Some newval }
                       | None \<Rightarrow> if sint offset > 0 then poke 0 (replicate (unat offset) 0) newval else Some newval);
            if sint offset < 0 then None
            else do {
              newval \<leftarrow> poke (unat offset) buf newval;
              Some (0, Some (dbt_setup newval (unat newval_size))) } })"

section \<open>Metadata\<close>

definition meta_value :: "byte list \<Rightarrow> dbt" where
  "meta_value metadata = dbt_setup metadata INODE_SIZE"

text \<open>The bytes of the caller's structure after a read into it.\<close>

definition meta_of :: "dbt \<Rightarrow> byte list" where
  "meta_of d = (case d_data d of None \<Rightarrow> [] | Some b \<Rightarrow> b)"

definition lightfs_bstore_meta_get_tmp ::
    "kern \<Rightarrow> ht_cache \<Rightarrow> dbt \<Rightarrow> byte list \<Rightarrow> (int \<times> byte list \<times> ht_cache) option" where
  "lightfs_bstore_meta_get_tmp k c meta_dbt metadata = do {
     (ret, vl, c) \<leftarrow> lightfs_ht_cache_get (k_crc k) (k_hmin k) c (dbt_bytes meta_dbt) (meta_value metadata);
     if ret = DB_NOTFOUND then Some (- ENOENT, meta_of vl, c)
     else if ret = DB_FOUND_FREE then Some (0, meta_of vl, c)
     else Some (ret, meta_of vl, c) }"

definition lightfs_bstore_meta_get ::
    "kern \<Rightarrow> device \<Rightarrow> ht_cache \<Rightarrow> dbt \<Rightarrow> byte list \<Rightarrow> (int \<times> byte list \<times> ht_cache) option" where
  "lightfs_bstore_meta_get k dev c meta_dbt metadata = do {
     (ret, vl, c) \<leftarrow> lightfs_ht_cache_get (k_crc k) (k_hmin k) c (dbt_bytes meta_dbt) (meta_value metadata);
     if ret = DB_NOTFOUND then Some (- ENOENT, meta_of vl, c)
     else if ret = DB_FOUND_FREE then do {
       (ret, tmp) \<leftarrow> lightfs_db_get dev meta_dbt (meta_value (meta_of vl));
       Some (ret, meta_of tmp, c) }
     else Some (ret, meta_of vl, c) }"

definition lightfs_bstore_meta_put_tmp ::
    "kern \<Rightarrow> nat \<Rightarrow> txn \<Rightarrow> dbt \<Rightarrow> byte list \<Rightarrow> (int \<times> txn) option" where
  "lightfs_bstore_meta_put_tmp k meta_db t meta_dbt metadata =
     lightfs_db_put (k_km k) meta_db t meta_dbt (IV_dbt (meta_value metadata)) LIGHTFS_META_SET"

text \<open>The directory is given by the key in its inode, if there is one.\<close>

definition lightfs_bstore_meta_put_cache ::
    "kern \<Rightarrow> ht_cache \<Rightarrow> dbt \<Rightarrow> byte list \<Rightarrow> dbt option \<Rightarrow> bool \<Rightarrow> (int \<times> ht_cache) option" where
  "lightfs_bstore_meta_put_cache k c meta_dbt metadata dir_inode is_dir =
     lightfs_ht_cache_put (k_crc k) (k_hmin k) (k_km k) (k_ic k) c (dbt_bytes meta_dbt)
       (dbt_bytes (meta_value metadata)) (map_option dbt_bytes dir_inode) is_dir"

definition lightfs_bstore_meta_put ::
    "kern \<Rightarrow> nat \<Rightarrow> ht_cache \<Rightarrow> txn \<Rightarrow> dbt \<Rightarrow> byte list \<Rightarrow> dbt option \<Rightarrow> bool \<Rightarrow> (int \<times> ht_cache \<times> txn) option" where
  "lightfs_bstore_meta_put k meta_db c t meta_dbt metadata dir_inode is_dir = do {
     (_, c) \<leftarrow> lightfs_ht_cache_put (k_crc k) (k_hmin k) (k_km k) (k_ic k) c (dbt_bytes meta_dbt)
                (dbt_bytes (meta_value metadata)) (map_option dbt_bytes dir_inode) is_dir;
     (ret, t) \<leftarrow> lightfs_db_put (k_km k) meta_db t meta_dbt (IV_dbt (meta_value metadata)) LIGHTFS_META_SET;
     Some (ret, c, t) }"

definition lightfs_bstore_meta_del ::
    "kern \<Rightarrow> nat \<Rightarrow> ht_cache \<Rightarrow> txn \<Rightarrow> dbt \<Rightarrow> bool \<Rightarrow> bool \<Rightarrow> (int \<times> ht_cache \<times> txn) option" where
  "lightfs_bstore_meta_del k meta_db c t meta_dbt weak is_dir =
     (if weak then do {
        (_, c) \<leftarrow> lightfs_ht_cache_weak_del (k_crc k) (k_hmin k) c (dbt_bytes meta_dbt);
        Some (0, c, t) }
      else do {
        (_, c) \<leftarrow> lightfs_ht_cache_del (k_crc k) (k_hmin k) (k_er k) c (dbt_bytes meta_dbt) is_dir;
        (ret, t) \<leftarrow> lightfs_db_del (k_km k) meta_db t meta_dbt LIGHTFS_META_DEL;
        Some (ret, c, t) })"

section \<open>Listing a directory\<close>

text \<open>Fields of \<open>struct lightfs_metadata\<close>, in the layout of the x86-64 ABI.\<close>

definition LIGHTFS_METADATA_TYPE_NORMAL :: u32 where "LIGHTFS_METADATA_TYPE_NORMAL = 0"
definition LIGHTFS_METADATA_TYPE_REDIRECT :: u32 where "LIGHTFS_METADATA_TYPE_REDIRECT = 1"

definition md_type :: "byte list \<Rightarrow> u32" where "md_type m = load_le (get_at 0 4 m)"
definition md_u_ino :: "byte list \<Rightarrow> u64" where "md_u_ino m = load_le (get_at 8 8 m)"
definition md_st_ino :: "byte list \<Rightarrow> u64" where "md_st_ino m = load_le (get_at 16 8 m)"
definition md_st_mode :: "byte list \<Rightarrow> u32" where "md_st_mode m = load_le (get_at 32 4 m)"

definition META_KEY_MAX_LEN :: nat where "META_KEY_MAX_LEN = 4105"

text \<open>\<open>DT_UNKNOWN\<close> and its likes are the numbers of \<open>include/linux/fs.h\<close>.\<close>

definition filetype_table :: "nat list" where
  "filetype_table = [0, 1, 2, 0, 4, 0, 6, 0, 8, 0, 10, 0, 12, 0, 14, 0]"

definition lightfs_get_type :: "u32 \<Rightarrow> nat" where
  "lightfs_get_type mode = filetype_table ! unat (drop_bit 12 mode AND 15)"

text \<open>
  \<open>pos\<close> of the context of an open directory: a pointer to the buffer with the key
  where the listing stopped, or a code.  \<open>pos\<close> of the file is a number or, after the
  first call, a pointer to that context.
\<close>

datatype rd_pos = RD_key "byte list" | RD_code nat
datatype file_pos = Pos nat | Pos_ctx

record readdir_ctx =
  rd_cursor :: dcache_dbc_wrap
  rd_pos :: rd_pos
  rd_emit_cnt :: u32

record rd_state =
  rs_cache :: ht_cache
  rs_wrap :: dcache_dbc_wrap
  rs_child :: dbt
  rs_meta :: "byte list"
  rs_cnt :: u32

text \<open>
  The loop over the entries.  \<open>emit\<close> is \<open>dir_emit\<close> with the state of the caller; the
  result holds \<open>ret\<close>, \<open>r\<close>, whether the loop met a key of another directory, and the
  states.  \<open>n\<close> bounds the rounds.
\<close>

fun readdir_loop ::
    "kern \<Rightarrow> device \<Rightarrow> u64 \<Rightarrow> (byte list \<Rightarrow> u64 \<Rightarrow> nat \<Rightarrow> 'x \<Rightarrow> int \<times> 'x) \<Rightarrow> nat \<Rightarrow> int \<Rightarrow> int \<Rightarrow> rd_state \<Rightarrow> 'x \<Rightarrow>
     (int \<times> int \<times> bool \<times> rd_state \<times> 'x) option" where
  "readdir_loop k dev ino emit 0 ret r s x = None"
| "readdir_loop k dev ino emit (Suc n) ret r s x =
     (if r \<noteq> 0 then Some (ret, r, False, s, x)
      else do {
        key \<leftarrow> d_data (rs_child s);
        mine \<leftarrow> meta_key_is_child_of_ino key ino;
        if \<not> mine then Some (ret, r, True, s, x)
        else do {
          (r, s) \<leftarrow> (if md_type (rs_meta s) = LIGHTFS_METADATA_TYPE_REDIRECT then do {
                      ind \<leftarrow> copy_meta_dbt_from_ino (dbt_setup_buf (replicate SIZEOF_ROOT_META_KEY 0) SIZEOF_ROOT_META_KEY)
                               (md_u_ino (rs_meta s));
                      (r, m, c) \<leftarrow> lightfs_bstore_meta_get k dev (rs_cache s) ind (rs_meta s);
                      Some (r, s\<lparr>rs_cache := c, rs_meta := m\<rparr>) }
                    else Some (r, s));
          if r \<noteq> 0 then Some (ret, r, False, s, x)
          else do {
            name \<leftarrow> read_path key;
            let (ret, x) = emit name (md_st_ino (rs_meta s)) (lightfs_get_type (md_st_mode (rs_meta s))) x;
            if ret = 0 then Some (ret, r, False, s, x)
            else do {
              let s = s\<lparr>rs_cnt := rs_cnt s + 1\<rparr>;
              (r, w, child, vl) \<leftarrow> lightfs_dcache_c_get (k_crc k) (k_hmin k) (rs_cache s) (rs_wrap s) (rs_child s)
                                  (meta_value (rs_meta s)) DB_NEXT;
              readdir_loop k dev ino emit n ret r (s\<lparr>rs_wrap := w, rs_child := child, rs_meta := meta_of vl\<rparr>) x } } } })"

text \<open>The key buffer of the call: a fresh one at the start, the kept one later.\<close>

definition readdir_child :: "kern \<Rightarrow> u64 \<Rightarrow> dbt \<Rightarrow> file_pos \<Rightarrow> readdir_ctx \<Rightarrow> (int + dbt) option" where
  "readdir_child k ino meta_dbt fpos ctx =
     (if fpos = Pos 2 then
        (case k_km k META_KEY_MAX_LEN of
           None \<Rightarrow> Some (Inl (- ENOMEM))
         | Some buf \<Rightarrow> do {
             child \<leftarrow> copy_child_meta_dbt_from_inode (dbt_setup_buf buf META_KEY_MAX_LEN) ino [1];
             data \<leftarrow> d_data child;
             src \<leftarrow> peek 0 (unat (d_size meta_dbt)) (meta_of meta_dbt);
             data \<leftarrow> poke 0 src data;
             Some (Inr (child\<lparr>d_data := Some data, d_size := d_size meta_dbt\<rparr>)) })
      else (case rd_pos ctx of
              RD_code _ \<Rightarrow> None
            | RD_key buf \<Rightarrow> do {
                path \<leftarrow> read_path buf;
                Some (Inr ((dbt_setup buf META_KEY_MAX_LEN)\<lparr>d_size := of_nat (length path + 1 + PATH_POS)\<rparr>)) }))"

definition lightfs_bstore_meta_readdir ::
    "kern \<Rightarrow> device \<Rightarrow> ht_cache \<Rightarrow> u64 \<Rightarrow> dbt \<Rightarrow> byte list \<Rightarrow> (byte list \<Rightarrow> u64 \<Rightarrow> nat \<Rightarrow> 'x \<Rightarrow> int \<times> 'x) \<Rightarrow> file_pos \<Rightarrow>
     readdir_ctx \<Rightarrow> 'x \<Rightarrow> (int \<times> file_pos \<times> readdir_ctx \<times> ht_cache \<times> 'x) option" where
  "lightfs_bstore_meta_readdir k dev c ino meta_dbt meta emit fpos ctx x = do {
     ch \<leftarrow> readdir_child k ino meta_dbt fpos ctx;
     case ch of
       Inl err \<Rightarrow> Some (err, fpos, ctx, c, x)
     | Inr child \<Rightarrow> do {
         (r, w, child, vl) \<leftarrow> lightfs_dcache_c_get (k_crc k) (k_hmin k) c (rd_cursor ctx) child (meta_value meta) DB_SET_RANGE;
         (ret, r, other, s, x) \<leftarrow> readdir_loop k dev ino emit (hc_next c + 2) 0 r
            \<lparr>rs_cache = c, rs_wrap = w, rs_child = child, rs_meta = meta_of vl, rs_cnt = rd_emit_cnt ctx\<rparr> x;
         let (pos, r) = (if r = DB_NOTFOUND then (RD_code 3, 0)
                         else if r = DB_NOTFOUND_DCACHE_FULL then (RD_code 0, 0)
                         else if r = DB_NOTFOUND_DCACHE then (if rs_cnt s \<noteq> 0 then RD_code 1 else RD_code 2, 0)
                         else if other then (RD_code 3, r)
                         else (RD_key (meta_of (rs_child s)), r));
         Some (if r \<noteq> 0 then r else ret, Pos_ctx,
               ctx\<lparr>rd_cursor := rs_wrap s, rd_pos := pos, rd_emit_cnt := rs_cnt s\<rparr>, rs_cache s, x) } }"

section \<open>Data blocks\<close>

definition lightfs_bstore_get :: "device \<Rightarrow> dbt \<Rightarrow> byte list \<Rightarrow> u64 \<Rightarrow> (int \<times> byte list) option" where
  "lightfs_bstore_get dev data_dbt buf i_size = do {
     let block_off = block_get_off_by_position i_size;
     let block_num = lightfs_get_block_num_by_size i_size;
     (ret, vl) \<leftarrow> lightfs_db_get dev data_dbt (dbt_setup buf PAGE_SIZE);
     let buf = meta_of vl;
     data_key \<leftarrow> d_data data_dbt;
     buf \<leftarrow> (if ret = 0 then do {
               bn \<leftarrow> lightfs_data_key_get_blocknum data_key (unat (d_size data_dbt));
               if bn = block_num \<and> block_off \<noteq> 0 \<and> unat block_off < PAGE_SIZE
               then poke (unat block_off) (replicate (PAGE_SIZE - unat block_off) 0) buf
               else Some buf }
             else Some buf);
     Some (if ret = DB_NOTFOUND then - ENOENT else ret, buf) }"

definition lightfs_bstore_put ::
    "kern \<Rightarrow> nat \<Rightarrow> dbt \<Rightarrow> txn \<Rightarrow> byte list \<Rightarrow> nat \<Rightarrow> bool \<Rightarrow> (int \<times> txn) option" where
  "lightfs_bstore_put k data_db data_dbt t buf len is_seq =
     (let vl = IV_dbt (dbt_setup buf len) in
      if is_seq then lightfs_db_seq_put (k_km k) data_db t data_dbt vl LIGHTFS_DATA_SEQ_SET
      else lightfs_db_put (k_km k) data_db t data_dbt vl LIGHTFS_DATA_SET)"

definition lightfs_bstore_put_page ::
    "kern \<Rightarrow> nat \<Rightarrow> dbt \<Rightarrow> txn \<Rightarrow> nat \<Rightarrow> nat \<Rightarrow> (int \<times> txn) option" where
  "lightfs_bstore_put_page k data_db data_dbt t p len =
     lightfs_db_put (k_km k) data_db t data_dbt (IV_page p (of_nat len)) LIGHTFS_DATA_SET_WB"

definition lightfs_bstore_update ::
    "kern \<Rightarrow> nat \<Rightarrow> dbt \<Rightarrow> txn \<Rightarrow> byte list \<Rightarrow> nat \<Rightarrow> u64 \<Rightarrow> (int \<times> txn) option" where
  "lightfs_bstore_update k data_db data_dbt t buf sz offset =
     lightfs_db_update (k_km k) data_db t data_dbt (IV_dbt (dbt_setup buf sz)) offset LIGHTFS_DATA_UPDATE"

text \<open>
  Deleting the blocks of a file from \<open>current\<close> on, at most \<open>LIGHTFS_TXN_LIMIT\<close> per
  transaction.  An insertion returns no error; where it faults, so does the loop.
\<close>

function trunc_loop ::
    "kern \<Rightarrow> nat \<Rightarrow> u64 \<Rightarrow> u64 \<Rightarrow> u64 \<Rightarrow> dbt \<Rightarrow> int \<Rightarrow> hdlr \<Rightarrow> (int \<times> hdlr) option" where
  "trunc_loop k data_db ino rest current key ret h =
     (if rest = 0 then Some (ret, h)
      else do {
        let (t, _) = lightfs_bstore_txn_begin TXN_MAY_WRITE (h_txn_id h);
        let cnt = (if rest > of_nat LIGHTFS_TXN_LIMIT then of_nat LIGHTFS_TXN_LIMIT else rest);
        (ret, t) \<leftarrow> lightfs_db_del_multi (k_km k) data_db t (Some key) (ucast cnt) LIGHTFS_DATA_DEL_MULTI;
        let h = (if ret \<noteq> 0 then h else lightfs_bstore_txn_commit h t 0);
        let current = current + cnt;
        key \<leftarrow> copy_data_dbt_from_inode key ino current;
        trunc_loop k data_db ino (rest - cnt) current key ret h })"
  by pat_completeness auto

termination
proof (relation "measure (\<lambda>(k, data_db, ino, rest, _). unat rest)", goal_cases)
  case 1
  then show ?case by simp
next
  case (2 k data_db ino rest)
  then show ?case
    by (auto simp: LIGHTFS_TXN_LIMIT_def word_less_nat_alt unat_sub_if_size unat_gt_0 [symmetric] split: if_splits)
qed

declare trunc_loop.simps [simp del]

definition lightfs_bstore_trunc ::
    "kern \<Rightarrow> nat \<Rightarrow> u64 \<Rightarrow> u64 \<Rightarrow> u64 \<Rightarrow> u64 \<Rightarrow> hdlr \<Rightarrow> (int \<times> hdlr) option" where
  "lightfs_bstore_trunc k data_db ino i_size new_num offset h =
     (let last_block_num = lightfs_get_block_num_by_size i_size;
          current_block_num = (if new_num = 0 then 1 else if offset = 0 then new_num else new_num + 1) in
      do {
        a \<leftarrow> alloc_data_dbt_from_inode (k_km k) ino current_block_num;
        case a of
          Inl ret \<Rightarrow> Some (ret, h)
        | Inr min_data_key_dbt \<Rightarrow> do {
            b \<leftarrow> alloc_data_dbt_from_inode (k_km k) ino current_block_num;
            case b of
              Inl ret \<Rightarrow> Some (ret, h)
            | Inr _ \<Rightarrow> trunc_loop k data_db ino (last_block_num - current_block_num + 1) current_block_num min_data_key_dbt 0 h } })"

section \<open>Reading pages\<close>

definition lightfs_bstore_scan_one_page ::
    "kern \<Rightarrow> device \<Rightarrow> u64 \<Rightarrow> u64 \<Rightarrow> frames \<Rightarrow> nat \<Rightarrow> (int \<times> frames) option" where
  "lightfs_bstore_scan_one_page k dev ino i_size fr p =
     (let page_block_num = PAGE_TO_BLOCK_NUM (fr p); last_block_num = lightfs_get_block_num_by_size i_size in
      if page_block_num > last_block_num then do {
        fr \<leftarrow> zero_user_segment fr p 0 PAGE_SIZE;
        Some (0, fr) }
      else do {
        a \<leftarrow> alloc_data_dbt_from_inode (k_km k) ino page_block_num;
        case a of
          Inl ret \<Rightarrow> Some (ret, fr)
        | Inr data_dbt \<Rightarrow> do {
            (ret, buf) \<leftarrow> lightfs_bstore_get dev data_dbt (pg_data (fr p)) i_size;
            let fr = fr(p := (fr p)\<lparr>pg_data := buf\<rparr>);
            if ret = - ENOENT then do {
              fr \<leftarrow> page_write fr p 0 (replicate PAGE_SIZE 0);
              Some (0, fr) }
            else Some (ret, fr) } })"

text \<open>What the callback of a multi-block read works on.\<close>

record scan =
  sc_io :: lightfs_io
  sc_frames :: frames
  sc_continue :: bool
  sc_block_cnt :: u64

text \<open>The loop that clears the pages before the block of the key.  \<open>n\<close> bounds its rounds.\<close>

fun scan_skip :: "nat \<Rightarrow> u64 \<Rightarrow> nat \<Rightarrow> u64 \<Rightarrow> scan \<Rightarrow> (nat \<times> u64 \<times> scan) option" where
  "scan_skip 0 key_block p page_block s = None"
| "scan_skip (Suc n) key_block p page_block s =
     (if page_block < key_block then do {
        fr \<leftarrow> zero_user_segment (sc_frames s) p 0 PAGE_SIZE;
        lio \<leftarrow> lightfs_io_advance_page (sc_io s);
        let s = s\<lparr>sc_frames := fr, sc_io := lio\<rparr>;
        if lightfs_io_job_done lio then Some (p, page_block, s)
        else do {
          p \<leftarrow> lightfs_io_current_page lio;
          scan_skip n key_block p (PAGE_TO_BLOCK_NUM (fr p)) (s\<lparr>sc_block_cnt := sc_block_cnt s - 1\<rparr>) } }
      else Some (p, page_block, s))"

text \<open>Copying a block into its page and clearing what lies behind the end of the file.\<close>

definition scan_fill :: "u64 \<Rightarrow> u64 \<Rightarrow> frames \<Rightarrow> nat \<Rightarrow> byte list \<Rightarrow> frames option" where
  "scan_fill i_size page_block fr p vl = do {
     let block_off = block_get_off_by_position i_size;
     let block_num = lightfs_get_block_num_by_size i_size;
     fr \<leftarrow> (if vl \<noteq> [] then page_write fr p 0 vl else Some fr);
     if page_block = block_num \<and> block_off \<noteq> 0 \<and> unat block_off < PAGE_SIZE
     then zero_user_segment fr p (unat block_off) PAGE_SIZE else Some fr }"

definition lightfs_scan_pages_cb :: "u64 \<Rightarrow> u64 \<Rightarrow> nat \<Rightarrow> byte list \<Rightarrow> byte list \<Rightarrow> scan \<Rightarrow> scan option" where
  "lightfs_scan_pages_cb ino i_size key_size data_key vl s = do {
     same \<leftarrow> key_is_same_of_ino data_key ino;
     if \<not> same then Some (s\<lparr>sc_continue := False\<rparr>)
     else do {
       p \<leftarrow> lightfs_io_current_page (sc_io s);
       key_block \<leftarrow> lightfs_data_key_get_blocknum data_key key_size;
       (p, page_block, s) \<leftarrow> scan_skip (unat (lio_vcnt (sc_io s)) + 1) key_block p (PAGE_TO_BLOCK_NUM (sc_frames s p)) s;
       s \<leftarrow> (if page_block = key_block then do {
               fr \<leftarrow> scan_fill i_size page_block (sc_frames s) p vl;
               lio \<leftarrow> lightfs_io_advance_page (sc_io s);
               Some (s\<lparr>sc_frames := fr, sc_io := lio, sc_block_cnt := sc_block_cnt s - 1\<rparr>) }
             else Some s);
       Some (s\<lparr>sc_continue := \<not> lightfs_io_job_done (sc_io s)\<rparr>) } }"

fun fill_rest :: "nat \<Rightarrow> frames \<Rightarrow> lightfs_io \<Rightarrow> (frames \<times> lightfs_io) option" where
  "fill_rest 0 fr lio = None"
| "fill_rest (Suc n) fr lio =
     (if lightfs_io_job_done lio then Some (fr, lio)
      else do {
        p \<leftarrow> lightfs_io_current_page lio;
        fr \<leftarrow> zero_user_segment fr p 0 PAGE_SIZE;
        lio \<leftarrow> lightfs_io_advance_page lio;
        fill_rest n fr lio })"

definition lightfs_bstore_fill_rest_page :: "frames \<Rightarrow> lightfs_io \<Rightarrow> (frames \<times> lightfs_io) option" where
  "lightfs_bstore_fill_rest_page fr lio = fill_rest (unat (lio_vcnt lio) + 1) fr lio"

text \<open>
  The loop around the multi-block read: it may go on for ever, \<^term>\<open>Block\<close> is the state
  after \<open>n\<close> rounds without an end.
\<close>

fun scan_loop ::
    "nat \<Rightarrow> device \<Rightarrow> u64 \<Rightarrow> u64 \<Rightarrow> dbt \<Rightarrow> u32 \<Rightarrow> int \<Rightarrow> scan \<Rightarrow> (int \<times> scan) res" where
  "scan_loop 0 dev ino i_size data_dbt cnt r s = (if sc_continue s \<and> r = 0 then Block else Done (r, s))"
| "scan_loop (Suc n) dev ino i_size data_dbt cnt r s =
     (if sc_continue s \<and> r = 0 then
        (case lightfs_db_get_multi dev data_dbt cnt (lightfs_scan_pages_cb ino i_size (unat (d_size data_dbt))) s of
           None \<Rightarrow> Fault
         | Some (r, data_dbt, s) \<Rightarrow> scan_loop n dev ino i_size data_dbt cnt r s)
      else Done (r, s))"

text \<open>
  \<open>do_continue\<close> of the callback's structure is not set before the loop reads it: its
  value is a parameter.
\<close>

definition lightfs_bstore_scan_pages ::
    "kern \<Rightarrow> device \<Rightarrow> nat \<Rightarrow> bool \<Rightarrow> u64 \<Rightarrow> u64 \<Rightarrow> frames \<Rightarrow> lightfs_io \<Rightarrow> (int \<times> frames \<times> lightfs_io) res" where
  "lightfs_bstore_scan_pages k dev n do_continue ino i_size fr lio =
     (if lightfs_io_job_done lio then Done (0, fr, lio)
      else case (do {
          p \<leftarrow> lightfs_io_current_page lio;
          q \<leftarrow> lightfs_io_last_page lio;
          let current = PAGE_TO_BLOCK_NUM (fr p);
          let last_block = PAGE_TO_BLOCK_NUM (fr q);
          let block_cnt = lightfs_get_block_num_by_size i_size - current + 1;
          let block_cnt = (if block_cnt > last_block - current + 1 then last_block - current + 1 else block_cnt);
          (fr, lio) \<leftarrow> (if block_cnt = 0 then lightfs_bstore_fill_rest_page fr lio else Some (fr, lio));
          a \<leftarrow> alloc_data_dbt_from_inode (k_km k) ino current;
          Some (block_cnt, fr, lio, a) }) of
        None \<Rightarrow> Fault
      | Some (block_cnt, fr, lio, Inl ret) \<Rightarrow> Done (ret, fr, lio)
      | Some (block_cnt, fr, lio, Inr data_dbt) \<Rightarrow>
          res_bind (scan_loop n dev ino i_size data_dbt (ucast block_cnt) 0
              \<lparr>sc_io = lio, sc_frames = fr, sc_continue = do_continue, sc_block_cnt = block_cnt\<rparr>) (\<lambda>(r, s).
            let ret = (if r \<noteq> 0 \<and> r \<noteq> DB_NOTFOUND then r else 0) in
            case (if ret = 0 then lightfs_bstore_fill_rest_page (sc_frames s) (sc_io s)
                  else Some (sc_frames s, sc_io s)) of
              None \<Rightarrow> Fault
            | Some (fr, lio) \<Rightarrow> if r \<noteq> 0 then Fault else Done (ret, fr, lio)))"

section \<open>Empty directories\<close>

definition lightfs_die_cb :: "u64 \<Rightarrow> byte list \<Rightarrow> bool option" where
  "lightfs_die_cb ino current_meta_key = do {
     mine \<leftarrow> meta_key_is_child_of_ino current_meta_key ino;
     Some (\<not> mine) }"

text \<open>The function returns before it looks at anything.\<close>

definition lightfs_dir_is_empty :: int where
  "lightfs_dir_is_empty = 1"

end
