(* ===== verification/Kevin_Super.thy ===== *)
theory Kevin_Super
  imports Kevin_Bstore
begin

text \<open>
  The file system of \<open>kevinfs/lightfs_super.c\<close>: inodes, inode numbers, the operations on
  directories and files, and page writes, over the block store.  What an operation takes
  from the kernel - time, owner, the CPU it runs on, whether an inode can be had, user
  name spaces, memory that is not initialised - is a record.  The inodes in memory are a
  map from inode numbers, as \<open>iget_locked\<close> finds them; an operation names its inodes by
  number.  Sizes are 64-bit words, compared as the signed numbers they are in C.
\<close>

unbundle bit_operations_syntax

section \<open>Inodes and metadata\<close>

type_synonym timespec = "u64 \<times> u64"

datatype inode_ops = File_ops | Dir_ops | Symlink_ops | Special_ops

record inode =
  i_ino :: u64
  i_mode :: u16
  i_nlink :: u32
  i_uid :: u32
  i_gid :: u32
  i_rdev :: u32
  i_size :: u64
  i_blocks :: u64
  i_atime :: timespec
  i_mtime :: timespec
  i_ctime :: timespec
  i_op :: inode_ops
  i_dirty :: bool
  meta_dbt :: dbt
  lightfs_flags :: u64

record env =
  e_k :: kern
  e_dev :: device
  e_now :: timespec
  e_uid :: u32
  e_gid :: u32
  e_from_kuid :: "u32 \<Rightarrow> u32"
  e_from_kgid :: "u32 \<Rightarrow> u32"
  e_make_kuid :: "u32 \<Rightarrow> u32"
  e_make_kgid :: "u32 \<Rightarrow> u32"
  e_iget_ok :: bool
  e_cpu :: nat
  e_meta :: "byte list"
  e_curr_ino :: u64
  e_completion :: nat

record fs =
  f_hd :: hdlr
  f_cache :: ht_cache
  f_icache :: "u64 \<rightharpoonup> inode"
  f_next_ino :: "nat \<Rightarrow> u64"
  f_max_ino :: "nat \<Rightarrow> u64"
  f_nr_cpus :: u32

text \<open>The two databases.\<close>

definition meta_db :: nat where "meta_db = 0"
definition data_db :: nat where "data_db = 1"

definition S_IFMT :: u16 where "S_IFMT = 61440"
definition S_IFSOCK :: u16 where "S_IFSOCK = 49152"
definition S_IFLNK :: u16 where "S_IFLNK = 40960"
definition S_IFREG :: u16 where "S_IFREG = 32768"
definition S_IFBLK :: u16 where "S_IFBLK = 24576"
definition S_IFDIR :: u16 where "S_IFDIR = 16384"
definition S_IFCHR :: u16 where "S_IFCHR = 8192"
definition S_IFIFO :: u16 where "S_IFIFO = 4096"
definition S_IRWXUGO :: u16 where "S_IRWXUGO = 511"

definition S_ISDIR :: "u16 \<Rightarrow> bool" where "S_ISDIR m \<longleftrightarrow> m AND S_IFMT = S_IFDIR"

text \<open>The table of operations \<open>lightfs_setup_inode\<close> chooses; another type is a \<open>BUG\<close>.\<close>

definition inode_ops_of :: "u16 \<Rightarrow> inode_ops option" where
  "inode_ops_of m =
     (let t = m AND S_IFMT in
      if t = S_IFREG then Some File_ops
      else if t = S_IFDIR then Some Dir_ops
      else if t = S_IFLNK then Some Symlink_ops
      else if t = S_IFCHR \<or> t = S_IFBLK \<or> t = S_IFIFO \<or> t = S_IFSOCK then Some Special_ops
      else None)"

text \<open>Members of \<open>struct lightfs_metadata\<close> by their offset on x86-64.\<close>

definition md_st_dev :: "byte list \<Rightarrow> u64" where "md_st_dev m = load_le (get_at 8 8 m)"
definition md_st_nlink :: "byte list \<Rightarrow> u64" where "md_st_nlink m = load_le (get_at 24 8 m)"
definition md_st_uid :: "byte list \<Rightarrow> u32" where "md_st_uid m = load_le (get_at 36 4 m)"
definition md_st_gid :: "byte list \<Rightarrow> u32" where "md_st_gid m = load_le (get_at 40 4 m)"
definition md_st_rdev :: "byte list \<Rightarrow> u64" where "md_st_rdev m = load_le (get_at 48 8 m)"
definition md_st_size :: "byte list \<Rightarrow> u64" where "md_st_size m = load_le (get_at 56 8 m)"
definition md_st_blocks :: "byte list \<Rightarrow> u64" where "md_st_blocks m = load_le (get_at 72 8 m)"
definition md_st_atime :: "byte list \<Rightarrow> u64" where "md_st_atime m = load_le (get_at 80 8 m)"
definition md_st_mtime :: "byte list \<Rightarrow> u64" where "md_st_mtime m = load_le (get_at 96 8 m)"
definition md_st_ctime :: "byte list \<Rightarrow> u64" where "md_st_ctime m = load_le (get_at 112 8 m)"

text \<open>
  Filling the structure: the members that are assigned, over what the memory held.  The
  order of the assignments does not matter.
\<close>

definition md_fill ::
    "byte list \<Rightarrow> u64 \<Rightarrow> u32 \<Rightarrow> u64 \<Rightarrow> u32 \<Rightarrow> u32 \<Rightarrow> u64 \<Rightarrow> u64 \<Rightarrow> u64 \<Rightarrow> u64 \<Rightarrow> u64 \<Rightarrow> byte list" where
  "md_fill m ino mode nlink uid gid rdev sz at mt ct =
     fold (\<lambda>(off, bs) m. put_at off bs m)
       [(0, store_le 4 LIGHTFS_METADATA_TYPE_NORMAL), (8, store_le 8 (0 :: u64)), (16, store_le 8 ino),
        (24, store_le 8 nlink), (32, store_le 4 mode), (36, store_le 4 uid), (40, store_le 4 gid),
        (48, store_le 8 rdev), (56, store_le 8 sz), (64, store_le 8 (4096 :: u64)),
        (72, store_le 8 (lightfs_get_block_num_by_size sz)), (80, store_le 8 at), (96, store_le 8 mt),
        (112, store_le 8 ct)] m"

definition lightfs_setup_metadata :: "env \<Rightarrow> u16 \<Rightarrow> u64 \<Rightarrow> u32 \<Rightarrow> u64 \<Rightarrow> byte list" where
  "lightfs_setup_metadata e mode sz rdev ino =
     (let now = fst (e_now e) in
      md_fill (e_meta e) ino (ucast mode) 1 (e_from_kuid e (e_uid e)) (e_from_kgid e (e_gid e)) (ucast rdev) sz now now now)"

definition lightfs_copy_metadata_from_inode :: "env \<Rightarrow> inode \<Rightarrow> byte list" where
  "lightfs_copy_metadata_from_inode e i =
     md_fill (e_meta e) (i_ino i) (ucast (i_mode i)) (ucast (i_nlink i)) (e_from_kuid e (i_uid i)) (e_from_kgid e (i_gid i))
       (ucast (i_rdev i)) (i_size i) (fst (i_atime i)) (fst (i_mtime i)) (fst (i_ctime i))"

definition lightfs_setup_inode :: "env \<Rightarrow> fs \<Rightarrow> dbt \<Rightarrow> byte list \<Rightarrow> ((int + u64) \<times> fs) option" where
  "lightfs_setup_inode e s key meta =
     (let ino = md_st_ino meta in
      case f_icache s ino of
        Some i \<Rightarrow> Some (Inr ino, s\<lparr>f_icache := (f_icache s)(ino \<mapsto> i\<lparr>meta_dbt := key\<rparr>)\<rparr>)
      | None \<Rightarrow> if \<not> e_iget_ok e then Some (Inl (- ENOMEM), s) else do {
          bug_on (md_type meta \<noteq> LIGHTFS_METADATA_TYPE_NORMAL);
          let mode = ucast (md_st_mode meta);
          ops \<leftarrow> inode_ops_of mode;
          Some (Inr ino, s\<lparr>f_icache := (f_icache s)(ino \<mapsto>
            \<lparr>i_ino = ino, i_mode = mode, i_nlink = ucast (md_st_nlink meta),
             i_uid = e_make_kuid e (md_st_uid meta), i_gid = e_make_kgid e (md_st_gid meta),
             i_rdev = ucast (md_st_dev meta), i_size = md_st_size meta, i_blocks = md_st_blocks meta,
             i_atime = (md_st_atime meta, 0), i_mtime = (md_st_mtime meta, 0), i_ctime = (md_st_ctime meta, 0),
             i_op = ops, i_dirty = False, meta_dbt = key, lightfs_flags = 0\<rparr>)\<rparr>) })"

section \<open>Transactions of an operation\<close>

definition txn_begin :: "u32 \<Rightarrow> fs \<Rightarrow> txn \<times> fs" where
  "txn_begin flags s =
     (let (t, i) = lightfs_bstore_txn_begin flags (h_txn_id (f_hd s)) in (t, s\<lparr>f_hd := (f_hd s)\<lparr>h_txn_id := i\<rparr>\<rparr>))"

definition txn_commit :: "env \<Rightarrow> fs \<Rightarrow> txn \<Rightarrow> fs" where
  "txn_commit e s t = s\<lparr>f_hd := lightfs_bstore_txn_commit (f_hd s) t (e_completion e)\<rparr>"

definition upd_inode :: "fs \<Rightarrow> u64 \<Rightarrow> (inode \<Rightarrow> inode) \<Rightarrow> fs" where
  "upd_inode s ino f = s\<lparr>f_icache := (f_icache s)(ino := map_option f (f_icache s ino))\<rparr>"

definition mark_inode_dirty :: "fs \<Rightarrow> u64 \<Rightarrow> fs" where
  "mark_inode_dirty s ino = upd_inode s ino (\<lambda>i. i\<lparr>i_dirty := True\<rparr>)"

section \<open>Inode numbers\<close>

definition LIGHTFS_INO_INC :: u32 where "LIGHTFS_INO_INC = 1000"
definition LIGHTFS_INO_MAX :: u64 where "LIGHTFS_INO_MAX = 1000000000000"
definition LIGHTFS_INO_CUR :: u64 where "LIGHTFS_INO_CUR = 1"

definition lightfs_next_ino :: "env \<Rightarrow> fs \<Rightarrow> (int \<times> u64 \<times> fs) option" where
  "lightfs_next_ino e s =
     (let cpu = e_cpu e; ino = f_next_ino s cpu;
          new_max = (if ino \<ge> f_max_ino s cpu then f_max_ino s cpu + ucast (f_nr_cpus s * LIGHTFS_INO_INC) else 0);
          s = (if ino \<ge> f_max_ino s cpu then s\<lparr>f_max_ino := (f_max_ino s)(cpu := new_max)\<rparr> else s);
          s = s\<lparr>f_next_ino := (f_next_ino s)(cpu := ino + ucast (f_nr_cpus s))\<rparr> in
      if new_max \<noteq> 0 then do {
        let (t, s) = txn_begin TXN_MAY_WRITE s;
        (ret, t) \<leftarrow> lightfs_bstore_update_ino (e_k e) (e_dev e) meta_db t new_max (e_curr_ino e);
        bug_on (ret \<noteq> 0);
        Some (0, ino, txn_commit e s t) }
      else Some (0, ino, s))"

section \<open>Removing inodes\<close>

definition LIGHTFS_FLAG_DELETED :: u64 where "LIGHTFS_FLAG_DELETED = 1"

definition lightfs_do_unlink :: "env \<Rightarrow> fs \<Rightarrow> txn \<Rightarrow> inode \<Rightarrow> (int \<times> txn \<times> fs) option" where
  "lightfs_do_unlink e s t i = do {
     (ret, c, t) \<leftarrow> lightfs_bstore_meta_del (e_k e) meta_db (f_cache s) t (meta_dbt i) False (S_ISDIR (i_mode i));
     let s = s\<lparr>f_cache := c\<rparr>;
     if S_ISDIR (i_mode i) then Some (0, t, s)
     else if ret = 0 \<and> sint (i_size i) > 0 then do {
       (ret, h) \<leftarrow> lightfs_bstore_trunc (e_k e) data_db (i_ino i) (i_size i) 0 0 (f_hd s);
       Some (ret, t, s\<lparr>f_hd := h\<rparr>) }
     else Some (ret, t, s) }"

text \<open>The inode leaves memory; the transaction of a weak deletion is not looked at.\<close>

definition lightfs_evict_inode :: "env \<Rightarrow> fs \<Rightarrow> u64 \<Rightarrow> fs option" where
  "lightfs_evict_inode e s ino = do {
     i \<leftarrow> f_icache s ino;
     s \<leftarrow> (if i_nlink i \<noteq> 0 \<or> lightfs_flags i AND LIGHTFS_FLAG_DELETED \<noteq> 0 then do {
            (_, c, _) \<leftarrow> lightfs_bstore_meta_del (e_k e) meta_db (f_cache s) lightfs_txn_init (meta_dbt i) True (S_ISDIR (i_mode i));
            Some (s\<lparr>f_cache := c\<rparr>) }
          else do {
            let (t, s) = txn_begin TXN_MAY_WRITE s;
            (ret, t, s) \<leftarrow> lightfs_do_unlink e s t i;
            Some (if ret \<noteq> 0 then s else txn_commit e s t) });
     Some (s\<lparr>f_icache := (f_icache s)(ino := None)\<rparr>) }"

text \<open>What \<open>lightfs_mknod\<close> and \<open>lightfs_symlink\<close> do with the new inode when they fail; the last reference goes.\<close>

definition drop_new_inode :: "env \<Rightarrow> fs \<Rightarrow> u64 \<Rightarrow> fs option" where
  "drop_new_inode e s ino =
     lightfs_evict_inode e (upd_inode s ino (\<lambda>i. i\<lparr>i_nlink := 0,
       lightfs_flags := lightfs_flags i OR LIGHTFS_FLAG_DELETED, meta_dbt := dbt_init\<rparr>)) ino"

definition lightfs_write_inode :: "env \<Rightarrow> fs \<Rightarrow> u64 \<Rightarrow> (int \<times> fs) option" where
  "lightfs_write_inode e s ino = do {
     i \<leftarrow> f_icache s ino;
     if i_nlink i = 0 then Some (0, s)
     else do {
       let meta = lightfs_copy_metadata_from_inode e i;
       let (t, s) = txn_begin TXN_MAY_WRITE s;
       (ret, c, t) \<leftarrow> lightfs_bstore_meta_put (e_k e) meta_db (f_cache s) t (meta_dbt i) meta None False;
       let s = s\<lparr>f_cache := c\<rparr>;
       Some (ret, if ret \<noteq> 0 then s else txn_commit e s t) } }"

section \<open>Creating, looking up and removing names\<close>

text \<open>The result carries the inode that the new name was bound to.\<close>

definition lightfs_mknod :: "env \<Rightarrow> fs \<Rightarrow> u64 \<Rightarrow> byte list \<Rightarrow> u16 \<Rightarrow> u32 \<Rightarrow> (int \<times> u64 option \<times> fs) option" where
  "lightfs_mknod e s dir name mode rdev = do {
     d \<leftarrow> f_icache s dir;
     a \<leftarrow> alloc_child_meta_dbt_from_inode (k_km (e_k e)) (i_ino d) name;
     case a of
       Inl ret \<Rightarrow> Some (ret, None, s)
     | Inr key \<Rightarrow> do {
         (ret, ino, s) \<leftarrow> lightfs_next_ino e s;
         if ret \<noteq> 0 then Some (ret, None, s)
         else do {
           let meta = lightfs_setup_metadata e mode 0 rdev ino;
           (r, s) \<leftarrow> lightfs_setup_inode e s key meta;
           case r of
             Inl ret \<Rightarrow> Some (ret, None, s)
           | Inr new \<Rightarrow> do {
               let (t, s) = txn_begin TXN_MAY_WRITE s;
               (ret, c, t) \<leftarrow> lightfs_bstore_meta_put (e_k e) meta_db (f_cache s) t key meta (Some (meta_dbt d))
                             (mode AND S_IFDIR \<noteq> 0);
               let s = s\<lparr>f_cache := c\<rparr>;
               if ret \<noteq> 0 then do {
                 s \<leftarrow> drop_new_inode e s new;
                 Some (ret, None, s) }
               else do {
                 let s = upd_inode (txn_commit e s t) dir (\<lambda>j. j\<lparr>i_size := i_size d + 1\<rparr>);
                 Some (0, Some new, mark_inode_dirty s dir) } } } } }"

definition lightfs_create :: "env \<Rightarrow> fs \<Rightarrow> u64 \<Rightarrow> byte list \<Rightarrow> u16 \<Rightarrow> (int \<times> u64 option \<times> fs) option" where
  "lightfs_create e s dir name mode = lightfs_mknod e s dir name (mode OR S_IFREG) 0"

definition lightfs_mkdir :: "env \<Rightarrow> fs \<Rightarrow> u64 \<Rightarrow> byte list \<Rightarrow> u16 \<Rightarrow> (int \<times> u64 option \<times> fs) option" where
  "lightfs_mkdir e s dir name mode = lightfs_mknod e s dir name (mode OR S_IFDIR) 0"

text \<open>The key of the root is a static array; no other inode has these bytes as its key.\<close>

definition root_meta_key :: "byte list" where
  "root_meta_key = [109, 0, 0, 0, 0, 0, 0, 0, 0, 0]"

definition lightfs_rmdir :: "fs \<Rightarrow> u64 \<Rightarrow> (int \<times> fs) option" where
  "lightfs_rmdir s ino = do {
     i \<leftarrow> f_icache s ino;
     if d_data (meta_dbt i) = Some root_meta_key then Some (- EINVAL, s)
     else Some (0, mark_inode_dirty (upd_inode s ino (\<lambda>i. i\<lparr>i_nlink := 0\<rparr>)) ino) }"

definition lightfs_symlink :: "env \<Rightarrow> fs \<Rightarrow> u64 \<Rightarrow> byte list \<Rightarrow> byte list \<Rightarrow> (int \<times> u64 option \<times> fs) option" where
  "lightfs_symlink e s dir name symname =
     (if length symname > PAGE_SIZE then Some (- ENAMETOOLONG, None, s)
      else do {
        d \<leftarrow> f_icache s dir;
        a \<leftarrow> alloc_child_meta_dbt_from_inode (k_km (e_k e)) (i_ino d) name;
        case a of
          Inl ret \<Rightarrow> Some (ret, None, s)
        | Inr key \<Rightarrow> do {
            (ret, ino, s) \<leftarrow> lightfs_next_ino e s;
            if ret \<noteq> 0 then Some (ret, None, s)
            else do {
              b \<leftarrow> alloc_data_dbt_from_ino (k_km (e_k e)) ino 1;
              case b of
                Inl ret \<Rightarrow> Some (ret, None, s)
              | Inr data_key \<Rightarrow> do {
                  let meta = lightfs_setup_metadata e (S_IFLNK OR S_IRWXUGO) (of_nat (length symname)) 0 ino;
                  (r, s) \<leftarrow> lightfs_setup_inode e s key meta;
                  case r of
                    Inl ret \<Rightarrow> Some (ret, None, s)
                  | Inr new \<Rightarrow> do {
                      let (t, s) = txn_begin TXN_SYNC_WRITE s;
                      (ret, c, t) \<leftarrow> lightfs_bstore_meta_put (e_k e) meta_db (f_cache s) t key meta (Some (meta_dbt d)) False;
                      let s = s\<lparr>f_cache := c\<rparr>;
                      (ret, t) \<leftarrow> (if ret \<noteq> 0 then Some (ret, t)
                                  else lightfs_bstore_put (e_k e) data_db data_key t symname (length symname) False);
                      if ret \<noteq> 0 then do {
                        s \<leftarrow> drop_new_inode e s new;
                        Some (ret, None, s) }
                      else Some (0, Some new, txn_commit e s t) } } } } })"

definition meta_key_is_root :: "byte list \<Rightarrow> bool" where
  "meta_key_is_root meta_key = True"

definition drop_nlink :: "inode \<Rightarrow> inode" where
  "drop_nlink i = i\<lparr>i_nlink := i_nlink i - 1\<rparr>"

definition lightfs_unlink :: "env \<Rightarrow> fs \<Rightarrow> u64 \<Rightarrow> byte list \<Rightarrow> u64 \<Rightarrow> (int \<times> fs) option" where
  "lightfs_unlink e s dir name ino = do {
     d \<leftarrow> f_icache s dir;
     i \<leftarrow> f_icache s ino;
     (ret, s) \<leftarrow> (if \<not> meta_key_is_root (dbt_bytes (meta_dbt i)) then do {
                  a \<leftarrow> alloc_child_meta_dbt_from_inode (k_km (e_k e)) (i_ino d) name;
                  case a of
                    Inl ret \<Rightarrow> Some (ret, s)
                  | Inr indirect \<Rightarrow> do {
                      let (t, s) = txn_begin TXN_MAY_WRITE s;
                      (ret, c, t) \<leftarrow> lightfs_bstore_meta_del (e_k e) meta_db (f_cache s) t indirect False (S_ISDIR (i_mode i));
                      let s = s\<lparr>f_cache := c\<rparr>;
                      Some (ret, if ret \<noteq> 0 then s else txn_commit e s t) } }
                else Some (0, s));
     if ret \<noteq> 0 then Some (ret, s)
     else do {
       let s = mark_inode_dirty (upd_inode s ino drop_nlink) ino;
       Some (0, mark_inode_dirty (upd_inode s dir (\<lambda>j. j\<lparr>i_size := i_size d - 1\<rparr>)) dir) } }"

text \<open>
  What \<open>lightfs_lookup\<close> hands to \<open>d_splice_alias\<close>: no inode, an inode, or a code made a
  pointer.  A code outside the range of \<open>IS_ERR\<close> is taken for an inode, and using it is a
  fault.
\<close>

datatype found = Found_none | Found u64 | Found_err int

definition IS_ERR :: "int \<Rightarrow> bool" where "IS_ERR r \<longleftrightarrow> - 4095 \<le> r \<and> r < 0"

definition d_splice_alias :: "found \<Rightarrow> found option" where
  "d_splice_alias f = (case f of Found_err r \<Rightarrow> if IS_ERR r then Some f else None | _ \<Rightarrow> Some f)"

definition lookup_inode :: "env \<Rightarrow> fs \<Rightarrow> inode \<Rightarrow> byte list \<Rightarrow> (found \<times> fs) option" where
  "lookup_inode e s d name = do {
     a \<leftarrow> alloc_child_meta_dbt_from_inode (k_km (e_k e)) (i_ino d) name;
     case a of
       Inl r \<Rightarrow> Some (Found_err r, s)
     | Inr key \<Rightarrow> do {
         let (t, s) = txn_begin TXN_READONLY s;
         (r, meta, c) \<leftarrow> lightfs_bstore_meta_get (e_k e) (e_dev e) (f_cache s) key (e_meta e);
         let s = s\<lparr>f_cache := c\<rparr>;
         if r = - ENOENT then Some (Found_none, txn_commit e s t)
         else if r \<noteq> 0 then Some (Found_err r, s)
         else do {
           (r, meta, key, c) \<leftarrow> (if md_type meta = LIGHTFS_METADATA_TYPE_REDIRECT then do {
                key \<leftarrow> copy_meta_dbt_from_ino key (md_u_ino meta);
                (r, meta, c) \<leftarrow> lightfs_bstore_meta_get (e_k e) (e_dev e) (f_cache s) key meta;
                bug_on (r = - ENOENT);
                Some (r, meta, key, c) }
              else Some (0, meta, key, f_cache s));
           let s = s\<lparr>f_cache := c\<rparr>;
           if r \<noteq> 0 then Some (Found_err r, s)
           else do {
             bug_on (md_type meta \<noteq> LIGHTFS_METADATA_TYPE_NORMAL);
             (x, s) \<leftarrow> lightfs_setup_inode e (txn_commit e s t) key meta;
             Some (case x of Inl err \<Rightarrow> Found_err err | Inr ino \<Rightarrow> Found ino, s) } } } }"

definition lightfs_lookup :: "env \<Rightarrow> fs \<Rightarrow> u64 \<Rightarrow> byte list \<Rightarrow> (found \<times> fs) option" where
  "lightfs_lookup e s dir name = do {
     d \<leftarrow> f_icache s dir;
     (inode, s) \<leftarrow> lookup_inode e s d name;
     res \<leftarrow> d_splice_alias inode;
     Some (res, s) }"

definition RENAME_WHITEOUT :: u32 where "RENAME_WHITEOUT = 4"

text \<open>
  The checks of a rename onto an existing inode; the result of \<open>lightfs_dir_is_empty\<close>, which
  is its code and not its answer, is returned as the code of the rename.
\<close>

definition rename_check :: "inode \<Rightarrow> inode option \<Rightarrow> u32 \<Rightarrow> int" where
  "rename_check old_inode new_inode flags =
     (if flags AND RENAME_WHITEOUT \<noteq> 0 then - ENOENT
      else case new_inode of
        None \<Rightarrow> 0
      | Some n \<Rightarrow>
          if S_ISDIR (i_mode old_inode) then
            (if \<not> S_ISDIR (i_mode n) then - ENOTDIR
             else if lightfs_dir_is_empty \<noteq> 0 then lightfs_dir_is_empty
             else 0)
          else if S_ISDIR (i_mode n) then - ENOTDIR else 0)"

definition lightfs_rename ::
    "env \<Rightarrow> fs \<Rightarrow> u64 \<Rightarrow> u64 \<Rightarrow> byte list \<Rightarrow> u64 option \<Rightarrow> u32 \<Rightarrow> (int \<times> fs) option" where
  "lightfs_rename e s old new_dir name new flags = do {
     old_inode \<leftarrow> f_icache s old;
     nd \<leftarrow> f_icache s new_dir;
     new_inode \<leftarrow> (case new of None \<Rightarrow> Some None | Some n \<Rightarrow> do { i \<leftarrow> f_icache s n; Some (Some i) });
     let (t, s) = txn_begin TXN_MAY_WRITE s;
     let ret = rename_check old_inode new_inode flags;
     if ret \<noteq> 0 then Some (ret, s)
     else do {
       a \<leftarrow> alloc_child_meta_dbt_from_inode (k_km (e_k e)) (i_ino nd) name;
       case a of
         Inl ret \<Rightarrow> Some (ret, s)
       | Inr new_key \<Rightarrow> do {
           let old_meta = lightfs_copy_metadata_from_inode e old_inode;
           (ret, c, t) \<leftarrow> lightfs_bstore_meta_del (e_k e) meta_db (f_cache s) t (meta_dbt old_inode) False False;
           let s = s\<lparr>f_cache := c\<rparr>;
           (ret, s, t) \<leftarrow> (if ret \<noteq> 0 then Some (ret, s, t) else do {
              (ret, c, t) \<leftarrow> lightfs_bstore_meta_put (e_k e) meta_db (f_cache s) t new_key old_meta (Some (meta_dbt nd)) False;
              Some (ret, s\<lparr>f_cache := c\<rparr>, t) });
           if ret \<noteq> 0 then Some (ret, s)
           else do {
             let s = upd_inode (txn_commit e s t) old (\<lambda>i. i\<lparr>meta_dbt := new_key\<rparr>);
             Some (0, case new of
                        None \<Rightarrow> s
                      | Some n \<Rightarrow> upd_inode (mark_inode_dirty (upd_inode s n drop_nlink) n) n
                          (\<lambda>i. i\<lparr>lightfs_flags := lightfs_flags i OR LIGHTFS_FLAG_DELETED\<rparr>)) } } } }"

section \<open>Attributes and links\<close>

definition ATTR_SIZE :: u32 where "ATTR_SIZE = 8"

text \<open>
  The checks and copies of the kernel are parameters: \<open>prepare\<close> is the result of
  \<open>setattr_prepare\<close>, \<open>quota\<close> that of \<open>dquot_initialize\<close> or 0 if it is not called, and
  \<open>copy\<close> is \<open>setattr_copy\<close>.
\<close>

definition lightfs_setattr ::
    "env \<Rightarrow> fs \<Rightarrow> u64 \<Rightarrow> int \<Rightarrow> int \<Rightarrow> (inode \<Rightarrow> inode) \<Rightarrow> u32 \<Rightarrow> u64 \<Rightarrow> (int \<times> fs) option" where
  "lightfs_setattr e s ino prepare quota copy ia_valid ia_size = do {
     i \<leftarrow> f_icache s ino;
     if prepare \<noteq> 0 then Some (prepare, s)
     else if quota \<noteq> 0 then Some (quota, s)
     else do {
       (ret, s) \<leftarrow> (if ia_valid AND ATTR_SIZE \<noteq> 0 \<and> sint ia_size < sint (i_size i) then do {
            (ret, h) \<leftarrow> lightfs_bstore_trunc (e_k e) data_db (i_ino i) (i_size i)
                         (block_get_num_by_position ia_size) (block_get_off_by_position ia_size) (f_hd s);
            Some (ret, upd_inode (s\<lparr>f_hd := h\<rparr>) ino (\<lambda>i. i\<lparr>i_size := ia_size\<rparr>)) }
          else Some (0, s));
       Some (ret, mark_inode_dirty (upd_inode s ino copy) ino) } }"

text \<open>The buffer is read as a string by the caller.\<close>

definition lightfs_get_link :: "env \<Rightarrow> fs \<Rightarrow> u64 \<Rightarrow> ((int + byte list) \<times> fs) option" where
  "lightfs_get_link e s ino = do {
     i \<leftarrow> f_icache s ino;
     case k_km (e_k e) PAGE_SIZE of
       None \<Rightarrow> Some (Inl (- ENOMEM), s)
     | Some buf \<Rightarrow> do {
         a \<leftarrow> alloc_data_dbt_from_inode (k_km (e_k e)) (i_ino i) 1;
         case a of
           Inl r \<Rightarrow> Some (Inl r, s)
         | Inr data_key \<Rightarrow> do {
             let (t, s) = txn_begin TXN_READONLY s;
             (r, buf) \<leftarrow> lightfs_bstore_get (e_dev e) data_key buf (i_size i);
             if r \<noteq> 0 then Some (Inl r, s)
             else Some (Inr buf, txn_commit e s t) } } }"

text \<open>\<open>written\<close> is the result of \<open>filemap_fdatawrite_range\<close>.  The wait for the commit is the handler's.\<close>

definition lightfs_fsync :: "env \<Rightarrow> fs \<Rightarrow> u64 \<Rightarrow> int \<Rightarrow> bool \<Rightarrow> (int \<times> fs) option" where
  "lightfs_fsync e s ino written datasync = do {
     i \<leftarrow> f_icache s ino;
     if written = 0 \<and> \<not> datasync then do {
       let meta = lightfs_copy_metadata_from_inode e i;
       let (t, s) = txn_begin TXN_SYNC_WRITE s;
       (ret, c, t) \<leftarrow> lightfs_bstore_meta_put (e_k e) meta_db (f_cache s) t (meta_dbt i) meta (Some (meta_dbt i)) False;
       let s = s\<lparr>f_cache := c\<rparr>;
       Some (ret, if ret \<noteq> 0 then s else txn_commit e s t) }
     else Some (written, s) }"

section \<open>Pages of files\<close>

definition EAGAIN :: int where "EAGAIN = 11"

definition upd_page :: "frames \<Rightarrow> nat \<Rightarrow> (page \<Rightarrow> page) \<Rightarrow> frames" where
  "upd_page fr p f = fr(p := f (fr p))"

definition lightfs_readpage :: "env \<Rightarrow> fs \<Rightarrow> u64 \<Rightarrow> frames \<Rightarrow> nat \<Rightarrow> (int \<times> fs \<times> frames) option" where
  "lightfs_readpage e s ino fr p = do {
     i \<leftarrow> f_icache s ino;
     let (t, s) = txn_begin TXN_READONLY s;
     (ret, fr) \<leftarrow> lightfs_bstore_scan_one_page (e_k e) (e_dev e) (i_ino i) (i_size i) fr p;
     let s = (if ret \<noteq> 0 then s else txn_commit e s t);
     bug_on (ret \<noteq> 0);
     Some (ret, s, upd_page fr p (\<lambda>g. g\<lparr>pg_uptodate := True, pg_locked := False\<rparr>)) }"

definition lightfs_writepage_put :: "env \<Rightarrow> inode \<Rightarrow> frames \<Rightarrow> nat \<Rightarrow> nat \<Rightarrow> txn \<Rightarrow> (int \<times> txn) option" where
  "lightfs_writepage_put e i fr p len t = do {
     a \<leftarrow> alloc_data_dbt_from_inode (k_km (e_k e)) (i_ino i) (PAGE_TO_BLOCK_NUM (fr p));
     case a of
       Inl ret \<Rightarrow> Some (ret, t)
     | Inr data_key \<Rightarrow> lightfs_bstore_put_page (e_k e) data_db data_key t p len }"

definition lightfs_writepage :: "env \<Rightarrow> fs \<Rightarrow> u64 \<Rightarrow> frames \<Rightarrow> nat \<Rightarrow> (int \<times> fs \<times> frames) option" where
  "lightfs_writepage e s ino fr p = do {
     i \<leftarrow> f_icache s ino;
     let fr = upd_page fr p (\<lambda>g. g\<lparr>pg_writeback := True\<rparr>);
     let end_index = drop_bit 12 (i_size i);
     let offset = block_get_off_by_position (i_size i);
     let (t, s) = txn_begin TXN_MAY_WRITE s;
     (ret, t) \<leftarrow> (if pg_index (fr p) < end_index then lightfs_writepage_put e i fr p PAGE_SIZE t
                 else if pg_index (fr p) = end_index \<and> offset \<noteq> 0 then lightfs_writepage_put e i fr p (unat offset) t
                 else Some (0, t));
     let (ret, fr, s) = (if ret \<noteq> 0 then
                           if ret = - EAGAIN then (0, upd_page fr p (\<lambda>g. g\<lparr>pg_dirty := True\<rparr>), s)
                           else (ret, upd_page fr p (\<lambda>g. g\<lparr>pg_error := True\<rparr>), s)
                         else (0, fr, txn_commit e s t));
     Some (ret, s, upd_page fr p (\<lambda>g. g\<lparr>pg_locked := False\<rparr>)) }"

definition key_is_same_of_key :: "byte list \<Rightarrow> byte list \<Rightarrow> bool" where
  "key_is_same_of_key key1 key2 = True"

text \<open>
  The loop over the pages to write: a transaction for each \<open>LIGHTFS_TXN_LIMIT\<close> of them.
  An error ends it with no transaction.
\<close>

fun write_pages_loop ::
    "env \<Rightarrow> u64 \<Rightarrow> nat \<Rightarrow> nat list \<Rightarrow> dbt \<Rightarrow> txn option \<Rightarrow> int \<Rightarrow> fs \<Rightarrow> frames \<Rightarrow> (int \<times> txn option \<times> fs \<times> frames) option" where
  "write_pages_loop e isz i [] data_dbt txn ret s fr = Some (ret, txn, s, fr)"
| "write_pages_loop e isz i (p # ps) data_dbt txn ret s fr = do {
     let (txn, s) = (if i mod LIGHTFS_TXN_LIMIT = 0 then let (t, s) = txn_begin TXN_MAY_WRITE s in (Some t, s) else (txn, s));
     t \<leftarrow> txn;
     key \<leftarrow> d_data data_dbt;
     key \<leftarrow> lightfs_data_key_set_blocknum key (unat (d_size data_dbt)) (PAGE_TO_BLOCK_NUM (fr p));
     let data_dbt = data_dbt\<lparr>d_data := Some key\<rparr>;
     let offset = block_get_off_by_position isz;
     (ret, t, fr) \<leftarrow> (if pg_index (fr p) < drop_bit 12 isz then do {
                      (ret, t) \<leftarrow> lightfs_bstore_put_page (e_k e) data_db data_dbt t p PAGE_SIZE;
                      Some (ret, t, fr) }
                    else if pg_index (fr p) = drop_bit 12 isz \<and> offset \<noteq> 0 then do {
                      fr \<leftarrow> zero_user_segment fr p (unat offset) PAGE_SIZE;
                      (ret, t) \<leftarrow> lightfs_bstore_put_page (e_k e) data_db data_dbt t p (unat offset);
                      Some (ret, t, fr) }
                    else Some (0, t, fr));
     if ret \<noteq> 0 then Some (ret, None, s, fr)
     else if i mod LIGHTFS_TXN_LIMIT = LIGHTFS_TXN_LIMIT - 1
     then write_pages_loop e isz (i + 1) ps data_dbt None 0 (txn_commit e s t) fr
     else write_pages_loop e isz (i + 1) ps data_dbt (Some t) 0 s fr }"

definition lightfs_writepages_write_pages ::
    "env \<Rightarrow> fs \<Rightarrow> u64 \<Rightarrow> frames \<Rightarrow> nat list \<Rightarrow> dbt \<Rightarrow> (int \<times> fs \<times> frames) option" where
  "lightfs_writepages_write_pages e s ino fr ps data_dbt = do {
     i \<leftarrow> f_icache s ino;
     data_dbt \<leftarrow> (if \<not> key_is_same_of_key (dbt_bytes (meta_dbt i)) (dbt_bytes data_dbt)
                  then copy_data_dbt_from_meta_dbt data_dbt (meta_dbt i) 0 else Some data_dbt);
     (ret, txn, s, fr) \<leftarrow> write_pages_loop e (i_size i) 0 ps data_dbt None 0 s fr;
     let (ret, s) = (case txn of None \<Rightarrow> (ret, s) | Some t \<Rightarrow> (0, txn_commit e s t));
     let fr = fold (\<lambda>p fr. upd_page fr p (\<lambda>g. g\<lparr>pg_dirty := pg_dirty g \<or> ret \<noteq> 0, pg_locked := False\<rparr>)) ps fr;
     Some (ret, s, fr) }"

text \<open>
  \<open>page\<close> is what \<open>grab_cache_page_write_begin\<close> returned; its flags are read through the
  pointer even if that is NULL, unless the write covers a whole page.
\<close>

definition lightfs_write_begin ::
    "env \<Rightarrow> fs \<Rightarrow> u64 \<Rightarrow> frames \<Rightarrow> u64 \<Rightarrow> u32 \<Rightarrow> nat option \<Rightarrow> (int \<times> nat option \<times> fs \<times> frames) option" where
  "lightfs_write_begin e s ino fr pos len page = do {
     i \<leftarrow> f_icache s ino;
     if unat len = PAGE_SIZE then Some (0, page, s, fr)
     else do {
       p \<leftarrow> page;
       if pg_uptodate (fr p) then Some (0, page, s, fr)
       else if pos AND 4095 = 0 \<and> sint (pos + ucast len) \<ge> sint (i_size i) then do {
         fr \<leftarrow> zero_user_segment fr p 0 PAGE_SIZE;
         Some (0, page, s, fr) }
       else if \<not> pg_dirty (fr p) then do {
         let (t, s) = txn_begin TXN_READONLY s;
         (ret, fr) \<leftarrow> lightfs_bstore_scan_one_page (e_k e) (e_dev e) (i_ino i) (i_size i) fr p;
         let s = (if ret \<noteq> 0 then s else txn_commit e s t);
         bug_on (ret \<noteq> 0);
         Some (0, page, s, fr) }
       else Some (0, page, s, fr) } }"

definition lightfs_write_end ::
    "fs \<Rightarrow> u64 \<Rightarrow> frames \<Rightarrow> u64 \<Rightarrow> u32 \<Rightarrow> u32 \<Rightarrow> nat \<Rightarrow> (u32 \<times> fs \<times> frames) option" where
  "lightfs_write_end s ino fr pos len copied p = do {
     i \<leftarrow> f_icache s ino;
     let last_pos = pos + ucast copied;
     let copied = (if \<not> pg_uptodate (fr p) \<and> copied < len then 0 else copied);
     let fr = upd_page fr p (\<lambda>g. g\<lparr>pg_uptodate := True, pg_dirty := True, pg_locked := False\<rparr>);
     let s = (if sint last_pos > sint (i_size i)
              then mark_inode_dirty (upd_inode s ino (\<lambda>i. i\<lparr>i_size := last_pos\<rparr>)) ino else s);
     Some (copied, s, fr) }"

section \<open>Mounting\<close>

text \<open>
  \<open>s\<close> is the state after \<open>lightfs_bstore_env_open\<close>, whose result is \<open>opened\<close>; \<open>cpus\<close> are
  the possible CPUs, \<open>root_ok\<close> tells whether \<open>d_make_root\<close> succeeds.  The first part reads or
  makes the metadata of the root, the second makes its inode.
\<close>

definition fill_super_meta :: "env \<Rightarrow> fs \<Rightarrow> (int \<times> dbt \<times> byte list \<times> fs) option" where
  "fill_super_meta e s = do {
     let (t, s) = txn_begin TXN_MAY_WRITE s;
     let root_dbt = dbt_setup root_meta_key SIZEOF_ROOT_META_KEY;
     (ret, meta, c) \<leftarrow> lightfs_bstore_meta_get (e_k e) (e_dev e) (f_cache s) root_dbt (e_meta e);
     let s = s\<lparr>f_cache := c\<rparr>;
     (ret, meta, t, s) \<leftarrow> (if ret = - ENOENT then do {
          let meta = lightfs_setup_metadata (e\<lparr>e_meta := meta\<rparr>) (493 OR S_IFDIR) 0 0 LIGHTFS_ROOT_INO;
          (ret, c, t) \<leftarrow> lightfs_bstore_meta_put (e_k e) meta_db (f_cache s) t root_dbt meta None True;
          Some (ret, meta, t, s\<lparr>f_cache := c\<rparr>) }
        else Some (ret, meta, t, s));
     Some (ret, root_dbt, meta, if ret \<noteq> 0 then s else txn_commit e s t) }"

definition fill_super_root :: "env \<Rightarrow> nat list \<Rightarrow> bool \<Rightarrow> fs \<Rightarrow> dbt \<Rightarrow> byte list \<Rightarrow> (int \<times> u64 option \<times> fs) option" where
  "fill_super_root e cpus root_ok s root_dbt meta = do {
     let s = s\<lparr>
       f_next_ino := (\<lambda>cpu. if cpu \<in> set cpus then LIGHTFS_INO_CUR + of_nat cpu else f_next_ino s cpu),
       f_max_ino := (\<lambda>cpu. if cpu \<in> set cpus then LIGHTFS_INO_MAX else f_max_ino s cpu),
       f_nr_cpus := of_nat (length cpus)\<rparr>;
     (r, s) \<leftarrow> lightfs_setup_inode e s root_dbt meta;
     case r of
       Inl ret \<Rightarrow> Some (ret, None, s)
     | Inr root \<Rightarrow> if root_ok then Some (0, Some root, s) else Some (- EINVAL, None, s) }"

definition lightfs_fill_super :: "env \<Rightarrow> int \<Rightarrow> nat list \<Rightarrow> bool \<Rightarrow> fs \<Rightarrow> (int \<times> u64 option \<times> fs) option" where
  "lightfs_fill_super e opened cpus root_ok s =
     (if opened \<noteq> 0 then Some (opened, None, s)
      else do {
        (ret, root_dbt, meta, s) \<leftarrow> fill_super_meta e s;
        if ret \<noteq> 0 then Some (ret, None, s) else fill_super_root e cpus root_ok s root_dbt meta })"

end
