(* ===== verification/Kevin_Reada.thy ===== *)
theory Kevin_Reada
  imports Kevin_Super
begin

text \<open>
  Read-ahead: the entries of \<open>kevinfs/lightfs_reada.c\<close>, \<open>lightfs_bstore_reada_pages\<close> of
  \<open>lightfs_bstore.c\<close> and \<open>lightfs_readpages\<close> of \<open>lightfs_super.c\<close>.  An entry is named by its
  address.  Its buffer is the buffer of the tag the request was sent with.  The bit
  \<open>READA_DONE\<close> and the completion of an entry are set together, by the receiving thread; they
  are the set \<^const>\<open>reada_done\<close> of the transport.  The memory of an entry is never given
  back, so an address is used once.  \<^const>\<open>Block\<close> stands for a caller that sleeps on the
  completion of an entry.
\<close>

section \<open>Entries\<close>

definition READA_EMPTY :: u32 where "READA_EMPTY = 1"
definition READA_FULL :: u32 where "READA_FULL = 2"
definition READA_THRESHOLD :: u32 where "READA_THRESHOLD = 64"
definition READA_MULTIPLIER :: u64 where "READA_MULTIPLIER = 1"
definition READA_QD :: u8 where "READA_QD = 4"
definition ENORA :: u32 where "ENORA = 99999"
definition ESMALL :: u32 where "ESMALL = 9999"
definition EEOF :: int where "EEOF = 999"

record reada_entry =
  re_state :: u32
  re_start :: u64
  re_len :: u32
  re_tag :: nat
  re_buf :: "nat option"

text \<open>The members of \<open>struct lightfs_inode\<close> for read-ahead, and the entries by address.\<close>

record reada =
  ra_list :: "nat list"
  ra_entry :: "nat option"
  ra_entry_cnt :: u8
  last_block_start :: u64
  last_block_len :: u32
  ra_mem :: "nat \<rightharpoonup> reada_entry"
  ra_next :: nat

definition reada_init :: "reada" where
  "reada_init = \<lparr>ra_list = [], ra_entry = None, ra_entry_cnt = 0, last_block_start = 0, last_block_len = 0,
                ra_mem = Map.empty, ra_next = 0\<rparr>"

definition set_done :: "io \<Rightarrow> nat set \<Rightarrow> io" where
  "set_done st d = st\<lparr>io_cz := (io_cz st)\<lparr>reada_done := d\<rparr>\<rparr>"

definition is_done :: "io \<Rightarrow> nat \<Rightarrow> bool" where
  "is_done st a \<longleftrightarrow> a \<in> reada_done (io_cz st)"

text \<open>The result of \<open>kmalloc\<close> is not tested; the buffer is not set.\<close>

definition lightfs_reada_alloc :: "bool \<Rightarrow> io \<Rightarrow> reada \<Rightarrow> u64 \<Rightarrow> u32 \<Rightarrow> (nat \<times> io \<times> reada) res" where
  "lightfs_reada_alloc kmalloc_failed st ra current_block_num block_cnt =
     (if kmalloc_failed then Fault
      else let a = ra_next ra;
               ra = ra\<lparr>ra_next := a + 1,
                      ra_mem := (ra_mem ra)(a \<mapsto> \<lparr>re_state = READA_FULL, re_start = current_block_num, re_len = block_cnt,
                                                 re_tag = 0, re_buf = None\<rparr>),
                      ra_list := ra_list ra @ [a], ra_entry_cnt := ra_entry_cnt ra + 1\<rparr>;
               st = set_done st (reada_done (io_cz st) - {a}) in
           if ra_entry_cnt ra = 1 then
             (if ra_entry ra \<noteq> None then Fault else Done (a, st, ra\<lparr>ra_entry := Some a\<rparr>))
           else Done (a, st, ra))"

text \<open>The tag that is released is the one of the first entry, whichever entry leaves the list.\<close>

definition lightfs_reada_free :: "nat \<Rightarrow> io \<Rightarrow> reada \<Rightarrow> (io \<times> reada) res" where
  "lightfs_reada_free a st ra =
     (if ra_mem ra a = None then Fault
      else if \<not> is_done st a then Block
      else case ra_entry ra of
        None \<Rightarrow> Fault
      | Some h \<Rightarrow>
          (case ra_mem ra h of
             None \<Rightarrow> Fault
           | Some he \<Rightarrow>
               res_bind (io_free st (re_tag he)) (\<lambda>st.
                 let ra = ra\<lparr>ra_list := remove1 a (ra_list ra), ra_entry_cnt := ra_entry_cnt ra - 1\<rparr> in
                 if ra_entry_cnt ra = 0 then Done (st, ra\<lparr>ra_entry := None\<rparr>)
                 else case ra_list ra of
                   [] \<Rightarrow> Fault
                 | x # _ \<Rightarrow> Done (st, ra\<lparr>ra_entry := Some x\<rparr>))))"

primrec reada_free_list :: "nat list \<Rightarrow> io \<Rightarrow> reada \<Rightarrow> (io \<times> reada) res" where
  "reada_free_list [] st ra = Done (st, ra)"
| "reada_free_list (a # as) st ra = res_bind (lightfs_reada_free a st ra) (\<lambda>(st, ra). reada_free_list as st ra)"

definition lightfs_reada_all_flush :: "io \<Rightarrow> reada \<Rightarrow> (io \<times> reada) res" where
  "lightfs_reada_all_flush st ra = reada_free_list (ra_list ra) st ra"

definition lightfs_reada_flush :: "io \<Rightarrow> reada \<Rightarrow> nat \<Rightarrow> (io \<times> reada) res" where
  "lightfs_reada_flush st ra cnt = reada_free_list (take cnt (ra_list ra)) st ra"

definition lightfs_reada_reuse :: "io \<Rightarrow> reada \<Rightarrow> u64 \<Rightarrow> u32 \<Rightarrow> (nat \<times> io \<times> reada) res" where
  "lightfs_reada_reuse st ra current_block_num block_cnt =
     (case ra_entry ra of
        None \<Rightarrow> Fault
      | Some a \<Rightarrow>
          (case ra_mem ra a of
             None \<Rightarrow> Fault
           | Some e \<Rightarrow>
               res_bind (io_free st (re_tag e)) (\<lambda>st.
                 Done (a, set_done st (reada_done (io_cz st) - {a}),
                   ra\<lparr>ra_mem := (ra_mem ra)(a \<mapsto> e\<lparr>re_state := READA_FULL, re_start := current_block_num,
                                                   re_len := block_cnt, re_tag := 0\<rparr>),
                      ra_list := remove1 a (ra_list ra) @ [a]\<rparr>))))"

section \<open>Whether to read ahead, and what was read\<close>

definition lightfs_reada_need :: "frames \<Rightarrow> reada \<Rightarrow> lightfs_io \<Rightarrow> u32 \<Rightarrow> bool \<Rightarrow> (bool \<times> reada) option" where
  "lightfs_reada_need fr ra lio nr_pages fg_read =
     (if nr_pages < READA_THRESHOLD then Some (False, ra)
      else do {
        p \<leftarrow> lightfs_io_first_page lio;
        let current_start_block = PAGE_TO_BLOCK_NUM (fr p);
        ret \<leftarrow> (if ra_entry_cnt ra \<ge> READA_QD then Some False
               else if fg_read then Some (current_start_block = last_block_start ra + ucast (last_block_len ra))
               else case ra_entry ra of
                 None \<Rightarrow> Some False
               | Some a \<Rightarrow> do {
                   e \<leftarrow> ra_mem ra a;
                   Some (current_start_block + ucast nr_pages = re_start e + ucast (re_len e)) });
        Some (ret, ra\<lparr>last_block_start := current_start_block, last_block_len := nr_pages\<rparr>) })"

text \<open>
  The copying loops of \<open>lightfs_reada_buffer_get\<close>, \<open>n\<close> rounds.  The source of round \<open>i\<close> is \<open>buf + idx\<close>,
  with \<open>idx\<close> counted in blocks and \<open>buf\<close> a pointer to bytes.
\<close>

fun reada_copy :: "nat \<Rightarrow> nat \<Rightarrow> byte list \<Rightarrow> frames \<Rightarrow> lightfs_io \<Rightarrow> (frames \<times> lightfs_io) option" where
  "reada_copy 0 idx buf fr lio = Some (fr, lio)"
| "reada_copy (Suc n) idx buf fr lio = do {
     p \<leftarrow> lightfs_io_current_page lio;
     data \<leftarrow> peek idx PAGE_SIZE buf;
     fr \<leftarrow> page_write fr p 0 data;
     lio \<leftarrow> lightfs_io_advance_page lio;
     reada_copy n (idx + 1) buf fr lio }"

definition lightfs_reada_buffer_get ::
    "nat \<Rightarrow> io \<Rightarrow> reada \<Rightarrow> frames \<Rightarrow> lightfs_io \<Rightarrow> u32 \<Rightarrow> (u32 \<times> frames \<times> lightfs_io) res" where
  "lightfs_reada_buffer_get a st ra fr lio nr_pages =
     (if ra_entry ra = None then Done (ENORA, fr, lio)
      else if nr_pages < READA_THRESHOLD then Done (ESMALL, fr, lio)
      else case ra_mem ra a of
        None \<Rightarrow> Fault
      | Some e \<Rightarrow>
          if re_state e AND READA_EMPTY \<noteq> 0 then Done (ENORA, fr, lio)
          else (case lightfs_io_current_page lio of
            None \<Rightarrow> Fault
          | Some p \<Rightarrow>
              let current = PAGE_TO_BLOCK_NUM (fr p); bend = re_start e + ucast (re_len e);
                  idx = unat (current - re_start e);
                  n = (if current + ucast nr_pages \<le> bend then unat (lio_vcnt lio) - unat (lio_bvidx lio)
                       else unat (re_len e) - idx) in
              if re_start e \<le> current \<and> (current + ucast nr_pages \<le> bend \<or> current < bend) then
                (if \<not> is_done st a then Block
                 else case re_buf e of
                   None \<Rightarrow> Fault
                 | Some tag \<Rightarrow>
                     (case reada_copy n idx (io_bufs st tag) fr lio of
                        None \<Rightarrow> Fault
                      | Some (fr, lio) \<Rightarrow> Done (of_nat n, fr, lio)))
              else Done (0, fr, lio)))"

section \<open>Issuing a read-ahead\<close>

text \<open>Without an entry the position is that of the last page times \<open>iter\<close>; the count can wrap around.\<close>

definition reada_window :: "frames \<Rightarrow> reada \<Rightarrow> lightfs_io \<Rightarrow> u64 \<Rightarrow> nat \<Rightarrow> (u64 \<times> u64) option" where
  "reada_window fr ra lio sz iter = do {
     current \<leftarrow> (case ra_entry ra of
        Some _ \<Rightarrow> do {
          bug_on (ra_list ra = []);
          e \<leftarrow> ra_mem ra (last (ra_list ra));
          Some (re_start e + ucast (re_len e)) }
      | None \<Rightarrow> do {
          p \<leftarrow> lightfs_io_last_page lio;
          Some (PAGE_TO_BLOCK_NUM (fr p) * of_nat iter + 1) });
     let block_cnt = lightfs_get_block_num_by_size sz + 1 - current;
     let most = ucast (lio_vcnt lio) * READA_MULTIPLIER;
     Some (current, if block_cnt > most then most else block_cnt) }"

definition lightfs_db_get_multi_reada ::
    "nat list \<Rightarrow> io \<Rightarrow> nat \<Rightarrow> nat \<Rightarrow> txn \<Rightarrow> dbt \<Rightarrow> u32 \<Rightarrow> nat \<Rightarrow> lightfs_req_type \<Rightarrow> (int \<times> nat \<times> io) res" where
  "lightfs_db_get_multi_reada = lightfs_bstore_txn_get_multi_reada"

text \<open>The code of the request is dropped.\<close>

definition lightfs_bstore_reada_pages ::
    "kern \<Rightarrow> bool \<Rightarrow> nat list \<Rightarrow> nat \<Rightarrow> io \<Rightarrow> reada \<Rightarrow> nat \<Rightarrow> txn \<Rightarrow> u64 \<Rightarrow> u64 \<Rightarrow> frames \<Rightarrow> lightfs_io \<Rightarrow> nat \<Rightarrow>
     (int \<times> io \<times> reada) res" where
  "lightfs_bstore_reada_pages k kmalloc_failed da user st ra db t ino sz fr lio iter =
     (case reada_window fr ra lio sz iter of
        None \<Rightarrow> Fault
      | Some (current, block_cnt) \<Rightarrow>
          if block_cnt = 0 then Done (EEOF, st, ra)
          else case alloc_data_dbt_from_inode (k_km k) ino current of
            None \<Rightarrow> Fault
          | Some (Inl ret) \<Rightarrow> Done (ret, st, ra)
          | Some (Inr data_dbt) \<Rightarrow>
              res_bind (lightfs_reada_alloc kmalloc_failed st ra current (ucast block_cnt)) (\<lambda>(a, st, ra).
              res_bind (lightfs_db_get_multi_reada da st user db t data_dbt (ucast block_cnt) a LIGHTFS_GET_MULTI_READA)
                (\<lambda>(_, tag, st).
                  Done (0, st, ra\<lparr>ra_mem := (ra_mem ra)(a := map_option (\<lambda>e. e\<lparr>re_tag := tag, re_buf := Some tag\<rparr>) (ra_mem ra a))\<rparr>))))"

section \<open>Reading pages\<close>

text \<open>
  What \<open>lightfs_readpages\<close> takes from its surroundings: the addresses of the huge pages and of
  the request object, failures of \<open>kmalloc\<close>, the kernel's list sort and page cache, and for the
  foreground read the fuel of its loop and the uninitialised flag.
\<close>

record rd_ctx =
  rc_da :: "nat list"
  rc_user :: nat
  rc_io_failed :: bool
  rc_entry_failed :: bool
  rc_sort :: "(nat \<Rightarrow> nat \<Rightarrow> int) \<Rightarrow> nat list \<Rightarrow> nat list"
  rc_added :: "nat \<Rightarrow> bool"
  rc_fuel :: nat
  rc_continue :: bool

text \<open>The search through the entries: the last code, twice that code, and the number of entries to release.\<close>

fun reada_search ::
    "nat list \<Rightarrow> io \<Rightarrow> reada \<Rightarrow> frames \<Rightarrow> lightfs_io \<Rightarrow> u32 \<Rightarrow> u32 \<Rightarrow> u32 \<Rightarrow> nat \<Rightarrow>
     (u32 \<times> u32 \<times> nat \<times> frames \<times> lightfs_io) res" where
  "reada_search [] st ra fr lio nr_pages ret processed freed = Done (ret, processed, freed, fr, lio)"
| "reada_search (a # as) st ra fr lio nr_pages _ _ freed =
     res_bind (lightfs_reada_buffer_get a st ra fr lio nr_pages) (\<lambda>(ret, fr, lio).
       let processed = ret + ret in
       if ret = ENORA \<or> ret = ESMALL \<or> (ret \<noteq> 0 \<and> (ret = nr_pages \<or> processed = nr_pages)) then
         Done (ret, processed, freed, fr, lio)
       else reada_search as st ra fr lio nr_pages ret processed (freed + 1))"

definition readpages_buffered ::
    "io \<Rightarrow> reada \<Rightarrow> frames \<Rightarrow> lightfs_io \<Rightarrow> u32 \<Rightarrow> (bool \<times> u32 \<times> io \<times> reada \<times> frames \<times> lightfs_io) res" where
  "readpages_buffered st ra fr lio nr_pages =
     res_bind (reada_search (ra_list ra) st ra fr lio nr_pages 0 0 0) (\<lambda>(ret, processed, freed, fr, lio).
     res_bind (if ret = ESMALL then lightfs_reada_all_flush st ra
               else if freed \<noteq> 0 then lightfs_reada_flush st ra freed
               else Done (st, ra)) (\<lambda>(st, ra).
       Done (processed \<noteq> nr_pages, ret, st, ra, fr, lio)))"

text \<open>The foreground read, or nothing; the pages are then marked and unlocked.\<close>

definition readpages_read ::
    "env \<Rightarrow> rd_ctx \<Rightarrow> bool \<Rightarrow> int \<Rightarrow> fs \<Rightarrow> inode \<Rightarrow> frames \<Rightarrow> lightfs_io \<Rightarrow> (int \<times> fs \<times> frames \<times> lightfs_io) res" where
  "readpages_read e x fg_read ret s i fr lio =
     res_bind (if fg_read then
                 (let (t, s) = txn_begin TXN_READONLY s in
                  res_bind (lightfs_bstore_scan_pages (e_k e) (e_dev e) (rc_fuel x) (rc_continue x) (i_ino i) (i_size i) fr lio)
                    (\<lambda>(ret, fr, lio). Done (ret, if ret \<noteq> 0 then s else txn_commit e s t, ret \<noteq> 0, fr, lio)))
               else Done (ret, s, False, fr, lio)) (\<lambda>(ret, s, failed, fr, lio).
       case (do {
           fr \<leftarrow> (if failed then lightfs_io_set_pages_error fr lio else lightfs_io_set_pages_uptodate fr lio);
           lightfs_io_unlock_pages fr lio }) of
         None \<Rightarrow> Fault
       | Some fr \<Rightarrow> Done (ret, s, fr, lio))"

text \<open>The loop that issues read-aheads: \<open>n\<close> rounds are left.  A failed round is followed by the next one.\<close>

fun reada_issue ::
    "nat \<Rightarrow> nat \<Rightarrow> env \<Rightarrow> rd_ctx \<Rightarrow> inode \<Rightarrow> frames \<Rightarrow> lightfs_io \<Rightarrow> fs \<Rightarrow> io \<Rightarrow> reada \<Rightarrow> int \<Rightarrow> (int \<times> fs \<times> io \<times> reada) res" where
  "reada_issue 0 iter e x i fr lio s st ra ret = Done (ret, s, st, ra)"
| "reada_issue (Suc n) iter e x i fr lio s st ra _ =
     (let (t, s) = txn_begin TXN_READONLY s in
      res_bind (lightfs_bstore_reada_pages (e_k e) (rc_entry_failed x) (rc_da x) (rc_user x) st ra data_db t (i_ino i) (i_size i)
                  fr lio iter) (\<lambda>(ret, st, ra).
        if ret \<noteq> 0 \<and> ret \<noteq> EEOF then reada_issue n (iter + 1) e x i fr lio s st ra ret
        else let s = txn_commit e s t in
             if ret = EEOF then Done (0, s, st, ra) else reada_issue n (iter + 1) e x i fr lio s st ra 0))"

definition readpages_ahead ::
    "env \<Rightarrow> rd_ctx \<Rightarrow> bool \<Rightarrow> inode \<Rightarrow> u32 \<Rightarrow> int \<Rightarrow> fs \<Rightarrow> io \<Rightarrow> reada \<Rightarrow> frames \<Rightarrow> lightfs_io \<Rightarrow>
     (int \<times> fs \<times> io \<times> reada) res" where
  "readpages_ahead e x fg_read i nr_pages ret s st ra fr lio =
     (case lightfs_reada_need fr ra lio nr_pages fg_read of
        None \<Rightarrow> Fault
      | Some (need, ra) \<Rightarrow>
          if need then reada_issue (unat (READA_QD - ra_entry_cnt ra)) 0 e x i fr lio s st ra ret
          else Done (ret, s, st, ra))"

definition lightfs_readpages ::
    "env \<Rightarrow> rd_ctx \<Rightarrow> fs \<Rightarrow> io \<Rightarrow> reada \<Rightarrow> u64 \<Rightarrow> frames \<Rightarrow> nat list \<Rightarrow> u32 \<Rightarrow> (int \<times> fs \<times> io \<times> reada \<times> frames) res" where
  "lightfs_readpages e x s st ra ino fr pages nr_pages =
     (case f_icache s ino of
        None \<Rightarrow> Fault
      | Some i \<Rightarrow>
          (case lightfs_io_alloc (rc_io_failed x) (unat nr_pages) of
             None \<Rightarrow> Done (- ENOMEM, s, st, ra, fr)
           | Some lio \<Rightarrow>
               (case lightfs_io_setup (rc_sort x) (rc_added x) fr lio pages (unat nr_pages) of
                  None \<Rightarrow> Fault
                | Some lio \<Rightarrow>
                    res_bind (readpages_buffered st ra fr lio nr_pages) (\<lambda>(fg_read, ret, st, ra, fr, lio).
                    res_bind (readpages_read e x fg_read (sint ret) s i fr lio) (\<lambda>(ret, s, fr, lio).
                    res_bind (readpages_ahead e x fg_read i nr_pages ret s st ra fr lio) (\<lambda>(ret, s, st, ra).
                      if ret \<noteq> 0 then Fault else Done (ret, s, st, ra, fr)))))))"

end
