(* ===== verification/Kevin_Bstore_Thms.thy ===== *)
theory Kevin_Bstore_Thms
  imports Kevin_Bstore
begin

text \<open>
  Properties of the block store: its reads are the round trips through the device, updates
  of a block, truncation, metadata through the cache, and the filling of pages.
\<close>

section \<open>Reads\<close>

text \<open>
  Property C16: a read of the block store is the whole round trip through the layers below.
  Submitting the request of \<open>lightfs_bstore_txn_get\<close> on the first free tag, receiving the
  device's answer and finishing returns the code and the buffer of \<open>lightfs_db_get\<close>.
\<close>

theorem read_path_equivalent:
  assumes "cz_wf (io_cz st)" and "cz_free (io_cz st) = tag # rest"
    and "dbt_valid key" and "unat (d_size key) < 65536" and "unat (d_size key) + 11 \<le> length (io_bufs st tag)"
    and "req_code ty \<le> 16" and "d_data vl = Some obj"
    and "ans = dev (dbt_bytes key)" and "m = (if ans \<noteq> [] \<and> unat (d_size vl) = 152 then 152 else length ans)"
    and "m \<le> length obj" and "m \<le> length ans" and "m < 2147483648"
  shows "\<exists>st1 st2 r vl' st3.
           lightfs_bstore_txn_get_submit da st user db t key vl 0 ty = Done st1
         \<and> io_recv (device_answer st1 tag (length ans) ans) tag = Done st2
         \<and> lightfs_bstore_txn_get_finish st2 user db t key vl 0 ty = Done (r, vl', st3)
         \<and> lightfs_db_get dev key vl = Some (r, vl')
         \<and> cz_wf (io_cz st3) \<and> cz_free (io_cz st3) = rest @ [tag]"
proof -
  define tb where "tb = get_buf db t key vl 0 ty"
  obtain b where b: "d_data key = Some b" "unat (d_size key) \<le> length b"
    using assms(3) by (auto simp: dbt_valid_def split: option.splits)
  have tb: "tb_buf tb = Buf obj" "unat (tb_key_len tb) = unat (d_size key)" "unat (d_size key) \<le> length (tb_key tb)"
      "tb_type tb = ty" "tb_len tb = d_size vl"
    using b assms(4,7)
    by (simp_all add: tb_def get_buf_def txn_buf_setup_def copy_txn_buf_key_from_dbt_def unat_ucast_u16)
  have m: "m = (if length ans \<noteq> 0 \<and> unat (tb_len tb) = 152 then 152 else length ans)" using assms(9) tb(5) by simp
  obtain st1 st2 tb' st3 where run: "lightfs_io_get_submit da st user tb = Done st1"
      "io_recv (device_answer st1 tag (length ans) ans) tag = Done st2"
      "lightfs_io_get_finish st2 user tb = Done (tb', st3)"
      "tb' = (if length ans = 0 then tb\<lparr>tb_ret := word_of_int DB_NOTFOUND\<rparr>
              else tb\<lparr>tb_ret := of_nat m, tb_buf := Buf (take m ans @ drop m obj)\<rparr>)"
      "cz_wf (io_cz st3)" "cz_free (io_cz st3) = rest @ [tag]"
    using io_get_life [OF assms(1,2) tb(1), of m "length ans" ans da user] tb assms(5,6,10,11) m by auto
  have ret: "of_nat m \<noteq> (word_of_int DB_NOTFOUND :: u32)"
  proof
    assume "of_nat m = (word_of_int DB_NOTFOUND :: u32)"
    then have "unat (of_nat m :: u32) = unat (word_of_int DB_NOTFOUND :: u32)" by simp
    with assms(12) show False by (simp add: DB_NOTFOUND_def)
  qed
  let ?r = "if ans = [] then DB_NOTFOUND else 0" and ?vl = "if ans = [] then vl else vl\<lparr>d_data := Some (take m ans @ drop m obj)\<rparr>"
  have same: "vl\<lparr>d_data := Some obj\<rparr> = vl" using assms(7) by (cases vl) simp
  have "lightfs_bstore_txn_get_finish st2 user db t key vl 0 ty = Done (?r, ?vl, st3)"
    using run(3,4) ret tb(1) same by (simp add: lightfs_bstore_txn_get_finish_def tb_def [symmetric])
  moreover have "lightfs_db_get dev key vl = Some (?r, ?vl)"
    using assms(7-11) by (cases "unat (d_size vl) = 152"; cases "ans = []") (simp_all add: lightfs_db_get_def Let_def peek_def poke_def put_at_def get_at_def)
  ultimately show ?thesis using run by (simp add: lightfs_bstore_txn_get_submit_def tb_def)
qed

theorem read_path_equivalent_witness:
  "\<exists>st1 st2 vl' st3.
     lightfs_bstore_txn_get_submit [0] io_init 5 0 lightfs_txn_init (dbt_setup [109, 1] 2) (dbt_setup [0, 0, 0, 0] 4) 0 LIGHTFS_META_GET
       = Done st1
   \<and> io_recv (device_answer st1 0 (length [7::byte, 8]) [7, 8]) 0 = Done st2
   \<and> lightfs_bstore_txn_get_finish st2 5 0 lightfs_txn_init (dbt_setup [109, 1] 2) (dbt_setup [0, 0, 0, 0] 4) 0 LIGHTFS_META_GET
       = Done (0, vl', st3)
   \<and> d_data vl' = Some [7, 8, 0, 0]"
proof -
  have vl: "d_data (dbt_setup [0, 0, 0, 0] 4) = Some [0, 0, 0, 0]" "unat (d_size (dbt_setup [0, 0, 0, 0] 4)) = 4"
      "unat (d_size (dbt_setup [109, 1] 2)) = 2" "dbt_valid (dbt_setup [109, 1] 2)"
    by (simp_all add: dbt_setup_def dbt_valid_def)
  then have get: "lightfs_db_get (\<lambda>_. [7, 8]) (dbt_setup [109, 1] 2) (dbt_setup [0, 0, 0, 0] 4)
      = Some (0, (dbt_setup [0, 0, 0, 0] 4)\<lparr>d_data := Some [7, 8, 0, 0]\<rparr>)"
    by (simp add: lightfs_db_get_def get_at_def put_at_def)
  show ?thesis
    using read_path_equivalent [OF io_init_free(1,2) vl(4), of LIGHTFS_META_GET "dbt_setup [0, 0, 0, 0] 4"
        "[0, 0, 0, 0]" "[7, 8]" "\<lambda>_. [7, 8]" "length [7::byte, 8]" "[0]" 5 0 lightfs_txn_init] get vl
    by (auto simp: io_init_free(3))
qed

section \<open>Updates of a block\<close>

text \<open>
  What an update means, byte by byte: the new bytes where the update is, the old ones where
  there were any, and zeros in between.
\<close>

definition updated_block :: "byte list option \<Rightarrow> nat \<Rightarrow> byte list \<Rightarrow> byte list" where
  "updated_block old offset buf =
     (let o_len = (case old of None \<Rightarrow> 0 | Some v \<Rightarrow> length v) in
      if buf = [] then (case old of None \<Rightarrow> [] | Some v \<Rightarrow> take offset v)
      else map (\<lambda>i. if offset \<le> i \<and> i < offset + length buf then buf ! (i - offset)
                    else if i < o_len then the old ! i else 0)
             [0..<max o_len (offset + length buf)])"

lemma put_at_nth: "off + length src \<le> length dst \<Longrightarrow> i < length dst \<Longrightarrow>
    put_at off src dst ! i = (if off \<le> i \<and> i < off + length src then src ! (i - off) else dst ! i)"
  by (auto simp: put_at_def nth_append)

lemma get_at_start: "get_at 0 n xs = take n xs"
  by (simp add: get_at_def)

lemma unat_of_nat_u64: "n < 4294967296 \<Longrightarrow> unat (of_nat n :: u64) = n"
  by (simp add: unat_of_nat take_bit_eq_mod)

lemma sint_nonneg:
  assumes "0 \<le> sint (w :: u64)"
  shows "sint w = int (unat w)"
proof -
  have "\<not> bit (uint w) 63" using assms by (simp add: sint_uint)
  moreover have "take_bit (Suc 63) (uint w) = uint w" using uint_bounded [of w] by (intro take_bit_int_eq_self) simp_all
  ultimately have "take_bit 63 (uint w) = uint w" by (simp only: take_bit_Suc_from_most) simp
  with \<open>\<not> bit (uint w) 63\<close> show ?thesis by (simp add: sint_uint signed_take_bit_eq_if_positive)
qed

text \<open>The callback on an update of some bytes, with the sizes as numbers.\<close>

lemma env_update_bytes:
  assumes "kmalloc_ok km" and "buf \<noteq> []" and "\<And>v. old = Some v \<Longrightarrow> length v < 4294967296"
    and "0 \<le> sint offset" and "unat offset + length buf < 4294967296"
  shows "env_update_cb km old offset buf =
           (let new = updated_block old (unat offset) buf in
            if km (length new) = None then Some (- ENOMEM, None) else Some (0, Some (dbt_setup new (length new))))"
proof -
  define off where "off = unat offset"
  define o_len where "o_len = (case old of None \<Rightarrow> 0 | Some v \<Rightarrow> length v)"
  define n where "n = max o_len (off + length buf)"
  have o_len: "o_len < 4294967296" using assms(3) by (simp add: o_len_def split: option.splits)
  have so: "sint offset = int off" using sint_nonneg [OF assms(4)] by (simp add: off_def)
  have offset: "offset = of_nat off" by (simp add: off_def)
  have lb: "off + length buf < 4294967296" using assms(5) by (simp add: off_def)
  have sum: "unat (offset + of_nat (length buf)) = off + length buf"
    unfolding offset of_nat_add [symmetric] by (rule unat_of_nat_u64 [OF lb])
  have size: "unat (case old of None \<Rightarrow> offset + of_nat (length buf)
               | Some v \<Rightarrow> if of_nat (length v) > offset + of_nat (length buf) then of_nat (length v) else offset + of_nat (length buf)) = n"
    using o_len by (auto simp: n_def o_len_def word_less_nat_alt sum unat_of_nat_u64 split: option.splits)
  have gap: "unat (offset - of_nat o_len) = off - o_len" if "off > o_len"
  proof -
    have "offset - of_nat o_len = of_nat (off - o_len)" using that by (simp add: offset of_nat_diff)
    then show ?thesis using lb by (simp add: unat_of_nat_u64)
  qed
  have len: "length (updated_block old off buf) = n" using assms(2) by (simp add: updated_block_def n_def o_len_def Let_def)
  show ?thesis
  proof (cases "km n")
    case None
    with size len assms(2) show ?thesis by (simp add: env_update_cb_def Let_def off_def)
  next
    case (Some nv)
    with assms(1) have nv: "length nv = n" by (simp add: kmalloc_ok_def)
    define old_part where "old_part = (case old of None \<Rightarrow> nv | Some v \<Rightarrow> put_at 0 v nv)"
    define filled where "filled = put_at (min off o_len) (replicate (off - o_len) 0) old_part"
    have part: "length old_part = n" using nv by (auto simp: old_part_def n_def o_len_def split: option.splits)
    then have fl: "length filled = n" by (simp add: filled_def n_def)
    have "put_at off buf filled = updated_block old off buf"
    proof (rule nth_equalityI)
      fix i assume "i < length (put_at off buf filled)"
      with fl have i: "i < n" by (simp add: n_def)
      then show "put_at off buf filled ! i = updated_block old off buf ! i"
        using assms(2) part fl nv
        by (cases old) (auto simp: put_at_nth updated_block_def Let_def filled_def old_part_def o_len_def n_def nth_append)
    qed (simp add: fl len n_def)
    moreover have "env_update_cb km old offset buf = Some (0, Some (dbt_setup (put_at off buf filled) n))"
    proof -
      have le: "o_len \<le> n" "off + length buf \<le> n" by (simp_all add: n_def)
      have fill: "(if off > o_len then poke o_len (replicate (unat (offset - of_nat o_len)) 0) old_part else Some old_part) = Some filled"
        using le part gap by (auto simp: filled_def put_at_def min_def)
      have "env_update_cb km old offset buf = do {
          nv \<leftarrow> (case old of Some v \<Rightarrow> poke 0 v nv | None \<Rightarrow> Some nv);
          nv \<leftarrow> (if off > o_len then poke o_len (replicate (unat (offset - of_nat o_len)) 0) nv else Some nv);
          nv \<leftarrow> poke off buf nv;
          Some (0, Some (dbt_setup nv n)) }"
        unfolding env_update_cb_def Let_def size Some o_len_def so using assms(2) by (cases old) (simp_all add: off_def [symmetric] cong: if_cong)
      also have "(case old of Some v \<Rightarrow> poke 0 v nv | None \<Rightarrow> Some nv) = Some old_part"
        using le nv by (simp add: old_part_def o_len_def split: option.splits)
      finally show ?thesis using fill fl le by simp
    qed
    ultimately show ?thesis using Some len by (simp add: off_def Let_def)
  qed
qed

text \<open>
  Property C21: the in-place update of a block sets the block described byte by byte, for old
  values, offsets and data whose sizes fit the 32-bit size of a value; an empty update
  truncates, and keeps the whole block for a negative offset.  The update is refused when the memory for exactly that block
  cannot be had, and it never leaves its buffers.  For a negative offset an update with data
  does neither: it fails for want of memory or writes in front of its buffer.
\<close>

theorem env_update_equivalent:
  assumes "kmalloc_ok km" and "\<And>v. old = Some v \<Longrightarrow> length v < 4294967296"
    and "buf = [] \<or> sint offset < 0 \<or> unat offset + length buf < 4294967296"
  shows "(if buf = [] \<and> old = None then env_update_cb km old offset buf = Some (0, Some ((dbt_setup [] 0)\<lparr>d_data := None\<rparr>))
          else if buf \<noteq> [] \<and> sint offset < 0 then env_update_cb km old offset buf \<in> {Some (- ENOMEM, None), None}
          else env_update_cb km old offset buf =
            (let new = updated_block old (unat offset) buf in
             if km (length new) = None then Some (- ENOMEM, None) else Some (0, Some (dbt_setup new (length new)))))"
proof (cases "buf = []")
  case True
  have "env_update_cb km (Some v) offset [] =
      (let new = take (unat offset) v in
       if km (length new) = None then Some (- ENOMEM, None) else Some (0, Some (dbt_setup new (length new))))"
    if "length v < 4294967296" for v
    using assms(1) that
    by (auto simp: env_update_cb_def kmalloc_ok_def Let_def get_at_start put_at_def min_def word_less_nat_alt unat_of_nat_u64 split: option.splits)
  with True assms(2) show ?thesis by (cases old) (auto simp: updated_block_def env_update_cb_def)
next
  case False
  show ?thesis
  proof (cases "sint offset < 0")
    case True
    with False show ?thesis
      by (auto simp: env_update_cb_def Let_def split: option.splits Option.bind_splits if_splits)
  next
    case neg: False
    with env_update_bytes [OF assms(1) False assms(2)] assms(3) False show ?thesis by simp
  qed
qed

theorem env_update_equivalent_witness:
  "env_update_cb km_zero (Some [1, 2, 3]) 5 [9, 8] = Some (0, Some (dbt_setup [1, 2, 3, 0, 0, 9, 8] 7))
 \<and> env_update_cb km_zero None (- 1) [9] \<in> {Some (- ENOMEM, None), None}"
proof -
  have "updated_block (Some [1, 2, 3]) 5 [9, 8] = [1, 2, 3, 0, 0, 9, 8]" by code_simp
  moreover have "kmalloc_ok km_zero" by (simp add: km_zero_def kmalloc_ok_def)
  moreover have "\<not> sint (5 :: u64) < 0" "sint (- 1 :: u64) < 0" by simp_all
  ultimately show ?thesis
    using env_update_equivalent [of km_zero "Some [1, 2, 3]" "[9, 8]" 5] env_update_equivalent [of km_zero None "[9]" "- 1"]
    by (simp add: km_zero_def dbt_setup_def)
qed

section \<open>Truncation\<close>

text \<open>The blocks a range deletion names.\<close>

definition del_blocks :: "txn_buf \<Rightarrow> nat list" where
  "del_blocks tb =
     (case lightfs_data_key_get_blocknum (tb_key_bytes tb) (length (tb_key_bytes tb)) of
        None \<Rightarrow> []
      | Some b \<Rightarrow> [unat b..<unat b + unat (tb_off tb)])"

definition del_txn :: "u64 \<Rightarrow> txn \<Rightarrow> bool" where
  "del_txn ino t \<longleftrightarrow>
     (case t_bufs t of
        [tb] \<Rightarrow> tb_type tb = LIGHTFS_DATA_DEL_MULTI \<and> lightfs_key_get_ino (tb_key_bytes tb) = Some ino
              \<and> unat (tb_off tb) \<le> LIGHTFS_TXN_LIMIT
      | _ \<Rightarrow> False)"

definition txn_del_blocks :: "txn list \<Rightarrow> nat list" where
  "txn_del_blocks ts = concat (map del_blocks (concat (map t_bufs ts)))"

definition queued :: "hdlr \<Rightarrow> txn list \<Rightarrow> hdlr" where
  "queued h ts = h\<lparr>h_txn_list := h_txn_list h @ ts, h_txn_id := h_txn_id h + of_nat (length ts),
                   h_txn_cnt := h_txn_cnt h + of_nat (length ts)\<rparr>"

definition data_dbt_of :: "u64 \<Rightarrow> u64 \<Rightarrow> dbt" where
  "data_dbt_of ino bn = dbt_setup (data_key_of ino bn) 17"

lemma data_dbt_simps [simp]: "d_data (data_dbt_of ino bn) = Some (data_key_of ino bn)" "unat (d_size (data_dbt_of ino bn)) = 17"
    "dbt_bytes (data_dbt_of ino bn) = data_key_of ino bn" "dbt_valid (data_dbt_of ino bn)" "d_size (data_dbt_of ino bn) = 17"
  by (simp_all add: data_dbt_of_def dbt_setup_def dbt_bytes_def dbt_valid_def)

lemma copy_data_dbt: "copy_data_dbt_from_inode (data_dbt_of ino bn) ino' bn' = Some (data_dbt_of ino' bn')"
  by (simp add: copy_data_dbt_from_inode_def data_dbt_of_def dbt_setup_def key_pos_defs write_data_key)

lemma memory_kmalloc: "memory_ok km \<Longrightarrow> kmalloc_ok km"
  unfolding memory_ok_def kmalloc_ok_def by (metis option.inject)

lemma alloc_data_dbt:
  assumes "memory_ok km"
  shows "alloc_data_dbt_from_inode km ino bn = Some (Inr (data_dbt_of ino bn))"
proof -
  obtain b where "km 17 = Some b" using assms by (auto simp: memory_ok_def)
  then show ?thesis using alloc_data_dbt_eq [OF memory_kmalloc [OF assms], of ino bn] by (simp add: data_dbt_of_def)
qed

lemma del_multi_txn:
  assumes "memory_ok km" and "unat cnt \<le> LIGHTFS_TXN_LIMIT"
  shows "\<exists>t. lightfs_db_del_multi km db lightfs_txn_init (Some (data_dbt_of ino bn)) (ucast (cnt :: u64)) LIGHTFS_DATA_DEL_MULTI = Some (0, t)
           \<and> del_txn ino (t\<lparr>t_id := i, t_state := st\<rparr>) \<and> txn_del_blocks [t\<lparr>t_id := i, t_state := st\<rparr>] = [unat bn..<unat bn + unat cnt]
           \<and> t_cnt t = 1 \<and> t_state t = t_state lightfs_txn_init"
proof -
  obtain key where "\<And>tb. alloc_txn_buf_key_from_dbt km tb (data_dbt_of ino bn) = Some (tb\<lparr>tb_key := key, tb_key_len := 17\<rparr>)"
      "length key = 17" "key = data_key_of ino bn"
    using alloc_key_ok [OF assms(1), of "data_dbt_of ino bn"] by auto
  moreover have "unat (ucast (ucast cnt :: u32) :: u16) = unat cnt"
    using assms(2) by (simp add: unsigned_ucast_eq LIGHTFS_TXN_LIMIT_def take_bit_nat_eq_self unsigned_take_bit_eq)
  ultimately show ?thesis using assms(2)
    by (simp add: lightfs_db_del_multi_def lightfs_bstore_txn_insert_def txn_add_def txn_buf_setup_def del_txn_def
        txn_del_blocks_def del_blocks_def tb_key_bytes_def lightfs_txn_init_def)
qed

lemma commit_queued:
  assumes "t_cnt t = 1" and "t_state t = t_state lightfs_txn_init"
  shows "lightfs_bstore_txn_commit h t cp =
           queued h [t\<lparr>t_id := h_txn_id h, t_state := set_flag (t_state lightfs_txn_init) TXN_COMMITTED\<rparr>]"
  using assms by (simp add: lightfs_bstore_txn_commit_def queued_def lightfs_txn_init_def has_flag_def txn_state_defs)

lemma queued_queued: "queued (queued h ts) us = queued h (ts @ us)"
  by (simp add: queued_def)

lemma trunc_loop_deletes:
  assumes "memory_ok (k_km k)" and "unat current + unat rest < 2 ^ 64"
  shows "\<exists>ts. trunc_loop k db ino rest current (data_dbt_of ino current) 0 h = Some (0, queued h ts)
           \<and> (\<forall>t \<in> set ts. del_txn ino t) \<and> txn_del_blocks ts = [unat current..<unat current + unat rest]"
  using assms(2)
proof (induction "unat rest" arbitrary: rest current h rule: less_induct)
  case less
  show ?case
  proof (cases "rest = 0")
    case True
    then show ?thesis by (intro exI [of _ "[]"]) (simp add: queued_def txn_del_blocks_def trunc_loop.simps)
  next
    case False
    define cnt where "cnt = (if rest > of_nat LIGHTFS_TXN_LIMIT then of_nat LIGHTFS_TXN_LIMIT else rest)"
    have cnt: "unat cnt = min (unat rest) 310" "cnt \<le> rest"
      by (auto simp: cnt_def LIGHTFS_TXN_LIMIT_def word_less_nat_alt word_le_nat_alt)
    have pos: "0 < unat rest" using False by (simp add: unat_gt_0)
    have sub: "unat (rest - cnt) = unat rest - unat cnt" using cnt(2) by (simp add: unat_sub)
    have add: "unat (current + cnt) = unat current + unat cnt"
      using less.prems cnt(1) by (simp add: unat_word_ariths)
    from del_multi_txn [OF assms(1), of cnt db ino current "set_flag (t_state lightfs_txn_init) TXN_COMMITTED" "h_txn_id h"] cnt(1)
    obtain t where t: "lightfs_db_del_multi (k_km k) db lightfs_txn_init (Some (data_dbt_of ino current)) (ucast cnt) LIGHTFS_DATA_DEL_MULTI = Some (0, t)"
        "t_cnt t = 1" "t_state t = t_state lightfs_txn_init"
      and del: "del_txn ino (t\<lparr>t_id := h_txn_id h, t_state := set_flag (t_state lightfs_txn_init) TXN_COMMITTED\<rparr>)"
        "txn_del_blocks [t\<lparr>t_id := h_txn_id h, t_state := set_flag (t_state lightfs_txn_init) TXN_COMMITTED\<rparr>]
           = [unat current..<unat current + unat cnt]"
      by (auto simp: LIGHTFS_TXN_LIMIT_def)
    define t' where "t' = t\<lparr>t_id := h_txn_id h, t_state := set_flag (t_state lightfs_txn_init) TXN_COMMITTED\<rparr>"
    have step: "trunc_loop k db ino rest current (data_dbt_of ino current) 0 h =
        trunc_loop k db ino (rest - cnt) (current + cnt) (data_dbt_of ino (current + cnt)) 0 (queued h [t'])"
      using False t commit_queued [OF t(2,3), of h 0]
      by (subst trunc_loop.simps) (simp add: lightfs_bstore_txn_begin_def cnt_def [symmetric] copy_data_dbt t'_def TXN_MAY_WRITE_def TXN_READONLY_def TXN_SYNC_WRITE_def Let_def)
    have "unat (rest - cnt) < unat rest" "unat (current + cnt) + unat (rest - cnt) < 2 ^ 64"
      using less.prems sub add cnt pos by auto
    from less.hyps [OF this, of "queued h [t']"] obtain ts where
      ts: "trunc_loop k db ino (rest - cnt) (current + cnt) (data_dbt_of ino (current + cnt)) 0 (queued h [t'])
             = Some (0, queued (queued h [t']) ts)"
        "\<forall>t \<in> set ts. del_txn ino t" "txn_del_blocks ts = [unat current + unat cnt..<unat current + unat rest]"
      using sub add cnt by auto
    have "[unat current..<unat current + unat cnt] @ [unat current + unat cnt..<unat current + unat rest] =
        [unat current..<unat current + unat rest]"
      using upt_add_eq_append [of "unat current" "unat current + unat cnt" "unat rest - unat cnt"] cnt(1) by simp
    then show ?thesis
      using step ts del by (intro exI [of _ "t' # ts"]) (simp add: queued_queued t'_def txn_del_blocks_def)
  qed
qed

lemma trunc_ok:
  assumes "memory_ok (k_km k)" and "first = (if new_num = 0 then 1 else if offset = 0 then new_num else new_num + 1)"
    and "unat first \<le> (unat i_size + 4095) div 4096 + 1"
  shows "\<exists>ts. lightfs_bstore_trunc k data_db ino i_size new_num offset h = Some (0, queued h ts)
           \<and> (\<forall>t \<in> set ts. del_txn ino t)
           \<and> txn_del_blocks ts = [unat first..<(unat i_size + 4095) div 4096 + 1]"
proof -
  let ?last = "lightfs_get_block_num_by_size i_size"
  have size: "unat i_size < 18446744073709551616" using unsigned_less [of i_size, where ?'a = nat] by simp
  then have last: "(unat i_size + 4095) div 4096 + 1 < 18446744073709551616" by simp
  have "unat (?last + 1) = (unat i_size + 4095) div 4096 + 1"
    using last by (simp add: unat_word_ariths unat_block_num_by_size)
  moreover from this have "unat (?last + 1 - first) = unat (?last + 1) - unat first"
    using assms(3) by (simp add: unat_sub word_le_nat_alt)
  moreover have eq: "?last - first + 1 = ?last + 1 - first" by simp
  ultimately have rest: "unat first + unat (?last - first + 1) = (unat i_size + 4095) div 4096 + 1"
    unfolding eq using assms(3) by linarith
  then have "unat first + unat (?last - first + 1) < 2 ^ 64" using last by simp
  from trunc_loop_deletes [OF assms(1) this, of data_db ino h] rest show ?thesis
    by (simp add: lightfs_bstore_trunc_def alloc_data_dbt [OF assms(1)] assms(2) [symmetric] Let_def)
qed

text \<open>
  Property C19: truncation deletes exactly the blocks behind the new end of the file.  It
  commits range deletions of at most \<open>LIGHTFS_TXN_LIMIT\<close> blocks, one to a transaction, that
  together name every block from the first one to go up to the last one of the old file,
  each once and in order, and it changes nothing else of the handler.  The block the new
  end lies in is kept as it is, also behind the end.
\<close>

theorem trunc_deletes_tail:
  assumes "memory_ok (k_km k)" and "first = (if new_num = 0 then 1 else if offset = 0 then new_num else new_num + 1)"
    and "unat first \<le> (unat i_size + 4095) div 4096 + 1"
  shows "\<exists>ts. lightfs_bstore_trunc k data_db ino i_size new_num offset h = Some (0, queued h ts)
           \<and> (\<forall>t \<in> set ts. del_txn ino t)
           \<and> txn_del_blocks ts = [unat first..<(unat i_size + 4095) div 4096 + 1]"
  by (rule trunc_ok [OF assms])

definition sample_kern :: kern where
  "sample_kern = \<lparr>k_km = km_zero, k_crc = (\<lambda>seed _. seed), k_hmin = unat, k_ic = (\<lambda>_ t. t), k_er = spine_erase\<rparr>"

lemma sample_kern_ok: "kern_ok sample_kern"
  by (simp add: kern_ok_def sample_kern_def memory_ok_zero spine_lib_ok)

lemma sample_kern_km: "memory_ok (k_km sample_kern)"
  using sample_kern_ok by (simp add: kern_ok_def)

theorem trunc_deletes_tail_witness:
  "\<exists>ts. lightfs_bstore_trunc sample_kern 1 7 16384 2 100 txn_hdlr_alloc = Some (0, queued txn_hdlr_alloc ts)
     \<and> txn_del_blocks ts = [3, 4]"
proof -
  have "[3..<5] = [3, 4::nat]" by code_simp
  then show ?thesis using trunc_deletes_tail [OF sample_kern_km, of 3 2 100 16384 1 7 txn_hdlr_alloc] by auto
qed

section \<open>Metadata\<close>

lemma meta_get_cases:
  assumes "cache_inv (k_crc k) (k_hmin k) c" and "length (dbt_bytes key) < 65536" and "length buf = INODE_SIZE"
    and "dev (dbt_bytes key) = [] \<or> INODE_SIZE \<le> length (dev (dbt_bytes key))"
  shows "case cache_abs (k_crc k) (k_hmin k) c (dbt_bytes key) of
           None \<Rightarrow> lightfs_bstore_meta_get k dev c key buf = Some (- ENOENT, buf, c)
         | Some (v, evicted) \<Rightarrow> \<exists>c'. lightfs_bstore_meta_get k dev c key buf =
              Some (if evicted then if dev (dbt_bytes key) = [] then (DB_NOTFOUND, v, c')
                                    else (0, take INODE_SIZE (dev (dbt_bytes key)), c')
                    else (0, v, c'))
            \<and> cache_inv (k_crc k) (k_hmin k) c'
            \<and> cache_abs (k_crc k) (k_hmin k) c' = (cache_abs (k_crc k) (k_hmin k) c)(dbt_bytes key \<mapsto> (v, False))"
proof -
  have mb: "meta_buf (meta_value b)" "d_data (meta_value b) = Some b" "unat (d_size (meta_value b)) = 152"
      "meta_of ((meta_value b)\<lparr>d_data := Some v\<rparr>) = v" "meta_of (meta_value b) = b" if "length b = INODE_SIZE" for b v
    using that by (simp_all add: meta_buf_def meta_value_def dbt_setup_def INODE_SIZE_def meta_of_def)
  have ne: "DB_FOUND_FREE \<noteq> DB_NOTFOUND" "0 \<noteq> DB_NOTFOUND" "0 \<noteq> DB_FOUND_FREE" by (simp_all add: code_defs)
  note get = cache_get_ok [OF assms(1,2) mb(1) [OF assms(3)]]
  show ?thesis
  proof (cases "cache_abs (k_crc k) (k_hmin k) c (dbt_bytes key)")
    case None
    then show ?thesis using get mb [OF assms(3)] by (simp add: lightfs_bstore_meta_get_def)
  next
    case (Some a)
    obtain v ev where a: "a = (v, ev)" by (cases a)
    then have len: "length v = INODE_SIZE" using get Some by simp
    have dev: "lightfs_db_get dev key (meta_value v) =
        (if dev (dbt_bytes key) = [] then Some (DB_NOTFOUND, meta_value v)
         else Some (0, (meta_value v)\<lparr>d_data := Some (take INODE_SIZE (dev (dbt_bytes key)))\<rparr>))"
      using assms(4) len mb(2,3) [OF len]
      by (auto simp: lightfs_db_get_def Let_def get_at_def put_at_def INODE_SIZE_def)
    show ?thesis
      using Some a get ne dev mb [OF assms(3)] mb [OF len]
      by (cases ev) (auto simp: lightfs_bstore_meta_get_def)
  qed
qed

text \<open>
  Property C18: how metadata is read.  An unmarked cached value is returned without the
  device.  A value marked evicted is read again from the device, whatever the cache and
  the transactions not yet sent hold, and unmarked.  A key that is not cached does not
  exist: the answer is \<open>-ENOENT\<close> whatever the device holds, so that a file system mounted
  again finds none of its files.
\<close>

theorem meta_get_spec:
  assumes "cache_inv (k_crc k) (k_hmin k) c" and "length (dbt_bytes key) < 65536" and "length buf = INODE_SIZE"
    and "dev (dbt_bytes key) = [] \<or> INODE_SIZE \<le> length (dev (dbt_bytes key))"
  shows "case cache_abs (k_crc k) (k_hmin k) c (dbt_bytes key) of
           None \<Rightarrow> lightfs_bstore_meta_get k dev c key buf = Some (- ENOENT, buf, c)
         | Some (v, evicted) \<Rightarrow> \<exists>c'. lightfs_bstore_meta_get k dev c key buf =
              Some (if evicted then if dev (dbt_bytes key) = [] then (DB_NOTFOUND, v, c')
                                    else (0, take INODE_SIZE (dev (dbt_bytes key)), c')
                    else (0, v, c'))
            \<and> cache_inv (k_crc k) (k_hmin k) c'
            \<and> cache_abs (k_crc k) (k_hmin k) c' = (cache_abs (k_crc k) (k_hmin k) c)(dbt_bytes key \<mapsto> (v, False))"
  by (rule meta_get_cases [of k c key buf dev, OF assms])

lemma abs_empty: "cache_abs crc hmin (snd (lightfs_cache_create b)) = Map.empty"
  by (auto simp: cache_abs_def ht_find_def lightfs_cache_create_def)

lemma sample_key: "dbt_bytes (dbt_setup [109, 1] 2) = [109, 1]" "dbt_valid (dbt_setup [109, 1] 2)"
    "unat (d_size (dbt_setup [109, 1] 2)) = 2"
  by (simp_all add: dbt_bytes_def dbt_setup_def dbt_valid_def)

theorem meta_get_spec_witness:
  "lightfs_bstore_meta_get sample_kern (\<lambda>_. replicate 152 9) (snd (lightfs_cache_create False)) (dbt_setup [109, 1] 2)
     (replicate 152 0) = Some (- ENOENT, replicate 152 0, snd (lightfs_cache_create False))"
  using meta_get_spec [of sample_kern "snd (lightfs_cache_create False)" "dbt_setup [109, 1] 2" "replicate 152 0" "\<lambda>_. replicate 152 9",
      OF cache_inv_create]
  by (simp add: abs_empty sample_key INODE_SIZE_def)

text \<open>What the requests of a transaction do to the metadata on the device.\<close>

definition meta_apply :: "wire \<Rightarrow> (byte list \<rightharpoonup> byte list) \<Rightarrow> (byte list \<rightharpoonup> byte list)" where
  "meta_apply w m = (case w of W_meta_set key off v \<Rightarrow> m(key \<mapsto> v) | W_del ty key \<Rightarrow> m(key := None) | _ \<Rightarrow> m)"

definition meta_view :: "(byte list \<rightharpoonup> byte list) \<Rightarrow> txn \<Rightarrow> (byte list \<rightharpoonup> byte list)" where
  "meta_view m t = fold meta_apply (List.map_filter (wire_of (\<lambda>_. [])) (t_bufs t)) m"

definition coherent :: "kern \<Rightarrow> ht_cache \<Rightarrow> (byte list \<rightharpoonup> byte list) \<Rightarrow> bool" where
  "coherent k c m \<longleftrightarrow> (\<forall>key v e. cache_abs (k_crc k) (k_hmin k) c key = Some (v, e) \<longrightarrow> m key = Some v)"

lemma meta_view_add: "wire_of (\<lambda>_. []) tb = Some w \<Longrightarrow> meta_view m (txn_add t tb) = meta_apply w (meta_view m t)"
  by (simp add: meta_view_def txn_add_def List.map_filter_def)

lemma put_meta_txn:
  assumes "memory_ok km" and "dbt_valid key" and "unat (d_size key) < 65536" and "length metadata = INODE_SIZE"
  shows "\<exists>tb. lightfs_db_put km db t key (IV_dbt (meta_value metadata)) LIGHTFS_META_SET = Some (0, txn_add t tb)
           \<and> wire_of (\<lambda>_. []) tb = Some (W_meta_set (dbt_bytes key) 0 metadata)"
proof -
  obtain kb where kb: "\<And>tb. alloc_txn_buf_key_from_dbt km tb key = Some (tb\<lparr>tb_key := kb, tb_key_len := ucast (d_size key)\<rparr>)"
      "length kb = unat (d_size key)" "kb = dbt_bytes key"
    using alloc_key_ok [OF assms(1-3)] by (metis (mono_tags, lifting))
  moreover obtain b where "km INODE_SIZE = Some b" "length b = INODE_SIZE" using assms(1) by (auto simp: memory_ok_def)
  moreover have "unat (ucast (d_size key) :: u16) = unat (d_size key)" using assms(3) by (simp add: unat_ucast_u16)
  ultimately show ?thesis using assms(4)
    by (simp add: lightfs_db_put_def lightfs_bstore_txn_insert_def insert_buf_def insert_fill_def iv_size_def meta_value_def
        dbt_setup_def txn_buf_setup_cpy_def INODE_SIZE_def get_at_def put_at_def)
      (rule exI, rule conjI, rule refl, simp add: wire_of_def tb_value_def tb_key_bytes_def)
qed

lemma del_meta_txn:
  assumes "memory_ok km" and "dbt_valid key" and "unat (d_size key) < 65536"
  shows "\<exists>tb. lightfs_db_del km db t key LIGHTFS_META_DEL = Some (0, txn_add t tb)
           \<and> wire_of (\<lambda>_. []) tb = Some (W_del 3 (dbt_bytes key))"
proof -
  obtain kb where kb: "\<And>tb. alloc_txn_buf_key_from_dbt km tb key = Some (tb\<lparr>tb_key := kb, tb_key_len := ucast (d_size key)\<rparr>)"
      "length kb = unat (d_size key)" "kb = dbt_bytes key"
    using alloc_key_ok [OF assms(1-3)] by (metis (mono_tags, lifting))
  moreover have "unat (ucast (d_size key) :: u16) = unat (d_size key)" using assms(3) by (simp add: unat_ucast_u16)
  ultimately show ?thesis
    by (simp add: lightfs_db_del_def lightfs_bstore_txn_insert_def txn_buf_setup_def)
      (rule exI, rule conjI, rule refl, simp add: wire_of_def tb_key_bytes_def)
qed

lemma meta_put_ok:
  assumes "kern_ok k" and "cache_inv (k_crc k) (k_hmin k) c" and "dbt_valid key" and "unat (d_size key) < 65536"
    and "length metadata = INODE_SIZE"
    and "dir_arg_ok c (dbt_bytes key) (map_option dbt_bytes dir) \<or> cache_abs (k_crc k) (k_hmin k) c (dbt_bytes key) \<noteq> None"
  shows "\<exists>c' tb. lightfs_bstore_meta_put k db c t key metadata dir is_dir = Some (0, c', txn_add t tb)
           \<and> cache_inv (k_crc k) (k_hmin k) c'
           \<and> cache_abs (k_crc k) (k_hmin k) c' = (cache_abs (k_crc k) (k_hmin k) c)(dbt_bytes key \<mapsto> (metadata, False))
           \<and> wire_of (\<lambda>_. []) tb = Some (W_meta_set (dbt_bytes key) 0 metadata)"
proof -
  have len: "length (dbt_bytes key) < 65536" using assms(3,4) by (auto simp: dbt_bytes_def split: option.splits)
  have mem: "memory_ok (k_km k)" and lib: "rb_lib_ok (k_ic k) (k_er k)" using assms(1) by (simp_all add: kern_ok_def)
  let ?put = "\<lambda>d b. lightfs_ht_cache_put (k_crc k) (k_hmin k) (k_km k) (k_ic k) c (dbt_bytes key) metadata d b"
  have "\<exists>c'. ?put (map_option dbt_bytes dir) is_dir = Some (0, c') \<and> cache_inv (k_crc k) (k_hmin k) c'
      \<and> cache_abs (k_crc k) (k_hmin k) c' = (cache_abs (k_crc k) (k_hmin k) c)(dbt_bytes key \<mapsto> (metadata, False))"
  proof (cases "dir_arg_ok c (dbt_bytes key) (map_option dbt_bytes dir)")
    case True
    then show ?thesis by (rule cache_put_ok [OF assms(2) lib mem len assms(5)])
  next
    case False
    with assms(6) have "?put (map_option dbt_bytes dir) is_dir = ?put None False"
      by (auto simp: cache_abs_def lightfs_ht_cache_put_def split: if_splits option.splits)
    then show ?thesis using cache_put_ok [OF assms(2) lib mem len assms(5), of None False] by (simp add: dir_arg_ok_def)
  qed
  moreover have "dbt_bytes (meta_value metadata) = metadata"
    using assms(5) by (simp add: dbt_bytes_def meta_value_def dbt_setup_def INODE_SIZE_def)
  ultimately show ?thesis using put_meta_txn [OF mem assms(3-5), of db t] by (auto simp: lightfs_bstore_meta_put_def)
qed

lemma meta_del_ok:
  assumes "kern_ok k" and "cache_inv (k_crc k) (k_hmin k) c" and "dbt_valid key" and "unat (d_size key) < 65536"
    and "removable c (dbt_bytes key)"
  shows "\<exists>c' tb. lightfs_bstore_meta_del k db c t key False is_dir = Some (0, c', txn_add t tb)
           \<and> cache_inv (k_crc k) (k_hmin k) c'
           \<and> cache_abs (k_crc k) (k_hmin k) c' = (cache_abs (k_crc k) (k_hmin k) c)(dbt_bytes key := None)
           \<and> wire_of (\<lambda>_. []) tb = Some (W_del 3 (dbt_bytes key))"
proof -
  have len: "length (dbt_bytes key) < 65536" using assms(3,4) by (auto simp: dbt_bytes_def split: option.splits)
  have mem: "memory_ok (k_km k)" and lib: "rb_lib_ok (k_ic k) (k_er k)" using assms(1) by (simp_all add: kern_ok_def)
  have "cache_abs (k_crc k) (k_hmin k) c (dbt_bytes key) = None \<Longrightarrow>
      (cache_abs (k_crc k) (k_hmin k) c)(dbt_bytes key := None) = cache_abs (k_crc k) (k_hmin k) c" by auto
  with cache_del_ok [OF assms(2) lib len assms(5), of is_dir] del_meta_txn [OF mem assms(3,4), of db t] assms(2) show ?thesis
    by (auto simp: lightfs_bstore_meta_del_def split: if_splits)
qed

lemma meta_weak_del_ok:
  assumes "cache_inv (k_crc k) (k_hmin k) c" and "length (dbt_bytes key) < 65536"
  shows "\<exists>c'. lightfs_bstore_meta_del k db c t key True is_dir = Some (0, c', t) \<and> cache_inv (k_crc k) (k_hmin k) c'
           \<and> cache_abs (k_crc k) (k_hmin k) c' = (cache_abs (k_crc k) (k_hmin k) c)(dbt_bytes key :=
               map_option (\<lambda>(v, _). (v, True)) (cache_abs (k_crc k) (k_hmin k) c (dbt_bytes key)))"
proof (cases "cache_abs (k_crc k) (k_hmin k) c (dbt_bytes key)")
  case None
  then have "(cache_abs (k_crc k) (k_hmin k) c)(dbt_bytes key := None) = cache_abs (k_crc k) (k_hmin k) c" by auto
  with None cache_weak_del_ok [OF assms] assms(1) show ?thesis by (simp add: lightfs_bstore_meta_del_def)
next
  case (Some a)
  with cache_weak_del_ok [OF assms] show ?thesis by (cases a) (auto simp: lightfs_bstore_meta_del_def)
qed

text \<open>
  Property C17: metadata is written through.  Every value in the cache, marked evicted or
  not, is the value the device will have once the transactions are executed, and storing,
  deleting and marking metadata keep that: a store makes the value the cached and the
  logged one, unmarked; a deletion removes it from both; a weak deletion marks the cached
  value, if there is one, and leaves the log alone.  Every other key keeps what the cache
  holds for it, its mark included, and what the log says of it.
\<close>

theorem meta_write_through:
  assumes "kern_ok k" and "cache_inv (k_crc k) (k_hmin k) c" and "dbt_valid key" and "unat (d_size key) < 65536"
    and "coherent k c (meta_view m t)"
  shows "(\<forall>metadata dir is_dir. length metadata = INODE_SIZE \<longrightarrow> dir_arg_ok c (dbt_bytes key) (map_option dbt_bytes dir) \<longrightarrow>
            (\<exists>c' t'. lightfs_bstore_meta_put k db c t key metadata dir is_dir = Some (0, c', t')
               \<and> cache_inv (k_crc k) (k_hmin k) c' \<and> coherent k c' (meta_view m t')
               \<and> cache_abs (k_crc k) (k_hmin k) c' = (cache_abs (k_crc k) (k_hmin k) c)(dbt_bytes key \<mapsto> (metadata, False))
               \<and> meta_view m t' = (meta_view m t)(dbt_bytes key \<mapsto> metadata)))
       \<and> (\<forall>is_dir. removable c (dbt_bytes key) \<longrightarrow>
            (\<exists>c' t'. lightfs_bstore_meta_del k db c t key False is_dir = Some (0, c', t')
               \<and> cache_inv (k_crc k) (k_hmin k) c' \<and> coherent k c' (meta_view m t')
               \<and> cache_abs (k_crc k) (k_hmin k) c' = (cache_abs (k_crc k) (k_hmin k) c)(dbt_bytes key := None)
               \<and> meta_view m t' = (meta_view m t)(dbt_bytes key := None)))
       \<and> (\<forall>is_dir. \<exists>c'. lightfs_bstore_meta_del k db c t key True is_dir = Some (0, c', t)
               \<and> cache_inv (k_crc k) (k_hmin k) c' \<and> coherent k c' (meta_view m t)
               \<and> cache_abs (k_crc k) (k_hmin k) c' = (cache_abs (k_crc k) (k_hmin k) c)(dbt_bytes key :=
                   map_option (\<lambda>(v, _). (v, True)) (cache_abs (k_crc k) (k_hmin k) c (dbt_bytes key))))"
proof (intro conjI allI impI, goal_cases)
  case (1 metadata dir is_dir)
  with meta_put_ok [OF assms(1-4), of metadata dir db t is_dir] assms(5) show ?case
    by (fastforce simp: meta_view_add meta_apply_def coherent_def)
next
  case (2 is_dir)
  with meta_del_ok [OF assms(1-4), of db t is_dir] assms(5) show ?case
    by (fastforce simp: meta_view_add meta_apply_def coherent_def)
next
  case (3 is_dir)
  have "length (dbt_bytes key) < 65536" using assms(3,4) by (auto simp: dbt_bytes_def split: option.splits)
  from meta_weak_del_ok [OF assms(2) this, of db t is_dir] assms(5) show ?case
    by (fastforce simp: coherent_def split: if_splits)
qed

theorem meta_write_through_witness:
  "\<exists>c' t'. lightfs_bstore_meta_put sample_kern 0 (snd (lightfs_cache_create False)) lightfs_txn_init (dbt_setup [109, 1] 2)
             (replicate 152 5) None True = Some (0, c', t')
   \<and> cache_abs (k_crc sample_kern) (k_hmin sample_kern) c' = [[109, 1] \<mapsto> (replicate 152 5, False)]
   \<and> meta_view Map.empty t' = [[109, 1] \<mapsto> replicate 152 5]"
proof -
  have "coherent sample_kern (snd (lightfs_cache_create False)) (meta_view Map.empty lightfs_txn_init)"
    by (simp add: coherent_def abs_empty)
  moreover have "meta_view Map.empty lightfs_txn_init = Map.empty"
    by (simp add: meta_view_def lightfs_txn_init_def List.map_filter_def)
  ultimately show ?thesis
    using meta_write_through [OF sample_kern_ok cache_inv_create sample_key(2), of False Map.empty lightfs_txn_init 0,
        THEN conjunct1, rule_format, of "replicate 152 5" None True]
    by (auto simp: sample_key dir_arg_ok_def INODE_SIZE_def abs_empty)
qed

section \<open>Filling pages\<close>

text \<open>What a page shows of its block: bytes behind the end of the file read as zero.\<close>

definition page_image :: "u64 \<Rightarrow> u64 \<Rightarrow> byte list \<Rightarrow> byte list" where
  "page_image i_size bn blk =
     (if bn = lightfs_get_block_num_by_size i_size \<and> block_get_off_by_position i_size \<noteq> 0
      then take (unat (block_get_off_by_position i_size)) blk
           @ replicate (PAGE_SIZE - unat (block_get_off_by_position i_size)) 0
      else blk)"

text \<open>A vector at its start, whose pages follow each other from block \<open>b\<close>.\<close>

definition run_of_pages :: "frames \<Rightarrow> lightfs_io \<Rightarrow> u64 \<Rightarrow> bool" where
  "run_of_pages fr lio b \<longleftrightarrow>
     distinct (lio_vec lio) \<and> length (lio_vec lio) = unat (lio_vcnt lio) \<and> lio_vcnt lio \<noteq> 0 \<and> lio_bvidx lio = 0
   \<and> (\<forall>i < length (lio_vec lio). PAGE_TO_BLOCK_NUM (fr (lio_vec lio ! i)) = b + of_nat i
                                \<and> length (pg_data (fr (lio_vec lio ! i))) = PAGE_SIZE)"

definition scanned :: "u64 \<Rightarrow> byte list \<Rightarrow> frames \<Rightarrow> lightfs_io \<Rightarrow> u64 \<Rightarrow> nat \<Rightarrow> scan \<Rightarrow> bool" where
  "scanned i_size ans fr lio b j s \<longleftrightarrow>
     sc_io s = lio\<lparr>lio_bvidx := of_nat j\<rparr>
   \<and> (j > 0 \<longrightarrow> sc_continue s = (j < length (lio_vec lio)))
   \<and> (\<forall>i < length (lio_vec lio). sc_frames s (lio_vec lio ! i) = (fr (lio_vec lio ! i))
        \<lparr>pg_data := if i < j then page_image i_size (b + of_nat i) (get_at (i * PAGE_SIZE) PAGE_SIZE ans)
                    else pg_data (fr (lio_vec lio ! i))\<rparr>)
   \<and> (\<forall>p. p \<notin> set (lio_vec lio) \<longrightarrow> sc_frames s p = fr p)"

lemma page_off: "unat (block_get_off_by_position sz) < PAGE_SIZE"
  by (simp add: unat_page_off PAGE_SIZE_def)

lemma page_image_write:
  assumes "length (pg_data (fr p)) = PAGE_SIZE" and "length blk = PAGE_SIZE"
  shows "scan_fill i_size bn fr p blk = Some (fr(p := (fr p)\<lparr>pg_data := page_image i_size bn blk\<rparr>))"
proof -
  have "blk \<noteq> []" using assms(2) by (auto simp: PAGE_SIZE_def)
  moreover have "put_at 0 blk (pg_data (fr p)) = blk" using assms by (simp add: put_at_def)
  ultimately show ?thesis using assms page_off [of i_size]
    by (auto simp: scan_fill_def Let_def page_write_def zero_user_segment_def page_image_def put_at_def)
qed

lemma scan_step:
  assumes "run_of_pages fr lio b" and "scanned i_size ans fr lio b j s" and "j < length (lio_vec lio)"
    and "(j + 1) * PAGE_SIZE \<le> length ans"
  shows "\<exists>s'. lightfs_scan_pages_cb ino i_size 17 (data_key_of ino (b + of_nat j)) (get_at (j * PAGE_SIZE) PAGE_SIZE ans) s = Some s'
           \<and> scanned i_size ans fr lio b (j + 1) s'"
proof -
  define p where "p = lio_vec lio ! j"
  define blk where "blk = get_at (j * PAGE_SIZE) PAGE_SIZE ans"
  have blk: "length blk = PAGE_SIZE" using assms(4) by (simp add: blk_def get_at_def algebra_simps)
  have v: "unat (lio_vcnt lio) = length (lio_vec lio)" "distinct (lio_vec lio)" using assms(1) by (simp_all add: run_of_pages_def)
  have small: "length (lio_vec lio) < 65536" using v(1) unsigned_less [of "lio_vcnt lio", where ?'a = nat] by simp
  have idx: "unat (of_nat j :: u16) = j" "unat (of_nat j + 1 :: u16) = j + 1 \<or> j + 1 = 65536"
    using small assms(3) by (auto simp: unat_word_ariths)
  have idx': "unat (of_nat j + 1 :: u16) = j + 1" using idx small assms(3) by auto
  have lt: "\<not> lio_vcnt lio \<le> of_nat j" using v(1) assms(3) idx by (simp add: word_le_nat_alt)
  have io: "sc_io s = lio\<lparr>lio_bvidx := of_nat j\<rparr>" using assms(2) by (simp add: scanned_def)
  have pg: "sc_frames s p = fr p" using assms(2,3) by (simp add: scanned_def p_def)
  have fr: "PAGE_TO_BLOCK_NUM (fr p) = b + of_nat j" "length (pg_data (fr p)) = PAGE_SIZE"
    using assms(1,3) by (simp_all add: run_of_pages_def p_def)
  have cur: "lightfs_io_current_page (sc_io s) = Some p"
    using lt idx assms(3) by (simp add: io lightfs_io_current_page_def vec_at_def p_def)
  have adv: "lightfs_io_advance_page (sc_io s) = Some (lio\<lparr>lio_bvidx := of_nat (j + 1)\<rparr>)"
    using lt by (simp add: io lightfs_io_advance_page_def add.commute)
  have dn: "lightfs_io_job_done (lio\<lparr>lio_bvidx := of_nat (j + 1)\<rparr>) \<longleftrightarrow> \<not> j + 1 < length (lio_vec lio)"
    using v(1) idx' by (auto simp: lightfs_io_job_done_def word_le_nat_alt add.commute)
  have wr: "scan_fill i_size (b + of_nat j) (sc_frames s) p blk =
      Some ((sc_frames s)(p := (fr p)\<lparr>pg_data := page_image i_size (b + of_nat j) blk\<rparr>))"
    using page_image_write [of "sc_frames s" p blk i_size "b + of_nat j"] pg fr(2) blk by simp
  define s' where "s' = s\<lparr>sc_frames := (sc_frames s)(p := (fr p)\<lparr>pg_data := page_image i_size (b + of_nat j) blk\<rparr>),
      sc_io := lio\<lparr>lio_bvidx := of_nat (j + 1)\<rparr>, sc_block_cnt := sc_block_cnt s - 1, sc_continue := j + 1 < length (lio_vec lio)\<rparr>"
  have "lightfs_scan_pages_cb ino i_size 17 (data_key_of ino (b + of_nat j)) blk s = Some s'"
    using cur adv dn wr pg fr(1) by (simp add: lightfs_scan_pages_cb_def key_is_same_of_ino_def s'_def Let_def)
  moreover have "scanned i_size ans fr lio b (j + 1) s'"
    using assms(2,3) v(2) by (auto simp: scanned_def s'_def p_def blk_def nth_eq_iff_index_eq less_Suc_eq)
  ultimately show ?thesis by (auto simp: blk_def)
qed

lemma scan_all:
  assumes "run_of_pages fr lio b" and "n \<le> length (lio_vec lio)" and "n * PAGE_SIZE \<le> length ans"
    and "scanned i_size ans fr lio b 0 s"
  shows "\<exists>s'. foldM (\<lambda>e j. lightfs_scan_pages_cb ino i_size 17 (data_key_of ino (b + of_nat j))
                          (get_at (j * PAGE_SIZE) PAGE_SIZE ans) e) s [0..<n] = Some s'
           \<and> scanned i_size ans fr lio b n s'"
  using assms(2,3)
proof (induction n)
  case 0
  then show ?case using assms(4) by simp
next
  case (Suc n)
  then obtain s' where s': "foldM (\<lambda>e j. lightfs_scan_pages_cb ino i_size 17 (data_key_of ino (b + of_nat j))
      (get_at (j * PAGE_SIZE) PAGE_SIZE ans) e) s [0..<n] = Some s'" "scanned i_size ans fr lio b n s'"
    by auto
  from scan_step [OF assms(1) s'(2), of ino] Suc.prems s'(1) show ?case by (auto simp: foldM_append)
qed

lemma scan_loop_ended: "\<not> sc_continue s \<Longrightarrow> scan_loop n dev ino i_size d cnt r s = Done (r, s)"
  by (cases n) simp_all

lemma fill_rest_done: "lightfs_io_job_done lio \<Longrightarrow> lightfs_bstore_fill_rest_page fr lio = Some (fr, lio)"
  by (simp add: lightfs_bstore_fill_rest_page_def)

lemma run_start:
  assumes "run_of_pages fr lio b" and "unat b + length (lio_vec lio) \<le> (unat i_size + 4095) div 4096 + 1"
  shows "\<not> lightfs_io_job_done lio" "lightfs_io_current_page lio = Some (lio_vec lio ! 0)"
    "lightfs_io_last_page lio = Some (lio_vec lio ! (length (lio_vec lio) - 1))"
    "PAGE_TO_BLOCK_NUM (fr (lio_vec lio ! 0)) = b"
    "PAGE_TO_BLOCK_NUM (fr (lio_vec lio ! (length (lio_vec lio) - 1))) - b + 1 = of_nat (length (lio_vec lio))"
    "of_nat (length (lio_vec lio)) \<le> lightfs_get_block_num_by_size i_size - b + 1"
    "unat (of_nat (length (lio_vec lio)) :: u64) = length (lio_vec lio)" "0 < length (lio_vec lio)"
    "unat (ucast (of_nat (length (lio_vec lio)) :: u64) :: u32) = length (lio_vec lio)"
proof -
  have v: "unat (lio_vcnt lio) = length (lio_vec lio)" "lio_vcnt lio \<noteq> 0" "lio_bvidx lio = 0"
      "\<And>i. i < length (lio_vec lio) \<Longrightarrow> PAGE_TO_BLOCK_NUM (fr (lio_vec lio ! i)) = b + of_nat i"
    using assms(1) by (simp_all add: run_of_pages_def)
  have small: "length (lio_vec lio) < 65536" using v(1) unsigned_less [of "lio_vcnt lio", where ?'a = nat] by simp
  show pos: "0 < length (lio_vec lio)" using v(1,2) by (metis gr0I unat_eq_zero)
  show n: "unat (of_nat (length (lio_vec lio)) :: u64) = length (lio_vec lio)" using small by (simp add: unat_of_nat take_bit_nat_eq_self)
  show "unat (ucast (of_nat (length (lio_vec lio)) :: u64) :: u32) = length (lio_vec lio)"
    using small by (simp add: unsigned_ucast_eq n take_bit_nat_eq_self)
  show "\<not> lightfs_io_job_done lio" using v(2,3) by (simp add: lightfs_io_job_done_def)
  show "lightfs_io_current_page lio = Some (lio_vec lio ! 0)"
    using v pos by (simp add: lightfs_io_current_page_def vec_at_def)
  show "lightfs_io_last_page lio = Some (lio_vec lio ! (length (lio_vec lio) - 1))"
    using v pos by (simp add: lightfs_io_last_page_def vec_at_def)
  show "PAGE_TO_BLOCK_NUM (fr (lio_vec lio ! 0)) = b" using v(4) [OF pos] by simp
  show "PAGE_TO_BLOCK_NUM (fr (lio_vec lio ! (length (lio_vec lio) - 1))) - b + 1 = of_nat (length (lio_vec lio))"
    using v(4) [of "length (lio_vec lio) - 1"] pos by (simp add: of_nat_diff)
  have "unat (lightfs_get_block_num_by_size i_size) + 1 < 18446744073709551616"
    using unsigned_less [of i_size, where ?'a = nat] by (simp add: unat_block_num_by_size)
  moreover have "1 \<le> length (lio_vec lio)" using pos by linarith
  then have "b \<le> lightfs_get_block_num_by_size i_size" using assms(2) by (simp add: word_le_nat_alt unat_block_num_by_size)
  then have "unat (lightfs_get_block_num_by_size i_size - b) = (unat i_size + 4095) div 4096 - unat b"
    by (simp add: unat_sub unat_block_num_by_size)
  ultimately have "unat (lightfs_get_block_num_by_size i_size - b + 1) = (unat i_size + 4095) div 4096 - unat b + 1"
    by (simp add: unat_word_ariths unat_block_num_by_size)
  then show "of_nat (length (lio_vec lio)) \<le> lightfs_get_block_num_by_size i_size - b + 1"
    using assms(2) n pos by (simp add: word_le_nat_alt)
qed

lemma scan_pages_start:
  assumes "memory_ok (k_km k)" and "run_of_pages fr lio b"
    and "unat b + length (lio_vec lio) \<le> (unat i_size + 4095) div 4096 + 1"
  shows "lightfs_bstore_scan_pages k dev n do_continue ino i_size fr lio =
     res_bind (scan_loop n dev ino i_size (data_dbt_of ino b) (ucast (of_nat (length (lio_vec lio)) :: u64)) 0
         \<lparr>sc_io = lio, sc_frames = fr, sc_continue = do_continue, sc_block_cnt = of_nat (length (lio_vec lio))\<rparr>) (\<lambda>(r, s).
       let ret = (if r \<noteq> 0 \<and> r \<noteq> DB_NOTFOUND then r else 0) in
       case (if ret = 0 then lightfs_bstore_fill_rest_page (sc_frames s) (sc_io s)
             else Some (sc_frames s, sc_io s)) of
         None \<Rightarrow> Fault
       | Some (fr, lio) \<Rightarrow> if r \<noteq> 0 then Fault else Done (ret, fr, lio))"
proof -
  let ?cnt = "lightfs_get_block_num_by_size i_size - b + 1"
  note st = run_start [OF assms(2,3)]
  have bc: "(if ?cnt > of_nat (length (lio_vec lio)) then of_nat (length (lio_vec lio)) else ?cnt)
      = of_nat (length (lio_vec lio))" "(of_nat (length (lio_vec lio)) :: u64) \<noteq> 0"
    using st(6-8) by auto
  show ?thesis
    unfolding lightfs_bstore_scan_pages_def Let_def using st(1-5)
    by (simp only: st bc alloc_data_dbt [OF assms(1)] if_False Option.bind.bind_lunit option.case prod.case sum.case)
qed

lemma scan_pages_ok:
  assumes "memory_ok (k_km k)" and "run_of_pages fr lio b"
    and "unat b + length (lio_vec lio) \<le> (unat i_size + 4095) div 4096 + 1"
    and "length (dev (data_key_of ino b)) = length (lio_vec lio) * PAGE_SIZE"
  shows "\<exists>fr'. lightfs_bstore_scan_pages k dev (Suc n) True ino i_size fr lio = Done (0, fr', lio\<lparr>lio_bvidx := lio_vcnt lio\<rparr>)
           \<and> (\<forall>i < length (lio_vec lio). fr' (lio_vec lio ! i) = (fr (lio_vec lio ! i))
                \<lparr>pg_data := page_image i_size (b + of_nat i) (get_at (i * PAGE_SIZE) PAGE_SIZE (dev (data_key_of ino b)))\<rparr>)
           \<and> (\<forall>p. p \<notin> set (lio_vec lio) \<longrightarrow> fr' p = fr p)"
proof -
  let ?n = "length (lio_vec lio)" and ?ans = "dev (data_key_of ino b)"
  note st = run_start [OF assms(2,3)]
  have ne: "?ans \<noteq> []" using assms(4) st(8) by (auto simp: PAGE_SIZE_def)
  define s0 where "s0 = \<lparr>sc_io = lio, sc_frames = fr, sc_continue = True, sc_block_cnt = of_nat ?n\<rparr>"
  have "lio_bvidx lio = 0" using assms(2) by (simp add: run_of_pages_def)
  then have "lio\<lparr>lio_bvidx := of_nat 0\<rparr> = lio" by (cases lio) simp
  then have "scanned i_size ?ans fr lio b 0 s0" by (simp add: scanned_def s0_def)
  from scan_all [OF assms(2) _ _ this, of ?n ino] assms(4) obtain s' where
    s': "foldM (\<lambda>e j. lightfs_scan_pages_cb ino i_size 17 (data_key_of ino (b + of_nat j))
           (get_at (j * PAGE_SIZE) PAGE_SIZE ?ans) e) s0 [0..<?n] = Some s'" "scanned i_size ?ans fr lio b ?n s'"
    by auto
  have io: "sc_io s' = lio\<lparr>lio_bvidx := lio_vcnt lio\<rparr>" "\<not> sc_continue s'"
    using s'(2) st(8) assms(2) by (auto simp: scanned_def run_of_pages_def)
  have gm: "\<exists>d. lightfs_db_get_multi dev (data_dbt_of ino b) (ucast (of_nat ?n :: u64))
      (lightfs_scan_pages_cb ino i_size 17) s0 = Some (0, d, s')"
    using get_multi_pages_eq [of 0 ?n ?ans "lightfs_scan_pages_cb ino i_size 17" ino b "[]" b s0] s'(1) ne st(9) assms(4)
    by (simp add: lightfs_db_get_multi_def Let_def)
  then obtain d where "lightfs_db_get_multi dev (data_dbt_of ino b) (ucast (of_nat ?n :: u64))
      (lightfs_scan_pages_cb ino i_size 17) s0 = Some (0, d, s')" by blast
  then have "scan_loop (Suc n) dev ino i_size (data_dbt_of ino b) (ucast (of_nat ?n :: u64)) 0 s0 = Done (0, s')"
    using scan_loop_ended [OF io(2)] by (simp add: s0_def)
  moreover have "lightfs_bstore_fill_rest_page (sc_frames s') (sc_io s') = Some (sc_frames s', sc_io s')"
    by (rule fill_rest_done) (simp add: io lightfs_io_job_done_def)
  ultimately have "lightfs_bstore_scan_pages k dev (Suc n) True ino i_size fr lio = Done (0, sc_frames s', sc_io s')"
    by (simp add: scan_pages_start [OF assms(1-3)] s0_def del: scan_loop.simps)
  with s'(2) io show ?thesis by (auto simp: scanned_def)
qed

definition sample_page :: "u64 \<Rightarrow> page" where
  "sample_page i = \<lparr>pg_index = i, pg_data = replicate PAGE_SIZE 1, pg_uptodate = False, pg_error = False, pg_locked = True,
     pg_dirty = False, pg_writeback = False\<rparr>"

definition sample_frames :: frames where
  "sample_frames p = sample_page (of_nat p)"

definition sample_io :: lightfs_io where
  "sample_io = \<lparr>lio_max_vecs = 2, lio_vcnt = 2, lio_bvidx = 0, lio_vec = [0, 1]\<rparr>"

lemma sample_run: "run_of_pages sample_frames sample_io 1"
  by (auto simp: run_of_pages_def sample_frames_def sample_page_def sample_io_def PAGE_TO_BLOCK_NUM_def less_Suc_eq)

lemma fill_rest_zero:
  assumes "distinct (lio_vec lio)" and "length (lio_vec lio) = unat (lio_vcnt lio)" and "j + m = length (lio_vec lio)"
    and "\<forall>p \<in> set (drop j (lio_vec lio)). length (pg_data (fr p)) = PAGE_SIZE"
  shows "fill_rest (Suc m) fr (lio\<lparr>lio_bvidx := of_nat j\<rparr>) =
     Some (\<lambda>p. if p \<in> set (drop j (lio_vec lio)) then (fr p)\<lparr>pg_data := replicate PAGE_SIZE 0\<rparr> else fr p,
           lio\<lparr>lio_bvidx := lio_vcnt lio\<rparr>)"
  using assms(3,4)
proof (induction m arbitrary: j fr)
  case 0
  then have "of_nat j = lio_vcnt lio" using assms(2) by simp
  then show ?case using 0 by (simp add: lightfs_io_job_done_def)
next
  case (Suc m)
  have small: "length (lio_vec lio) < 65536" using assms(2) unsigned_less [of "lio_vcnt lio", where ?'a = nat] by simp
  have j: "j < length (lio_vec lio)" using Suc.prems(1) by simp
  have lt: "\<not> lio_vcnt lio \<le> of_nat j" using assms(2) j small by (simp add: word_le_nat_alt)
  define p where "p = lio_vec lio ! j"
  have dr: "drop j (lio_vec lio) = p # drop (Suc j) (lio_vec lio)" using j by (simp add: p_def Cons_nth_drop_Suc)
  have notin: "p \<notin> set (drop (Suc j) (lio_vec lio))"
    using distinct_drop [OF assms(1), of j] dr by simp
  let ?fr = "fr(p := (fr p)\<lparr>pg_data := replicate PAGE_SIZE 0\<rparr>)"
  have "length (pg_data (fr p)) = PAGE_SIZE" using Suc.prems(2) dr by simp
  then have zero: "zero_user_segment fr p 0 PAGE_SIZE = Some ?fr" by (simp add: zero_user_segment_def put_at_def)
  have "fill_rest (Suc (Suc m)) fr (lio\<lparr>lio_bvidx := of_nat j\<rparr>) = fill_rest (Suc m) ?fr (lio\<lparr>lio_bvidx := of_nat (Suc j)\<rparr>)"
    using lt j small zero
    by (simp add: lightfs_io_job_done_def lightfs_io_current_page_def lightfs_io_advance_page_def vec_at_def p_def [symmetric]
        add.commute del: fill_rest.simps(2)) (simp add: lightfs_io_job_done_def lightfs_io_current_page_def vec_at_def
        lightfs_io_advance_page_def p_def [symmetric] add.commute)
  also have "\<dots> = Some (\<lambda>q. if q \<in> set (drop (Suc j) (lio_vec lio)) then (?fr q)\<lparr>pg_data := replicate PAGE_SIZE 0\<rparr> else ?fr q,
      lio\<lparr>lio_bvidx := lio_vcnt lio\<rparr>)"
    using Suc.prems dr notin by (intro Suc.IH) auto
  finally show ?case using notin by (simp add: dr fun_eq_iff)
qed

text \<open>With the flag clear the loop is not entered.\<close>

lemma scan_pages_skipped:
  assumes "memory_ok (k_km k)" and "run_of_pages fr lio b"
    and "unat b + length (lio_vec lio) \<le> (unat i_size + 4095) div 4096 + 1"
  shows "lightfs_bstore_fill_rest_page fr lio =
           Some (\<lambda>p. if p \<in> set (lio_vec lio) then (fr p)\<lparr>pg_data := replicate PAGE_SIZE 0\<rparr> else fr p, lio\<lparr>lio_bvidx := lio_vcnt lio\<rparr>)"
    "lightfs_bstore_scan_pages k dev n False ino i_size fr lio =
       Done (0, \<lambda>p. if p \<in> set (lio_vec lio) then (fr p)\<lparr>pg_data := replicate PAGE_SIZE 0\<rparr> else fr p,
             lio\<lparr>lio_bvidx := lio_vcnt lio\<rparr>)"
proof -
  have "lio_bvidx lio = 0" using assms(2) by (simp add: run_of_pages_def)
  then have lio: "lio\<lparr>lio_bvidx := of_nat 0\<rparr> = lio" by (cases lio) simp
  have "distinct (lio_vec lio)" "length (lio_vec lio) = unat (lio_vcnt lio)" using assms(2) by (simp_all add: run_of_pages_def)
  moreover have "\<forall>p \<in> set (drop 0 (lio_vec lio)). length (pg_data (fr p)) = PAGE_SIZE"
    using assms(2) by (auto simp: run_of_pages_def in_set_conv_nth)
  ultimately show fill: "lightfs_bstore_fill_rest_page fr lio =
      Some (\<lambda>p. if p \<in> set (lio_vec lio) then (fr p)\<lparr>pg_data := replicate PAGE_SIZE 0\<rparr> else fr p, lio\<lparr>lio_bvidx := lio_vcnt lio\<rparr>)"
    using fill_rest_zero [of lio 0 "length (lio_vec lio)" fr] unfolding lio lightfs_bstore_fill_rest_page_def
    by (simp del: fill_rest.simps)
  then show "lightfs_bstore_scan_pages k dev n False ino i_size fr lio =
       Done (0, \<lambda>p. if p \<in> set (lio_vec lio) then (fr p)\<lparr>pg_data := replicate PAGE_SIZE 0\<rparr> else fr p,
             lio\<lparr>lio_bvidx := lio_vcnt lio\<rparr>)"
    by (simp add: scan_pages_start [OF assms] scan_loop_ended)
qed

text \<open>
  Property C20: what the read of a run of pages does when its loop is not entered, and when
  the device does not know the first block.  With the uninitialised flag clear the pages
  are cleared and the read succeeds, whatever the device holds.  With the flag set and the
  first block missing - a hole in a sparse file - the kernel stops at \<open>BUG_ON (r)\<close>,
  although the two lines before it treat that answer as no error.
\<close>

theorem scan_pages_hazards:
  assumes "memory_ok (k_km k)" and "run_of_pages fr lio b"
    and "unat b + length (lio_vec lio) \<le> (unat i_size + 4095) div 4096 + 1"
  shows "lightfs_bstore_scan_pages k dev n False ino i_size fr lio =
           Done (0, \<lambda>p. if p \<in> set (lio_vec lio) then (fr p)\<lparr>pg_data := replicate PAGE_SIZE 0\<rparr> else fr p,
                 lio\<lparr>lio_bvidx := lio_vcnt lio\<rparr>)
       \<and> (dev (data_key_of ino b) = [] \<longrightarrow> lightfs_bstore_scan_pages k dev (Suc n) True ino i_size fr lio = Fault)"
proof -
  have "lightfs_bstore_scan_pages k dev (Suc n) True ino i_size fr lio = Fault" if "dev (data_key_of ino b) = []"
  proof -
    have "DB_NOTFOUND \<noteq> 0" by (simp add: code_defs)
    with that scan_pages_skipped(1) [OF assms] show ?thesis
      by (cases n) (simp_all add: scan_pages_start [OF assms] lightfs_db_get_multi_def)
  qed
  then show ?thesis using scan_pages_skipped(2) [OF assms] by simp
qed

theorem scan_pages_hazards_witness:
  "lightfs_bstore_scan_pages sample_kern (\<lambda>_. []) 1 True 7 8192 sample_frames sample_io = Fault"
  using scan_pages_hazards [OF sample_kern_km sample_run, of 8192 "\<lambda>_. []" 0 7] by (simp add: sample_io_def)

end
