(* ===== verification/Kevin_Super_Thms.thy ===== *)
theory Kevin_Super_Thms
  imports Kevin_Super Kevin_Bstore_Thms
begin

text \<open>
  Properties of the file system operations: metadata of inodes, inode numbers, the
  operations on names, truncation and the writing of pages.
\<close>

unbundle bit_operations_syntax

section \<open>Metadata and inodes\<close>

fun fields_ok :: "nat \<Rightarrow> (nat \<times> byte list) list \<Rightarrow> nat \<Rightarrow> bool" where
  "fields_ok lo [] n \<longleftrightarrow> lo \<le> n"
| "fields_ok lo ((off, bs) # fs) n \<longleftrightarrow> lo \<le> off \<and> fields_ok (off + length bs) fs n"

lemma fields_ok_le: "fields_ok lo fs n \<Longrightarrow> lo \<le> n"
  by (induction lo fs n rule: fields_ok.induct) auto

lemma fields_read:
  assumes "fields_ok lo fs n" and "length m = n"
  shows "length (fold (\<lambda>(off, bs) m. put_at off bs m) fs m) = n"
    and "i + k \<le> lo \<Longrightarrow> get_at i k (fold (\<lambda>(off, bs) m. put_at off bs m) fs m) = get_at i k m"
    and "(off, bs) \<in> set fs \<Longrightarrow> get_at off (length bs) (fold (\<lambda>(off, bs) m. put_at off bs m) fs m) = bs"
  using assms
proof (induction lo fs n arbitrary: m i k off bs rule: fields_ok.induct)
  case (1 lo n)
  { case 1 then show ?case by simp }
  { case 2 then show ?case by simp }
  { case 3 then show ?case by simp }
next
  case (2 lo off0 bs0 fs n)
  have le: "off0 + length bs0 \<le> length m" if "length m = n" "fields_ok (off0 + length bs0) fs n" for m :: "byte list"
    using fields_ok_le [OF that(2)] that(1) by simp
  { case 1 then show ?case using "2.IH"(1) [where m = "put_at off0 bs0 m"] le by simp }
  { case 2 then show ?case using "2.IH"(2) [where m = "put_at off0 bs0 m"] le by (simp add: get_put_before) }
  { case 3
    then show ?case
      using "2.IH"(2) [where m = "put_at off0 bs0 m" and i = off0 and k = "length bs0"] "2.IH"(3) [where m = "put_at off0 bs0 m"] le by auto }
qed

lemma md_fill_read:
  assumes "length m = INODE_SIZE" and f_def: "f = md_fill m ino mode nlink uid gid rdev sz at mt ct"
  shows "length f = INODE_SIZE" and "md_type f = LIGHTFS_METADATA_TYPE_NORMAL" and "md_st_dev f = 0" and "md_st_ino f = ino"
    and "md_st_nlink f = nlink" and "md_st_mode f = mode" and "md_st_uid f = uid" and "md_st_gid f = gid"
    and "md_st_rdev f = rdev" and "md_st_size f = sz" and "md_st_blocks f = lightfs_get_block_num_by_size sz"
    and "md_st_atime f = at" and "md_st_mtime f = mt" and "md_st_ctime f = ct"
proof -
  let ?fs = "[(0, store_le 4 LIGHTFS_METADATA_TYPE_NORMAL), (8, store_le 8 (0 :: u64)), (16, store_le 8 ino),
        (24, store_le 8 nlink), (32, store_le 4 mode), (36, store_le 4 uid), (40, store_le 4 gid),
        (48, store_le 8 rdev), (56, store_le 8 sz), (64, store_le 8 (4096 :: u64)),
        (72, store_le 8 (lightfs_get_block_num_by_size sz)), (80, store_le 8 at), (96, store_le 8 mt),
        (112, store_le 8 ct)]"
  have ok: "fields_ok 0 ?fs INODE_SIZE" by (simp add: INODE_SIZE_def)
  note rd = fields_read(3) [OF ok assms(1), folded md_fill_def [of m ino mode nlink uid gid rdev sz at mt ct] f_def]
  show "length f = INODE_SIZE" unfolding f_def md_fill_def by (rule fields_read(1) [OF ok assms(1)])
  show "md_type f = LIGHTFS_METADATA_TYPE_NORMAL" using rd [of 0 "store_le 4 LIGHTFS_METADATA_TYPE_NORMAL"] by (simp add: md_type_def)
  show "md_st_dev f = 0" using rd [of 8 "store_le 8 (0 :: u64)"] by (simp add: md_st_dev_def)
  show "md_st_ino f = ino" using rd [of 16 "store_le 8 ino"] by (simp add: md_st_ino_def)
  show "md_st_nlink f = nlink" using rd [of 24 "store_le 8 nlink"] by (simp add: md_st_nlink_def)
  show "md_st_mode f = mode" using rd [of 32 "store_le 4 mode"] by (simp add: md_st_mode_def)
  show "md_st_uid f = uid" using rd [of 36 "store_le 4 uid"] by (simp add: md_st_uid_def)
  show "md_st_gid f = gid" using rd [of 40 "store_le 4 gid"] by (simp add: md_st_gid_def)
  show "md_st_rdev f = rdev" using rd [of 48 "store_le 8 rdev"] by (simp add: md_st_rdev_def)
  show "md_st_size f = sz" using rd [of 56 "store_le 8 sz"] by (simp add: md_st_size_def)
  show "md_st_blocks f = lightfs_get_block_num_by_size sz"
    using rd [of 72 "store_le 8 (lightfs_get_block_num_by_size sz)"] by (simp add: md_st_blocks_def)
  show "md_st_atime f = at" using rd [of 80 "store_le 8 at"] by (simp add: md_st_atime_def)
  show "md_st_mtime f = mt" using rd [of 96 "store_le 8 mt"] by (simp add: md_st_mtime_def)
  show "md_st_ctime f = ct" using rd [of 112 "store_le 8 ct"] by (simp add: md_st_ctime_def)
qed

text \<open>
  Property C15: an inode survives being written out and read back.  From the metadata of an
  inode \<open>lightfs_setup_inode\<close> builds an inode with the same number, type, links, owner and
  size, the operations of its type, its times cut to seconds - but the device number of
  the special file is lost: it is taken from \<open>st_dev\<close>, which is always zero, and not from
  \<open>st_rdev\<close>, where it was stored.
\<close>

theorem metadata_round_trip:
  assumes "length (e_meta e) = INODE_SIZE" and "e_iget_ok e" and "f_icache s (i_ino i) = None"
    and "inode_ops_of (i_mode i) = Some ops"
    and "e_make_kuid e (e_from_kuid e (i_uid i)) = i_uid i" and "e_make_kgid e (e_from_kgid e (i_gid i)) = i_gid i"
  shows "lightfs_setup_inode e s key (lightfs_copy_metadata_from_inode e i) =
           Some (Inr (i_ino i), s\<lparr>f_icache := (f_icache s)(i_ino i \<mapsto>
             i\<lparr>i_rdev := 0, i_blocks := lightfs_get_block_num_by_size (i_size i), i_op := ops, i_dirty := False,
               i_atime := (fst (i_atime i), 0), i_mtime := (fst (i_mtime i), 0), i_ctime := (fst (i_ctime i), 0),
               meta_dbt := key, lightfs_flags := 0\<rparr>)\<rparr>)
       \<and> md_st_rdev (lightfs_copy_metadata_from_inode e i) = ucast (i_rdev i)"
proof -
  define f where "f = lightfs_copy_metadata_from_inode e i"
  note rd = md_fill_read [OF assms(1) f_def [unfolded lightfs_copy_metadata_from_inode_def]]
  have mode: "ucast (ucast (i_mode i) :: u32) = i_mode i" "ucast (ucast (i_nlink i) :: u64) = i_nlink i"
    by (auto intro!: bit_word_eqI simp: bit_simps)
  have "lightfs_setup_inode e s key f = Some (Inr (i_ino i), s\<lparr>f_icache := (f_icache s)(i_ino i \<mapsto>
      \<lparr>i_ino = i_ino i, i_mode = i_mode i, i_nlink = i_nlink i, i_uid = i_uid i, i_gid = i_gid i, i_rdev = 0,
       i_size = i_size i, i_blocks = lightfs_get_block_num_by_size (i_size i), i_atime = (fst (i_atime i), 0),
       i_mtime = (fst (i_mtime i), 0), i_ctime = (fst (i_ctime i), 0), i_op = ops, i_dirty = False, meta_dbt = key,
       lightfs_flags = 0\<rparr>)\<rparr>)"
    using assms(2-6) by (simp add: lightfs_setup_inode_def rd mode Let_def)
  moreover have eq: "i\<lparr>i_rdev := 0, i_blocks := lightfs_get_block_num_by_size (i_size i), i_op := ops, i_dirty := False,
               i_atime := (fst (i_atime i), 0), i_mtime := (fst (i_mtime i), 0), i_ctime := (fst (i_ctime i), 0),
               meta_dbt := key, lightfs_flags := 0\<rparr> =
      \<lparr>i_ino = i_ino i, i_mode = i_mode i, i_nlink = i_nlink i, i_uid = i_uid i, i_gid = i_gid i, i_rdev = 0,
       i_size = i_size i, i_blocks = lightfs_get_block_num_by_size (i_size i), i_atime = (fst (i_atime i), 0),
       i_mtime = (fst (i_mtime i), 0), i_ctime = (fst (i_ctime i), 0), i_op = ops, i_dirty = False, meta_dbt = key,
       lightfs_flags = 0\<rparr>"
    by (cases i) simp
  ultimately show ?thesis unfolding eq using rd(9) unfolding f_def by blast
qed

definition sample_env :: env where
  "sample_env = \<lparr>e_k = sample_kern, e_dev = (\<lambda>_. []), e_now = (100, 5), e_uid = 1000, e_gid = 1000, e_from_kuid = (\<lambda>u. u),
     e_from_kgid = (\<lambda>u. u), e_make_kuid = (\<lambda>u. u), e_make_kgid = (\<lambda>u. u), e_iget_ok = True, e_cpu = 0,
     e_meta = replicate 152 0, e_curr_ino = 0, e_completion = 0\<rparr>"

definition sample_fs :: fs where
  "sample_fs = \<lparr>f_hd = txn_hdlr_alloc, f_cache = snd (lightfs_cache_create False), f_icache = Map.empty,
     f_next_ino = (\<lambda>_. 0), f_max_ino = (\<lambda>_. 0), f_nr_cpus = 0\<rparr>"

definition sample_dev_inode :: inode where
  "sample_dev_inode = \<lparr>i_ino = 9, i_mode = S_IFCHR OR 384, i_nlink = 1, i_uid = 1, i_gid = 2, i_rdev = 259, i_size = 0,
     i_blocks = 0, i_atime = (7, 8), i_mtime = (7, 8), i_ctime = (7, 8), i_op = Special_ops, i_dirty = True,
     meta_dbt = dbt_init, lightfs_flags = 0\<rparr>"

theorem metadata_round_trip_witness:
  "\<exists>s. lightfs_setup_inode sample_env sample_fs dbt_init (lightfs_copy_metadata_from_inode sample_env sample_dev_inode)
         = Some (Inr 9, s) \<and> map_option i_rdev (f_icache s 9) = Some 0"
proof -
  have "inode_ops_of (i_mode sample_dev_inode) = Some Special_ops" by code_simp
  then show ?thesis
    using metadata_round_trip [of sample_env sample_fs sample_dev_inode Special_ops dbt_init]
    by (simp add: sample_env_def sample_fs_def INODE_SIZE_def) (simp add: sample_dev_inode_def)
qed

section \<open>Inode numbers\<close>

text \<open>Numbers drawn one after the other, each on some CPU.\<close>

fun draw_inos :: "env \<Rightarrow> fs \<Rightarrow> nat list \<Rightarrow> (u64 list \<times> fs) option" where
  "draw_inos e s [] = Some ([], s)"
| "draw_inos e s (c # cs) = do {
     (ret, ino, s) \<leftarrow> lightfs_next_ino (e\<lparr>e_cpu := c\<rparr>) s;
     bug_on (ret \<noteq> 0);
     (inos, s) \<leftarrow> draw_inos e s cs;
     Some (ino # inos, s) }"

fun ino_seq :: "nat \<Rightarrow> (nat \<Rightarrow> nat) \<Rightarrow> nat list \<Rightarrow> nat list" where
  "ino_seq n k [] = []"
| "ino_seq n k (c # cs) = (1 + c + n * k c) # ino_seq n (k(c := k c + 1)) cs"

lemma ino_seq_form:
  assumes "x \<in> set (ino_seq n k cs)" and "set cs \<subseteq> C"
  shows "\<exists>c \<in> C. \<exists>j. k c \<le> j \<and> x = 1 + c + n * j"
  using assms
proof (induction cs arbitrary: k)
  case (Cons c cs)
  show ?case
  proof (cases "x = 1 + c + n * k c")
    case True
    with Cons.prems(2) show ?thesis by (intro bexI [of _ c]) auto
  next
    case False
    with Cons.prems have "x \<in> set (ino_seq n (k(c := k c + 1)) cs)" by simp
    from Cons.IH [OF this] Cons.prems(2) obtain c' j where "c' \<in> C" "(k(c := k c + 1)) c' \<le> j" "x = 1 + c' + n * j" by auto
    then show ?thesis by (intro bexI [of _ c'] exI [of _ j]) (auto split: if_splits)
  qed
qed simp

lemma ino_seq_distinct:
  assumes "set cs \<subseteq> C" and "inj_on (\<lambda>c. c mod n) C" and "n > 0"
  shows "distinct (ino_seq n k cs)"
  using assms(1)
proof (induction cs arbitrary: k)
  case (Cons c cs)
  have "1 + c + n * k c \<notin> set (ino_seq n (k(c := k c + 1)) cs)"
  proof
    assume "1 + c + n * k c \<in> set (ino_seq n (k(c := k c + 1)) cs)"
    from ino_seq_form [OF this, of C] Cons.prems obtain c' j where
      c': "c' \<in> C" "(k(c := k c + 1)) c' \<le> j" "c + n * k c = c' + n * j" by auto
    have "(c + n * k c) mod n = (c' + n * j) mod n" using c'(3) by simp
    then have "c mod n = c' mod n" by simp
    then have "c = c'" using assms(2) Cons.prems c'(1) by (auto dest: inj_onD)
    with c'(2,3) assms(3) show False by simp
  qed
  then show ?case using Cons by simp
qed simp

lemma ino_seq_bound:
  "\<forall>c \<in> set cs. k c \<le> m \<Longrightarrow> x \<in> set (ino_seq n k cs) \<Longrightarrow> \<exists>c \<in> set cs. x < 2 + c + n * (m + length cs)"
proof (induction cs arbitrary: k m)
  case (Cons c cs)
  have k: "n * k c \<le> n * m" using Cons.prems by simp
  show ?case
  proof (cases "x = 1 + c + n * k c")
    case True
    have "n * (m + length (c # cs)) = n * m + n * length (c # cs)" by (rule distrib_left)
    then have "x < 2 + c + n * (m + length (c # cs))" using True k by linarith
    then show ?thesis by simp
  next
    case False
    with Cons.prems have "x \<in> set (ino_seq n (k(c := k c + 1)) cs)" "\<forall>c' \<in> set cs. (k(c := k c + 1)) c' \<le> m + 1"
      by (auto simp: le_SucI)
    from Cons.IH [OF this(2,1)] show ?thesis by (auto simp: add.commute)
  qed
qed simp

text \<open>One CPU draws until it reaches the first number of another.\<close>

lemma ino_seq_one:
  assumes "c \<noteq> d"
  shows "ino_seq n k (replicate m c @ [d]) = map (\<lambda>i. 1 + c + n * (k c + i)) [0..<m] @ [1 + d + n * k d]"
proof (induction m arbitrary: k)
  case (Suc m)
  have "[0..<Suc m] = 0 # map Suc [0..<m]" by (simp add: upt_conv_Cons map_Suc_upt del: upt_Suc)
  with Suc [of "k(c := k c + 1)"] assms show ?case by (simp add: o_def fun_upd_def del: upt_Suc)
qed simp

text \<open>The number of the file system is on the device and can be written.\<close>

definition ino_stored :: "env \<Rightarrow> bool" where
  "ino_stored e \<longleftrightarrow> memory_ok (k_km (e_k e)) \<and> length (e_dev e ino_key) = 8"

lemma update_ino_ok:
  assumes "ino_stored e"
  shows "\<exists>t'. lightfs_bstore_update_ino (e_k e) (e_dev e) db t ino cur = Some (0, t')"
proof -
  have "ino_key \<noteq> []" "length ino_key = 18" by (simp_all add: ino_key_def)
  then have key: "dbt_bytes (dbt_setup ino_key (length ino_key)) = ino_key" "dbt_valid (dbt_setup ino_key (length ino_key))"
      "unat (d_size (dbt_setup ino_key (length ino_key))) < 65536"
    by (simp_all add: dbt_setup_def dbt_bytes_def dbt_valid_def)
  have dev: "e_dev e ino_key \<noteq> []" "length (e_dev e ino_key) = 8" using assms by (auto simp: ino_stored_def)
  have "length (store_le 8 cur) = 8" by simp
  with key dev obtain vl where get: "lightfs_db_get (e_dev e) (dbt_setup ino_key (length ino_key)) (dbt_setup (store_le 8 cur) 8) = Some (0, vl)"
    by (simp add: lightfs_db_get_def dbt_setup_def)
  have "insertable (\<lambda>_. []) (Some (IV_dbt (dbt_setup (store_le 8 ino) 8))) 0 LIGHTFS_META_SET"
    by (simp add: insertable_def dbt_setup_def dbt_valid_def INODE_SIZE_def)
  from txn_insert_buf [OF _ key(2,3) this] assms get show ?thesis
    by (fastforce simp: lightfs_bstore_update_ino_def lightfs_db_put_def ino_stored_def)
qed

lemma draw_step:
  assumes "f_next_ino s c = of_nat x" and "x < unat (f_max_ino s c) \<and> x < 18446744073709551616 \<or> ino_stored e"
  shows "\<exists>s'. lightfs_next_ino (e\<lparr>e_cpu := c\<rparr>) s = Some (0, of_nat x, s')
           \<and> f_next_ino s' = (f_next_ino s)(c := of_nat x + ucast (f_nr_cpus s)) \<and> f_nr_cpus s' = f_nr_cpus s
           \<and> (x < unat (f_max_ino s c) \<and> x < 18446744073709551616 \<longrightarrow> f_max_ino s' = f_max_ino s \<and> f_hd s' = f_hd s)"
proof (cases "x < unat (f_max_ino s c) \<and> x < 18446744073709551616")
  case True
  then have "unat (of_nat x :: u64) = x" by (simp add: unat_of_nat take_bit_nat_eq_self)
  then have "\<not> f_max_ino s c \<le> of_nat x" using True by (simp add: word_le_nat_alt)
  then show ?thesis using assms(1) by (simp add: lightfs_next_ino_def Let_def)
next
  case False
  then have st: "ino_stored e" using assms(2) by blast
  from update_ino_ok [OF st] have upd: "\<forall>t ino. \<exists>t'. lightfs_bstore_update_ino (e_k e) (e_dev e) meta_db t ino (e_curr_ino e) = Some (0, t')"
    by blast
  then obtain u where u: "\<And>t ino. lightfs_bstore_update_ino (e_k e) (e_dev e) meta_db t ino (e_curr_ino e) = Some (0, u t ino)"
    by metis
  have "\<exists>s'. lightfs_next_ino (e\<lparr>e_cpu := c\<rparr>) s = Some (0, of_nat x, s')
           \<and> f_next_ino s' = (f_next_ino s)(c := of_nat x + ucast (f_nr_cpus s)) \<and> f_nr_cpus s' = f_nr_cpus s"
    using assms(1) u by (simp add: lightfs_next_ino_def Let_def txn_begin_def txn_commit_def split: prod.splits)
  with False show ?thesis by blast
qed

lemma draw_seq:
  assumes "set cs \<subseteq> set cpus" and "length cpus < 4294967296" and "f_nr_cpus s = of_nat (length cpus)"
    and "\<forall>c \<in> set cpus. f_next_ino s c = of_nat (1 + c + length cpus * k c)"
    and "(\<forall>c \<in> set cpus. f_max_ino s c = LIGHTFS_INO_MAX) \<and> (\<forall>x \<in> set (ino_seq (length cpus) k cs). x < 1000000000000) \<or> ino_stored e"
  shows "\<exists>s'. draw_inos e s cs = Some (map of_nat (ino_seq (length cpus) k cs), s')
           \<and> ((\<forall>c \<in> set cpus. f_max_ino s c = LIGHTFS_INO_MAX) \<and> (\<forall>x \<in> set (ino_seq (length cpus) k cs). x < 1000000000000)
                \<longrightarrow> f_hd s' = f_hd s)"
  using assms
proof (induction cs arbitrary: k s)
  case (Cons c cs)
  let ?n = "length cpus"
  let ?x = "1 + c + ?n * k c" and ?k = "k(c := k c + 1)"
  let ?low = "\<lambda>s k cs. (\<forall>c \<in> set cpus. f_max_ino s c = LIGHTFS_INO_MAX) \<and> (\<forall>x \<in> set (ino_seq ?n k cs). x < 1000000000000)"
  have c: "c \<in> set cpus" using Cons.prems(1) by simp
  have cast: "ucast (of_nat ?n :: u32) = (of_nat ?n :: u64)"
    using Cons.prems(2) by (intro word_unat_eq_iff [THEN iffD2]) (simp add: unsigned_ucast_eq unat_of_nat take_bit_nat_eq_self)
  have low: "?x < unat (f_max_ino s c) \<and> ?x < 18446744073709551616" if "?low s k (c # cs)"
    using that c by (simp add: LIGHTFS_INO_MAX_def)
  then have "?x < unat (f_max_ino s c) \<and> ?x < 18446744073709551616 \<or> ino_stored e" using Cons.prems(5) by blast
  from draw_step [OF _ this] Cons.prems(4) c obtain s1 where
    s1: "lightfs_next_ino (e\<lparr>e_cpu := c\<rparr>) s = Some (0, of_nat ?x, s1)"
      "f_next_ino s1 = (f_next_ino s)(c := of_nat ?x + ucast (f_nr_cpus s))" "f_nr_cpus s1 = f_nr_cpus s"
      "?x < unat (f_max_ino s c) \<and> ?x < 18446744073709551616 \<longrightarrow> f_max_ino s1 = f_max_ino s \<and> f_hd s1 = f_hd s" by blast
  have low1: "?low s1 ?k cs" "f_hd s1 = f_hd s" if "?low s k (c # cs)"
    using that s1(4) low [OF that] by simp_all
  have "\<exists>s'. draw_inos e s1 cs = Some (map of_nat (ino_seq ?n ?k cs), s') \<and> (?low s1 ?k cs \<longrightarrow> f_hd s' = f_hd s1)"
  proof (rule Cons.IH)
    show "set cs \<subseteq> set cpus" "?n < 4294967296" "f_nr_cpus s1 = of_nat ?n" using Cons.prems s1(3) by simp_all
    show "\<forall>c' \<in> set cpus. f_next_ino s1 c' = of_nat (1 + c' + ?n * ?k c')"
      using Cons.prems(3,4) cast s1(2) by (simp add: algebra_simps)
    show "?low s1 ?k cs \<or> ino_stored e" using Cons.prems(5) low1(1) by blast
  qed
  then obtain s' where s': "draw_inos e s1 cs = Some (map of_nat (ino_seq ?n ?k cs), s')" "?low s1 ?k cs \<longrightarrow> f_hd s' = f_hd s1" by blast
  have "draw_inos e s (c # cs) = Some (map of_nat (ino_seq ?n k (c # cs)), s')" using s1(1) s'(1) by simp
  moreover have "f_hd s' = f_hd s" if "?low s k (c # cs)" using low1 [OF that] s'(2) by simp
  ultimately show ?case by blast
qed simp

lemma setup_inode_frame:
  assumes "lightfs_setup_inode e s key meta = Some (r, s')"
  shows "f_hd s' = f_hd s" "f_cache s' = f_cache s" "f_next_ino s' = f_next_ino s" "f_max_ino s' = f_max_ino s" "f_nr_cpus s' = f_nr_cpus s"
  using assms by (auto simp: lightfs_setup_inode_def Let_def bind_eq_Some_conv split: if_splits option.splits)

lemma fill_super_inos:
  assumes "lightfs_fill_super e opened cpus root_ok s0 = Some (0, Some root, s)"
  shows "f_nr_cpus s = of_nat (length cpus)" "c \<in> set cpus \<Longrightarrow> f_next_ino s c = LIGHTFS_INO_CUR + of_nat c \<and> f_max_ino s c = LIGHTFS_INO_MAX"
proof -
  obtain s1 key meta where "fill_super_root e cpus root_ok s1 key meta = Some (0, Some root, s)"
    using assms by (auto simp: lightfs_fill_super_def Let_def bind_eq_Some_conv split: if_splits prod.splits)
  then obtain r s2 where r: "lightfs_setup_inode e (s1\<lparr>
       f_next_ino := (\<lambda>cpu. if cpu \<in> set cpus then LIGHTFS_INO_CUR + of_nat cpu else f_next_ino s1 cpu),
       f_max_ino := (\<lambda>cpu. if cpu \<in> set cpus then LIGHTFS_INO_MAX else f_max_ino s1 cpu),
       f_nr_cpus := of_nat (length cpus)\<rparr>) key meta = Some (r, s2)"
      "(case r of Inl ret \<Rightarrow> Some (ret, None, s2)
        | Inr root \<Rightarrow> if root_ok then Some (0, Some root, s2) else Some (- EINVAL, None, s2)) = Some (0, Some root, s)"
    by (auto simp: fill_super_root_def Let_def bind_eq_Some_conv)
  have "s2 = s" using r(2) by (cases r; cases root_ok) simp_all
  then show "f_nr_cpus s = of_nat (length cpus)" "c \<in> set cpus \<Longrightarrow> f_next_ino s c = LIGHTFS_INO_CUR + of_nat c \<and> f_max_ino s c = LIGHTFS_INO_MAX"
    using setup_inode_frame [OF r(1)] by simp_all
qed

text \<open>
  Property C5: which inode numbers are drawn after a mount.  The possible CPUs are any list
  without repetitions, and every number drawn stays below the limit of the mount (10 to the
  12th) or, if the number of the file system is stored on the device, where a new limit is
  written whenever one is reached, below 2 to the 64th.  Then every draw succeeds and none
  yields the number of the root; below the limit no transaction is made.  Numbers never repeat if no
  two possible CPUs are congruent modulo their count, as it is when they are numbered without
  gaps.  If two are congruent, some sequence of draws yields the same number twice.
\<close>

theorem inode_numbers_unique:
  assumes "lightfs_fill_super e opened cpus root_ok s0 = Some (0, Some root, s)" and "distinct cpus" and "length cpus < 4294967296"
    and "\<forall>c \<in> set cpus. c < 4294967296" and "set cs \<subseteq> set cpus"
    and "\<forall>c \<in> set cs. 2 + c + length cpus * length cs \<le> (if ino_stored e then 18446744073709551616 else 1000000000000)"
  shows "(\<exists>inos s'. draw_inos e s cs = Some (inos, s') \<and> length inos = length cs \<and> LIGHTFS_ROOT_INO \<notin> set inos
             \<and> (inj_on (\<lambda>c. c mod length cpus) (set cpus) \<longrightarrow> distinct inos)
             \<and> ((\<forall>c \<in> set cs. 2 + c + length cpus * length cs \<le> 1000000000000) \<longrightarrow> f_hd s' = f_hd s))
       \<and> (\<not> inj_on (\<lambda>c. c mod length cpus) (set cpus) \<longrightarrow>
            (\<exists>cs inos s'. set cs \<subseteq> set cpus \<and> draw_inos e s cs = Some (inos, s') \<and> \<not> distinct inos))"
proof -
  let ?n = "length cpus"
  have mount: "f_nr_cpus s = of_nat ?n" "\<forall>c \<in> set cpus. f_next_ino s c = of_nat (1 + c + ?n * 0)" "\<forall>c \<in> set cpus. f_max_ino s c = LIGHTFS_INO_MAX"
    using fill_super_inos [OF assms(1)] by (simp_all add: LIGHTFS_INO_CUR_def)
  note draw = draw_seq [OF _ assms(3) mount(1,2), of _ e]
  let ?is = "ino_seq ?n (\<lambda>_. 0) cs"
  have bound: "x < b" if "x \<in> set ?is" "\<forall>c \<in> set cs. 2 + c + ?n * length cs \<le> b" for x b
    using ino_seq_bound [of cs "\<lambda>_. 0" 0 x ?n] that by fastforce
  have "(\<forall>x \<in> set ?is. x < 1000000000000) \<or> ino_stored e" using assms(6) bound by auto
  with draw [OF assms(5)] mount(3) obtain s' where
    s': "draw_inos e s cs = Some (map of_nat ?is, s')" "(\<forall>x \<in> set ?is. x < 1000000000000) \<longrightarrow> f_hd s' = f_hd s" by auto
  have small: "unat (of_nat x :: u64) = x" if "x \<in> set ?is" for x
  proof -
    have "x < 18446744073709551616" using bound [OF that, of 18446744073709551616] assms(6) by (cases "ino_stored e") fastforce+
    then show ?thesis by (simp add: unat_of_nat take_bit_nat_eq_self)
  qed
  then have "inj_on (of_nat :: nat \<Rightarrow> u64) (set ?is)" by (metis inj_onI)
  moreover have "distinct ?is" if "inj_on (\<lambda>c. c mod ?n) (set cpus)"
  proof (cases "cpus = []")
    case True
    with assms(5) show ?thesis by simp
  qed (rule ino_seq_distinct [OF assms(5) that], simp)
  ultimately have dist: "inj_on (\<lambda>c. c mod ?n) (set cpus) \<longrightarrow> distinct (map (of_nat :: nat \<Rightarrow> u64) ?is)" by (simp add: distinct_map)
  have root: "(0 :: u64) \<notin> of_nat ` set ?is"
  proof
    assume "(0 :: u64) \<in> of_nat ` set ?is"
    then obtain x where "x \<in> set ?is" "of_nat x = (0 :: u64)" by auto
    then show False using small [of x] ino_seq_form [OF _ assms(5), of x ?n "\<lambda>_. 0"] by auto
  qed
  have len: "length (ino_seq n k cs) = length cs" for n k by (induction cs arbitrary: k) auto
  have "\<exists>cs inos s'. set cs \<subseteq> set cpus \<and> draw_inos e s cs = Some (inos, s') \<and> \<not> distinct inos"
    if "\<not> inj_on (\<lambda>c. c mod ?n) (set cpus)"
  proof -
    from that obtain c d where cd: "c \<in> set cpus" "d \<in> set cpus" "c < d" "c mod ?n = d mod ?n"
      unfolding inj_on_def by (metis linorder_neqE_nat)
    then obtain j where j: "d = c + ?n * j" by (metis mod_eq_nat2E less_imp_le)
    let ?cs = "replicate (Suc j) c @ [d]" and ?f = "\<lambda>i. 1 + c + ?n * i"
    have eq: "ino_seq ?n (\<lambda>_. 0) ?cs = map ?f [0..<Suc j] @ [1 + d]" using ino_seq_one [of c d ?n "\<lambda>_. 0" "Suc j"] cd(3) by simp
    have "?f i < 1000000000000" if "i \<le> j" for i
    proof -
      have "?n * i \<le> ?n * j" using that by simp
      moreover have "d < 4294967296" using assms(4) cd(2) by blast
      ultimately show ?thesis using j by linarith
    qed
    then have "\<forall>x \<in> set (ino_seq ?n (\<lambda>_. 0) ?cs). x < 1000000000000" unfolding eq using assms(4) cd(2) by fastforce
    moreover have sub: "set ?cs \<subseteq> set cpus" using cd(1,2) by auto
    ultimately obtain s'' where "draw_inos e s ?cs = Some (map of_nat (ino_seq ?n (\<lambda>_. 0) ?cs), s'')"
      using draw [of ?cs] mount(3) by blast
    moreover have "1 + d \<in> set (map ?f [0..<Suc j])" using j by force
    then have "(of_nat (1 + d) :: u64) \<in> of_nat ` set (map ?f [0..<Suc j])" by (rule imageI)
    then have "\<not> distinct (map (of_nat :: nat \<Rightarrow> u64) (ino_seq ?n (\<lambda>_. 0) ?cs))" unfolding eq by (simp add: image_image del: upt_Suc of_nat_Suc of_nat_add)
    ultimately show ?thesis using sub by blast
  qed
  moreover have "(\<forall>c \<in> set cs. 2 + c + ?n * length cs \<le> 1000000000000) \<longrightarrow> f_hd s' = f_hd s" using s'(2) bound by blast
  ultimately show ?thesis using s'(1) dist root len by (auto simp: LIGHTFS_ROOT_INO_def)
qed

section \<open>Runs of the file system\<close>

text \<open>
  One operation of the file system, in any environment.  \<open>setattr_copy\<close> of the kernel keeps
  number, type and operations of an inode.
\<close>

definition copy_ok :: "(inode \<Rightarrow> inode) \<Rightarrow> bool" where
  "copy_ok f \<longleftrightarrow> (\<forall>i. i_ino (f i) = i_ino i \<and> i_op (f i) = i_op i \<and> i_mode (f i) AND S_IFMT = i_mode i AND S_IFMT)"

inductive fs_step :: "fs \<Rightarrow> fs \<Rightarrow> bool" where
  step_mknod: "lightfs_mknod e s dir name mode rdev = Some (r, x, s') \<Longrightarrow> fs_step s s'"
| step_symlink: "lightfs_symlink e s dir name symname = Some (r, x, s') \<Longrightarrow> fs_step s s'"
| step_rmdir: "lightfs_rmdir s ino = Some (r, s') \<Longrightarrow> fs_step s s'"
| step_unlink: "lightfs_unlink e s dir name ino = Some (r, s') \<Longrightarrow> fs_step s s'"
| step_rename: "lightfs_rename e s old new_dir name new flags = Some (r, s') \<Longrightarrow> fs_step s s'"
| step_lookup: "lightfs_lookup e s dir name = Some (f, s') \<Longrightarrow> fs_step s s'"
| step_setattr: "copy_ok copy \<Longrightarrow> lightfs_setattr e s ino prepare quota copy valid sz = Some (r, s') \<Longrightarrow> fs_step s s'"
| step_get_link: "lightfs_get_link e s ino = Some (x, s') \<Longrightarrow> fs_step s s'"
| step_fsync: "lightfs_fsync e s ino written datasync = Some (r, s') \<Longrightarrow> fs_step s s'"
| step_write_inode: "lightfs_write_inode e s ino = Some (r, s') \<Longrightarrow> fs_step s s'"
| step_evict: "lightfs_evict_inode e s ino = Some s' \<Longrightarrow> fs_step s s'"
| step_readpage: "lightfs_readpage e s ino fr p = Some (r, s', fr') \<Longrightarrow> fs_step s s'"
| step_writepage: "lightfs_writepage e s ino fr p = Some (r, s', fr') \<Longrightarrow> fs_step s s'"
| step_write_pages: "lightfs_writepages_write_pages e s ino fr ps d = Some (r, s', fr') \<Longrightarrow> fs_step s s'"
| step_write_begin: "lightfs_write_begin e s ino fr pos len page = Some (r, p, s', fr') \<Longrightarrow> fs_step s s'"
| step_write_end: "lightfs_write_end s ino fr pos len copied p = Some (n, s', fr') \<Longrightarrow> fs_step s s'"

inductive fs_reachable :: "fs \<Rightarrow> bool" where
  mounted: "f_icache s0 = Map.empty \<Longrightarrow> lightfs_fill_super e opened cpus root_ok s0 = Some (r, x, s) \<Longrightarrow> fs_reachable s"
| stepped: "fs_reachable s \<Longrightarrow> fs_step s s' \<Longrightarrow> fs_reachable s'"

definition typed :: "fs \<Rightarrow> bool" where
  "typed s \<longleftrightarrow> (\<forall>ino i. f_icache s ino = Some i \<longrightarrow> i_ino i = ino \<and> inode_ops_of (i_mode i) = Some (i_op i))"

text \<open>A predicate on what an operation returns, if it does, and how it passes through the operation.\<close>

definition returns :: "'a option \<Rightarrow> ('a \<Rightarrow> bool) \<Rightarrow> bool" where
  "returns m P \<longleftrightarrow> (\<forall>x. m = Some x \<longrightarrow> P x)"

lemma returnsD: "returns m P \<Longrightarrow> m = Some x \<Longrightarrow> P x"
  by (simp add: returns_def)

lemma returns_bind: "(\<And>x. m = Some x \<Longrightarrow> returns (f x) P) \<Longrightarrow> returns (m \<bind> f) P"
  by (auto simp: returns_def bind_eq_Some_conv)

lemma returns_Some: "P x \<Longrightarrow> returns (Some x) P"
  by (simp add: returns_def)

lemma returns_None: "returns None P"
  by (simp add: returns_def)

lemma returns_Let: "(\<And>x. x = v \<Longrightarrow> returns (f x) P) \<Longrightarrow> returns (Let v f) P"
  by simp

lemma returns_if: "(c \<Longrightarrow> returns m P) \<Longrightarrow> (\<not> c \<Longrightarrow> returns n P) \<Longrightarrow> returns (if c then m else n) P"
  by simp

lemma returns_prod: "(\<And>a b. p = (a, b) \<Longrightarrow> returns (f a b) P) \<Longrightarrow> returns (case p of (a, b) \<Rightarrow> f a b) P"
  by (cases p) simp

lemma returns_sum:
  "(\<And>a. x = Inl a \<Longrightarrow> returns (f a) P) \<Longrightarrow> (\<And>b. x = Inr b \<Longrightarrow> returns (g b) P) \<Longrightarrow>
   returns (case x of Inl a \<Rightarrow> f a | Inr b \<Rightarrow> g b) P"
  by (cases x) simp_all

lemma returns_option:
  "(x = None \<Longrightarrow> returns m P) \<Longrightarrow> (\<And>b. x = Some b \<Longrightarrow> returns (g b) P) \<Longrightarrow>
   returns (case x of None \<Rightarrow> m | Some b \<Rightarrow> g b) P"
  by (cases x) simp_all

lemmas returns_intros = returns_bind returns_Some returns_None returns_Let returns_if returns_prod returns_sum returns_option

lemma typed_simps [simp]:
  "typed (s\<lparr>f_hd := h\<rparr>) = typed s" "typed (s\<lparr>f_cache := c\<rparr>) = typed s" "typed (s\<lparr>f_next_ino := n\<rparr>) = typed s"
  "typed (s\<lparr>f_max_ino := n\<rparr>) = typed s" "typed (s\<lparr>f_nr_cpus := k\<rparr>) = typed s" "typed (txn_commit e s t) = typed s"
  by (simp_all add: typed_def txn_commit_def)

lemma typed_begin: "txn_begin flags s = (t, s') \<Longrightarrow> typed s' = typed s"
  by (auto simp: txn_begin_def split: prod.splits)

lemma ops_cong: "m AND S_IFMT = m' AND S_IFMT \<Longrightarrow> inode_ops_of m = inode_ops_of m'"
  by (simp add: inode_ops_of_def)

lemma typed_upd:
  assumes "typed s" and "\<And>i. i_ino (f i) = i_ino i \<and> i_op (f i) = i_op i \<and> i_mode (f i) AND S_IFMT = i_mode i AND S_IFMT"
  shows "typed (upd_inode s ino f)"
proof (unfold typed_def, intro allI impI)
  fix n i
  assume "f_icache (upd_inode s ino f) n = Some i"
  then obtain j where j: "f_icache s n = Some j" "i = j \<or> i = f j" by (auto simp: upd_inode_def split: if_splits)
  with assms(1) have "i_ino j = n" "inode_ops_of (i_mode j) = Some (i_op j)" by (auto simp: typed_def)
  moreover have "inode_ops_of (i_mode (f j)) = inode_ops_of (i_mode j)" using assms(2) by (intro ops_cong) blast
  ultimately show "i_ino i = n \<and> inode_ops_of (i_mode i) = Some (i_op i)" using j assms(2) [of j] by auto
qed

lemma typed_dirty: "typed s \<Longrightarrow> typed (mark_inode_dirty s ino)"
  unfolding mark_inode_dirty_def by (rule typed_upd) simp_all

lemma typed_remove: "typed s \<Longrightarrow> typed (s\<lparr>f_icache := (f_icache s)(ino := None)\<rparr>)"
  by (simp add: typed_def)

lemma typed_setup_inode: "lightfs_setup_inode e s key meta = Some (r, s') \<Longrightarrow> typed s \<Longrightarrow> typed s'"
  by (auto simp: lightfs_setup_inode_def typed_def Let_def bind_eq_Some_conv split: if_splits option.splits)

lemma typed_next_ino: "lightfs_next_ino e s = Some (r, ino, s') \<Longrightarrow> typed s \<Longrightarrow> typed s'"
  by (auto simp: lightfs_next_ino_def Let_def bind_eq_Some_conv dest: typed_begin split: if_splits prod.splits)

lemma typed_begin': "(t, s') = txn_begin flags s \<Longrightarrow> typed s \<Longrightarrow> typed s'"
  using typed_begin [of flags s t s'] by simp

lemma typed_evict_returns: "typed s \<Longrightarrow> returns (lightfs_evict_inode e s ino) typed"
  unfolding lightfs_evict_inode_def
proof (intro returns_intros typed_remove, goal_cases)
  case (1 i s1)
  have "returns (lightfs_do_unlink e s0 t i) (\<lambda>(r, t, s'). typed s')" if "typed s0" for s0 t
    unfolding lightfs_do_unlink_def using that by (intro returns_intros) auto
  then have "lightfs_do_unlink e s0 t i = Some (r, t', s1') \<Longrightarrow> typed s0 \<Longrightarrow> typed s1'" for s0 t r t' s1'
    by (fastforce simp: returns_def)
  with 1 show ?case
    by (auto simp: bind_eq_Some_conv dest: typed_begin split: if_splits prod.splits)
qed

lemma typed_evict: "lightfs_evict_inode e s ino = Some s' \<Longrightarrow> typed s \<Longrightarrow> typed s'"
  using typed_evict_returns [of s e ino] by (simp add: returns_def)

lemma typed_drop_new: "drop_new_inode e s ino = Some s' \<Longrightarrow> typed s \<Longrightarrow> typed s'"
  unfolding drop_new_inode_def by (erule typed_evict) (rule typed_upd, simp_all)

lemmas typed_intros = typed_upd typed_dirty typed_remove
lemmas typed_dests = typed_begin' typed_setup_inode typed_next_ino typed_drop_new

lemma typed_mknod: "typed s \<Longrightarrow> returns (lightfs_mknod e s dir name mode rdev) (\<lambda>(r, x, s'). typed s')"
  unfolding lightfs_mknod_def
  by (intro returns_intros) (auto intro!: typed_intros dest!: typed_dests)

lemma typed_symlink: "typed s \<Longrightarrow> returns (lightfs_symlink e s dir name symname) (\<lambda>(r, x, s'). typed s')"
  unfolding lightfs_symlink_def
  by (intro returns_intros) (auto intro!: typed_intros dest!: typed_dests)

lemma typed_rmdir: "typed s \<Longrightarrow> returns (lightfs_rmdir s ino) (\<lambda>(r, s'). typed s')"
  unfolding lightfs_rmdir_def by (intro returns_intros) (auto intro!: typed_intros simp: drop_nlink_def dest!: typed_dests split: option.splits)

lemma typed_rename: "typed s \<Longrightarrow> returns (lightfs_rename e s old new_dir name new flags) (\<lambda>(r, s'). typed s')"
  unfolding lightfs_rename_def
  by (intro returns_intros)
    (auto intro!: typed_intros simp: drop_nlink_def bind_eq_Some_conv dest!: typed_begin' split: option.splits if_splits)

lemma typed_get_link: "typed s \<Longrightarrow> returns (lightfs_get_link e s ino) (\<lambda>(r, s'). typed s')"
  unfolding lightfs_get_link_def by (intro returns_intros) (auto intro!: typed_intros simp: drop_nlink_def dest!: typed_dests split: option.splits)

lemma typed_fsync: "typed s \<Longrightarrow> returns (lightfs_fsync e s ino written datasync) (\<lambda>(r, s'). typed s')"
  unfolding lightfs_fsync_def by (intro returns_intros) (auto intro!: typed_intros simp: drop_nlink_def dest!: typed_dests split: option.splits)

lemma typed_write_inode: "typed s \<Longrightarrow> returns (lightfs_write_inode e s ino) (\<lambda>(r, s'). typed s')"
  unfolding lightfs_write_inode_def by (intro returns_intros) (auto intro!: typed_intros simp: drop_nlink_def dest!: typed_dests split: option.splits)

lemma typed_readpage: "typed s \<Longrightarrow> returns (lightfs_readpage e s ino fr p) (\<lambda>(r, s', fr'). typed s')"
  unfolding lightfs_readpage_def by (intro returns_intros) (auto intro!: typed_intros simp: drop_nlink_def dest!: typed_dests split: option.splits)

lemma typed_write_begin: "typed s \<Longrightarrow> returns (lightfs_write_begin e s ino fr pos len page) (\<lambda>(r, p, s', fr'). typed s')"
  unfolding lightfs_write_begin_def by (intro returns_intros) (auto intro!: typed_intros simp: drop_nlink_def dest!: typed_dests split: option.splits)

lemma typed_write_end: "typed s \<Longrightarrow> returns (lightfs_write_end s ino fr pos len copied p) (\<lambda>(n, s', fr'). typed s')"
  unfolding lightfs_write_end_def by (intro returns_intros) (auto intro!: typed_intros simp: drop_nlink_def dest!: typed_dests split: option.splits)

lemma typed_unlink: "typed s \<Longrightarrow> returns (lightfs_unlink e s dir name ino) (\<lambda>(r, s'). typed s')"
  unfolding lightfs_unlink_def meta_key_is_root_def
  by (intro returns_intros) (auto intro!: typed_intros simp: drop_nlink_def)

lemma typed_setattr: "typed s \<Longrightarrow> copy_ok copy \<Longrightarrow>
    returns (lightfs_setattr e s ino prepare quota copy valid sz) (\<lambda>(r, s'). typed s')"
  unfolding lightfs_setattr_def
  by (intro returns_intros) (auto intro!: typed_intros simp: copy_ok_def bind_eq_Some_conv split: if_splits)

lemma typed_writepage: "typed s \<Longrightarrow> returns (lightfs_writepage e s ino fr p) (\<lambda>(r, s', fr'). typed s')"
  unfolding lightfs_writepage_def
  by (intro returns_intros) (auto dest!: typed_begin' split: if_splits)

lemma typed_write_loop: "typed s \<Longrightarrow> returns (write_pages_loop e isz i ps d t ret s fr) (\<lambda>(r, t, s', fr'). typed s')"
proof (induction ps arbitrary: i d t ret s fr)
  case (Cons p ps)
  show ?case
    unfolding write_pages_loop.simps
    using Cons by (intro returns_intros Cons.IH) (auto split: if_splits prod.splits dest: typed_begin)
qed (simp add: returns_def)

lemma typed_write_pages: "typed s \<Longrightarrow> returns (lightfs_writepages_write_pages e s ino fr ps d) (\<lambda>(r, s', fr'). typed s')"
  unfolding lightfs_writepages_write_pages_def
  by (intro returns_intros) (use typed_write_loop [of s] in \<open>fastforce simp: returns_def split: option.splits\<close>)

lemma typed_lookup: "typed s \<Longrightarrow> returns (lightfs_lookup e s dir name) (\<lambda>(f, s'). typed s')"
proof -
  assume s: "typed s"
  have "returns (lookup_inode e s d name) (\<lambda>(f, s'). typed s')" for d
    unfolding lookup_inode_def using s by (intro returns_intros) (auto dest!: typed_dests)
  then show ?thesis unfolding lightfs_lookup_def by (intro returns_intros) (fastforce simp: returns_def)
qed

lemma typed_mount:
  assumes "f_icache s0 = Map.empty"
  shows "returns (lightfs_fill_super e opened cpus root_ok s0) (\<lambda>(r, x, s). typed s)"
proof -
  have root: "returns (fill_super_root e cpus root_ok s root_dbt meta) (\<lambda>(r, x, s). typed s)" if "typed s" for s root_dbt meta
    unfolding fill_super_root_def using that by (intro returns_intros) (auto dest!: typed_setup_inode)
  have "typed s0" using assms by (simp add: typed_def)
  then have meta: "returns (fill_super_meta e s0) (\<lambda>(ret, d, m, s). typed s)"
    unfolding fill_super_meta_def by (intro returns_intros) (auto simp: bind_eq_Some_conv Let_def dest!: typed_begin' split: if_splits)
  have "typed s" if "fill_super_meta e s0 = Some (ret, d, m, s)" for ret d m s using returnsD [OF meta that] by simp
  with \<open>typed s0\<close> show ?thesis unfolding lightfs_fill_super_def by (intro returns_intros root) auto
qed

lemma typed_step:
  assumes "fs_step s s'" and "typed s"
  shows "typed s'"
  using assms(1)
proof (cases rule: fs_step.cases)
  case (step_mknod)
  then show ?thesis using returnsD [OF typed_mknod [OF assms(2)]] by blast
next
  case (step_symlink)
  then show ?thesis using returnsD [OF typed_symlink [OF assms(2)]] by blast
next
  case (step_rmdir)
  then show ?thesis using returnsD [OF typed_rmdir [OF assms(2)]] by blast
next
  case (step_unlink)
  then show ?thesis using returnsD [OF typed_unlink [OF assms(2)]] by blast
next
  case (step_rename)
  then show ?thesis using returnsD [OF typed_rename [OF assms(2)]] by blast
next
  case (step_lookup)
  then show ?thesis using returnsD [OF typed_lookup [OF assms(2)]] by blast
next
  case (step_get_link)
  then show ?thesis using returnsD [OF typed_get_link [OF assms(2)]] by blast
next
  case (step_fsync)
  then show ?thesis using returnsD [OF typed_fsync [OF assms(2)]] by blast
next
  case (step_write_inode)
  then show ?thesis using returnsD [OF typed_write_inode [OF assms(2)]] by blast
next
  case (step_readpage)
  then show ?thesis using returnsD [OF typed_readpage [OF assms(2)]] by blast
next
  case (step_writepage)
  then show ?thesis using returnsD [OF typed_writepage [OF assms(2)]] by blast
next
  case (step_write_pages)
  then show ?thesis using returnsD [OF typed_write_pages [OF assms(2)]] by blast
next
  case (step_write_begin)
  then show ?thesis using returnsD [OF typed_write_begin [OF assms(2)]] by blast
next
  case (step_write_end)
  then show ?thesis using returnsD [OF typed_write_end [OF assms(2)]] by blast
next
  case (step_setattr copy)
  then show ?thesis using returnsD [OF typed_setattr [OF assms(2)]] by blast
next
  case step_evict
  then show ?thesis using typed_evict assms(2) by blast
qed

text \<open>
  Property C4: the types of inodes are sound.  In every state the operations reach from a
  mount, an inode in memory is found under its own number, and its operations are those of
  the type in the upper four bits of its mode: the ones of directories exactly for type 4,
  of files for type 8, of symbolic links for type 10, and of special files for character
  and block devices, pipes and sockets (2, 6, 1, 12).  No other type occurs.
\<close>

theorem inodes_typed:
  assumes "fs_reachable s" and "f_icache s ino = Some i"
  shows "i_ino i = ino \<and> (i_op i = Dir_ops \<longleftrightarrow> i_mode i AND 0xF000 = 0x4000) \<and> (i_op i = File_ops \<longleftrightarrow> i_mode i AND 0xF000 = 0x8000)
       \<and> (i_op i = Symlink_ops \<longleftrightarrow> i_mode i AND 0xF000 = 0xA000)
       \<and> (i_op i = Special_ops \<longleftrightarrow> i_mode i AND 0xF000 \<in> {0x2000, 0x6000, 0x1000, 0xC000})
       \<and> i_mode i AND 0xF000 \<in> {0x4000, 0x8000, 0xA000, 0x2000, 0x6000, 0x1000, 0xC000}"
proof -
  have "typed s" if "f_icache s0 = Map.empty" "lightfs_fill_super e opened cpus root_ok s0 = Some (r, x, s)"
    for s0 e opened cpus root_ok r x s
    using typed_mount [OF that(1)] that(2) by (fastforce simp: returns_def)
  with assms(1) have "typed s" by (induction rule: fs_reachable.induct) (blast intro: typed_step)+
  with assms(2) have "i_ino i = ino" "inode_ops_of (i_mode i) = Some (i_op i)" by (simp_all add: typed_def)
  then show ?thesis
    by (auto simp: inode_ops_of_def Let_def S_IFMT_def S_IFREG_def S_IFDIR_def S_IFLNK_def S_IFCHR_def S_IFBLK_def S_IFIFO_def
        S_IFSOCK_def split: if_splits)
qed

section \<open>Creating and looking up names\<close>

definition meta_dbt_of :: "u64 \<Rightarrow> byte list \<Rightarrow> dbt" where
  "meta_dbt_of ino name = dbt_setup (meta_key_of ino name) (10 + length name)"

lemma meta_dbt_of_simps [simp]:
  assumes "length name < 60000"
  shows "dbt_bytes (meta_dbt_of ino name) = meta_key_of ino name" "dbt_valid (meta_dbt_of ino name)"
    "unat (d_size (meta_dbt_of ino name)) = 10 + length name"
proof -
  have "unat (of_nat (10 + length name) :: u32) = 10 + length name" using assms by (intro unat_of_nat_u32) simp
  then show "dbt_bytes (meta_dbt_of ino name) = meta_key_of ino name" "dbt_valid (meta_dbt_of ino name)"
    "unat (d_size (meta_dbt_of ino name)) = 10 + length name"
    by (simp_all add: meta_dbt_of_def dbt_setup_def dbt_bytes_def dbt_valid_def)
qed

lemma alloc_child:
  assumes "memory_ok km"
  shows "alloc_child_meta_dbt_from_inode km ino name = Some (Inr (meta_dbt_of ino name))"
proof -
  obtain b where "km (10 + length name) = Some b" "length b = 10 + length name" using assms by (auto simp: memory_ok_def)
  then show ?thesis
    by (simp add: alloc_child_meta_dbt_from_inode_def key_pos_defs write_meta_key meta_dbt_of_def Let_def)
qed

definition env_ok :: "env \<Rightarrow> bool" where
  "env_ok e \<longleftrightarrow> kern_ok (e_k e) \<and> length (e_meta e) = INODE_SIZE"

abbreviation fs_abs :: "env \<Rightarrow> fs \<Rightarrow> byte list \<rightharpoonup> byte list \<times> bool" where
  "fs_abs e s \<equiv> cache_abs (k_crc (e_k e)) (k_hmin (e_k e)) (f_cache s)"

abbreviation fs_inv :: "env \<Rightarrow> fs \<Rightarrow> bool" where
  "fs_inv e s \<equiv> cache_inv (k_crc (e_k e)) (k_hmin (e_k e)) (f_cache s)"

lemma begin_write [simp]: "txn_begin TXN_MAY_WRITE s = (lightfs_txn_init, s)"
  by (simp add: txn_begin_def lightfs_bstore_txn_begin_def TXN_MAY_WRITE_def TXN_READONLY_def TXN_SYNC_WRITE_def)

lemma begin_read: "txn_begin TXN_READONLY s =
    (lightfs_txn_init\<lparr>t_state := TXN_READ, t_id := h_txn_id (f_hd s)\<rparr>, s\<lparr>f_hd := (f_hd s)\<lparr>h_txn_id := h_txn_id (f_hd s) + 1\<rparr>\<rparr>)"
  by (simp add: txn_begin_def lightfs_bstore_txn_begin_def)

lemma commit_read [simp]: "txn_commit e s (lightfs_txn_init\<lparr>t_state := TXN_READ, t_id := i\<rparr>) = s"
  by (simp add: txn_commit_def lightfs_bstore_txn_commit_def lightfs_txn_init_def)

definition committed_txn :: "u32 \<Rightarrow> txn_buf list \<Rightarrow> txn" where
  "committed_txn i tbs = (fold (\<lambda>tb t. txn_add t tb) tbs lightfs_txn_init)
     \<lparr>t_id := i, t_state := set_flag (t_state lightfs_txn_init) TXN_COMMITTED\<rparr>"

lemma commit_one: "txn_commit e s (txn_add lightfs_txn_init tb) =
    s\<lparr>f_hd := queued (f_hd s) [committed_txn (h_txn_id (f_hd s)) [tb]]\<rparr>"
  using commit_queued [of "txn_add lightfs_txn_init tb" "f_hd s" "e_completion e"]
  by (simp add: txn_commit_def committed_txn_def txn_add_def lightfs_txn_init_def)

definition new_inode :: "env \<Rightarrow> u64 \<Rightarrow> u16 \<Rightarrow> u64 \<Rightarrow> inode_ops \<Rightarrow> dbt \<Rightarrow> inode" where
  "new_inode e ino mode sz ops key =
     \<lparr>i_ino = ino, i_mode = mode, i_nlink = 1, i_uid = e_make_kuid e (e_from_kuid e (e_uid e)),
      i_gid = e_make_kgid e (e_from_kgid e (e_gid e)), i_rdev = 0, i_size = sz, i_blocks = lightfs_get_block_num_by_size sz,
      i_atime = (fst (e_now e), 0), i_mtime = (fst (e_now e), 0), i_ctime = (fst (e_now e), 0), i_op = ops, i_dirty = False,
      meta_dbt = key, lightfs_flags = 0\<rparr>"

lemma setup_metadata_read:
  assumes "length (e_meta e) = INODE_SIZE"
  shows "length (lightfs_setup_metadata e mode sz rdev ino) = INODE_SIZE"
    "md_st_ino (lightfs_setup_metadata e mode sz rdev ino) = ino"
    "md_type (lightfs_setup_metadata e mode sz rdev ino) = LIGHTFS_METADATA_TYPE_NORMAL"
  using md_fill_read [OF assms(1) refl] by (simp_all add: lightfs_setup_metadata_def Let_def)

lemma setup_new_inode:
  assumes "length (e_meta e) = INODE_SIZE" and "e_iget_ok e" and "f_icache s ino = None" and "inode_ops_of mode = Some ops"
  shows "lightfs_setup_inode e s key (lightfs_setup_metadata e mode sz rdev ino) =
           Some (Inr ino, s\<lparr>f_icache := (f_icache s)(ino \<mapsto> new_inode e ino mode sz ops key)\<rparr>)"
proof -
  have "ucast (ucast mode :: u32) = mode" by (auto intro!: bit_word_eqI simp: bit_simps)
  then show ?thesis
    using assms md_fill_read [OF assms(1) refl]
    by (simp add: lightfs_setup_inode_def lightfs_setup_metadata_def new_inode_def Let_def)
qed

lemma setup_old_inode:
  assumes "e_iget_ok e" and "f_icache s (md_st_ino meta) = Some i"
  shows "lightfs_setup_inode e s key meta =
           Some (Inr (md_st_ino meta), s\<lparr>f_icache := (f_icache s)(md_st_ino meta \<mapsto> i\<lparr>meta_dbt := key\<rparr>)\<rparr>)"
  using assms by (simp add: lightfs_setup_inode_def Let_def)

lemma next_ino_ok:
  assumes "f_next_ino s (e_cpu e) < f_max_ino s (e_cpu e)"
  shows "lightfs_next_ino e s = Some (0, f_next_ino s (e_cpu e),
           s\<lparr>f_next_ino := (f_next_ino s)(e_cpu e := f_next_ino s (e_cpu e) + ucast (f_nr_cpus s))\<rparr>)"
proof -
  have "\<not> f_next_ino s (e_cpu e) \<ge> f_max_ino s (e_cpu e)" using assms by (simp add: not_le)
  then show ?thesis by (simp add: lightfs_next_ino_def Let_def)
qed

text \<open>The circumstances in which a name can be created.\<close>

definition creatable :: "env \<Rightarrow> fs \<Rightarrow> u64 \<Rightarrow> inode \<Rightarrow> byte list \<Rightarrow> bool" where
  "creatable e s dir d name \<longleftrightarrow>
     env_ok e \<and> e_iget_ok e \<and> fs_inv e s \<and> f_icache s dir = Some d \<and> length name < 60000
   \<and> dir_arg_ok (f_cache s) (meta_key_of (i_ino d) name) (Some (dbt_bytes (meta_dbt d)))
   \<and> f_next_ino s (e_cpu e) < f_max_ino s (e_cpu e) \<and> f_icache s (f_next_ino s (e_cpu e)) = None"

lemma creatableD:
  assumes "creatable e s dir d name"
  shows "kern_ok (e_k e)" "memory_ok (k_km (e_k e))" "length (e_meta e) = INODE_SIZE" "e_iget_ok e" "fs_inv e s"
    "f_icache s dir = Some d" "length name < 60000"
    "dir_arg_ok (f_cache s) (meta_key_of (i_ino d) name) (Some (dbt_bytes (meta_dbt d)))"
    "f_next_ino s (e_cpu e) < f_max_ino s (e_cpu e)" "f_icache s (f_next_ino s (e_cpu e)) = None"
    "dir \<noteq> f_next_ino s (e_cpu e)"
  using assms by (auto simp: creatable_def env_ok_def kern_ok_def)

lemma mknod_ok:
  assumes "creatable e s dir d name" and "inode_ops_of mode = Some ops"
    and ino_def: "ino = f_next_ino s (e_cpu e)" and key_def: "key = meta_key_of (i_ino d) name"
    and meta_def: "meta = lightfs_setup_metadata e mode 0 rdev ino"
  shows "\<exists>s' tb. lightfs_mknod e s dir name mode rdev = Some (0, Some ino, s') \<and> fs_inv e s'
           \<and> fs_abs e s' = (fs_abs e s)(key \<mapsto> (meta, False))
           \<and> f_icache s' = (f_icache s)(ino \<mapsto> new_inode e ino mode 0 ops (meta_dbt_of (i_ino d) name),
                                       dir \<mapsto> d\<lparr>i_size := i_size d + 1, i_dirty := True\<rparr>)
           \<and> f_hd s' = queued (f_hd s) [committed_txn (h_txn_id (f_hd s)) [tb]]
           \<and> wire_of (\<lambda>_. []) tb = Some (W_meta_set key 0 meta)"
proof -
  note c = creatableD [OF assms(1)]
  let ?dbt = "meta_dbt_of (i_ino d) name"
  define s1 where "s1 = s\<lparr>f_next_ino := (f_next_ino s)(e_cpu e := ino + ucast (f_nr_cpus s)),
      f_icache := (f_icache s)(ino \<mapsto> new_inode e ino mode 0 ops ?dbt)\<rparr>"
  have len: "length meta = INODE_SIZE" unfolding meta_def by (rule setup_metadata_read(1) [OF c(3)])
  have su: "lightfs_setup_inode e (s\<lparr>f_next_ino := (f_next_ino s)(e_cpu e := ino + ucast (f_nr_cpus s))\<rparr>) ?dbt meta =
      Some (Inr ino, s1)"
    using setup_new_inode [OF c(3,4) _ assms(2), of "s\<lparr>f_next_ino := (f_next_ino s)(e_cpu e := ino + ucast (f_nr_cpus s))\<rparr>" ino ?dbt 0 rdev]
      c(10) by (simp add: s1_def meta_def ino_def)
  have "dir_arg_ok (f_cache s) (dbt_bytes ?dbt) (map_option dbt_bytes (Some (meta_dbt d)))" using c(7,8) by simp
  then obtain c' tb where put: "lightfs_bstore_meta_put (e_k e) meta_db (f_cache s) lightfs_txn_init ?dbt meta (Some (meta_dbt d))
        (mode AND S_IFDIR \<noteq> 0) = Some (0, c', txn_add lightfs_txn_init tb)"
      "cache_inv (k_crc (e_k e)) (k_hmin (e_k e)) c'"
      "cache_abs (k_crc (e_k e)) (k_hmin (e_k e)) c' = (fs_abs e s)(key \<mapsto> (meta, False))"
      "wire_of (\<lambda>_. []) tb = Some (W_meta_set key 0 meta)"
    using meta_put_ok [OF c(1,5) _ _ len, of ?dbt "Some (meta_dbt d)" meta_db lightfs_txn_init "mode AND S_IFDIR \<noteq> 0"] c(7)
    by (auto simp: key_def)
  let ?s' = "mark_inode_dirty (upd_inode (txn_commit e (s1\<lparr>f_cache := c'\<rparr>) (txn_add lightfs_txn_init tb)) dir
      (\<lambda>j. j\<lparr>i_size := i_size d + 1\<rparr>)) dir"
  have "lightfs_mknod e s dir name mode rdev = Some (0, Some ino, ?s')"
    using c(6) put(1) su next_ino_ok [OF c(9)]
    by (simp add: lightfs_mknod_def alloc_child [OF c(2)] ino_def [symmetric] meta_def [symmetric] Let_def) (simp add: s1_def)
  moreover have "f_icache ?s' = (f_icache s)(ino \<mapsto> new_inode e ino mode 0 ops ?dbt, dir \<mapsto> d\<lparr>i_size := i_size d + 1, i_dirty := True\<rparr>)"
    using c(6,11) by (auto simp: mark_inode_dirty_def upd_inode_def s1_def commit_one ino_def)
  moreover have "f_cache ?s' = c'" "f_hd ?s' = queued (f_hd s) [committed_txn (h_txn_id (f_hd s)) [tb]]"
    by (simp_all add: mark_inode_dirty_def upd_inode_def s1_def commit_one)
  ultimately show ?thesis using put by auto
qed

lemma lookup_get:
  assumes "env_ok e" and "fs_inv e s" and "length name < 60000"
    and "e_dev e (meta_key_of ino name) = [] \<or> INODE_SIZE \<le> length (e_dev e (meta_key_of ino name))"
  shows "case fs_abs e s (meta_key_of ino name) of
           None \<Rightarrow> lightfs_bstore_meta_get (e_k e) (e_dev e) (f_cache s) (meta_dbt_of ino name) (e_meta e) =
                   Some (- ENOENT, e_meta e, f_cache s)
         | Some (v, evicted) \<Rightarrow> \<exists>c'. lightfs_bstore_meta_get (e_k e) (e_dev e) (f_cache s) (meta_dbt_of ino name) (e_meta e) =
              Some (if evicted then if e_dev e (meta_key_of ino name) = [] then (DB_NOTFOUND, v, c')
                                    else (0, take INODE_SIZE (e_dev e (meta_key_of ino name)), c')
                    else (0, v, c'))
            \<and> cache_inv (k_crc (e_k e)) (k_hmin (e_k e)) c'
            \<and> cache_abs (k_crc (e_k e)) (k_hmin (e_k e)) c' = (fs_abs e s)(meta_key_of ino name \<mapsto> (v, False))"
proof -
  have eq: "dbt_bytes (meta_dbt_of ino name) = meta_key_of ino name" using assms(3) by simp
  have len: "length (meta_key_of ino name) < 65536" "length (e_meta e) = INODE_SIZE" using assms(1,3) by (simp_all add: env_ok_def)
  from meta_get_cases [of "e_k e" "f_cache s" "meta_dbt_of ino name" "e_meta e" "e_dev e", unfolded eq, OF assms(2) len assms(4)]
  show ?thesis .
qed

lemma lookup_cached:
  assumes "env_ok e" and "e_iget_ok e" and "fs_inv e s" and "f_icache s dir = Some d" and "length name < 60000"
    and "e_dev e (meta_key_of (i_ino d) name) = [] \<or> INODE_SIZE \<le> length (e_dev e (meta_key_of (i_ino d) name))"
    and "fs_abs e s (meta_key_of (i_ino d) name) = Some (meta, False)"
    and "md_type meta = LIGHTFS_METADATA_TYPE_NORMAL" and "f_icache s (md_st_ino meta) = Some i"
  shows "\<exists>s'. lightfs_lookup e s dir name = Some (Found (md_st_ino meta), s') \<and> fs_inv e s' \<and> fs_abs e s' = fs_abs e s
           \<and> f_icache s' = (f_icache s)(md_st_ino meta \<mapsto> i\<lparr>meta_dbt := meta_dbt_of (i_ino d) name\<rparr>)"
proof -
  let ?key = "meta_key_of (i_ino d) name" and ?dbt = "meta_dbt_of (i_ino d) name"
  let ?s = "s\<lparr>f_hd := (f_hd s)\<lparr>h_txn_id := h_txn_id (f_hd s) + 1\<rparr>\<rparr>"
  have mem: "memory_ok (k_km (e_k e))" using assms(1) by (simp add: env_ok_def kern_ok_def)
  from lookup_get [OF assms(1,3,5,6)] assms(7) obtain c' where
    get: "lightfs_bstore_meta_get (e_k e) (e_dev e) (f_cache s) ?dbt (e_meta e) = Some (0, meta, c')"
      "cache_inv (k_crc (e_k e)) (k_hmin (e_k e)) c'"
      "cache_abs (k_crc (e_k e)) (k_hmin (e_k e)) c' = (fs_abs e s)(?key \<mapsto> (meta, False))"
    by auto
  have ne: "- ENOENT \<noteq> 0" "LIGHTFS_METADATA_TYPE_NORMAL \<noteq> LIGHTFS_METADATA_TYPE_REDIRECT"
    by (simp_all add: errno_defs LIGHTFS_METADATA_TYPE_NORMAL_def LIGHTFS_METADATA_TYPE_REDIRECT_def)
  have same: "(fs_abs e s)(?key \<mapsto> (meta, False)) = fs_abs e s" using assms(7) by auto
  let ?s' = "?s\<lparr>f_cache := c', f_icache := (f_icache s)(md_st_ino meta \<mapsto> i\<lparr>meta_dbt := ?dbt\<rparr>)\<rparr>"
  have su: "lightfs_setup_inode e (?s\<lparr>f_cache := c'\<rparr>) ?dbt meta = Some (Inr (md_st_ino meta), ?s')"
    using setup_old_inode [OF assms(2), of "?s\<lparr>f_cache := c'\<rparr>" meta i ?dbt] assms(9) by simp
  have "lookup_inode e s d name = Some (Found (md_st_ino meta), ?s')"
    using get(1) ne assms(8) su by (simp add: lookup_inode_def alloc_child [OF mem] begin_read Let_def)
  then have "lightfs_lookup e s dir name = Some (Found (md_st_ino meta), ?s')"
    using assms(4) by (simp add: lightfs_lookup_def d_splice_alias_def)
  moreover have "fs_inv e ?s'" "fs_abs e ?s' = fs_abs e s" using get(2,3) same by simp_all
  ultimately show ?thesis by auto
qed

lemma lookup_lost:
  assumes "env_ok e" and "fs_inv e s" and "f_icache s dir = Some d" and "length name < 60000"
    and "e_dev e (meta_key_of (i_ino d) name) = []" and "fs_abs e s (meta_key_of (i_ino d) name) = Some (v, True)"
  shows "lightfs_lookup e s dir name = None"
proof -
  have mem: "memory_ok (k_km (e_k e))" using assms(1) by (simp add: env_ok_def kern_ok_def)
  from lookup_get [OF assms(1,2,4), of "i_ino d"] assms(5,6) obtain c' where
    "lightfs_bstore_meta_get (e_k e) (e_dev e) (f_cache s) (meta_dbt_of (i_ino d) name) (e_meta e) = Some (DB_NOTFOUND, v, c')"
    by auto
  then show ?thesis using assms(3)
    by (simp add: lightfs_lookup_def lookup_inode_def alloc_child [OF mem] begin_read d_splice_alias_def IS_ERR_def code_defs
        errno_defs Let_def)
qed

lemma evict_linked:
  assumes "fs_inv e s" and "f_icache s ino = Some i" and "i_nlink i \<noteq> 0 \<or> lightfs_flags i AND LIGHTFS_FLAG_DELETED \<noteq> 0"
    and "length (dbt_bytes (meta_dbt i)) < 65536"
  shows "\<exists>s'. lightfs_evict_inode e s ino = Some s' \<and> fs_inv e s' \<and> f_icache s' = (f_icache s)(ino := None) \<and> f_hd s' = f_hd s
           \<and> fs_abs e s' = (fs_abs e s)(dbt_bytes (meta_dbt i) :=
               map_option (\<lambda>(v, _). (v, True)) (fs_abs e s (dbt_bytes (meta_dbt i))))"
  using meta_weak_del_ok [OF assms(1,4), of meta_db lightfs_txn_init "S_ISDIR (i_mode i)"] assms(2,3)
  by (auto simp: lightfs_evict_inode_def)

lemma meta_key_inj: "meta_key_of ino name = meta_key_of ino name' \<longleftrightarrow> name = name'"
  by (simp add: meta_key_of_def)

text \<open>Mounting a file system that was never mounted.\<close>

lemma root_dbt: "dbt_setup root_meta_key SIZEOF_ROOT_META_KEY = meta_dbt_of LIGHTFS_ROOT_INO []"
  by (simp add: root_meta_key_def key_pos_defs meta_dbt_of_def meta_key_of_def LIGHTFS_ROOT_INO_def magic_defs store_be64_def)
    code_simp

lemma mount_ok:
  assumes "env_ok e" and "e_iget_ok e" and "fs_inv e s0" and "f_icache s0 = Map.empty"
    and "fs_abs e s0 root_meta_key = None" and "e_dev e root_meta_key = [] \<or> INODE_SIZE \<le> length (e_dev e root_meta_key)"
  shows "\<exists>s. lightfs_fill_super e 0 cpus True s0 = Some (0, Some LIGHTFS_ROOT_INO, s) \<and> fs_inv e s
           \<and> fs_abs e s = (fs_abs e s0)(root_meta_key \<mapsto> (lightfs_setup_metadata e (493 OR S_IFDIR) 0 0 LIGHTFS_ROOT_INO, False))
           \<and> f_icache s = [LIGHTFS_ROOT_INO \<mapsto> new_inode e LIGHTFS_ROOT_INO (493 OR S_IFDIR) 0 Dir_ops (meta_dbt_of LIGHTFS_ROOT_INO [])]
           \<and> (\<exists>t. f_hd s = lightfs_bstore_txn_commit (f_hd s0) t (e_completion e) \<and> \<not> has_flag (t_state t) TXN_SYNC)"
proof -
  let ?dbt = "meta_dbt_of LIGHTFS_ROOT_INO []" and ?meta = "lightfs_setup_metadata e (493 OR S_IFDIR) 0 0 LIGHTFS_ROOT_INO"
  have key: "meta_key_of LIGHTFS_ROOT_INO [] = root_meta_key" by code_simp
  have ok: "kern_ok (e_k e)" "length (e_meta e) = INODE_SIZE" using assms(1) by (simp_all add: env_ok_def)
  have get: "lightfs_bstore_meta_get (e_k e) (e_dev e) (f_cache s0) ?dbt (e_meta e) = Some (- ENOENT, e_meta e, f_cache s0)"
    using lookup_get [OF assms(1,3), of "[]" LIGHTFS_ROOT_INO] assms(5,6) by (simp add: key)
  have len: "length ?meta = INODE_SIZE" by (rule setup_metadata_read(1) [OF ok(2)])
  obtain c' tb where put: "lightfs_bstore_meta_put (e_k e) meta_db (f_cache s0) lightfs_txn_init ?dbt ?meta None True =
        Some (0, c', txn_add lightfs_txn_init tb)"
      "cache_inv (k_crc (e_k e)) (k_hmin (e_k e)) c'"
      "cache_abs (k_crc (e_k e)) (k_hmin (e_k e)) c' = (fs_abs e s0)(root_meta_key \<mapsto> (?meta, False))"
    using meta_put_ok [OF ok(1) assms(3) _ _ len, of ?dbt None meta_db lightfs_txn_init True] by (auto simp: key dir_arg_ok_def)
  have ops: "inode_ops_of (493 OR S_IFDIR) = Some Dir_ops" by code_simp
  have same: "e\<lparr>e_meta := e_meta e\<rparr> = e" by simp
  let ?s1 = "txn_commit e (s0\<lparr>f_cache := c'\<rparr>) (txn_add lightfs_txn_init tb)"
  have meta: "fill_super_meta e s0 = Some (0, ?dbt, ?meta, ?s1)"
    using get put(1) by (simp add: fill_super_meta_def root_dbt same)
  moreover obtain s where "fill_super_root e cpus True ?s1 ?dbt ?meta = Some (0, Some LIGHTFS_ROOT_INO, s)" "f_cache s = c'"
      "f_icache s = [LIGHTFS_ROOT_INO \<mapsto> new_inode e LIGHTFS_ROOT_INO (493 OR S_IFDIR) 0 Dir_ops ?dbt]" "f_hd s = f_hd ?s1"
    using assms(2,4) by (simp add: fill_super_root_def setup_new_inode [OF ok(2) _ _ ops] commit_one Let_def)
  moreover have "lightfs_fill_super e 0 cpus True s0 = fill_super_root e cpus True ?s1 ?dbt ?meta"
    using meta by (simp add: lightfs_fill_super_def)
  moreover have "\<not> has_flag (t_state (txn_add lightfs_txn_init tb)) TXN_SYNC"
    by (simp add: txn_add_def lightfs_txn_init_def has_flag_def txn_state_defs)
  ultimately show ?thesis
    using put(2,3) by (intro exI [of _ s] conjI exI [of _ "txn_add lightfs_txn_init tb"]) (auto simp: txn_commit_def)
qed

lemma sample_env_ok: "env_ok sample_env" "e_iget_ok sample_env" "fs_inv sample_env sample_fs"
    "fs_abs sample_env sample_fs = Map.empty"
  using sample_kern_ok by (simp_all add: env_ok_def sample_env_def sample_fs_def INODE_SIZE_def abs_empty cache_inv_create)

lemma sample_mount: "\<exists>s. lightfs_fill_super sample_env 0 cpus True sample_fs = Some (0, Some 0, s)
    \<and> f_icache s = [0 \<mapsto> new_inode sample_env 0 (493 OR S_IFDIR) 0 Dir_ops (meta_dbt_of 0 [])]"
  using mount_ok [OF sample_env_ok(1-3), of cpus]
  by (auto simp: sample_env_ok(4) LIGHTFS_ROOT_INO_def) (auto simp: sample_fs_def sample_env_def)

theorem inode_numbers_unique_witness:
  "(\<exists>s inos s'. lightfs_fill_super sample_env 0 [0..<2] True sample_fs = Some (0, Some 0, s)
     \<and> draw_inos sample_env s [0, 1, 0] = Some (inos, s') \<and> distinct inos)
 \<and> (\<exists>s cs inos s'. lightfs_fill_super sample_env 0 [0, 2] True sample_fs = Some (0, Some 0, s)
     \<and> draw_inos sample_env s cs = Some (inos, s') \<and> \<not> distinct inos)"
proof
  obtain s where s: "lightfs_fill_super sample_env 0 [0..<2] True sample_fs = Some (0, Some 0, s)" using sample_mount by blast
  have "inj_on (\<lambda>c. c mod length [0..<2]) (set [0..<2])"
      "\<forall>c \<in> set [0, 1, 0]. 2 + c + length [0..<2] * length [0, 1, 0 :: nat] \<le> (if ino_stored sample_env then 18446744073709551616 else 1000000000000)"
    by (auto simp: inj_on_def)
  with inode_numbers_unique [OF s _ _ _ _ this(2)] s show "\<exists>s inos s'. lightfs_fill_super sample_env 0 [0..<2] True sample_fs = Some (0, Some 0, s)
     \<and> draw_inos sample_env s [0, 1, 0] = Some (inos, s') \<and> distinct inos"
    by (simp del: draw_inos.simps) blast
  obtain s where s: "lightfs_fill_super sample_env 0 [0, 2] True sample_fs = Some (0, Some 0, s)" using sample_mount by blast
  have "\<not> inj_on (\<lambda>c. c mod length [0, 2 :: nat]) (set [0, 2])" by (auto simp: inj_on_def numeral_2_eq_2)
  with s show "\<exists>s cs inos s'. lightfs_fill_super sample_env 0 [0, 2] True sample_fs = Some (0, Some 0, s)
     \<and> draw_inos sample_env s cs = Some (inos, s') \<and> \<not> distinct inos"
    using inode_numbers_unique [OF s, of "[]"] by auto
qed

theorem inodes_typed_witness:
  "\<exists>s i. fs_reachable s \<and> f_icache s 0 = Some i \<and> i_mode i AND 0xF000 = 0x4000 \<and> i_op i = Dir_ops"
proof -
  let ?i = "new_inode sample_env 0 (493 OR S_IFDIR) 0 Dir_ops (meta_dbt_of 0 [])"
  obtain s where s: "lightfs_fill_super sample_env 0 [0..<2] True sample_fs = Some (0, Some 0, s)"
    "f_icache s = [0 \<mapsto> ?i]" using sample_mount by blast
  then have r: "fs_reachable s" by (intro fs_reachable.mounted [OF _ s(1)]) (simp add: sample_fs_def)
  moreover have i: "f_icache s 0 = Some ?i" using s(2) by simp
  moreover have "i_mode ?i AND 0xF000 = 0x4000" by (simp add: new_inode_def S_IFDIR_def)
  ultimately show ?thesis using inodes_typed [OF r i] by blast
qed

text \<open>
  Property C1: a name that was created is found.  After \<open>lightfs_mknod\<close> has made a file in a
  directory, \<open>lightfs_lookup\<close> of that name returns the inode that was made, with the mode it
  was made with; no other name of the cache has changed; and the log has got one more
  transaction, which sets the metadata of the new name on the device.
\<close>

theorem created_is_found:
  assumes "creatable e s dir d name" and "inode_ops_of mode = Some ops"
    and "e_dev e (meta_key_of (i_ino d) name) = [] \<or> INODE_SIZE \<le> length (e_dev e (meta_key_of (i_ino d) name))"
  shows "\<exists>ino s1 s2 tb. lightfs_mknod e s dir name mode rdev = Some (0, Some ino, s1)
     \<and> lightfs_lookup e s1 dir name = Some (Found ino, s2)
     \<and> f_icache s2 ino = Some (new_inode e ino mode 0 ops (meta_dbt_of (i_ino d) name))
     \<and> map_option i_size (f_icache s2 dir) = Some (i_size d + 1)
     \<and> (\<forall>key. key \<noteq> meta_key_of (i_ino d) name \<longrightarrow> fs_abs e s2 key = fs_abs e s key)
     \<and> f_hd s1 = queued (f_hd s) [committed_txn (h_txn_id (f_hd s)) [tb]]
     \<and> wire_of (\<lambda>_. []) tb = Some (W_meta_set (meta_key_of (i_ino d) name) 0 (lightfs_setup_metadata e mode 0 rdev ino))"
proof -
  note c = creatableD [OF assms(1)]
  let ?ino = "f_next_ino s (e_cpu e)" and ?key = "meta_key_of (i_ino d) name"
  let ?meta = "lightfs_setup_metadata e mode 0 rdev ?ino" and ?i = "new_inode e ?ino mode 0 ops (meta_dbt_of (i_ino d) name)"
  let ?d = "d\<lparr>i_size := i_size d + 1, i_dirty := True\<rparr>"
  from mknod_ok [OF assms(1,2) refl refl refl, of rdev] obtain s1 tb where
    s1: "lightfs_mknod e s dir name mode rdev = Some (0, Some ?ino, s1)" "fs_inv e s1"
      "fs_abs e s1 = (fs_abs e s)(?key \<mapsto> (?meta, False))" "f_icache s1 = (f_icache s)(?ino \<mapsto> ?i, dir \<mapsto> ?d)"
      "f_hd s1 = queued (f_hd s) [committed_txn (h_txn_id (f_hd s)) [tb]]" "wire_of (\<lambda>_. []) tb = Some (W_meta_set ?key 0 ?meta)"
    by blast
  have e: "env_ok e" using assms(1) by (simp add: creatable_def)
  have "f_icache s1 dir = Some ?d" "f_icache s1 (md_st_ino ?meta) = Some ?i"
    using s1(4) c(11) by (simp_all add: setup_metadata_read [OF c(3)])
  then obtain s2 where "lightfs_lookup e s1 dir name = Some (Found ?ino, s2)" "fs_abs e s2 = fs_abs e s1"
      "f_icache s2 = (f_icache s1)(?ino \<mapsto> ?i\<lparr>meta_dbt := meta_dbt_of (i_ino d) name\<rparr>)"
    using lookup_cached [OF e c(4) s1(2) _ c(7), of dir ?d ?meta ?i] assms(3) s1(3)
    by (auto simp: setup_metadata_read [OF c(3)])
  with s1 c(11) show ?thesis by (intro exI [of _ ?ino] exI [of _ s1] exI [of _ s2] exI [of _ tb]) (simp add: new_inode_def)
qed

text \<open>
  Property C13: a name whose inode has been evicted before its metadata reached the device
  cannot be looked up.  The eviction of a linked inode marks the cached metadata as
  evicted; the lookup then reads the device, which does not have the key yet, and gets
  \<open>DB_NOTFOUND\<close>.  This code lies outside the range \<open>IS_ERR\<close> knows, so \<open>lightfs_lookup\<close> passes it
  on as the address of an inode and faults, although the file was created.
\<close>

theorem evicted_name_faults:
  assumes "creatable e s dir d name" and "inode_ops_of mode = Some ops" and "e_dev e (meta_key_of (i_ino d) name) = []"
  shows "\<exists>ino s1 s2. lightfs_mknod e s dir name mode rdev = Some (0, Some ino, s1)
     \<and> lightfs_evict_inode e s1 ino = Some s2 \<and> f_hd s2 = f_hd s1 \<and> f_icache s2 dir \<noteq> None
     \<and> lightfs_lookup e s2 dir name = None"
proof -
  note c = creatableD [OF assms(1)]
  let ?ino = "f_next_ino s (e_cpu e)" and ?key = "meta_key_of (i_ino d) name"
  let ?meta = "lightfs_setup_metadata e mode 0 rdev ?ino" and ?i = "new_inode e ?ino mode 0 ops (meta_dbt_of (i_ino d) name)"
  let ?d = "d\<lparr>i_size := i_size d + 1, i_dirty := True\<rparr>"
  from mknod_ok [OF assms(1,2) refl refl refl, of rdev] obtain s1 where
    s1: "lightfs_mknod e s dir name mode rdev = Some (0, Some ?ino, s1)" "fs_inv e s1"
      "fs_abs e s1 = (fs_abs e s)(?key \<mapsto> (?meta, False))" "f_icache s1 = (f_icache s)(?ino \<mapsto> ?i, dir \<mapsto> ?d)"
    by blast
  have i: "f_icache s1 ?ino = Some ?i" "i_nlink ?i \<noteq> 0 \<or> lightfs_flags ?i AND LIGHTFS_FLAG_DELETED \<noteq> 0" "dbt_bytes (meta_dbt ?i) = ?key"
    using s1(4) c(7,11) by (simp_all add: new_inode_def)
  with c(7) evict_linked [OF s1(2) i(1,2)] obtain s2 where
    s2: "lightfs_evict_inode e s1 ?ino = Some s2" "fs_inv e s2" "f_icache s2 = (f_icache s1)(?ino := None)" "f_hd s2 = f_hd s1"
      "fs_abs e s2 = (fs_abs e s1)(?key := map_option (\<lambda>(v, _). (v, True)) (fs_abs e s1 ?key))"
    by auto
  have "env_ok e" "f_icache s2 dir = Some ?d" "fs_abs e s2 ?key = Some (?meta, True)"
    using assms(1) s2(3,5) s1(3,4) c(11) by (simp_all add: creatable_def)
  then have "lightfs_lookup e s2 dir name = None" using lookup_lost [OF _ s2(2) _ c(7), of dir ?d ?meta] assms(3) by simp
  with s1(1) s2 \<open>f_icache s2 dir = Some ?d\<close> show ?thesis by blast
qed

text \<open>A directory with the number 3, in a file system with an empty cache.\<close>

definition sample_dir :: inode where
  "sample_dir = new_inode sample_env 3 (493 OR S_IFDIR) 0 Dir_ops (meta_dbt_of 0 [100])"

definition sample_tree :: fs where
  "sample_tree = sample_fs\<lparr>f_icache := [3 \<mapsto> sample_dir], f_next_ino := (\<lambda>_. 4), f_max_ino := (\<lambda>_. 100)\<rparr>"

lemma sample_creatable: "creatable sample_env sample_tree 3 sample_dir [97]"
proof -
  have "dbt_bytes (meta_dbt sample_dir) = meta_key_of 0 [100]" "i_ino sample_dir = 3" by (simp_all add: sample_dir_def new_inode_def)
  then have "dir_arg_ok (f_cache sample_tree) (meta_key_of (i_ino sample_dir) [97]) (Some (dbt_bytes (meta_dbt sample_dir)))"
    by (simp add: dir_arg_ok_def sample_tree_def sample_fs_def lightfs_cache_create_def) (simp add: meta_key_of_def)
  with sample_env_ok show ?thesis by (simp add: creatable_def sample_tree_def)
qed

theorem created_is_found_witness:
  "\<exists>ino s1 s2. lightfs_mknod sample_env sample_tree 3 [97] (S_IFREG OR 420) 0 = Some (0, Some ino, s1)
     \<and> lightfs_lookup sample_env s1 3 [97] = Some (Found ino, s2)"
proof -
  have "inode_ops_of (S_IFREG OR 420) = Some File_ops" by code_simp
  from created_is_found [OF sample_creatable this, of 0] show ?thesis by (auto simp: sample_env_def)
qed

theorem evicted_name_faults_witness:
  "\<exists>ino s1 s2. lightfs_mknod sample_env sample_tree 3 [97] (S_IFREG OR 420) 0 = Some (0, Some ino, s1)
     \<and> lightfs_evict_inode sample_env s1 ino = Some s2 \<and> lightfs_lookup sample_env s2 3 [97] = None"
proof -
  have "inode_ops_of (S_IFREG OR 420) = Some File_ops" by code_simp
  from evicted_name_faults [OF sample_creatable this, of 0] show ?thesis by (auto simp: sample_env_def)
qed

section \<open>Removing and moving names\<close>

lemma commit_two: "txn_commit e s (txn_add (txn_add lightfs_txn_init tb1) tb2) =
    s\<lparr>f_hd := queued (f_hd s) [committed_txn (h_txn_id (f_hd s)) [tb1, tb2]]\<rparr>"
  by (simp add: txn_commit_def committed_txn_def txn_add_def lightfs_bstore_txn_commit_def queued_def lightfs_txn_init_def
      has_flag_def txn_state_defs)

lemma do_unlink_file:
  assumes "env_ok e" and "fs_inv e s" and "\<not> S_ISDIR (i_mode i)" and "sint (i_size i) > 0"
    and "dbt_valid (meta_dbt i)" and "unat (d_size (meta_dbt i)) < 65536" and "removable (f_cache s) (dbt_bytes (meta_dbt i))"
  shows "\<exists>s' tb ts. lightfs_do_unlink e s lightfs_txn_init i = Some (0, txn_add lightfs_txn_init tb, s') \<and> fs_inv e s'
           \<and> fs_abs e s' = (fs_abs e s)(dbt_bytes (meta_dbt i) := None) \<and> f_icache s' = f_icache s
           \<and> f_hd s' = queued (f_hd s) ts \<and> (\<forall>t \<in> set ts. del_txn (i_ino i) t)
           \<and> txn_del_blocks ts = [1..<(unat (i_size i) + 4095) div 4096 + 1]
           \<and> wire_of (\<lambda>_. []) tb = Some (W_del 3 (dbt_bytes (meta_dbt i)))"
proof -
  have ok: "kern_ok (e_k e)" "memory_ok (k_km (e_k e))" using assms(1) by (simp_all add: env_ok_def kern_ok_def)
  obtain c' tb where del: "lightfs_bstore_meta_del (e_k e) meta_db (f_cache s) lightfs_txn_init (meta_dbt i) False False =
        Some (0, c', txn_add lightfs_txn_init tb)" "cache_inv (k_crc (e_k e)) (k_hmin (e_k e)) c'"
      "cache_abs (k_crc (e_k e)) (k_hmin (e_k e)) c' = (fs_abs e s)(dbt_bytes (meta_dbt i) := None)"
      "wire_of (\<lambda>_. []) tb = Some (W_del 3 (dbt_bytes (meta_dbt i)))"
    using meta_del_ok [OF ok(1) assms(2,5-7)] by blast
  obtain ts where tr: "lightfs_bstore_trunc (e_k e) data_db (i_ino i) (i_size i) 0 0 (f_hd s) = Some (0, queued (f_hd s) ts)"
      "\<forall>t \<in> set ts. del_txn (i_ino i) t" "txn_del_blocks ts = [1..<(unat (i_size i) + 4095) div 4096 + 1]"
    using trunc_ok [OF ok(2), of 1 0 0 "i_size i" data_db "i_ino i" "f_hd s"] by auto
  let ?s' = "s\<lparr>f_cache := c', f_hd := queued (f_hd s) ts\<rparr>"
  have "lightfs_do_unlink e s lightfs_txn_init i = Some (0, txn_add lightfs_txn_init tb, ?s')"
    using assms(3,4) del(1) tr(1) by (simp add: lightfs_do_unlink_def)
  with del(2-4) tr(2,3) show ?thesis by (intro exI [of _ ?s'] exI [of _ tb] exI [of _ ts]) simp
qed

text \<open>
  Property C3: removing a file removes all of it.  \<open>lightfs_unlink\<close> of the only name of a file
  succeeds and, once the last reference is gone, \<open>lightfs_evict_inode\<close> deletes the metadata of
  the file from the cache and leaves the rest of it as it was.  The transactions it has
  queued delete every block of the file, from the first to the one that holds its last
  byte, and the last of them deletes the metadata.
\<close>

theorem unlink_deletes:
  assumes "env_ok e" and "fs_inv e s" and "f_icache s dir = Some d" and "f_icache s ino = Some i" and "dir \<noteq> ino"
    and "i_nlink i = 1" and "lightfs_flags i = 0" and "\<not> S_ISDIR (i_mode i)" and "sint (i_size i) > 0"
    and "dbt_valid (meta_dbt i)" and "unat (d_size (meta_dbt i)) < 65536" and "removable (f_cache s) (dbt_bytes (meta_dbt i))"
  shows "\<exists>s1 s2 ts tb. lightfs_unlink e s dir name ino = Some (0, s1) \<and> lightfs_evict_inode e s1 ino = Some s2
     \<and> fs_inv e s2 \<and> fs_abs e s2 = (fs_abs e s)(dbt_bytes (meta_dbt i) := None)
     \<and> f_icache s2 = (f_icache s)(ino := None, dir \<mapsto> d\<lparr>i_size := i_size d - 1, i_dirty := True\<rparr>)
     \<and> f_hd s2 = queued (queued (f_hd s) ts) [committed_txn (h_txn_id (queued (f_hd s) ts)) [tb]]
     \<and> (\<forall>t \<in> set ts. del_txn (i_ino i) t)
     \<and> txn_del_blocks ts = [1..<(unat (i_size i) + 4095) div 4096 + 1]
     \<and> wire_of (\<lambda>_. []) tb = Some (W_del 3 (dbt_bytes (meta_dbt i)))"
proof -
  let ?i = "i\<lparr>i_nlink := 0, i_dirty := True\<rparr>"
  let ?s1 = "s\<lparr>f_icache := (f_icache s)(ino \<mapsto> ?i, dir \<mapsto> d\<lparr>i_size := i_size d - 1, i_dirty := True\<rparr>)\<rparr>"
  have un: "lightfs_unlink e s dir name ino = Some (0, ?s1)"
    using assms(3-6) by (simp add: lightfs_unlink_def meta_key_is_root_def mark_inode_dirty_def upd_inode_def drop_nlink_def fun_upd_twist)
  from do_unlink_file [of e ?s1 ?i] assms obtain s' tb ts where
    s': "lightfs_do_unlink e ?s1 lightfs_txn_init ?i = Some (0, txn_add lightfs_txn_init tb, s')" "fs_inv e s'"
      "fs_abs e s' = (fs_abs e s)(dbt_bytes (meta_dbt i) := None)" "f_icache s' = f_icache ?s1"
      "f_hd s' = queued (f_hd s) ts" "\<forall>t \<in> set ts. del_txn (i_ino i) t"
      "txn_del_blocks ts = [1..<(unat (i_size i) + 4095) div 4096 + 1]"
      "wire_of (\<lambda>_. []) tb = Some (W_del 3 (dbt_bytes (meta_dbt i)))"
    by auto
  let ?s2 = "s'\<lparr>f_hd := queued (f_hd s') [committed_txn (h_txn_id (f_hd s')) [tb]], f_icache := (f_icache s')(ino := None)\<rparr>"
  have "lightfs_evict_inode e ?s1 ino = Some ?s2"
    using s'(1) assms(5,7) by (simp add: lightfs_evict_inode_def commit_one)
  moreover have "f_icache ?s2 = (f_icache s)(ino := None, dir \<mapsto> d\<lparr>i_size := i_size d - 1, i_dirty := True\<rparr>)"
    using s'(4) assms(5) by (simp add: fun_upd_twist)
  ultimately show ?thesis using un s' by (intro exI [of _ ?s1] exI [of _ ?s2] exI [of _ ts] exI [of _ tb]) simp
qed

text \<open>A file of 5000 bytes in the sample directory, with a key the cache does not hold.\<close>

definition sample_file :: inode where
  "sample_file = new_inode sample_env 4 (S_IFREG OR 420) 5000 File_ops (meta_dbt_of 3 [97])"

definition sample_files :: fs where
  "sample_files = sample_tree\<lparr>f_icache := [3 \<mapsto> sample_dir, 4 \<mapsto> sample_file]\<rparr>"

lemma sample_files_ok: "fs_inv sample_env sample_files" "f_icache sample_files 3 = Some sample_dir"
    "f_icache sample_files 4 = Some sample_file" "removable (f_cache sample_files) key"
    "dir_arg_ok (f_cache sample_files) (meta_key_of 3 [98]) (Some (dbt_bytes (meta_dbt sample_dir)))"
  using sample_env_ok(3) sample_creatable
  by (simp_all add: sample_files_def sample_tree_def removable_def creatable_def)
    (simp_all add: sample_fs_def lightfs_cache_create_def dir_arg_ok_def sample_dir_def new_inode_def meta_key_of_def)

lemma sample_file_simps: "i_nlink sample_file = 1" "lightfs_flags sample_file = 0" "i_size sample_file = 5000" "i_ino sample_file = 4"
    "meta_dbt sample_file = meta_dbt_of 3 [97]" "\<not> S_ISDIR (i_mode sample_file)"
  by (simp_all add: sample_file_def new_inode_def) code_simp

theorem unlink_deletes_witness:
  "\<exists>s1 s2 ts tb. lightfs_unlink sample_env sample_files 3 [97] 4 = Some (0, s1) \<and> lightfs_evict_inode sample_env s1 4 = Some s2
     \<and> f_hd s2 = queued (queued (f_hd sample_files) ts) [committed_txn (h_txn_id (queued (f_hd sample_files) ts)) [tb]]
     \<and> txn_del_blocks ts = [1, 2]"
proof -
  have "[1..<(5000 + 4095) div 4096 + 1] = [1, 2 :: nat]" by code_simp
  with unlink_deletes [OF sample_env_ok(1) sample_files_ok(1-3), of "[97]"] sample_files_ok(4) show ?thesis
    by (simp add: sample_file_simps) blast
qed

lemma del_dir_arg:
  assumes "lightfs_ht_cache_del crc hmin er c key is_dir = Some (r, c')" and "dir_arg_ok c k dk"
  shows "dir_arg_ok c' k dk"
proof -
  have "\<exists>pit'. hc_heap c p = Some pit' \<and> ci_key pit' = ci_key pit \<and> (ci_dcache pit = None \<longrightarrow> ci_dcache pit' = None)"
    if "hc_heap c' p = Some pit" for p pit
    using assms(1) that by (auto simp: lightfs_ht_cache_del_def lightfs_dcache_del_def upd_item_def Let_def
        split: option.splits if_splits bind_splits)
  with assms(2) show ?thesis by (fastforce simp: dir_arg_ok_def)
qed

lemma meta_del_dir_arg:
  assumes "lightfs_bstore_meta_del k db c t key False is_dir = Some (r, c', t')" and "dir_arg_ok c x dk"
  shows "dir_arg_ok c' x dk"
  using assms del_dir_arg [OF _ assms(2)] by (auto simp: lightfs_bstore_meta_del_def split: bind_splits)

text \<open>What a rename does with the inode it replaces.\<close>

definition replaced :: "inode \<Rightarrow> inode" where
  "replaced j = j\<lparr>i_nlink := i_nlink j - 1, i_dirty := True, lightfs_flags := lightfs_flags j OR LIGHTFS_FLAG_DELETED\<rparr>"

lemma rename_ok:
  assumes "env_ok e" and "fs_inv e s" and "f_icache s old = Some i" and "f_icache s new_dir = Some d" and "length name < 60000"
    and target: "target = (case new of None \<Rightarrow> None | Some n \<Rightarrow> f_icache s n)" "new \<noteq> None \<longrightarrow> target \<noteq> None" "new \<noteq> Some old"
    and "rename_check i target flags = 0" and old: "dbt_valid (meta_dbt i)" "unat (d_size (meta_dbt i)) < 65536"
    and "removable (f_cache s) (dbt_bytes (meta_dbt i))"
    and "dir_arg_ok (f_cache s) (meta_key_of (i_ino d) name) (Some (dbt_bytes (meta_dbt d)))"
    and meta: "length (e_meta e) = INODE_SIZE" "meta = lightfs_copy_metadata_from_inode e i"
  shows "\<exists>s' tb1 tb2. lightfs_rename e s old new_dir name new flags = Some (0, s') \<and> fs_inv e s'
     \<and> fs_abs e s' = (fs_abs e s)(dbt_bytes (meta_dbt i) := None, meta_key_of (i_ino d) name \<mapsto> (meta, False))
     \<and> f_icache s' = (case new of None \<Rightarrow> f_icache s | Some n \<Rightarrow> (f_icache s)(n := map_option replaced target))
           (old \<mapsto> i\<lparr>meta_dbt := meta_dbt_of (i_ino d) name\<rparr>)
     \<and> f_hd s' = queued (f_hd s) [committed_txn (h_txn_id (f_hd s)) [tb1, tb2]]
     \<and> wire_of (\<lambda>_. []) tb1 = Some (W_del 3 (dbt_bytes (meta_dbt i)))
     \<and> wire_of (\<lambda>_. []) tb2 = Some (W_meta_set (meta_key_of (i_ino d) name) 0 meta)"
proof -
  let ?key = "meta_dbt_of (i_ino d) name" and ?del = "(fs_abs e s)(dbt_bytes (meta_dbt i) := None)"
  have ok: "kern_ok (e_k e)" "memory_ok (k_km (e_k e))" using assms(1) by (simp_all add: env_ok_def kern_ok_def)
  obtain c1 tb1 where del: "lightfs_bstore_meta_del (e_k e) meta_db (f_cache s) lightfs_txn_init (meta_dbt i) False False =
        Some (0, c1, txn_add lightfs_txn_init tb1)" "cache_inv (k_crc (e_k e)) (k_hmin (e_k e)) c1"
      "cache_abs (k_crc (e_k e)) (k_hmin (e_k e)) c1 = ?del" "wire_of (\<lambda>_. []) tb1 = Some (W_del 3 (dbt_bytes (meta_dbt i)))"
    using meta_del_ok [OF ok(1) assms(2) old assms(12)] by blast
  have arg: "dir_arg_ok c1 (meta_key_of (i_ino d) name) (Some (dbt_bytes (meta_dbt d)))" by (rule meta_del_dir_arg [OF del(1) assms(13)])
  have len: "length meta = INODE_SIZE"
    using md_fill_read(1) [OF meta(1) refl] by (simp add: meta(2) lightfs_copy_metadata_from_inode_def)
  obtain c2 tb2 where put: "lightfs_bstore_meta_put (e_k e) meta_db c1 (txn_add lightfs_txn_init tb1) ?key meta (Some (meta_dbt d)) False =
        Some (0, c2, txn_add (txn_add lightfs_txn_init tb1) tb2)" "cache_inv (k_crc (e_k e)) (k_hmin (e_k e)) c2"
      "cache_abs (k_crc (e_k e)) (k_hmin (e_k e)) c2 = ?del(meta_key_of (i_ino d) name \<mapsto> (meta, False))"
      "wire_of (\<lambda>_. []) tb2 = Some (W_meta_set (meta_key_of (i_ino d) name) 0 meta)"
    using meta_put_ok [OF ok(1) del(2) _ _ len, of ?key "Some (meta_dbt d)" meta_db "txn_add lightfs_txn_init tb1" False]
      arg del(3) assms(5) by auto
  let ?s' = "s\<lparr>f_cache := c2, f_hd := queued (f_hd s) [committed_txn (h_txn_id (f_hd s)) [tb1, tb2]],
      f_icache := (case new of None \<Rightarrow> f_icache s | Some n \<Rightarrow> (f_icache s)(n := map_option replaced target))
         (old \<mapsto> i\<lparr>meta_dbt := ?key\<rparr>)\<rparr>"
  have "lightfs_rename e s old new_dir name new flags = Some (0, ?s')"
    using assms(3,4,9) target del(1) put(1)
    by (auto simp: lightfs_rename_def alloc_child [OF ok(2)] meta(2) [symmetric] commit_two upd_inode_def mark_inode_dirty_def
        drop_nlink_def replaced_def fun_upd_twist Let_def split: option.splits)
  with del(4) put(2-4) show ?thesis by (intro exI [of _ ?s'] exI [of _ tb1] exI [of _ tb2]) simp
qed

text \<open>
  Property C2: a rename moves the file in one transaction.  With or without an inode to
  replace, \<open>lightfs_rename\<close> takes the old name out of the cache and enters the new one with
  the metadata of the inode; the inode gets the key of its new name, and a lookup of that
  name finds it.  The log gets one transaction with exactly two requests, the deletion of
  the old key and the setting of the new one, in this order.
\<close>

theorem rename_moves:
  assumes "env_ok e" and "fs_inv e s" and "f_icache s old = Some i" and "f_icache s new_dir = Some d" and "length name < 60000"
    and "target = (case new of None \<Rightarrow> None | Some n \<Rightarrow> f_icache s n)" and "new \<noteq> None \<longrightarrow> target \<noteq> None" and "new \<noteq> Some old"
    and "rename_check i target flags = 0" and "dbt_valid (meta_dbt i)" and "unat (d_size (meta_dbt i)) < 65536"
    and "removable (f_cache s) (dbt_bytes (meta_dbt i))"
    and "dir_arg_ok (f_cache s) (meta_key_of (i_ino d) name) (Some (dbt_bytes (meta_dbt d)))"
    and "e_iget_ok e" and "i_ino i = old" and "new_dir \<noteq> old" and "new \<noteq> Some new_dir" and "e_dev e (meta_key_of (i_ino d) name) = []"
  shows "\<exists>s1 s2 tb1 tb2. lightfs_rename e s old new_dir name new flags = Some (0, s1) \<and> fs_inv e s1
     \<and> fs_abs e s1 = (fs_abs e s)(dbt_bytes (meta_dbt i) := None,
                                 meta_key_of (i_ino d) name \<mapsto> (lightfs_copy_metadata_from_inode e i, False))
     \<and> f_icache s1 old = Some (i\<lparr>meta_dbt := meta_dbt_of (i_ino d) name\<rparr>)
     \<and> lightfs_lookup e s1 new_dir name = Some (Found old, s2)
     \<and> f_hd s1 = queued (f_hd s) [committed_txn (h_txn_id (f_hd s)) [tb1, tb2]]
     \<and> wire_of (\<lambda>_. []) tb1 = Some (W_del 3 (dbt_bytes (meta_dbt i)))
     \<and> wire_of (\<lambda>_. []) tb2 = Some (W_meta_set (meta_key_of (i_ino d) name) 0 (lightfs_copy_metadata_from_inode e i))"
proof -
  let ?meta = "lightfs_copy_metadata_from_inode e i" and ?key = "meta_key_of (i_ino d) name"
  have len: "length (e_meta e) = INODE_SIZE" using assms(1) by (simp add: env_ok_def)
  from rename_ok [OF assms(1-13) len refl] obtain s1 tb1 tb2 where
    s1: "lightfs_rename e s old new_dir name new flags = Some (0, s1)" "fs_inv e s1"
      "fs_abs e s1 = (fs_abs e s)(dbt_bytes (meta_dbt i) := None, ?key \<mapsto> (?meta, False))"
      "f_icache s1 = (case new of None \<Rightarrow> f_icache s | Some n \<Rightarrow> (f_icache s)(n := map_option replaced target))
           (old \<mapsto> i\<lparr>meta_dbt := meta_dbt_of (i_ino d) name\<rparr>)"
      "f_hd s1 = queued (f_hd s) [committed_txn (h_txn_id (f_hd s)) [tb1, tb2]]"
      "wire_of (\<lambda>_. []) tb1 = Some (W_del 3 (dbt_bytes (meta_dbt i)))" "wire_of (\<lambda>_. []) tb2 = Some (W_meta_set ?key 0 ?meta)"
    by blast
  have rd: "md_st_ino ?meta = old" "md_type ?meta = LIGHTFS_METADATA_TYPE_NORMAL"
    using md_fill_read [OF len refl] assms(15) by (simp_all add: lightfs_copy_metadata_from_inode_def)
  have "f_icache s1 new_dir = Some d" using s1(4) assms(4,16,17) by (auto split: option.splits)
  moreover have i: "f_icache s1 old = Some (i\<lparr>meta_dbt := meta_dbt_of (i_ino d) name\<rparr>)" using s1(4) by simp
  ultimately obtain s2 where "lightfs_lookup e s1 new_dir name = Some (Found old, s2)"
    using lookup_cached [OF assms(1,14) s1(2) _ assms(5), of new_dir d ?meta] s1(3) rd assms(18) by auto
  with s1 i show ?thesis by blast
qed

theorem rename_moves_witness:
  "\<exists>s1 s2. lightfs_rename sample_env sample_files 4 3 [98] None 0 = Some (0, s1)
     \<and> fs_abs sample_env s1 (meta_key_of 3 [97]) = None \<and> lightfs_lookup sample_env s1 3 [98] = Some (Found 4, s2)"
proof -
  have "i_ino sample_dir = 3" by (simp add: sample_dir_def new_inode_def)
  moreover have "meta_key_of 3 [97] \<noteq> meta_key_of 3 [98]" by (simp add: meta_key_of_def)
  moreover have "e_dev sample_env k = []" for k by (simp add: sample_env_def)
  moreover have "rename_check sample_file None 0 = 0" by (simp add: rename_check_def)
  ultimately show ?thesis
    using rename_moves [OF sample_env_ok(1) sample_files_ok(1,3,2), of "[98]" None None 0] sample_files_ok(4,5) sample_env_ok(2)
    by (auto simp: sample_file_simps)
qed

lemma lookup_evicted:
  assumes "env_ok e" and "e_iget_ok e" and "fs_inv e s" and "f_icache s dir = Some d" and "length name < 60000"
    and "e_dev e (meta_key_of (i_ino d) name) = meta" and "length meta = INODE_SIZE"
    and "fs_abs e s (meta_key_of (i_ino d) name) = Some (v, True)" and "md_type meta = LIGHTFS_METADATA_TYPE_NORMAL"
    and "f_icache s (md_st_ino meta) = None" and "inode_ops_of (ucast (md_st_mode meta)) = Some ops"
  shows "\<exists>s'. lightfs_lookup e s dir name = Some (Found (md_st_ino meta), s')"
proof -
  let ?key = "meta_key_of (i_ino d) name" and ?dbt = "meta_dbt_of (i_ino d) name"
  have mem: "memory_ok (k_km (e_k e))" using assms(1) by (simp add: env_ok_def kern_ok_def)
  have ne: "meta \<noteq> []" using assms(7) by (auto simp: INODE_SIZE_def)
  then obtain c' where
    get: "lightfs_bstore_meta_get (e_k e) (e_dev e) (f_cache s) ?dbt (e_meta e) = Some (0, meta, c')"
    using lookup_get [OF assms(1,3,5), of "i_ino d"] assms(6-8) by auto
  have codes: "- ENOENT \<noteq> 0" "LIGHTFS_METADATA_TYPE_NORMAL \<noteq> LIGHTFS_METADATA_TYPE_REDIRECT"
    by (simp_all add: errno_defs LIGHTFS_METADATA_TYPE_NORMAL_def LIGHTFS_METADATA_TYPE_REDIRECT_def)
  show ?thesis using get codes assms(2,4,9-11)
    by (simp add: lightfs_lookup_def lookup_inode_def alloc_child [OF mem] begin_read d_splice_alias_def lightfs_setup_inode_def Let_def)
qed

text \<open>
  Property C14: a rename onto an existing file can bring the replaced file back.  The replaced
  inode is flagged as deleted but keeps its key, which is now the key of the moved file.
  When it is evicted, it is the metadata of the moved file that is marked as evicted; as
  long as the device still holds the old metadata under this key, a lookup of the name
  reads it and returns the inode that was replaced.
\<close>

theorem replaced_comes_back:
  assumes "env_ok e" and "e_iget_ok e" and "fs_inv e s" and "f_icache s old = Some i" and "f_icache s new_dir = Some d"
    and "f_icache s n = Some j" and "distinct [old, new_dir, n]" and "length name < 60000"
    and "\<not> S_ISDIR (i_mode i)" and "\<not> S_ISDIR (i_mode j)" and "meta_dbt j = meta_dbt_of (i_ino d) name"
    and "dbt_valid (meta_dbt i)" and "unat (d_size (meta_dbt i)) < 65536" and "removable (f_cache s) (dbt_bytes (meta_dbt i))"
    and "dir_arg_ok (f_cache s) (meta_key_of (i_ino d) name) (Some (dbt_bytes (meta_dbt d)))"
    and "e_dev e (meta_key_of (i_ino d) name) = meta" and "length meta = INODE_SIZE" and "md_st_ino meta = n"
    and "md_type meta = LIGHTFS_METADATA_TYPE_NORMAL" and "inode_ops_of (ucast (md_st_mode meta)) = Some ops"
  shows "\<exists>s1 s2 s3. lightfs_rename e s old new_dir name (Some n) 0 = Some (0, s1)
     \<and> fs_abs e s1 (meta_key_of (i_ino d) name) = Some (lightfs_copy_metadata_from_inode e i, False)
     \<and> lightfs_evict_inode e s1 n = Some s2 \<and> lightfs_lookup e s2 new_dir name = Some (Found n, s3)"
proof -
  let ?meta = "lightfs_copy_metadata_from_inode e i" and ?key = "meta_key_of (i_ino d) name"
  have len: "length (e_meta e) = INODE_SIZE" using assms(1) by (simp add: env_ok_def)
  have "rename_check i (Some j) 0 = 0" using assms(9,10) by (simp add: rename_check_def)
  with rename_ok [OF assms(1,3-5,8) refl _ _ _ assms(12-15) len refl, of "Some n" 0] assms(6,7) obtain s1 where
    s1: "lightfs_rename e s old new_dir name (Some n) 0 = Some (0, s1)" "fs_inv e s1"
      "fs_abs e s1 = (fs_abs e s)(dbt_bytes (meta_dbt i) := None, ?key \<mapsto> (?meta, False))"
      "f_icache s1 = (f_icache s)(n \<mapsto> replaced j, old \<mapsto> i\<lparr>meta_dbt := meta_dbt_of (i_ino d) name\<rparr>)"
    by auto
  have "(lightfs_flags j OR 1) AND 1 = 1" by (rule bit_word_eqI) (auto simp: bit_simps)
  then have r: "f_icache s1 n = Some (replaced j)"
      "i_nlink (replaced j) \<noteq> 0 \<or> lightfs_flags (replaced j) AND LIGHTFS_FLAG_DELETED \<noteq> 0"
      "dbt_bytes (meta_dbt (replaced j)) = ?key"
    using s1(4) assms(7,8,11) by (auto simp: replaced_def LIGHTFS_FLAG_DELETED_def)
  with assms(8) evict_linked [OF s1(2) r(1,2)] obtain s2 where
    s2: "lightfs_evict_inode e s1 n = Some s2" "fs_inv e s2" "f_icache s2 = (f_icache s1)(n := None)"
      "fs_abs e s2 = (fs_abs e s1)(?key := map_option (\<lambda>(v, _). (v, True)) (fs_abs e s1 ?key))"
    by auto
  have "f_icache s2 new_dir = Some d" "f_icache s2 (md_st_ino meta) = None" "fs_abs e s2 ?key = Some (?meta, True)"
    using s2(3,4) s1(3,4) assms(5,7,18) by auto
  from lookup_evicted [OF assms(1,2) s2(2) this(1) assms(8,16,17) this(3) assms(19) this(2) assms(20)] assms(18)
  have "\<exists>s3. lightfs_lookup e s2 new_dir name = Some (Found n, s3)" by simp
  with s1 s2(1) show ?thesis by fastforce
qed

text \<open>A second file, whose metadata is on the device.\<close>

definition sample_file2 :: inode where
  "sample_file2 = new_inode sample_env 5 (S_IFREG OR 420) 0 File_ops (meta_dbt_of 3 [98])"

definition sample_env2 :: env where
  "sample_env2 = sample_env\<lparr>e_dev := (\<lambda>k. if k = meta_key_of 3 [98] then lightfs_copy_metadata_from_inode sample_env sample_file2 else [])\<rparr>"

theorem replaced_comes_back_witness:
  "\<exists>s1 s2 s3. lightfs_rename sample_env2 (sample_files\<lparr>f_icache := (f_icache sample_files)(5 \<mapsto> sample_file2)\<rparr>) 4 3 [98] (Some 5) 0 = Some (0, s1)
     \<and> lightfs_evict_inode sample_env2 s1 5 = Some s2 \<and> lightfs_lookup sample_env2 s2 3 [98] = Some (Found 5, s3)"
proof -
  let ?s = "sample_files\<lparr>f_icache := (f_icache sample_files)(5 \<mapsto> sample_file2)\<rparr>"
  let ?m = "lightfs_copy_metadata_from_inode sample_env sample_file2"
  have len: "length (e_meta sample_env) = INODE_SIZE" using sample_env_ok(1) by (simp add: env_ok_def)
  have m: "length ?m = INODE_SIZE" "md_st_ino ?m = 5" "md_type ?m = LIGHTFS_METADATA_TYPE_NORMAL" "ucast (md_st_mode ?m) = i_mode sample_file2"
    using md_fill_read [OF len refl]
    by (simp_all add: lightfs_copy_metadata_from_inode_def sample_file2_def new_inode_def) (auto intro!: bit_word_eqI simp: bit_simps)
  have ops: "inode_ops_of (i_mode sample_file2) = Some File_ops" "\<not> S_ISDIR (i_mode sample_file2)"
    unfolding sample_file2_def new_inode_def by (simp_all only: inode.simps) code_simp+
  have env: "env_ok sample_env2" "e_iget_ok sample_env2" "fs_inv sample_env2 ?s" "e_dev sample_env2 (meta_key_of 3 [98]) = ?m"
    using sample_env_ok(1,2) sample_files_ok(1) by (simp_all add: sample_env2_def env_ok_def)
  have f: "f_icache ?s 4 = Some sample_file" "f_icache ?s 3 = Some sample_dir" "f_icache ?s 5 = Some sample_file2"
    using sample_files_ok by simp_all
  have "i_ino sample_dir = 3" "meta_dbt sample_file2 = meta_dbt_of 3 [98]" by (simp_all add: sample_dir_def sample_file2_def new_inode_def)
  with replaced_comes_back [OF env(1-3) f, of "[98]" ?m File_ops] m ops env(4) sample_files_ok(4,5) show ?thesis
    by (auto simp: sample_file_simps)
qed

end
