(* ===== verification/Kevin_Reada_Thms.thy ===== *)
theory Kevin_Reada_Thms
  imports Kevin_Reada Kevin_Super_Thms
begin

text \<open>
  Theorems about reading pages and read-ahead: what a read without buffered data fills in,
  what a hit in a read-ahead buffer copies, the state of the entries, and what becomes of
  the tag of a read-ahead.
\<close>

section \<open>Vectors of pages\<close>

lemma setup_loop_all:
  assumes "\<And>p. added p" and "length ps = n" and "unat (lio_vcnt lio) + n \<le> unat (lio_max_vecs lio)"
  shows "setup_loop added n ps lio = Some (lio\<lparr>lio_vec := lio_vec lio @ rev ps, lio_vcnt := lio_vcnt lio + of_nat n\<rparr>)"
  using assms(2,3)
proof (induction n arbitrary: ps lio)
  case 0
  then show ?case by simp
next
  case (Suc n)
  then obtain qs q where ps: "ps = qs @ [q]" "length qs = n" by (metis length_Suc_conv_rev)
  have less: "lio_vcnt lio < lio_max_vecs lio" using Suc.prems(2) by (simp add: word_less_nat_alt)
  have m: "unat (lio_max_vecs lio) < 65536" using unsigned_less [of "lio_max_vecs lio", where ?'a = nat] by simp
  have "unat (lio_vcnt lio + 1) = unat (lio_vcnt lio) + 1" using Suc.prems(2) m by (simp add: unat_word_ariths)
  with Suc.prems(2) have "unat (lio_vcnt (lio\<lparr>lio_vec := lio_vec lio @ [q], lio_vcnt := lio_vcnt lio + 1\<rparr>)) + n
      \<le> unat (lio_max_vecs (lio\<lparr>lio_vec := lio_vec lio @ [q], lio_vcnt := lio_vcnt lio + 1\<rparr>))" by simp
  from Suc.IH [OF ps(2) this] less show ?case
    by (simp add: ps(1) assms(1) lightfs_io_add_page_def bug_on_def not_le add.assoc)
qed

lemma setup_all:
  assumes "\<And>p. added p" and "rev (srt (lightfs_page_cmp fr) ps) = vs" and "length vs = n" and "n < 65536"
    and "lightfs_io_alloc False n = Some lio"
  shows "lightfs_io_setup srt added fr lio ps n =
           Some \<lparr>lio_max_vecs = of_nat n, lio_vcnt = of_nat n, lio_bvidx = 0, lio_vec = vs\<rparr>"
proof -
  have "length (srt (lightfs_page_cmp fr) ps) = n" using assms(2,3) by auto
  from setup_loop_all [OF assms(1) this, of lio] assms(2,4,5) show ?thesis
    by (auto simp: lightfs_io_setup_def lightfs_io_alloc_def unat_of_nat take_bit_nat_eq_self)
qed

lemma on_pages_eq:
  assumes "distinct (lio_vec lio)" and "length (lio_vec lio) = unat (lio_vcnt lio)"
  shows "on_pages f fr lio = Some (\<lambda>p. if p \<in> set (lio_vec lio) then f (fr p) else fr p)"
proof -
  let ?g = "\<lambda>fr i. do { p \<leftarrow> vec_at lio i; Some (fr(p := f (fr p))) }"
  have "foldM ?g fr [0..<n] = Some (\<lambda>p. if p \<in> set (take n (lio_vec lio)) then f (fr p) else fr p)"
    if "n \<le> length (lio_vec lio)" for n
    using that
  proof (induction n)
    case 0
    then show ?case by simp
  next
    case (Suc n)
    have new: "lio_vec lio ! n \<notin> set (take n (lio_vec lio))"
      using assms(1) Suc.prems by (metis Suc_le_eq distinct_take id_take_nth_drop distinct_append not_distinct_conv_prefix
          take_Suc_conv_app_nth)
    note ih = Suc.IH [OF Suc_leD [OF Suc.prems]]
    with Suc.prems new show ?case
      by (auto simp: foldM_append vec_at_def take_Suc_conv_app_nth)
  qed
  from this [of "length (lio_vec lio)"] assms(2) show ?thesis by (simp add: on_pages_def)
qed

definition shown :: "page \<Rightarrow> page" where
  "shown p = p\<lparr>pg_uptodate := True, pg_locked := False\<rparr>"

lemma show_pages:
  assumes "distinct (lio_vec lio)" and "length (lio_vec lio) = unat (lio_vcnt lio)"
  shows "do { fr \<leftarrow> lightfs_io_set_pages_uptodate fr lio; lightfs_io_unlock_pages fr lio } =
           Some (\<lambda>p. if p \<in> set (lio_vec lio) then shown (fr p) else fr p)"
  using on_pages_eq [OF assms]
  by (auto simp: lightfs_io_set_pages_uptodate_def lightfs_io_unlock_pages_def shown_def)

section \<open>Copying from the buffer\<close>

lemma reada_copy_ok:
  assumes "distinct (lio_vec lio)" and "length (lio_vec lio) = unat (lio_vcnt lio)" and "unat (lio_bvidx lio) = b"
    and "b + n \<le> length (lio_vec lio)" and "\<forall>p \<in> set (lio_vec lio). length (pg_data (fr p)) = PAGE_SIZE"
    and "n = 0 \<or> idx + n + PAGE_SIZE \<le> length buf + 1"
  shows "\<exists>fr'. reada_copy n idx buf fr lio = Some (fr', lio\<lparr>lio_bvidx := lio_bvidx lio + of_nat n\<rparr>)
           \<and> (\<forall>j < n. fr' (lio_vec lio ! (b + j)) = (fr (lio_vec lio ! (b + j)))\<lparr>pg_data := get_at (idx + j) PAGE_SIZE buf\<rparr>)
           \<and> (\<forall>p. p \<notin> set (take n (drop b (lio_vec lio))) \<longrightarrow> fr' p = fr p)"
  using assms
proof (induction n arbitrary: idx fr lio b)
  case 0
  then show ?case by simp
next
  case (Suc n)
  define p where "p = lio_vec lio ! b"
  define lio1 where "lio1 = lio\<lparr>lio_bvidx := lio_bvidx lio + 1\<rparr>"
  define fr1 where "fr1 = fr(p := (fr p)\<lparr>pg_data := get_at idx PAGE_SIZE buf\<rparr>)"
  have b: "b < length (lio_vec lio)" "p \<in> set (lio_vec lio)" using Suc.prems(4) by (simp_all add: p_def)
  have lt: "\<not> lio_vcnt lio \<le> lio_bvidx lio" using Suc.prems(2,3) b(1) by (simp add: word_le_nat_alt)
  have nx: "unat (lio_bvidx lio + 1) = b + 1"
    using unsigned_less [of "lio_vcnt lio", where ?'a = nat] Suc.prems(2,3) b(1) by (simp add: unat_word_ariths)
  have wr: "page_write fr p 0 (get_at idx PAGE_SIZE buf) = Some fr1"
    using Suc.prems(5,6) b(2) by (simp add: page_write_def fr1_def put_at_def poke_def get_at_def)
  have step: "reada_copy (Suc n) idx buf fr lio = reada_copy n (idx + 1) buf fr1 lio1"
    using b(1) Suc.prems(3,6) wr
    by (simp add: lt lightfs_io_current_page_def lightfs_io_advance_page_def vec_at_def lio1_def p_def)
  have "\<forall>p \<in> set (lio_vec lio1). length (pg_data (fr1 p)) = PAGE_SIZE"
    using Suc.prems(5,6) by (simp add: lio1_def fr1_def get_at_def)
  then obtain fr' where fr': "reada_copy n (idx + 1) buf fr1 lio1 = Some (fr', lio1\<lparr>lio_bvidx := lio_bvidx lio1 + of_nat n\<rparr>)"
      "\<forall>j < n. fr' (lio_vec lio ! (b + 1 + j)) = (fr1 (lio_vec lio ! (b + 1 + j)))\<lparr>pg_data := get_at (idx + 1 + j) PAGE_SIZE buf\<rparr>"
      "\<forall>q. q \<notin> set (take n (drop (b + 1) (lio_vec lio))) \<longrightarrow> fr' q = fr1 q"
    using Suc.IH [of lio1 "b + 1" fr1 "idx + 1"] Suc.prems(1,2,4,6) nx by (fastforce simp: lio1_def)
  have dr: "drop b (lio_vec lio) = p # drop (b + 1) (lio_vec lio)" using b(1) by (simp add: Cons_nth_drop_Suc p_def)
  have new: "p \<notin> set (drop (b + 1) (lio_vec lio))" using Suc.prems(1) dr by (metis distinct.simps(2) distinct_drop)
  have other: "lio_vec lio ! (b + 1 + j) \<noteq> p" if "j < n" for j
    using Suc.prems(1,4) that by (simp add: p_def nth_eq_iff_index_eq)
  have "fr' (lio_vec lio ! (b + j)) = (fr (lio_vec lio ! (b + j)))\<lparr>pg_data := get_at (idx + j) PAGE_SIZE buf\<rparr>" if "j < Suc n" for j
  proof (cases j)
    case 0
    have "p \<notin> set (take n (drop (b + 1) (lio_vec lio)))" using new by (meson in_set_takeD)
    with fr'(3) 0 show ?thesis by (simp add: fr1_def p_def)
  next
    case (Suc i)
    with fr'(2) other [of i] that show ?thesis by (simp add: fr1_def)
  qed
  moreover have "fr' q = fr q" if "q \<notin> set (take (Suc n) (drop b (lio_vec lio)))" for q
    using fr'(3) that dr by (simp add: fr1_def)
  ultimately show ?case using step fr'(1) by (auto simp: lio1_def add.assoc)
qed

text \<open>An entry that covers blocks \<open>from\<close> to \<open>from + len\<close> and has been answered.\<close>

definition answered :: "io \<Rightarrow> reada \<Rightarrow> nat \<Rightarrow> nat \<Rightarrow> nat \<Rightarrow> byte list \<Rightarrow> bool" where
  "answered st ra a from len buf \<longleftrightarrow>
     (\<exists>e tag. ra_mem ra a = Some e \<and> re_state e = READA_FULL \<and> unat (re_start e) = from \<and> unat (re_len e) = len
        \<and> re_buf e = Some tag \<and> io_bufs st tag = buf \<and> is_done st a)"

lemma unat_add_ucast:
  fixes b :: u64 and n :: u32
  assumes "unat b + unat n < 2 ^ 64"
  shows "unat (b + ucast n) = unat b + unat n"
proof -
  have "unat n < 2 ^ 64" using unsigned_less [of n, where ?'a = nat] by simp
  then have "unat (ucast n :: u64) = unat n" by (simp add: unsigned_ucast_eq take_bit_nat_eq_self)
  with assms show ?thesis by (simp add: unat_word_ariths)
qed

lemma buffer_get_hit:
  assumes "ra_entry ra \<noteq> None" and "answered st ra a from len buf" and "run_of_pages fr lio b" and "lio_vcnt lio = ucast nr"
    and "unat nr < 65536" and "64 \<le> unat nr" and "from \<le> unat b" and "unat b < from + len" and "from + len + unat nr < 2 ^ 64"
    and h: "h = min (unat nr) (from + len - unat b)" and "unat b - from + h + PAGE_SIZE \<le> length buf + 1"
  shows "\<exists>fr'. lightfs_reada_buffer_get a st ra fr lio nr = Done (of_nat h, fr', lio\<lparr>lio_bvidx := of_nat h\<rparr>)
           \<and> (\<forall>j < h. fr' (lio_vec lio ! j) = (fr (lio_vec lio ! j))\<lparr>pg_data := get_at (unat b - from + j) PAGE_SIZE buf\<rparr>)
           \<and> (\<forall>p. p \<notin> set (take h (lio_vec lio)) \<longrightarrow> fr' p = fr p)"
proof -
  from assms(2) obtain e tag where e: "ra_mem ra a = Some e" "re_state e = READA_FULL" "unat (re_start e) = from"
      "unat (re_len e) = len" "re_buf e = Some tag" "io_bufs st tag = buf" "is_done st a" by (auto simp: answered_def)
  have vec: "distinct (lio_vec lio)" "length (lio_vec lio) = unat (lio_vcnt lio)" "lio_bvidx lio = 0"
      "\<forall>p \<in> set (lio_vec lio). length (pg_data (fr p)) = PAGE_SIZE"
    using assms(3) by (auto simp: run_of_pages_def in_set_conv_nth)
  have cnt: "unat (lio_vcnt lio) = unat nr"
    using assms(4,5) by (simp add: unsigned_ucast_eq take_bit_nat_eq_self)
  have pos: "0 < length (lio_vec lio)" using vec(2) cnt assms(6) by simp
  then have cur: "lightfs_io_current_page lio = Some (lio_vec lio ! 0)" "PAGE_TO_BLOCK_NUM (fr (lio_vec lio ! 0)) = b"
    using assms(3) by (auto simp: lightfs_io_current_page_def vec_at_def bug_on_def run_of_pages_def not_le word_le_nat_alt unat_gt_0)
  have ends: "unat (re_start e + ucast (re_len e)) = from + len" "unat (b + ucast nr) = unat b + unat nr"
    using unat_add_ucast [of "re_start e" "re_len e"] unat_add_ucast [of b nr] e(3,4) assms(8,9) by simp_all
  have cmp: "re_start e \<le> b" "b < re_start e + ucast (re_len e)"
      "b + ucast nr \<le> re_start e + ucast (re_len e) \<longleftrightarrow> unat b + unat nr \<le> from + len"
    using e(3) assms(7,8) ends by (simp_all add: word_le_nat_alt word_less_nat_alt)
  have idx: "unat (b - re_start e) = unat b - from" using cmp(1) e(3) by (simp add: unat_sub)
  have n: "unat (lio_vcnt lio) - unat (lio_bvidx lio) = h" if "unat b + unat nr \<le> from + len"
    using that cnt vec(3) h by simp
  have n': "unat (re_len e) - (unat b - from) = h" if "\<not> unat b + unat nr \<le> from + len"
    using that e(4) h assms(7,8) by simp
  obtain y where y: "ra_entry ra = Some y" using assms(1) by blast
  have small: "\<not> nr < READA_THRESHOLD" using assms(6) by (simp add: READA_THRESHOLD_def word_less_nat_alt)
  have state: "re_state e AND READA_EMPTY = 0" using e(2) by (simp add: READA_FULL_def READA_EMPTY_def)
  have le: "0 + h \<le> length (lio_vec lio)" using h vec(2) cnt by simp
  from reada_copy_ok [OF vec(1,2) _ le vec(4), of "unat b - from" buf] vec(3) assms(11) obtain fr' where
    "reada_copy h (unat b - from) buf fr lio = Some (fr', lio\<lparr>lio_bvidx := of_nat h\<rparr>)"
    "\<forall>j < h. fr' (lio_vec lio ! j) = (fr (lio_vec lio ! j))\<lparr>pg_data := get_at (unat b - from + j) PAGE_SIZE buf\<rparr>"
    "\<forall>p. p \<notin> set (take h (lio_vec lio)) \<longrightarrow> fr' p = fr p" by auto
  moreover from this(1) have "lightfs_reada_buffer_get a st ra fr lio nr = Done (of_nat h, fr', lio\<lparr>lio_bvidx := of_nat h\<rparr>)"
    using e(1,5-7) n n' by (simp add: lightfs_reada_buffer_get_def y small state cur cmp idx Let_def)
  ultimately show ?thesis by blast
qed

section \<open>Reading pages\<close>

definition vec_of :: "nat \<Rightarrow> nat list \<Rightarrow> lightfs_io" where
  "vec_of n vs = \<lparr>lio_max_vecs = of_nat n, lio_vcnt = of_nat n, lio_bvidx = 0, lio_vec = vs\<rparr>"

text \<open>A request for the pages \<open>vs\<close>, which follow each other from block \<open>b\<close> and are all new in the page cache.\<close>

definition requested :: "rd_ctx \<Rightarrow> frames \<Rightarrow> nat list \<Rightarrow> u32 \<Rightarrow> nat list \<Rightarrow> u64 \<Rightarrow> bool" where
  "requested x fr pages nr vs b \<longleftrightarrow>
     \<not> rc_io_failed x \<and> (\<forall>p. rc_added x p) \<and> rev (rc_sort x (lightfs_page_cmp fr) pages) = vs
   \<and> length vs = unat nr \<and> unat nr < 9999 \<and> run_of_pages fr (vec_of (unat nr) vs) b"

lemma requestedD:
  assumes "requested x fr pages nr vs b"
  shows "run_of_pages fr (vec_of (unat nr) vs) b" "lio_vcnt (vec_of (unat nr) vs) = ucast nr" "unat nr < 65536" "unat nr < 9999"
    "nr \<noteq> 0" "length vs = unat nr" "distinct vs" "lightfs_io_first_page (vec_of (unat nr) vs) = Some (vs ! 0)"
    "PAGE_TO_BLOCK_NUM (fr (vs ! 0)) = b"
proof -
  from assms show "run_of_pages fr (vec_of (unat nr) vs) b" "unat nr < 65536" "unat nr < 9999" "length vs = unat nr"
    "lio_vcnt (vec_of (unat nr) vs) = ucast nr" "distinct vs" by (simp_all add: requested_def vec_of_def run_of_pages_def)
  from assms show "nr \<noteq> 0" by (auto simp: requested_def vec_of_def run_of_pages_def)
  with \<open>length vs = unat nr\<close> have "0 < length vs" by (simp add: unat_gt_0)
  with assms show "lightfs_io_first_page (vec_of (unat nr) vs) = Some (vs ! 0)" "PAGE_TO_BLOCK_NUM (fr (vs ! 0)) = b"
    by (auto simp: requested_def vec_of_def run_of_pages_def lightfs_io_first_page_def vec_at_def)
qed

lemma readpages_eq:
  assumes "f_icache s ino = Some i" and "requested x fr pages nr vs b"
  shows "lightfs_readpages e x s st ra ino fr pages nr =
     res_bind (readpages_buffered st ra fr (vec_of (unat nr) vs) nr) (\<lambda>(fg_read, ret, st, ra, fr, lio).
     res_bind (readpages_read e x fg_read (sint ret) s i fr lio) (\<lambda>(ret, s, fr, lio).
     res_bind (readpages_ahead e x fg_read i nr ret s st ra fr lio) (\<lambda>(ret, s, st, ra).
       if ret \<noteq> 0 then Fault else Done (ret, s, st, ra, fr))))"
proof -
  obtain lio where lio: "lightfs_io_alloc False (unat nr) = Some lio" by (simp add: lightfs_io_alloc_def)
  have "lightfs_io_setup (rc_sort x) (rc_added x) fr lio pages (unat nr) = Some (vec_of (unat nr) vs)"
    using setup_all [of "rc_added x" "rc_sort x" fr pages vs "unat nr" lio] assms(2) lio
    by (simp add: requested_def vec_of_def)
  with assms lio show ?thesis by (simp add: lightfs_readpages_def requested_def)
qed

lemma need_same:
  assumes "requested x fr pages nr vs b" and "fr' (vs ! 0) = (fr (vs ! 0))\<lparr>pg_data := d, pg_uptodate := u, pg_locked := l\<rparr>"
    and "lio_vec lio = vs"
  shows "lightfs_io_first_page lio = Some (vs ! 0)" "PAGE_TO_BLOCK_NUM (fr' (vs ! 0)) = b"
proof -
  have "0 < length vs" using requestedD(5,6) [OF assms(1)] by (simp add: unat_gt_0)
  then show "lightfs_io_first_page lio = Some (vs ! 0)" using assms(3) by (simp add: lightfs_io_first_page_def vec_at_def)
  show "PAGE_TO_BLOCK_NUM (fr' (vs ! 0)) = b" using requestedD(9) [OF assms(1)] assms(2) by (simp add: PAGE_TO_BLOCK_NUM_def)
qed

abbreviation show_in :: "nat list \<Rightarrow> frames \<Rightarrow> frames" where
  "show_in vs fr \<equiv> (\<lambda>p. if p \<in> set vs then shown (fr p) else fr p)"

abbreviation next_txn :: "fs \<Rightarrow> fs" where
  "next_txn s \<equiv> s\<lparr>f_hd := (f_hd s)\<lparr>h_txn_id := h_txn_id (f_hd s) + 1\<rparr>\<rparr>"

lemma read_buffered:
  assumes "distinct (lio_vec lio)" and "length (lio_vec lio) = unat (lio_vcnt lio)"
  shows "readpages_read e x False ret s i fr lio = Done (ret, s, show_in (lio_vec lio) fr, lio)"
  using show_pages [OF assms] by (simp add: readpages_read_def)

lemma read_foreground:
  assumes "lightfs_bstore_scan_pages (e_k e) (e_dev e) (rc_fuel x) (rc_continue x) (i_ino i) (i_size i) fr lio = Done (0, fr', lio')"
    and "distinct (lio_vec lio')" and "length (lio_vec lio') = unat (lio_vcnt lio')"
  shows "readpages_read e x True ret s i fr lio = Done (0, next_txn s, show_in (lio_vec lio') fr', lio')"
  using show_pages [OF assms(2,3)] assms(1) by (simp add: readpages_read_def begin_read)

lemma readpages_ok:
  assumes "f_icache s ino = Some i" and "requested x fr pages nr vs b" and "ra_list ra = []"
    and "unat nr < 64 \<or> b \<noteq> last_block_start ra + ucast (last_block_len ra)"
    and "memory_ok (k_km (e_k e))" and "0 < rc_fuel x"
    and "unat b + unat nr \<le> (unat (i_size i) + 4095) div 4096 + 1"
    and "length (e_dev e (data_key_of (i_ino i) b)) = unat nr * PAGE_SIZE"
  shows "\<exists>ra' fr'. lightfs_readpages e x s st ra ino fr pages nr = Done (0, next_txn s, st, ra', fr')
           \<and> (\<forall>j < unat nr. fr' (vs ! j) = shown ((fr (vs ! j))
                \<lparr>pg_data := if rc_continue x
                             then page_image (i_size i) (b + of_nat j) (get_at (j * PAGE_SIZE) PAGE_SIZE (e_dev e (data_key_of (i_ino i) b)))
                             else replicate PAGE_SIZE 0\<rparr>))
           \<and> (\<forall>p. p \<notin> set vs \<longrightarrow> fr' p = fr p)"
proof -
  note rq = requestedD [OF assms(2)]
  let ?lio = "vec_of (unat nr) vs"
  obtain n where n: "rc_fuel x = Suc n" using assms(6) by (cases "rc_fuel x") auto
  have vs: "lio_vec ?lio = vs" "length vs = unat (lio_vcnt ?lio)"
    using rq(1,6) by (simp_all add: vec_of_def run_of_pages_def)
  have size: "unat b + length (lio_vec ?lio) \<le> (unat (i_size i) + 4095) div 4096 + 1" using assms(7) rq(6) vs(1) by simp
  let ?img = "\<lambda>j. if rc_continue x then page_image (i_size i) (b + of_nat j) (get_at (j * PAGE_SIZE) PAGE_SIZE (e_dev e (data_key_of (i_ino i) b)))
                 else replicate PAGE_SIZE 0"
  have "\<exists>fr'. lightfs_bstore_scan_pages (e_k e) (e_dev e) (rc_fuel x) (rc_continue x) (i_ino i) (i_size i) fr ?lio =
        Done (0, fr', ?lio\<lparr>lio_bvidx := lio_vcnt ?lio\<rparr>)
      \<and> (\<forall>j < unat nr. fr' (vs ! j) = (fr (vs ! j))\<lparr>pg_data := ?img j\<rparr>) \<and> (\<forall>p. p \<notin> set vs \<longrightarrow> fr' p = fr p)"
  proof (cases "rc_continue x")
    case True
    from scan_pages_ok [OF assms(5) rq(1) size, of "e_dev e" "i_ino i" n] assms(8) rq(6) vs(1) True n show ?thesis by auto
  next
    case False
    then show ?thesis using scan_pages_skipped(2) [OF assms(5) rq(1) size] vs(1) rq(6) by auto
  qed
  then obtain fr' where
    scan: "lightfs_bstore_scan_pages (e_k e) (e_dev e) (rc_fuel x) (rc_continue x) (i_ino i) (i_size i) fr ?lio =
        Done (0, fr', ?lio\<lparr>lio_bvidx := lio_vcnt ?lio\<rparr>)"
      "\<forall>j < unat nr. fr' (vs ! j) = (fr (vs ! j))\<lparr>pg_data := ?img j\<rparr>" "\<forall>p. p \<notin> set vs \<longrightarrow> fr' p = fr p"
    by blast
  have buffered: "readpages_buffered st ra fr ?lio nr = Done (True, 0, st, ra, fr, ?lio)"
    using assms(3) rq(5) by (simp add: readpages_buffered_def ESMALL_def)
  note read = read_foreground [OF scan(1), of 0 s]
  have pos: "0 < unat nr" using rq(5) by (simp add: unat_gt_0)
  have "PAGE_TO_BLOCK_NUM (show_in vs fr' (vs ! 0)) = b"
    using rq(6,9) scan(2) pos by (simp add: shown_def PAGE_TO_BLOCK_NUM_def)
  then have "\<exists>ra'. lightfs_reada_need (show_in vs fr') ra (?lio\<lparr>lio_bvidx := lio_vcnt ?lio\<rparr>) nr True = Some (False, ra')"
    using assms(4) pos rq(6) vs(1)
    by (auto simp: lightfs_reada_need_def lightfs_io_first_page_def vec_at_def READA_THRESHOLD_def word_less_nat_alt Let_def)
  then have "\<exists>ra'. lightfs_readpages e x s st ra ino fr pages nr = Done (0, next_txn s, st, ra', show_in vs fr')"
    using readpages_eq [OF assms(1,2)] buffered read vs rq(7) by (auto simp: readpages_ahead_def)
  moreover have "\<forall>j < unat nr. show_in vs fr' (vs ! j) = shown (fr' (vs ! j))" using rq(6) by simp
  ultimately show ?thesis using scan(2,3) by fastforce
qed

text \<open>
  Property C9: what a read of new pages shows.  Assume that no read-ahead is buffered, that the
  request is shorter than 64 pages or does not follow the last one, so that none is started,
  that it does not go past the end of the file, that memory can be had, and that the device
  answers with all its blocks.  Then \<open>lightfs_readpages\<close> returns 0; every page of the request
  is up to date and unlocked, and no other page changes.  If \<open>info.do_continue\<close>, which the code never initialises, happens to be
  set, each page shows its block as it is on the device, with zeros behind the end of the
  file; if it happens to be clear, each page is all zeros.
\<close>

theorem readpages_fills:
  assumes "f_icache s ino = Some i" and "requested x fr pages nr vs b" and "ra_list ra = []"
    and "unat nr < 64 \<or> b \<noteq> last_block_start ra + ucast (last_block_len ra)"
    and "memory_ok (k_km (e_k e))" and "0 < rc_fuel x"
    and "unat b + unat nr \<le> (unat (i_size i) + 4095) div 4096 + 1"
    and "length (e_dev e (data_key_of (i_ino i) b)) = unat nr * PAGE_SIZE"
  shows "\<exists>ra' fr'. lightfs_readpages e x s st ra ino fr pages nr = Done (0, next_txn s, st, ra', fr')
           \<and> (\<forall>j < unat nr. fr' (vs ! j) = shown ((fr (vs ! j))
                \<lparr>pg_data := if rc_continue x
                             then page_image (i_size i) (b + of_nat j) (get_at (j * PAGE_SIZE) PAGE_SIZE (e_dev e (data_key_of (i_ino i) b)))
                             else replicate PAGE_SIZE 0\<rparr>))
           \<and> (\<forall>p. p \<notin> set vs \<longrightarrow> fr' p = fr p)"
  using assms by (rule readpages_ok)

text \<open>Codes of the search: \<open>h\<close> served pages are none of the two special codes.\<close>

lemma served_code:
  fixes nr :: u32
  assumes "h \<le> unat nr" and "unat nr < 9999"
  shows "(of_nat h :: u32) \<noteq> ENORA" "(of_nat h :: u32) \<noteq> ESMALL" "unat (of_nat h :: u32) = h" "sint (of_nat h :: u32) = int h"
proof -
  have h: "h < 9999" using assms by simp
  then show u: "unat (of_nat h :: u32) = h" by (simp add: unat_of_nat take_bit_nat_eq_self)
  have "sint (of_nat h :: u32) = signed_take_bit 31 (int h)" by (simp add: sint_uint uint_nat u)
  with h show "sint (of_nat h :: u32) = int h" by (simp add: signed_take_bit_int_eq_self)
  have "unat ENORA = 99999" "unat ESMALL = 9999" by (simp_all add: ENORA_def ESMALL_def)
  with u h show "(of_nat h :: u32) \<noteq> ENORA" "(of_nat h :: u32) \<noteq> ESMALL" by fastforce+
qed

text \<open>
  A request that is half in the read-ahead buffer stops the kernel.  The number
  of pages served is counted twice, so if the first entry serves exactly the first half of
  the request, \<open>lightfs_readpages\<close> takes the request for complete and starts no read for the
  other half; it marks all pages up to date and then stops on its final check, because the
  number of served pages is still in the variable of the result.
\<close>

lemma half_hit_stops:
  assumes "f_icache s ino = Some i" and "requested x fr pages nr vs b" and "64 \<le> unat nr"
    and "ra_list ra = a # rest" and "ra_entry ra = Some a" and "answered st ra a from len buf"
    and "from \<le> unat b" and "unat b + h = from + len" and "unat nr = 2 * h" and "from + len + unat nr < 2 ^ 64"
    and "len + PAGE_SIZE \<le> length buf + 1"
  shows "lightfs_readpages e x s st ra ino fr pages nr = Fault"
proof -
  note rq = requestedD [OF assms(2)]
  let ?lio = "vec_of (unat nr) vs"
  have h: "0 < h" "h \<le> unat nr" using assms(3,9) by simp_all
  note code = served_code [OF h(2) rq(4)]
  have "ra_entry ra \<noteq> None" using assms(5) by simp
  from buffer_get_hit [OF this assms(6) rq(1-3) assms(3,7) _ assms(10), of h] obtain fr' where
    get: "lightfs_reada_buffer_get a st ra fr ?lio nr = Done (of_nat h, fr', ?lio\<lparr>lio_bvidx := of_nat h\<rparr>)"
      "\<forall>j < h. fr' (vs ! j) = (fr (vs ! j))\<lparr>pg_data := get_at (unat b - from + j) PAGE_SIZE buf\<rparr>"
    using assms(7-9,11) h by (fastforce simp: vec_of_def)
  have twice: "of_nat h + of_nat h = nr" "(of_nat h :: u32) \<noteq> 0"
  proof -
    have "(of_nat h :: u32) + of_nat h = of_nat (unat nr)" using assms(9) by simp
    then show "of_nat h + of_nat h = nr" by simp
    show "(of_nat h :: u32) \<noteq> 0" using code(3) h(1) by (metis less_numeral_extra(3) unsigned_0)
  qed
  have buffered: "readpages_buffered st ra fr ?lio nr = Done (False, of_nat h, st, ra, fr', ?lio\<lparr>lio_bvidx := of_nat h\<rparr>)"
    using get(1) assms(4) code(1,2) twice by (simp add: readpages_buffered_def Let_def)
  have vs: "lio_vec ?lio = vs" "length vs = unat (lio_vcnt ?lio)"
    using rq(1,6) by (simp_all add: vec_of_def run_of_pages_def)
  have read: "readpages_read e x False (sint (of_nat h :: u32)) s i fr' (?lio\<lparr>lio_bvidx := of_nat h\<rparr>) =
      Done (int h, s, show_in vs fr', ?lio\<lparr>lio_bvidx := of_nat h\<rparr>)"
    using read_buffered [of "?lio\<lparr>lio_bvidx := of_nat h\<rparr>"] vs rq(7) code(4) by simp
  obtain er where er: "ra_mem ra a = Some er" "unat (re_start er) = from" "unat (re_len er) = len"
    using assms(6) by (auto simp: answered_def)
  have "unat (b + ucast nr) = unat b + unat nr" "unat (re_start er + ucast (re_len er)) = from + len"
    using unat_add_ucast [of b nr] unat_add_ucast [of "re_start er" "re_len er"] er assms(8,10) by simp_all
  then have ne: "b + ucast nr \<noteq> re_start er + ucast (re_len er)" using assms(8,9) h(1) by auto
  have pos: "0 < unat nr" using h by simp
  have "PAGE_TO_BLOCK_NUM (show_in vs fr' (vs ! 0)) = b"
    using rq(6,9) get(2) h by (simp add: shown_def PAGE_TO_BLOCK_NUM_def)
  then have "\<exists>ra'. lightfs_reada_need (show_in vs fr') ra (?lio\<lparr>lio_bvidx := of_nat h\<rparr>) nr False = Some (False, ra')"
    using assms(5) ne er(1) pos rq(6) vs(1)
    by (auto simp: lightfs_reada_need_def lightfs_io_first_page_def vec_at_def Let_def)
  then show ?thesis using readpages_eq [OF assms(1,2)] buffered read h(1) by (auto simp: readpages_ahead_def)
qed

text \<open>
  Property C11: a hit in the read-ahead buffer gives shifted data.  When the first entry covers
  the whole request, \<open>lightfs_readpages\<close> reports success and shows every page, but the page
  of the block at distance \<open>k\<close> from the start of the entry gets the bytes that start \<open>k\<close> bytes,
  and not \<open>k\<close> blocks, behind the start of the buffer.
\<close>

theorem hit_shifted:
  assumes "f_icache s ino = Some i" and "requested x fr pages nr vs b" and "64 \<le> unat nr"
    and "ra_list ra = a # rest" and "ra_entry ra = Some a" and "answered st ra a from len buf"
    and "from \<le> unat b" and "unat b + unat nr \<le> from + len" and "from + len + unat nr < 2 ^ 64"
    and "len + PAGE_SIZE \<le> length buf + 1"
    and "READA_QD \<le> ra_entry_cnt ra \<or> b \<noteq> last_block_start ra + ucast (last_block_len ra)"
  shows "\<exists>ra' fr'. lightfs_readpages e x s st ra ino fr pages nr = Done (0, next_txn s, st, ra', fr')
           \<and> (\<forall>j < unat nr. fr' (vs ! j) = shown ((fr (vs ! j))\<lparr>pg_data := get_at (unat b - from + j) PAGE_SIZE buf\<rparr>))"
proof -
  note rq = requestedD [OF assms(2)]
  let ?lio = "vec_of (unat nr) vs"
  note code = served_code [OF order.refl rq(4)]
  have "ra_entry ra \<noteq> None" "unat nr = min (unat nr) (from + len - unat b)" using assms(5,8) by simp_all
  from buffer_get_hit [OF this(1) assms(6) rq(1-3) assms(3,7) _ assms(9) this(2)] obtain fr' where
    get: "lightfs_reada_buffer_get a st ra fr ?lio nr = Done (nr, fr', ?lio\<lparr>lio_bvidx := lio_vcnt ?lio\<rparr>)"
      "\<forall>j < unat nr. fr' (vs ! j) = (fr (vs ! j))\<lparr>pg_data := get_at (unat b - from + j) PAGE_SIZE buf\<rparr>"
    using assms(3,7,8,10) by (fastforce simp: vec_of_def)
  have twice: "nr + nr \<noteq> nr" using rq(5) by simp
  have buffered: "readpages_buffered st ra fr ?lio nr = Done (True, nr, st, ra, fr', ?lio\<lparr>lio_bvidx := lio_vcnt ?lio\<rparr>)"
    using get(1) assms(4) code(1,2) twice rq(5) by (simp add: readpages_buffered_def Let_def)
  have vs: "lio_vec ?lio = vs" "length vs = unat (lio_vcnt ?lio)"
    using rq(1,6) by (simp_all add: vec_of_def run_of_pages_def)
  have "lightfs_bstore_scan_pages (e_k e) (e_dev e) (rc_fuel x) (rc_continue x) (i_ino i) (i_size i) fr'
      (?lio\<lparr>lio_bvidx := lio_vcnt ?lio\<rparr>) = Done (0, fr', ?lio\<lparr>lio_bvidx := lio_vcnt ?lio\<rparr>)"
    by (simp add: lightfs_bstore_scan_pages_def lightfs_io_job_done_def)
  note read = read_foreground [OF this, of "sint nr" s]
  have pos: "0 < unat nr" using assms(3) by simp
  have "PAGE_TO_BLOCK_NUM (show_in vs fr' (vs ! 0)) = b"
    using rq(6,9) get(2) pos by (simp add: shown_def PAGE_TO_BLOCK_NUM_def)
  then have "\<exists>ra'. lightfs_reada_need (show_in vs fr') ra (?lio\<lparr>lio_bvidx := lio_vcnt ?lio\<rparr>) nr True = Some (False, ra')"
    using assms(11) pos rq(6) vs(1)
    by (auto simp: lightfs_reada_need_def lightfs_io_first_page_def vec_at_def Let_def)
  then have "\<exists>ra'. lightfs_readpages e x s st ra ino fr pages nr = Done (0, next_txn s, st, ra', show_in vs fr')"
    using readpages_eq [OF assms(1,2)] buffered read vs rq(7) by (auto simp: readpages_ahead_def)
  moreover have "\<forall>j < unat nr. show_in vs fr' (vs ! j) = shown (fr' (vs ! j))" using rq(6) by simp
  ultimately show ?thesis using get(2) by fastforce
qed

text \<open>A file of a megabyte, a request for its first 64 blocks, and an entry for the first \<open>len\<close> blocks.\<close>

definition sample_big :: fs where
  "sample_big = sample_tree\<lparr>f_icache := [4 \<mapsto> sample_file\<lparr>i_size := 1048576\<rparr>]\<rparr>"

definition sample_ctx :: rd_ctx where
  "sample_ctx = \<lparr>rc_da = [0, HP_SIZE], rc_user = 7, rc_io_failed = False, rc_entry_failed = False, rc_sort = (\<lambda>_. rev),
     rc_added = (\<lambda>_. True), rc_fuel = 1, rc_continue = True\<rparr>"

definition sample_reada :: "u32 \<Rightarrow> reada" where
  "sample_reada len = reada_init\<lparr>ra_list := [0], ra_entry := Some 0, ra_entry_cnt := 1, ra_next := 1,
     ra_mem := [0 \<mapsto> \<lparr>re_state = READA_FULL, re_start = 1, re_len = len, re_tag = 0, re_buf = Some 0\<rparr>]\<rparr>"

definition sample_answer :: "byte list \<Rightarrow> io" where
  "sample_answer buf = (set_done io_init {0})\<lparr>io_bufs := \<lambda>_. buf\<rparr>"

lemma sample_requested: "requested sample_ctx sample_frames [0..<64] 64 [0..<64] 1"
proof -
  have "PAGE_TO_BLOCK_NUM (sample_frames p) = 1 + of_nat p" "length (pg_data (sample_frames p)) = PAGE_SIZE" for p
    by (simp_all add: sample_frames_def sample_page_def PAGE_TO_BLOCK_NUM_def)
  then show ?thesis by (simp add: requested_def sample_ctx_def vec_of_def run_of_pages_def)
qed

lemma sample_answered: "answered (sample_answer buf) (sample_reada len) 0 1 (unat len) buf"
  by (simp add: answered_def sample_answer_def sample_reada_def is_done_def set_done_def)

lemma sample_big_file: "f_icache sample_big 4 = Some (sample_file\<lparr>i_size := 1048576\<rparr>)"
  by (simp add: sample_big_def)

theorem readpages_fills_witness:
  "(\<exists>ra' fr'. lightfs_readpages (sample_env\<lparr>e_dev := \<lambda>_. replicate 262144 7\<rparr>) sample_ctx sample_big io_init reada_init 4 sample_frames
       [0..<64] 64 = Done (0, next_txn sample_big, io_init, ra', fr')
     \<and> pg_data (fr' 5) = replicate 4096 7 \<and> pg_uptodate (fr' 5))
 \<and> (\<exists>ra' fr'. lightfs_readpages (sample_env\<lparr>e_dev := \<lambda>_. replicate 262144 7\<rparr>) (sample_ctx\<lparr>rc_continue := False\<rparr>) sample_big io_init
       reada_init 4 sample_frames [0..<64] 64 = Done (0, next_txn sample_big, io_init, ra', fr')
     \<and> pg_data (fr' 5) = replicate 4096 0 \<and> pg_uptodate (fr' 5))"
proof -
  let ?e = "sample_env\<lparr>e_dev := \<lambda>_. replicate 262144 7\<rparr>" and ?x = "sample_ctx\<lparr>rc_continue := False\<rparr>"
  have mem: "memory_ok (k_km (e_k ?e))" using sample_env_ok(1) by (simp add: env_ok_def kern_ok_def)
  have bn: "lightfs_get_block_num_by_size 1048576 = 256" by code_simp
  have "page_image 1048576 6 (get_at (5 * PAGE_SIZE) PAGE_SIZE (replicate 262144 7)) = replicate 4096 7"
    by (simp add: page_image_def bn PAGE_SIZE_def get_at_def)
  then have "\<exists>ra' fr'. lightfs_readpages ?e sample_ctx sample_big io_init reada_init 4 sample_frames [0..<64] 64
        = Done (0, next_txn sample_big, io_init, ra', fr') \<and> pg_data (fr' 5) = replicate 4096 7 \<and> pg_uptodate (fr' 5)"
    using readpages_fills [OF sample_big_file sample_requested _ _ mem, of reada_init io_init]
    by (fastforce simp: reada_init_def sample_ctx_def PAGE_SIZE_def shown_def)
  moreover have rq: "requested ?x sample_frames [0..<64] 64 [0..<64] 1" using sample_requested by (simp add: requested_def)
  have "\<exists>ra' fr'. lightfs_readpages ?e ?x sample_big io_init reada_init 4 sample_frames [0..<64] 64
        = Done (0, next_txn sample_big, io_init, ra', fr') \<and> pg_data (fr' 5) = replicate 4096 0 \<and> pg_uptodate (fr' 5)"
    using readpages_fills [OF sample_big_file rq _ _ mem, of reada_init io_init]
    by (fastforce simp: reada_init_def sample_ctx_def PAGE_SIZE_def shown_def)
  ultimately show ?thesis by blast
qed

theorem hit_shifted_witness:
  "\<exists>ra' fr'. lightfs_readpages sample_env sample_ctx sample_big (sample_answer (replicate 4096 1 @ replicate 262144 2)) (sample_reada 64) 4
       sample_frames [0..<64] 64 = Done (0, next_txn sample_big, sample_answer (replicate 4096 1 @ replicate 262144 2), ra', fr')
     \<and> pg_data (fr' 1) = replicate 4095 1 @ [2]"
proof -
  let ?buf = "replicate 4096 1 @ replicate 262144 2 :: byte list"
  have "get_at 1 PAGE_SIZE ?buf = replicate 4095 1 @ [2]" by (simp add: get_at_def PAGE_SIZE_def)
  moreover have "ra_list (sample_reada 64) = [0]" "ra_entry (sample_reada 64) = Some 0"
      "last_block_start (sample_reada 64) = 0" "last_block_len (sample_reada 64) = 0"
    by (simp_all add: sample_reada_def reada_init_def)
  ultimately show ?thesis
    using hit_shifted [OF sample_big_file sample_requested, of "sample_reada 64" 0 "[]" "sample_answer ?buf" 1 64 ?buf sample_env]
      sample_answered [of ?buf 64]
    by (fastforce simp: PAGE_SIZE_def shown_def)
qed

section \<open>The entries of an inode\<close>

definition re_end :: "reada_entry \<Rightarrow> nat" where
  "re_end e = unat (re_start e) + unat (re_len e)"

text \<open>Each window starts where the one before it ends.\<close>

fun chained :: "reada_entry list \<Rightarrow> bool" where
  "chained (e # f # es) \<longleftrightarrow> re_end e = unat (re_start f) \<and> chained (f # es)"
| "chained _ \<longleftrightarrow> True"

lemma chained_snoc: "chained (es @ [e]) \<longleftrightarrow> chained es \<and> (es \<noteq> [] \<longrightarrow> re_end (last es) = unat (re_start e))"
  by (induction es rule: chained.induct) auto

lemma chained_tl: "chained (e # es) \<Longrightarrow> chained es"
  by (cases es) auto

lemma chained_same:
  assumes "chained es" and "list_all2 (\<lambda>e f. re_start e = re_start f \<and> re_len e = re_len f) es fs"
  shows "chained fs"
  using assms
proof (induction es arbitrary: fs rule: chained.induct)
  case (1 e f es)
  then obtain e' f' fs' where "fs = e' # f' # fs'" by (auto simp: list_all2_Cons1)
  with 1 show ?case by (fastforce simp: re_end_def)
qed (auto simp: list_all2_Cons1)

definition entries :: "reada \<Rightarrow> reada_entry list" where
  "entries ra = map (\<lambda>a. the (ra_mem ra a)) (ra_list ra)"

definition blocks_of :: "u64 \<Rightarrow> nat" where
  "blocks_of sz = (unat sz + 4095) div 4096"

definition ra_ok :: "u64 \<Rightarrow> reada \<Rightarrow> bool" where
  "ra_ok sz ra \<longleftrightarrow>
     distinct (ra_list ra) \<and> length (ra_list ra) \<le> unat READA_QD \<and> unat (ra_entry_cnt ra) = length (ra_list ra)
   \<and> ra_entry ra = (case ra_list ra of [] \<Rightarrow> None | a # _ \<Rightarrow> Some a)
   \<and> (\<forall>a \<in> set (ra_list ra). a < ra_next ra \<and> ra_mem ra a \<noteq> None)
   \<and> chained (entries ra) \<and> (\<forall>e \<in> set (entries ra). re_end e \<le> blocks_of sz + 1)"

lemma ra_ok_init: "ra_ok sz reada_init"
  by (simp add: ra_ok_def reada_init_def entries_def)

lemma ra_ok_last: "ra_ok sz (ra\<lparr>last_block_start := b, last_block_len := n\<rparr>) = ra_ok sz ra"
  by (simp add: ra_ok_def entries_def)

lemma blocks_bound: "blocks_of sz < 4503599627370497"
  using unsigned_less [of sz, where ?'a = nat] by (simp add: blocks_of_def)

lemma free_first:
  assumes "ra_ok sz ra" and "ra_list ra = a # as" and "lightfs_reada_free a st ra = Done (st', ra')"
  shows "ra_ok sz ra' \<and> ra_list ra' = as"
proof -
  have cnt: "unat (ra_entry_cnt ra) = Suc (length as)" using assms(1,2) by (simp add: ra_ok_def)
  then have ne: "ra_entry_cnt ra \<noteq> 0" by auto
  then have cnt': "unat (ra_entry_cnt ra - 1) = length as" using cnt by (simp add: unat_minus_one)
  then have zero: "ra_entry_cnt ra - 1 = 0 \<longleftrightarrow> as = []" by (metis length_0_conv unat_eq_zero)
  have "ra' = ra\<lparr>ra_list := as, ra_entry_cnt := ra_entry_cnt ra - 1, ra_entry := (case as of [] \<Rightarrow> None | x # _ \<Rightarrow> Some x)\<rparr>"
    using assms(2,3) zero
    by (auto simp: lightfs_reada_free_def res_bind_Done Let_def split: option.splits if_splits list.splits)
  with assms(1,2) cnt' show ?thesis
    by (auto simp: ra_ok_def entries_def dest: chained_tl)
qed

lemma free_prefix:
  assumes "ra_ok sz ra" and "reada_free_list (take n (ra_list ra)) st ra = Done (st', ra')"
  shows "ra_ok sz ra' \<and> ra_list ra' = drop n (ra_list ra)"
  using assms
proof (induction n arbitrary: st ra)
  case 0
  then show ?case by simp
next
  case (Suc n)
  show ?case
  proof (cases "ra_list ra")
    case Nil
    with Suc.prems show ?thesis by simp
  next
    case (Cons a as)
    with Suc.prems(2) obtain st1 ra1 where f: "lightfs_reada_free a st ra = Done (st1, ra1)"
        "reada_free_list (take n as) st1 ra1 = Done (st', ra')" by (auto simp: res_bind_Done)
    with free_first [OF Suc.prems(1) Cons f(1)] Suc.IH [of ra1 st1] Cons show ?thesis by simp
  qed
qed

lemma flush_ok:
  assumes "ra_ok sz ra" and "lightfs_reada_flush st ra n = Done (st', ra')"
  shows "ra_ok sz ra'"
  using free_prefix [OF assms(1) assms(2) [unfolded lightfs_reada_flush_def]] by blast

lemma all_flush_ok:
  assumes "ra_ok sz ra" and "lightfs_reada_all_flush st ra = Done (st', ra')"
  shows "ra_ok sz ra'"
proof -
  have "reada_free_list (take (length (ra_list ra)) (ra_list ra)) st ra = Done (st', ra')"
    using assms(2) by (simp add: lightfs_reada_all_flush_def)
  from free_prefix [OF assms(1) this] show ?thesis by blast
qed

lemma window_ok:
  assumes "ra_ok sz ra" and "reada_window fr ra lio sz iter = Some (current, cnt)" and "iter = 0 \<or> ra_list ra \<noteq> []"
  shows "unat current + unat cnt \<le> blocks_of sz + 1" "unat (ucast cnt :: u32) = unat cnt"
    "ra_list ra \<noteq> [] \<longrightarrow> unat current = re_end (last (entries ra))"
proof -
  let ?most = "ucast (lio_vcnt lio) * READA_MULTIPLIER" and ?bc = "lightfs_get_block_num_by_size sz + 1 - current"
  have bl: "unat (lightfs_get_block_num_by_size sz + 1) = blocks_of sz + 1"
    using blocks_bound [of sz] by (simp add: blocks_of_def unat_word_ariths unat_block_num_by_size)
  have cnt: "cnt = (if ?bc > ?most then ?most else ?bc)"
    using assms(2) by (auto simp: reada_window_def Let_def split: bind_splits option.splits)
  have cur: "unat current \<le> blocks_of sz + 1 \<and> (ra_list ra \<noteq> [] \<longrightarrow> unat current = re_end (last (entries ra)))"
  proof (cases "ra_list ra")
    case Nil
    then have "current = 1" using assms by (auto simp: reada_window_def ra_ok_def Let_def split: bind_splits)
    with Nil show ?thesis by simp
  next
    case (Cons a as)
    then obtain e where e: "ra_mem ra (last (ra_list ra)) = Some e" "current = re_start e + ucast (re_len e)"
      using assms(1,2) by (auto simp: reada_window_def ra_ok_def Let_def split: bind_splits)
    have ne: "ra_list ra \<noteq> []" using Cons by simp
    then have last: "last (entries ra) = e" using e(1) by (simp add: entries_def last_map)
    have "last (entries ra) \<in> set (entries ra)" using ne by (intro last_in_set) (simp add: entries_def)
    then have "re_end e \<le> blocks_of sz + 1" using assms(1) last by (auto simp: ra_ok_def)
    with e(2) last blocks_bound [of sz] show ?thesis
      using unat_add_ucast [of "re_start e" "re_len e"] by (simp add: re_end_def)
  qed
  then have bc: "unat ?bc = blocks_of sz + 1 - unat current" using bl by (simp add: unat_sub word_le_nat_alt)
  have most: "unat (ucast (lio_vcnt lio) :: u64) < 65536"
    using unsigned_less [of "lio_vcnt lio", where ?'a = nat] by (simp add: unsigned_ucast_eq take_bit_nat_eq_self)
  have le: "unat cnt \<le> unat ?bc" "unat cnt < 65536"
    using cnt most by (auto simp: READA_MULTIPLIER_def word_less_nat_alt not_less)
  then show "unat current + unat cnt \<le> blocks_of sz + 1" using bc cur by linarith
  show "unat (ucast cnt :: u32) = unat cnt" using le(2) by (simp add: unsigned_ucast_eq take_bit_nat_eq_self)
  show "ra_list ra \<noteq> [] \<longrightarrow> unat current = re_end (last (entries ra))" using cur by blast
qed

lemma alloc_entry_ok:
  assumes "ra_ok sz ra" and "length (ra_list ra) < unat READA_QD" and "lightfs_reada_alloc False st ra current cnt = Done (a, st', ra')"
    and "unat current + unat cnt \<le> blocks_of sz + 1" and "ra_list ra \<noteq> [] \<longrightarrow> unat current = re_end (last (entries ra))"
  shows "ra_ok sz ra'" "ra_list ra' = ra_list ra @ [a]" "ra_mem ra' a \<noteq> None"
proof -
  have a: "a = ra_next ra" "ra_list ra' = ra_list ra @ [a]" "ra_next ra' = ra_next ra + 1" "ra_entry_cnt ra' = ra_entry_cnt ra + 1"
      "ra_mem ra' = (ra_mem ra)(a \<mapsto> \<lparr>re_state = READA_FULL, re_start = current, re_len = cnt, re_tag = 0, re_buf = None\<rparr>)"
      "ra_entry ra' = (if ra_entry_cnt ra + 1 = 1 then Some a else ra_entry ra)"
    using assms(3) by (auto simp: lightfs_reada_alloc_def Let_def split: if_splits)
  have new: "a \<notin> set (ra_list ra)" using assms(1) a(1) by (auto simp: ra_ok_def)
  have cnt: "unat (ra_entry_cnt ra') = length (ra_list ra')" using assms(1,2) a(2,4) by (simp add: ra_ok_def READA_QD_def unat_word_ariths)
  have zero: "ra_entry_cnt ra + 1 = 1 \<longleftrightarrow> ra_list ra = []" using assms(1) by (auto simp: ra_ok_def unat_eq_zero)
  have head: "ra_entry ra' = (case ra_list ra' of [] \<Rightarrow> None | x # _ \<Rightarrow> Some x)"
    using assms(1) a(2,6) zero by (auto simp: ra_ok_def split: list.splits)
  have "map (\<lambda>x. the (ra_mem ra' x)) (ra_list ra) = entries ra" unfolding entries_def a(5) using new by (auto intro: map_cong)
  then have ents: "entries ra' = entries ra @ [\<lparr>re_state = READA_FULL, re_start = current, re_len = cnt, re_tag = 0, re_buf = None\<rparr>]"
    unfolding entries_def a(2) by (simp add: a(5))
  have ne: "entries ra = [] \<longleftrightarrow> ra_list ra = []" by (simp add: entries_def)
  show "ra_ok sz ra'" unfolding ra_ok_def
    using assms(1,2,4,5) cnt head new ents ne a(1-3,5) by (auto simp: ra_ok_def chained_snoc re_end_def)
  show "ra_list ra' = ra_list ra @ [a]" "ra_mem ra' a \<noteq> None" using a by simp_all
qed

lemma set_tag_ok:
  assumes "ra_ok sz ra"
  shows "ra_ok sz (ra\<lparr>ra_mem := (ra_mem ra)(a := map_option (\<lambda>e. e\<lparr>re_tag := t, re_buf := b\<rparr>) (ra_mem ra a))\<rparr>)" (is "ra_ok sz ?ra")
proof -
  have mem: "\<forall>x \<in> set (ra_list ra). ra_mem ra x \<noteq> None" using assms by (auto simp: ra_ok_def)
  then have "\<exists>e. ra_mem ra (ra_list ra ! i) = Some e" if "i < length (ra_list ra)" for i using that by (meson nth_mem not_None_eq)
  then have same: "list_all2 (\<lambda>e f. re_start e = re_start f \<and> re_len e = re_len f) (entries ra) (entries ?ra)"
    by (fastforce simp: entries_def list_all2_conv_all_nth)
  then have "\<forall>e \<in> set (entries ?ra). \<exists>f \<in> set (entries ra). re_end e = re_end f"
    by (induction rule: list_all2_induct) (auto simp: re_end_def)
  moreover have "chained (entries ?ra)" using chained_same [OF _ same] assms by (simp add: ra_ok_def)
  ultimately show ?thesis using assms unfolding ra_ok_def by fastforce
qed

lemma reada_pages_ok:
  assumes "memory_ok (k_km k)" and "ra_ok sz ra" and "length (ra_list ra) < unat READA_QD" and "iter = 0 \<or> ra_list ra \<noteq> []"
    and "lightfs_bstore_reada_pages k failed da user st ra db t ino sz fr lio iter = Done (r, st', ra')"
  shows "ra_ok sz ra' \<and> (r = EEOF \<and> ra' = ra \<or> r = 0 \<and> (\<exists>a. ra_list ra' = ra_list ra @ [a]))"
proof -
  from assms(5) obtain current cnt where w: "reada_window fr ra lio sz iter = Some (current, cnt)"
    by (auto simp: lightfs_bstore_reada_pages_def split: option.splits)
  show ?thesis
  proof (cases "cnt = 0")
    case True
    with w assms(2,5) show ?thesis by (simp add: lightfs_bstore_reada_pages_def)
  next
    case False
    with w assms(5) obtain a st1 ra1 tag where al: "lightfs_reada_alloc failed st ra current (ucast cnt) = Done (a, st1, ra1)"
        and r: "r = 0" "ra' = ra1\<lparr>ra_mem := (ra_mem ra1)(a := map_option (\<lambda>e. e\<lparr>re_tag := tag, re_buf := Some tag\<rparr>) (ra_mem ra1 a))\<rparr>"
      by (auto simp: lightfs_bstore_reada_pages_def alloc_data_dbt [OF assms(1)] res_bind_Done)
    have "\<not> failed" using al by (auto simp: lightfs_reada_alloc_def)
    with al have al: "lightfs_reada_alloc False st ra current (ucast cnt) = Done (a, st1, ra1)" by simp
    note win = window_ok [OF assms(2) w assms(4)]
    have fits: "unat current + unat (ucast cnt :: u32) \<le> blocks_of sz + 1" using win(1,2) by simp
    note ok = alloc_entry_ok [OF assms(2,3) al fits win(3)]
    show ?thesis using set_tag_ok [OF ok(1)] ok(2) r by auto
  qed
qed

lemma reada_issue_ok:
  assumes "memory_ok (k_km (e_k e))" and "ra_ok (i_size i) ra" and "length (ra_list ra) + n \<le> unat READA_QD"
    and "iter = 0 \<or> ra_list ra \<noteq> []" and "reada_issue n iter e x i fr lio s st ra r0 = Done (r, s', st', ra')"
  shows "ra_ok (i_size i) ra'"
  using assms(2-5)
proof (induction n arbitrary: iter s st ra r0)
  case 0
  then show ?case by simp
next
  case (Suc n)
  let ?t = "lightfs_txn_init\<lparr>t_state := TXN_READ, t_id := h_txn_id (f_hd s)\<rparr>"
  from Suc.prems(4) obtain r1 st1 ra1 where one:
    "lightfs_bstore_reada_pages (e_k e) (rc_entry_failed x) (rc_da x) (rc_user x) st ra data_db ?t (i_ino i) (i_size i) fr lio iter
       = Done (r1, st1, ra1)"
    by (auto simp: begin_read res_bind_Done)
  have "length (ra_list ra) < unat READA_QD" using Suc.prems(2) by simp
  note ok = reada_pages_ok [OF assms(1) Suc.prems(1) this Suc.prems(3) one]
  show ?case
  proof (cases "r1 = EEOF")
    case True
    with ok Suc.prems(4) one show ?thesis by (auto simp: begin_read EEOF_def)
  next
    case False
    with ok obtain a where a: "r1 = 0" "ra_ok (i_size i) ra1" "ra_list ra1 = ra_list ra @ [a]" by auto
    with Suc.prems(4) one obtain s1 r2 where "reada_issue n (iter + 1) e x i fr lio s1 st1 ra1 r2 = Done (r, s', st', ra')"
      by (auto simp: begin_read EEOF_def)
    from Suc.IH [OF a(2) _ _ this] a(3) Suc.prems(2) show ?thesis by simp
  qed
qed

lemma buffered_ok:
  assumes "ra_ok sz ra" and "readpages_buffered st ra fr lio nr = Done (g, ret, st', ra', fr', lio')"
  shows "ra_ok sz ra'"
proof -
  obtain r p f fr1 lio1 where a: "reada_search (ra_list ra) st ra fr lio nr 0 0 0 = Done (r, p, f, fr1, lio1)"
    using assms(2) by (auto simp: readpages_buffered_def res_bind_Done)
  have "(if r = ESMALL then lightfs_reada_all_flush st ra else if f \<noteq> 0 then lightfs_reada_flush st ra f else Done (st, ra)) = Done (st', ra')"
    using assms(2) by (auto simp: readpages_buffered_def a res_bind_Done split: if_splits)
  then show ?thesis using assms(1) flush_ok [OF assms(1)] all_flush_ok [OF assms(1)] by (simp split: if_splits)
qed

lemma ahead_ok:
  assumes "memory_ok (k_km (e_k e))" and "ra_ok (i_size i) ra"
    and "readpages_ahead e x g i nr ret s st ra fr lio = Done (ret', s', st', ra')"
  shows "ra_ok (i_size i) ra'"
proof -
  obtain need ra1 where n: "lightfs_reada_need fr ra lio nr g = Some (need, ra1)"
    using assms(3) by (auto simp: readpages_ahead_def split: option.splits)
  then have ra1: "ra_ok (i_size i) ra1" and qd: "need \<longrightarrow> ra_entry_cnt ra1 < READA_QD"
    using assms(2)
    by (auto simp: lightfs_reada_need_def ra_ok_last Let_def not_le split: if_splits bind_splits option.splits)
  show ?thesis
  proof (cases need)
    case True
    with qd have "unat (ra_entry_cnt ra1) + unat (READA_QD - ra_entry_cnt ra1) = unat READA_QD"
      by (simp add: unat_sub word_le_nat_alt word_less_nat_alt)
    with ra1 have "length (ra_list ra1) + unat (READA_QD - ra_entry_cnt ra1) \<le> unat READA_QD" by (simp add: ra_ok_def)
    moreover have "reada_issue (unat (READA_QD - ra_entry_cnt ra1)) 0 e x i fr lio s st ra1 ret = Done (ret', s', st', ra')"
      using True n assms(3) by (simp add: readpages_ahead_def)
    ultimately show ?thesis using reada_issue_ok [OF assms(1) ra1] by blast
  next
    case False
    with n ra1 assms(3) show ?thesis by (simp add: readpages_ahead_def)
  qed
qed

text \<open>
  Property C10: read-ahead stays within its bounds.  For a file whose size does not change,
  every \<open>lightfs_readpages\<close> that returns keeps the entries of the inode consistent: there are
  at most four, their counter and the pointer to the first agree with the list, each entry
  starts at the block where the one before it ends, and none reaches behind the last block
  of the file.
\<close>

theorem read_ahead_bounded:
  assumes "memory_ok (k_km (e_k e))" and "f_icache s ino = Some i" and "ra_ok (i_size i) ra"
    and "lightfs_readpages e x s st ra ino fr pages nr = Done (r, s', st', ra', fr')"
  shows "ra_ok (i_size i) ra' \<and> ra_ok (i_size i) reada_init"
proof -
  have *: "r = - ENOMEM \<and> ra' = ra \<or> (\<exists>lio g ret st1 ra1 fr1 lio1 ret2 s2 fr2 lio2 ret3 s3 st3.
      readpages_buffered st ra fr lio nr = Done (g, ret, st1, ra1, fr1, lio1)
    \<and> readpages_ahead e x g i nr ret2 s2 st1 ra1 fr2 lio2 = Done (ret3, s3, st3, ra'))"
    using assms(2,4) by (fastforce simp: lightfs_readpages_def res_bind_Done split: option.splits if_splits)
  then show ?thesis using assms(3) buffered_ok [OF assms(3)] ahead_ok [OF assms(1)] ra_ok_init by metis
qed

theorem read_ahead_bounded_witness:
  "\<exists>r s' st' ra' fr'. lightfs_readpages (sample_env\<lparr>e_dev := \<lambda>_. replicate 262144 7\<rparr>) sample_ctx sample_big io_init reada_init 4
       sample_frames [0..<64] 64 = Done (r, s', st', ra', fr') \<and> ra_ok 1048576 ra'"
proof -
  let ?e = "sample_env\<lparr>e_dev := \<lambda>_. replicate 262144 7\<rparr>"
  have mem: "memory_ok (k_km (e_k ?e))" using sample_env_ok(1) by (simp add: env_ok_def kern_ok_def)
  obtain ra' fr' where r: "lightfs_readpages ?e sample_ctx sample_big io_init reada_init 4 sample_frames [0..<64] 64 =
      Done (0, next_txn sample_big, io_init, ra', fr')"
    using readpages_ok [OF sample_big_file sample_requested _ _ mem, of reada_init io_init]
    by (auto simp: reada_init_def sample_ctx_def PAGE_SIZE_def)
  from read_ahead_bounded [OF mem sample_big_file _ r] r show ?thesis by (auto simp: ra_ok_init)
qed

section \<open>The tag of a read-ahead\<close>

lemma fill_reada:
  assumes "length buf \<ge> 26"
  shows "\<exists>w. (do { w \<leftarrow> req_head i c buf; lightfs_io_set_buf_get_multi (req_code LIGHTFS_GET_MULTI) 17 (data_key_of ino bn) w }) = Some w"
proof -
  have "21 \<le> length buf - 5" "6 \<le> length buf - 3" "5 \<le> length buf - 2" using assms by linarith+
  with assms show ?thesis
    by (simp add: req_head_def wr_defs lightfs_io_set_buf_get_multi_def poke_def peek_def bug_on_def get_at_def)
qed

lemma move_pop_done: "cheeze_move_pop c tag = Done c' \<Longrightarrow> reada_done c' = reada_done c"
  by (auto simp: cheeze_move_pop_def split: if_splits option.splits)

lemma recv_reada:
  assumes "sent st user tag False (Some a) False has_ret ubuf_len" and "io_recv (device_answer st tag n data) tag = Done st'"
  shows "reada_done (io_cz st') = (if n \<noteq> 0 then insert a (reada_done (io_cz st)) else reada_done (io_cz st))"
proof -
  have tag: "tag < CHEEZE_QUEUE_SIZE" "cz_wf (io_cz st)" using sent_range [OF assms(1)] assms(1) by (simp_all add: sent_def)
  let ?a = "io_cz (device_answer st tag n data)"
  have a: "rq_sync (cz_reqs ?a ! tag) = False" "rq_extra (cz_reqs ?a ! tag) = Some a" "u_ubuf_len (ureqs ?a ! tag) = n"
      "recv_event ?a ! tag = 1" "reada_done ?a = reada_done (io_cz st)"
    using assms(1) tag by (simp_all add: device_answer_def sent_def cz_wf_def Let_def)
  from assms(2) a(1,4) obtain c where "cheeze_move_pop (recv_mark ?a tag) tag = Done c" "io_cz st' = c\<lparr>recv_event := (recv_event c)[tag := 0]\<rparr>"
    by (auto simp: io_recv_def recv_one_def recv_dispatch_def res_bind_Done Let_def)
  with move_pop_done [of "recv_mark ?a tag" tag c] a show ?thesis by (auto simp: recv_mark_def)
qed

lemma first_window:
  assumes "ra_entry ra = None" and "lio_vec lio \<noteq> []" and "length (lio_vec lio) = unat (lio_vcnt lio)" and "sz \<noteq> 0"
  shows "\<exists>cnt. reada_window fr ra lio sz 0 = Some (1, cnt) \<and> cnt \<noteq> 0"
proof -
  have pos: "0 < unat (lio_vcnt lio)" using assms(2,3) by (metis length_greater_0_conv)
  then have "lio_vcnt lio \<noteq> 0" by auto
  then obtain p where "lightfs_io_last_page lio = Some p" using assms(3) pos by (simp add: lightfs_io_last_page_def vec_at_def)
  moreover have "0 < unat sz" using assms(4) by (simp add: unat_gt_0)
  then have "0 < unat (lightfs_get_block_num_by_size sz)" by (simp add: unat_block_num_by_size div_greater_zero_iff)
  then have "lightfs_get_block_num_by_size sz \<noteq> 0" by auto
  moreover have "unat (ucast (lio_vcnt lio) :: u64) = unat (lio_vcnt lio)"
    using unsigned_less [of "lio_vcnt lio", where ?'a = nat] by (simp add: unsigned_ucast_eq take_bit_nat_eq_self)
  then have "(ucast (lio_vcnt lio) :: u64) \<noteq> 0" using pos by auto
  ultimately show ?thesis using assms(1) by (auto simp: reada_window_def Let_def READA_MULTIPLIER_def)
qed

lemma submit_done:
  assumes "io_submit da st user sync extra transfer fill has_ret ubuf_len = Done st'"
  shows "reada_done (io_cz st') = reada_done (io_cz st)"
proof -
  have push: "reada_done c' = reada_done c" if "cheeze_push c user = Done (sq, c')" for c c' sq
    using that by (auto simp: cheeze_push_def split: if_splits list.splits)
  from assms show ?thesis
    by (auto simp: io_submit_def res_bind_Done cheeze_prepare_io_def cheeze_io_submit_def send_req_def lightfs_io_set_cheeze_req_def Let_def
        dest!: push split: option.splits)
qed

lemma answer_then_free:
  assumes "sent st user tag False (Some a) False True 0" and "a \<notin> reada_done (io_cz st)" and "ra_mem ra a = Some e" and "re_tag e = tag"
    and "ra_entry ra = Some a" and "ra_list ra = [a]" and "ra_entry_cnt ra = 1"
  shows "\<exists>st2. io_recv (device_answer st tag n data) tag = Done st2 \<and> tags_ok (io_cz st2) \<and> tag \<in> set (cz_free (io_cz st2))
        \<and> (n = 0 \<longrightarrow> lightfs_reada_free a st2 ra = Block)
        \<and> (n \<noteq> 0 \<longrightarrow> (\<exists>st3 ra3. lightfs_reada_free a st2 ra = Done (st3, ra3) \<and> \<not> tags_ok (io_cz st3)
                         \<and> cz_slots (io_cz st3) = length (cz_free (io_cz st3)) + 1))"
proof -
  from recv_released [OF assms(1), of n data] obtain st2 where st2: "io_recv (device_answer st tag n data) tag = Done st2"
      "cz_wf (io_cz st2)" "cz_free (io_cz st2) = cz_free (io_cz st) @ [tag]" "rq_item (cz_reqs (io_cz st2) ! tag) = Some tag"
    by auto
  have ok: "tags_ok (io_cz st2)" "tag \<in> set (cz_free (io_cz st2))" using st2(2,3) by (simp_all add: cz_wf_def)
  have fin: "is_done st2 a \<longleftrightarrow> n \<noteq> 0" using recv_reada [OF assms(1) st2(1)] assms(2) by (simp add: is_done_def)
  from double_release [OF ok st2(4)] obtain c where c: "cheeze_free_io (io_cz st2) tag = Done c" "\<not> tags_ok c"
      "cz_slots c = length (cz_free c) + 1" by blast
  have "lightfs_reada_free a st2 ra = Done (st2\<lparr>io_cz := c\<rparr>, ra\<lparr>ra_list := [], ra_entry_cnt := 0, ra_entry := None\<rparr>)" if "n \<noteq> 0"
    using that fin c(1) assms(3-7) by (simp add: lightfs_reada_free_def io_free_def)
  moreover have "lightfs_reada_free a st2 ra = Block" if "n = 0" using that fin assms(3) by (simp add: lightfs_reada_free_def)
  ultimately show ?thesis using st2(1) ok c(2,3) by fastforce
qed

text \<open>
  Property C12: what becomes of a read-ahead.  The first read-ahead of an inode covers the file
  from its first block, whatever was read.  Its answer releases the tag, and then: if the
  device had the blocks, the entry is marked as answered, and when it is dropped its tag is
  released a second time, which leaves one more slot announced than there are free tags; if
  the device had nothing under the first key, the entry is never marked, and whoever drops
  it or hits it waits for ever.
\<close>

theorem read_ahead_life:
  assumes "cz_wf (io_cz st)" and "cz_free (io_cz st) = tag # rest" and "26 \<le> length (io_bufs st tag)"
    and "memory_ok (k_km k)" and "ra_ok sz ra" and "ra_list ra = []" and "lio_vec lio \<noteq> []" and "length (lio_vec lio) = unat (lio_vcnt lio)"
    and "sz \<noteq> 0"
  shows "\<exists>st1 ra1 a. lightfs_bstore_reada_pages k False da user st ra db t ino sz fr lio 0 = Done (0, st1, ra1)
     \<and> ra_list ra1 = [a] \<and> map_option re_start (ra_mem ra1 a) = Some 1
     \<and> (\<forall>n data. \<exists>st2. io_recv (device_answer st1 tag n data) tag = Done st2 \<and> tags_ok (io_cz st2) \<and> tag \<in> set (cz_free (io_cz st2))
        \<and> (n = 0 \<longrightarrow> lightfs_reada_free a st2 ra1 = Block)
        \<and> (n \<noteq> 0 \<longrightarrow> (\<exists>st3 ra3. lightfs_reada_free a st2 ra1 = Done (st3, ra3) \<and> \<not> tags_ok (io_cz st3)
                         \<and> cz_slots (io_cz st3) = length (cz_free (io_cz st3)) + 1)))"
proof -
  have none: "ra_entry ra = None" "ra_entry_cnt ra = 0" using assms(5,6) by (simp_all add: ra_ok_def unat_eq_zero)
  obtain cnt where w: "reada_window fr ra lio sz 0 = Some (1, cnt)" "cnt \<noteq> 0"
    using first_window [OF none(1) assms(7-9)] by blast
  let ?a = "ra_next ra" and ?key = "data_dbt_of ino 1"
  let ?st = "set_done st (reada_done (io_cz st) - {?a})"
  let ?new = "\<lparr>re_state = READA_FULL, re_start = 1, re_len = ucast cnt, re_tag = tag, re_buf = Some tag\<rparr>"
  have wf: "cz_wf (io_cz ?st)" using assms(1) tags_ok_frame [of "io_cz st" "io_cz ?st"] by (simp add: cz_wf_def set_done_def)
  let ?tb = "get_multi_buf db t ?key (ucast cnt) LIGHTFS_GET_MULTI_READA"
  let ?fill = "\<lambda>buf. do { w \<leftarrow> req_head (tb_txn_id ?tb) (ucast (tb_len ?tb)) buf;
      lightfs_io_set_buf_get_multi (req_code LIGHTFS_GET_MULTI) (tb_key_len ?tb) (tb_key ?tb) w }"
  have "tb_key ?tb = data_key_of ino 1" "tb_key_len ?tb = 17"
    by (simp_all add: get_multi_buf_def txn_buf_setup_def copy_txn_buf_key_from_dbt_def)
  with fill_reada [OF assms(3), of "tb_txn_id ?tb" "ucast (tb_len ?tb)" ino 1] obtain buf idx where
    fill: "?fill (io_bufs ?st tag) = Some (buf, idx)" by (auto simp: set_done_def)
  have free: "cz_free (io_cz ?st) = tag # rest" using assms(2) by (simp add: set_done_def)
  from io_submit_sent [where fill = ?fill, OF wf free fill, of da user False "Some ?a" False True 0] obtain st1 where
    sub: "io_submit da ?st user False (Some ?a) False ?fill True 0 = Done st1" and sent: "sent st1 user tag False (Some ?a) False True 0"
    and free1: "cz_free (io_cz st1) = rest" by blast
  have tag: "u_id (cz_users (io_cz st1) user) = tag" using sent by (simp add: sent_def Let_def)
  let ?ra = "ra\<lparr>ra_next := ?a + 1, ra_mem := (ra_mem ra)(?a \<mapsto> ?new), ra_list := [?a], ra_entry_cnt := 1, ra_entry := Some ?a\<rparr>"
  have issue: "lightfs_bstore_reada_pages k False da user st ra db t ino sz fr lio 0 = Done (0, st1, ?ra)"
    using w sub none assms(6) tag
    by (simp add: lightfs_bstore_reada_pages_def alloc_data_dbt [OF assms(4)] lightfs_reada_alloc_def lightfs_db_get_multi_reada_def
        lightfs_bstore_txn_get_multi_reada_def lightfs_io_get_multi_reada_submit_def Let_def)
  have "\<exists>st2. io_recv (device_answer st1 tag n data) tag = Done st2 \<and> tags_ok (io_cz st2) \<and> tag \<in> set (cz_free (io_cz st2))
        \<and> (n = 0 \<longrightarrow> lightfs_reada_free ?a st2 ?ra = Block)
        \<and> (n \<noteq> 0 \<longrightarrow> (\<exists>st3 ra3. lightfs_reada_free ?a st2 ?ra = Done (st3, ra3) \<and> \<not> tags_ok (io_cz st3)
                         \<and> cz_slots (io_cz st3) = length (cz_free (io_cz st3)) + 1))" for n data
    using answer_then_free [OF sent] submit_done [OF sub] by (simp add: set_done_def)
  with issue show ?thesis by (intro exI [of _ st1] exI [of _ ?ra] exI [of _ ?a]) simp
qed

theorem read_ahead_life_witness:
  "\<exists>st1 ra1 a st2 st3 ra3. lightfs_bstore_reada_pages sample_kern False [0, HP_SIZE] 7 io_init reada_init 1 lightfs_txn_init 4 1048576
       sample_frames sample_io 0 = Done (0, st1, ra1)
     \<and> io_recv (device_answer st1 0 8192 (replicate 8192 1)) 0 = Done st2
     \<and> lightfs_reada_free a st2 ra1 = Done (st3, ra3) \<and> \<not> tags_ok (io_cz st3)"
proof -
  have "lio_vec sample_io \<noteq> []" "length (lio_vec sample_io) = unat (lio_vcnt sample_io)" "ra_list reada_init = []"
    by (simp_all add: sample_io_def reada_init_def)
  with read_ahead_life [OF io_init_free(1,2) _ sample_kern_km ra_ok_init, of sample_io 1048576 "[0, HP_SIZE]" 7 1 lightfs_txn_init 4 sample_frames]
  obtain st1 ra1 a where "lightfs_bstore_reada_pages sample_kern False [0, HP_SIZE] 7 io_init reada_init 1 lightfs_txn_init 4 1048576
      sample_frames sample_io 0 = Done (0, st1, ra1)"
    "\<forall>n data. \<exists>st2. io_recv (device_answer st1 0 n data) 0 = Done st2 \<and> tags_ok (io_cz st2) \<and> 0 \<in> set (cz_free (io_cz st2))
        \<and> (n = 0 \<longrightarrow> lightfs_reada_free a st2 ra1 = Block)
        \<and> (n \<noteq> 0 \<longrightarrow> (\<exists>st3 ra3. lightfs_reada_free a st2 ra1 = Done (st3, ra3) \<and> \<not> tags_ok (io_cz st3)
                         \<and> cz_slots (io_cz st3) = length (cz_free (io_cz st3)) + 1))"
    by (auto simp: io_init_free(3))
  then show ?thesis by (metis zero_neq_numeral)
qed

end
