(* ===== verification/Kevin_Writeback.thy ===== *)
theory Kevin_Writeback
  imports Kevin_Super_Thms
begin

text \<open>
  Write-back of a file's dirty pages, \<open>lightfs_writepages\<close> of \<open>lightfs_super.c\<close>: the
  walk over the dirty pages of a mapping, the list that gathers them, and the flushing of
  the list into transactions.  The page cache's own functions are parameters.
\<close>

unbundle bit_operations_syntax

section \<open>The walk over the dirty pages\<close>

text \<open>
  What the page cache answers: \<open>wc_tag\<close> is the pages that \<open>tag_pages_for_writeback\<close> tags in
  a range; \<open>wc_lookup\<close> is \<open>pagevec_lookup_range_tag\<close>, for the tag of those pages or
  (\<^term>\<open>None\<close>) the dirty tag: the pages found and the index behind them.  \<open>wc_mapped\<close> tells
  whether a page still belongs to the mapping, \<open>wc_node\<close> whether a list node can be had.
\<close>

record wp_ctx =
  wc_tag :: "frames \<Rightarrow> u64 \<Rightarrow> u64 \<Rightarrow> nat list"
  wc_lookup :: "nat list option \<Rightarrow> frames \<Rightarrow> u64 \<Rightarrow> u64 \<Rightarrow> nat list \<times> u64"
  wc_mapped :: "nat \<Rightarrow> bool"
  wc_node :: bool

record writeback_control =
  wbc_range_cyclic :: bool
  wbc_range_start :: u64
  wbc_range_end :: u64
  wbc_sync_all :: bool
  wbc_tagged :: bool
  wbc_nr_to_write :: u64

definition LIGHTFS_WRITEPAGES_LIST_SIZE :: nat where "LIGHTFS_WRITEPAGES_LIST_SIZE = 4096"

definition DATA_KEY_MAX_LEN :: nat where "DATA_KEY_MAX_LEN = META_KEY_MAX_LEN + 8"

text \<open>
  The variables of the walk: \<open>wp_list\<close> is the first \<open>nr_list_pages\<close> nodes of the list,
  \<open>wp_stop\<close> the jump to \<open>free_dkey_out\<close> on an error.
\<close>

record wp =
  wp_ret :: int
  wp_done :: bool
  wp_stop :: bool
  wp_done_index :: u64
  wp_txn_done_index :: u64
  wp_list :: "nat list"
  wp_nr_to_write :: u64
  wp_fs :: fs
  wp_frames :: frames

definition wp_flush :: "env \<Rightarrow> u64 \<Rightarrow> dbt \<Rightarrow> wp \<Rightarrow> wp option" where
  "wp_flush e ino data_dbt w = do {
     (ret, s, fr) \<leftarrow> lightfs_writepages_write_pages e (wp_fs w) ino (wp_frames w) (wp_list w) data_dbt;
     let w = w\<lparr>wp_ret := ret, wp_fs := s, wp_frames := fr\<rparr>;
     if ret \<noteq> 0 then Some (w\<lparr>wp_stop := True\<rparr>)
     else Some (w\<lparr>wp_done_index := wp_txn_done_index w, wp_list := []\<rparr>) }"

text \<open>
  One page that is dirty and of the mapping: its flags, its place on the list, the flush of
  a full list, and the count of pages left to write.
\<close>

definition wp_take :: "wp_ctx \<Rightarrow> env \<Rightarrow> u64 \<Rightarrow> dbt \<Rightarrow> bool \<Rightarrow> nat \<Rightarrow> wp \<Rightarrow> wp option" where
  "wp_take c e ino data_dbt sync_all p w = do {
     bug_on (\<not> wc_node c);
     let w = w\<lparr>wp_frames := upd_page (wp_frames w) p (\<lambda>g. g\<lparr>pg_dirty := False, pg_writeback := True\<rparr>),
              wp_list := wp_list w @ [p]\<rparr>;
     w \<leftarrow> (if length (wp_list w) \<ge> LIGHTFS_WRITEPAGES_LIST_SIZE then wp_flush e ino data_dbt w else Some w);
     if wp_stop w then Some w
     else do {
       let w = w\<lparr>wp_nr_to_write := wp_nr_to_write w - 1\<rparr>;
       Some (w\<lparr>wp_done := wp_done w \<or> sint (wp_nr_to_write w) \<le> 0 \<and> \<not> sync_all\<rparr>) } }"

text \<open>
  The pages of one lookup.  Locking a page that is locked, and a synchronous write-back of a
  page whose last write-back has not ended, wait.
\<close>

fun wp_pages :: "wp_ctx \<Rightarrow> env \<Rightarrow> u64 \<Rightarrow> dbt \<Rightarrow> bool \<Rightarrow> u64 \<Rightarrow> nat list \<Rightarrow> wp \<Rightarrow> wp res" where
  "wp_pages c e ino data_dbt sync_all to [] w = Done w"
| "wp_pages c e ino data_dbt sync_all to (p # ps) w =
     (let g = wp_frames w p; v = w\<lparr>wp_txn_done_index := pg_index g\<rparr> in
      if pg_index g > to then Done (w\<lparr>wp_done := True\<rparr>)
      else if pg_locked g then Block
      else if \<not> wc_mapped c p \<or> \<not> pg_dirty g then wp_pages c e ino data_dbt sync_all to ps v
      else if pg_writeback g \<and> sync_all then Block
      else if pg_writeback g then wp_pages c e ino data_dbt sync_all to ps v
      else case wp_take c e ino data_dbt sync_all p (v\<lparr>wp_frames := upd_page (wp_frames v) p (\<lambda>g. g\<lparr>pg_locked := True\<rparr>)\<rparr>) of
             None \<Rightarrow> Fault
           | Some w \<Rightarrow> if wp_stop w \<or> wp_done w then Done w else wp_pages c e ino data_dbt sync_all to ps w)"

text \<open>The loop of lookups; \<open>n\<close> bounds how many are made.\<close>

fun wp_loop ::
    "nat \<Rightarrow> wp_ctx \<Rightarrow> env \<Rightarrow> u64 \<Rightarrow> dbt \<Rightarrow> bool \<Rightarrow> nat list option \<Rightarrow> u64 \<Rightarrow> u64 \<Rightarrow> wp \<Rightarrow> wp res" where
  "wp_loop 0 c e ino data_dbt sync_all tag index to w = (if \<not> wp_done w \<and> index \<le> to then Block else Done w)"
| "wp_loop (Suc n) c e ino data_dbt sync_all tag index to w =
     (if \<not> wp_done w \<and> index \<le> to then
        (case wc_lookup c tag (wp_frames w) index to of
           ([], _) \<Rightarrow> Done w
         | (ps, index) \<Rightarrow>
             res_bind (wp_pages c e ino data_dbt sync_all to ps w) (\<lambda>w.
               if wp_stop w then Done w else wp_loop n c e ino data_dbt sync_all tag index to w))
      else Done w)"

section \<open>Write-back\<close>

text \<open>
  One round, from the label \<open>retry\<close> to the label \<open>out\<close>.  What is left on the list at the end
  of the loop is flushed; on an error \<open>done_index\<close> stays.
\<close>

definition wp_round ::
    "nat \<Rightarrow> wp_ctx \<Rightarrow> env \<Rightarrow> u64 \<Rightarrow> writeback_control \<Rightarrow> u64 \<Rightarrow> u64 \<Rightarrow> wp \<Rightarrow> wp res" where
  "wp_round n c e ino wbc index to w =
     (let tag = (if wbc_sync_all wbc \<or> wbc_tagged wbc then Some (wc_tag c (wp_frames w) index to) else None);
          (ret, data_dbt) = dbt_alloc (k_km (e_k e)) dbt_init DATA_KEY_MAX_LEN;
          w = w\<lparr>wp_done_index := index, wp_txn_done_index := index, wp_ret := ret, wp_stop := False, wp_list := []\<rparr> in
      if ret \<noteq> 0 then Done w
      else case do { i \<leftarrow> f_icache (wp_fs w) ino; copy_data_dbt_from_inode data_dbt (i_ino i) 0 } of
        None \<Rightarrow> Fault
      | Some data_dbt \<Rightarrow>
          res_bind (wp_loop n c e ino data_dbt (wbc_sync_all wbc) tag index to w) (\<lambda>w.
            if wp_stop w \<or> wp_list w = [] then Done w
            else case wp_flush e ino data_dbt w of None \<Rightarrow> Fault | Some w \<Rightarrow> Done w))"

text \<open>The result is the return value, the file system, the pages, and \<open>mapping->writeback_index\<close>.\<close>

definition lightfs_writepages ::
    "nat \<Rightarrow> wp_ctx \<Rightarrow> env \<Rightarrow> fs \<Rightarrow> u64 \<Rightarrow> frames \<Rightarrow> u64 \<Rightarrow> writeback_control \<Rightarrow> (int \<times> fs \<times> frames \<times> u64) res" where
  "lightfs_writepages n c e s ino fr writeback_index wbc =
     (let (index, to, cycled) =
            (if wbc_range_cyclic wbc then (writeback_index, - 1, writeback_index = 0)
             else (signed_drop_bit 12 (wbc_range_start wbc), signed_drop_bit 12 (wbc_range_end wbc), True));
          range_whole = (\<not> wbc_range_cyclic wbc \<and> wbc_range_start wbc = 0 \<and> wbc_range_end wbc = 9223372036854775807);
          w = \<lparr>wp_ret = 0, wp_done = False, wp_stop = False, wp_done_index = index, wp_txn_done_index = index, wp_list = [],
               wp_nr_to_write = wbc_nr_to_write wbc, wp_fs = s, wp_frames = fr\<rparr> in
      res_bind (wp_round n c e ino wbc index to w) (\<lambda>w.
        res_bind (if \<not> cycled \<and> \<not> wp_done w then wp_round n c e ino wbc 0 (writeback_index - 1) w else Done w) (\<lambda>w.
          Done (wp_ret w, wp_fs w, wp_frames w,
                if wbc_range_cyclic wbc \<or> range_whole \<and> sint (wp_nr_to_write w) > 0 then wp_done_index w else writeback_index))))"

section \<open>Flushing the list\<close>

text \<open>A buffer that stores the whole of page \<open>p\<close> as block \<open>bn\<close> of a file.\<close>

definition page_put :: "u64 \<Rightarrow> u64 \<Rightarrow> nat \<Rightarrow> txn_buf \<Rightarrow> bool" where
  "page_put ino bn p tb \<longleftrightarrow> tb_type tb = LIGHTFS_DATA_SET_WB \<and> tb_buf tb = Page p \<and> tb_key_bytes tb = data_key_of ino bn
     \<and> tb_off tb = 0 \<and> tb_len tb = 4096"

text \<open>
  A page that holds some byte of a file of a size, and the data of a page with the bytes
  behind the end of the file cleared; a page that is all behind the end is left as it is.
\<close>

definition page_inside :: "u64 \<Rightarrow> page \<Rightarrow> bool" where
  "page_inside isz g \<longleftrightarrow> pg_index g < drop_bit 12 isz \<or> pg_index g = drop_bit 12 isz \<and> block_get_off_by_position isz \<noteq> 0"

definition cut_data :: "u64 \<Rightarrow> page \<Rightarrow> byte list" where
  "cut_data isz g =
     (let off = unat (block_get_off_by_position isz) in
      if pg_index g = drop_bit 12 isz \<and> off \<noteq> 0 then take off (pg_data g) @ replicate (PAGE_SIZE - off) 0 else pg_data g)"

abbreviation page_cut :: "u64 \<Rightarrow> page \<Rightarrow> page" where
  "page_cut isz g \<equiv> g\<lparr>pg_data := cut_data isz g\<rparr>"

lemma off_less: "unat (block_get_off_by_position pos) < 4096"
  using word_and_le1 [of pos 4095] by (simp add: block_get_off_by_position_def PAGE_SIZE_def word_le_nat_alt)

lemma put_page_ok:
  assumes "memory_ok (k_km k)" and "d_data d = Some (data_key_of ino bn @ rest)" and "d_size d = 17" and "0 < len" and "len \<le> PAGE_SIZE"
  shows "\<exists>tb. lightfs_bstore_put_page k db d t p len = Some (0, txn_add t tb) \<and> page_put ino bn p tb"
proof -
  have "dbt_valid d" "dbt_bytes d = data_key_of ino bn" "unat (d_size d) = 17"
    using assms(2,3) by (simp_all add: dbt_valid_def dbt_bytes_def)
  then obtain key where key: "\<And>tb. alloc_txn_buf_key_from_dbt (k_km k) tb d = Some (tb\<lparr>tb_key := key, tb_key_len := 17\<rparr>)"
      "key = data_key_of ino bn"
    using alloc_key_ok [OF assms(1), of d] assms(3) by auto
  have "unat (of_nat len :: u32) = len" using assms(5) by (simp add: PAGE_SIZE_def)
  then have "(of_nat len :: u32) \<noteq> 0" using assms(4) by auto
  then show ?thesis
    by (intro exI [of _ "lightfs_txn_buf_init\<lparr>tb_txn_id := t_id t, tb_db := db, tb_key := key, tb_key_len := 17, tb_buf := Page p,
          tb_type := LIGHTFS_DATA_SET_WB, tb_off := 0, tb_len := 4096\<rparr>"])
      (simp add: lightfs_bstore_put_page_def lightfs_db_put_def lightfs_bstore_txn_insert_def key insert_buf_def insert_fill_def
        iv_size_def page_put_def tb_key_bytes_def)
qed

text \<open>A transaction under construction, from the buffers put into it.\<close>

definition txn_of :: "txn_buf list \<Rightarrow> txn" where
  "txn_of tbs = fold (\<lambda>tb t. txn_add t tb) tbs lightfs_txn_init"

lemma txn_of_snoc: "txn_add (txn_of tbs) tb = txn_of (tbs @ [tb])"
  by (simp add: txn_of_def)

lemma txn_of_fields: "t_bufs (txn_of tbs) = tbs" "t_cnt (txn_of tbs) = of_nat (length tbs)"
    "t_state (txn_of tbs) = t_state lightfs_txn_init"
  by (induction tbs rule: rev_induct) (simp_all add: txn_of_def txn_add_def lightfs_txn_init_def)

definition txn_sized :: "txn \<Rightarrow> bool" where
  "txn_sized t \<longleftrightarrow> t_bufs t \<noteq> [] \<and> length (t_bufs t) \<le> LIGHTFS_TXN_LIMIT"

lemma commit_txn_of:
  assumes "length tbs \<le> LIGHTFS_TXN_LIMIT"
  shows "\<exists>ts. txn_commit e s (txn_of tbs) = s\<lparr>f_hd := queued (f_hd s) ts\<rparr> \<and> concat (map t_bufs ts) = tbs \<and> (\<forall>t \<in> set ts. txn_sized t)"
proof (cases "tbs = []")
  case True
  then show ?thesis
    by (intro exI [of _ "[]"]) (simp add: txn_commit_def lightfs_bstore_txn_commit_def queued_def txn_of_fields)
next
  case False
  have "unat (t_cnt (txn_of tbs)) = length tbs" using assms by (simp add: txn_of_fields LIGHTFS_TXN_LIMIT_def)
  then have "t_cnt (txn_of tbs) \<noteq> 0" using False by auto
  with False assms show ?thesis
    by (intro exI [of _ "[txn_of tbs\<lparr>t_id := h_txn_id (f_hd s), t_state := set_flag (t_state lightfs_txn_init) TXN_COMMITTED\<rparr>]"])
      (simp add: txn_commit_def lightfs_bstore_txn_commit_def queued_def txn_of_fields lightfs_txn_init_def has_flag_def txn_state_defs
        txn_sized_def)
qed

lemma page_cut_again:
  assumes "length (pg_data g) = PAGE_SIZE"
  shows "length (cut_data isz g) = PAGE_SIZE" and "cut_data isz (page_cut isz g) = cut_data isz g"
  using assms off_less [of isz] by (auto simp: cut_data_def Let_def PAGE_SIZE_def)

lemma zero_tail:
  assumes "length (pg_data (fr p)) = PAGE_SIZE" and "pg_index (fr p) = drop_bit 12 isz" and "block_get_off_by_position isz \<noteq> 0"
  shows "zero_user_segment fr p (unat (block_get_off_by_position isz)) PAGE_SIZE = Some (fr(p := page_cut isz (fr p)))"
  using assms off_less [of isz] by (simp add: zero_user_segment_def cut_data_def PAGE_SIZE_def put_at_def Let_def unat_eq_0)

text \<open>One page of the list is put into the open transaction.\<close>

definition put_step :: "env \<Rightarrow> u64 \<Rightarrow> dbt \<Rightarrow> txn \<Rightarrow> nat \<Rightarrow> frames \<Rightarrow> (int \<times> txn \<times> frames) option" where
  "put_step e isz d t p fr =
     (if pg_index (fr p) < drop_bit 12 isz then do {
        (ret, t) \<leftarrow> lightfs_bstore_put_page (e_k e) data_db d t p PAGE_SIZE;
        Some (ret, t, fr) }
      else if pg_index (fr p) = drop_bit 12 isz \<and> block_get_off_by_position isz \<noteq> 0 then do {
        fr \<leftarrow> zero_user_segment fr p (unat (block_get_off_by_position isz)) PAGE_SIZE;
        (ret, t) \<leftarrow> lightfs_bstore_put_page (e_k e) data_db d t p (unat (block_get_off_by_position isz));
        Some (ret, t, fr) }
      else Some (0, t, fr))"

lemma write_page_ok:
  assumes "memory_ok (k_km (e_k e))" and "length (pg_data (fr p)) = PAGE_SIZE" and "d_data d = Some (data_key_of ino bn @ rest)" and "d_size d = 17"
  shows "\<exists>new. put_step e isz d (txn_of tbs) p fr = Some (0, txn_of (tbs @ new), fr(p := page_cut isz (fr p)))
           \<and> list_all2 (page_put ino bn) (filter (\<lambda>p. page_inside isz (fr p)) [p]) new"
proof -
  consider "pg_index (fr p) < drop_bit 12 isz" | "pg_index (fr p) = drop_bit 12 isz" "block_get_off_by_position isz \<noteq> 0"
    | "\<not> page_inside isz (fr p)" by (auto simp: page_inside_def)
  then show ?thesis
  proof cases
    case 1
    then have "page_cut isz (fr p) = fr p" by (auto simp: cut_data_def Let_def)
    then show ?thesis using 1 put_page_ok [OF assms(1,3,4), of PAGE_SIZE data_db "txn_of tbs" p]
      by (auto simp: PAGE_SIZE_def put_step_def page_inside_def txn_of_snoc list_all2_Cons1)
  next
    case 2
    from 2(2) have "0 < unat (block_get_off_by_position isz)" by (simp add: unat_gt_0)
    then show ?thesis
      using 2 put_page_ok [OF assms(1,3,4), of "unat (block_get_off_by_position isz)" data_db "txn_of tbs" p] off_less [of isz]
        zero_tail [of fr p isz, OF assms(2)]
      by (auto simp: PAGE_SIZE_def put_step_def page_inside_def txn_of_snoc list_all2_Cons1)
  next
    case 3
    then have "page_cut isz (fr p) = fr p" by (auto simp: cut_data_def Let_def page_inside_def)
    with 3 show ?thesis by (intro exI [of _ "[]"]) (auto simp: put_step_def page_inside_def)
  qed
qed

text \<open>The open transaction, before page number \<open>i\<close> of the list.\<close>

abbreviation open_txn :: "nat \<Rightarrow> txn_buf list \<Rightarrow> txn option" where
  "open_txn i tbs \<equiv> if i mod LIGHTFS_TXN_LIMIT = 0 then None else Some (txn_of tbs)"

abbreviation cut_pages :: "u64 \<Rightarrow> nat set \<Rightarrow> frames \<Rightarrow> frames" where
  "cut_pages isz P fr \<equiv> \<lambda>p. if p \<in> P then page_cut isz (fr p) else fr p"

lemma write_loop_ok:
  assumes "memory_ok (k_km (e_k e))" and "\<forall>p \<in> set ps. length (pg_data (fr p)) = PAGE_SIZE"
    and "d_data d = Some (data_key_of ino bn @ rest)" and "d_size d = 17" and "length tbs \<le> i mod LIGHTFS_TXN_LIMIT"
  shows "\<exists>ts tbs' new. write_pages_loop e isz i ps d (open_txn i tbs) 0 s fr =
             Some (0, open_txn (i + length ps) tbs', s\<lparr>f_hd := queued (f_hd s) ts\<rparr>, cut_pages isz (set ps) fr)
           \<and> concat (map t_bufs ts) @ tbs' = tbs @ new
           \<and> list_all2 (\<lambda>p. page_put ino (pg_index (fr p) + 1) p) (filter (\<lambda>p. page_inside isz (fr p)) ps) new
           \<and> (\<forall>t \<in> set ts. txn_sized t) \<and> length tbs' \<le> (i + length ps) mod LIGHTFS_TXN_LIMIT"
  using assms(2-5)
proof (induction ps arbitrary: i d bn tbs s fr)
  case Nil
  then show ?case by (intro exI [of _ "[]"] exI [of _ tbs] exI [of _ "[]"]) (simp add: queued_def)
next
  case (Cons p ps)
  let ?bn = "pg_index (fr p) + 1" and ?L = LIGHTFS_TXN_LIMIT
  define d' where "d' = d\<lparr>d_data := Some (data_key_of ino ?bn @ rest)\<rparr>"
  define fr' where "fr' = fr(p := page_cut isz (fr p))"
  have d': "d_data d' = Some (data_key_of ino ?bn @ rest)" "d_size d' = 17" using Cons.prems by (simp_all add: d'_def)
  have p: "length (pg_data (fr p)) = PAGE_SIZE" using Cons.prems by simp
  obtain ns where put: "list_all2 (page_put ino ?bn) (filter (\<lambda>p. page_inside isz (fr p)) [p]) ns" and
    step: "write_pages_loop e isz i (p # ps) d (open_txn i tbs) 0 s fr =
      (if i mod ?L = ?L - 1
       then write_pages_loop e isz (i + 1) ps d' None 0 (txn_commit e s (txn_of (tbs @ ns))) fr'
       else write_pages_loop e isz (i + 1) ps d' (Some (txn_of (tbs @ ns))) 0 s fr')"
  proof -
    from write_page_ok [where fr = fr and p = p and isz = isz and tbs = tbs, OF assms(1) p d'] obtain ns where
      ns: "list_all2 (page_put ino ?bn) (filter (\<lambda>p. page_inside isz (fr p)) [p]) ns" and
      eq: "put_step e isz d' (txn_of tbs) p fr = Some (0, txn_of (tbs @ ns), fr')" by (auto simp: fr'_def)
    have opened: "(if i mod ?L = 0 then let (t, s) = txn_begin TXN_MAY_WRITE s in (Some t, s) else (open_txn i tbs, s))
        = (Some (txn_of tbs), s)"
      using Cons.prems(4) by (auto simp: txn_of_def)
    have sz: "unat (d_size d) = 17" using Cons.prems(3) by simp
    show ?thesis
      by (rule that [OF ns])
        (simp only: write_pages_loop.simps opened [unfolded Let_def] Let_def prod.case Option.bind.simps Cons.prems(2) sz set_blocknum_data d'_def [symmetric] eq [unfolded put_step_def]
          PAGE_TO_BLOCK_NUM_def simp_thms if_False)
  qed
  have frames: "\<forall>q \<in> set ps. length (pg_data (fr' q)) = PAGE_SIZE" "\<And>q. pg_index (fr' q) = pg_index (fr q)"
      "\<And>q. page_inside isz (fr' q) = page_inside isz (fr q)" "cut_pages isz (set ps) fr' = cut_pages isz (set (p # ps)) fr"
    using Cons.prems(1) page_cut_again [OF p] by (auto simp: fr'_def page_inside_def)
  have one: "length ns \<le> 1" using list_all2_lengthD [OF put] by (cases "page_inside isz (fr p)") simp_all
  have cat: "list_all2 (\<lambda>p. page_put ino (pg_index (fr p) + 1) p) (filter (\<lambda>p. page_inside isz (fr p)) (p # ps)) (ns @ new)"
    if "list_all2 (\<lambda>p. page_put ino (pg_index (fr p) + 1) p) (filter (\<lambda>p. page_inside isz (fr p)) ps) new" for new
  proof -
    have "list_all2 (\<lambda>p. page_put ino (pg_index (fr p) + 1) p) (filter (\<lambda>p. page_inside isz (fr p)) [p]) ns"
      using put by (cases "page_inside isz (fr p)") (auto simp: list_all2_Cons1)
    from list_all2_appendI [OF this that] show ?thesis by (cases "page_inside isz (fr p)") simp_all
  qed
  show ?case
  proof (cases "i mod ?L = ?L - 1")
    case True
    then have "length (tbs @ ns) \<le> ?L" using one Cons.prems(4) by (simp add: LIGHTFS_TXN_LIMIT_def)
    from commit_txn_of [OF this, of e s] obtain us where
      us: "txn_commit e s (txn_of (tbs @ ns)) = s\<lparr>f_hd := queued (f_hd s) us\<rparr>" "concat (map t_bufs us) = tbs @ ns" "\<forall>t \<in> set us. txn_sized t"
      by blast
    have i: "(i + 1) mod ?L = 0" using True by (simp add: LIGHTFS_TXN_LIMIT_def mod_Suc)
    have "\<exists>ts tbs' new. write_pages_loop e isz (i + 1) ps d' (open_txn (i + 1) []) 0 (s\<lparr>f_hd := queued (f_hd s) us\<rparr>) fr' =
         Some (0, open_txn (i + 1 + length ps) tbs', s\<lparr>f_hd := queued (queued (f_hd s) us) ts\<rparr>, cut_pages isz (set ps) fr')
      \<and> concat (map t_bufs ts) @ tbs' = [] @ new
      \<and> list_all2 (\<lambda>p. page_put ino (pg_index (fr' p) + 1) p) (filter (\<lambda>p. page_inside isz (fr' p)) ps) new
      \<and> (\<forall>t \<in> set ts. txn_sized t) \<and> length tbs' \<le> (i + 1 + length ps) mod ?L"
      using Cons.IH [OF frames(1) d', of "[]" "i + 1" "s\<lparr>f_hd := queued (f_hd s) us\<rparr>"] by simp
    then obtain ts tbs' new where
      ts: "write_pages_loop e isz (i + 1) ps d' (open_txn (i + 1) []) 0 (s\<lparr>f_hd := queued (f_hd s) us\<rparr>) fr' =
         Some (0, open_txn (i + 1 + length ps) tbs', s\<lparr>f_hd := queued (queued (f_hd s) us) ts\<rparr>, cut_pages isz (set ps) fr')"
      "concat (map t_bufs ts) @ tbs' = new"
      "list_all2 (\<lambda>p. page_put ino (pg_index (fr p) + 1) p) (filter (\<lambda>p. page_inside isz (fr p)) ps) new"
      "\<forall>t \<in> set ts. txn_sized t" "length tbs' \<le> (i + 1 + length ps) mod ?L"
      unfolding frames(2,3) by auto
    have "write_pages_loop e isz i (p # ps) d (open_txn i tbs) 0 s fr =
        Some (0, open_txn (i + length (p # ps)) tbs', s\<lparr>f_hd := queued (f_hd s) (us @ ts)\<rparr>, cut_pages isz (set (p # ps)) fr)"
      using ts(1) True i unfolding step frames(4) us(1) queued_queued by simp
    then show ?thesis
      using us(2,3) ts(2,4,5) cat [OF ts(3)] by (intro exI [of _ "us @ ts"] exI [of _ tbs'] exI [of _ "ns @ new"]) auto
  next
    case False
    then have i: "(i + 1) mod ?L = i mod ?L + 1" by (simp add: LIGHTFS_TXN_LIMIT_def mod_Suc)
    then have len: "length (tbs @ ns) \<le> (i + 1) mod ?L" using one Cons.prems(4) by simp
    from Cons.IH [OF frames(1) d' len, of s] obtain ts tbs' new where
      ts: "write_pages_loop e isz (i + 1) ps d' (open_txn (i + 1) (tbs @ ns)) 0 s fr' =
         Some (0, open_txn (i + 1 + length ps) tbs', s\<lparr>f_hd := queued (f_hd s) ts\<rparr>, cut_pages isz (set ps) fr')"
      "concat (map t_bufs ts) @ tbs' = (tbs @ ns) @ new"
      "list_all2 (\<lambda>p. page_put ino (pg_index (fr p) + 1) p) (filter (\<lambda>p. page_inside isz (fr p)) ps) new"
      "\<forall>t \<in> set ts. txn_sized t" "length tbs' \<le> (i + 1 + length ps) mod ?L"
      unfolding frames(2,3) by blast
    have "write_pages_loop e isz i (p # ps) d (open_txn i tbs) 0 s fr =
        Some (0, open_txn (i + length (p # ps)) tbs', s\<lparr>f_hd := queued (f_hd s) ts\<rparr>, cut_pages isz (set (p # ps)) fr)"
      using ts(1) False i unfolding step frames(4) by simp
    then show ?thesis
      using ts(2,4,5) cat [OF ts(3)] by (intro exI [of _ ts] exI [of _ tbs'] exI [of _ "ns @ new"]) simp
  qed
qed

lemma unlock_pages:
  "fold (\<lambda>p fr. upd_page fr p (\<lambda>g. g\<lparr>pg_dirty := pg_dirty g \<or> b, pg_locked := False\<rparr>)) ps fr =
     (\<lambda>p. if p \<in> set ps then (fr p)\<lparr>pg_dirty := pg_dirty (fr p) \<or> b, pg_locked := False\<rparr> else fr p)"
  by (induction ps arbitrary: fr) (auto simp: upd_page_def)

definition unlocked_cut :: "u64 \<Rightarrow> page \<Rightarrow> page" where
  "unlocked_cut isz g = (page_cut isz g)\<lparr>pg_locked := False\<rparr>"

lemma write_pages_ok:
  assumes "memory_ok (k_km (e_k e))" and "f_icache s ino = Some i" and "\<forall>p \<in> set ps. length (pg_data (fr p)) = PAGE_SIZE"
    and "d_data d = Some (data_key_of kino bn @ rest)" and "d_size d = 17"
  shows "\<exists>ts. lightfs_writepages_write_pages e s ino fr ps d =
             Some (0, s\<lparr>f_hd := queued (f_hd s) ts\<rparr>, \<lambda>p. if p \<in> set ps then unlocked_cut (i_size i) (fr p) else fr p)
           \<and> list_all2 (\<lambda>p. page_put kino (pg_index (fr p) + 1) p) (filter (\<lambda>p. page_inside (i_size i) (fr p)) ps) (concat (map t_bufs ts))
           \<and> (\<forall>t \<in> set ts. txn_sized t)"
proof -
  have "\<exists>ts tbs' new. write_pages_loop e (i_size i) 0 ps d None 0 s fr =
             Some (0, open_txn (length ps) tbs', s\<lparr>f_hd := queued (f_hd s) ts\<rparr>, cut_pages (i_size i) (set ps) fr)
           \<and> concat (map t_bufs ts) @ tbs' = new
           \<and> list_all2 (\<lambda>p. page_put kino (pg_index (fr p) + 1) p) (filter (\<lambda>p. page_inside (i_size i) (fr p)) ps) new
           \<and> (\<forall>t \<in> set ts. txn_sized t) \<and> length tbs' \<le> length ps mod LIGHTFS_TXN_LIMIT"
    using write_loop_ok [OF assms(1,3-5), of "[]" 0 "i_size i" s] by simp
  then obtain ts tbs where
    w: "write_pages_loop e (i_size i) 0 ps d None 0 s fr =
          Some (0, open_txn (length ps) tbs, s\<lparr>f_hd := queued (f_hd s) ts\<rparr>, cut_pages (i_size i) (set ps) fr)"
      "list_all2 (\<lambda>p. page_put kino (pg_index (fr p) + 1) p) (filter (\<lambda>p. page_inside (i_size i) (fr p)) ps) (concat (map t_bufs ts) @ tbs)"
      "\<forall>t \<in> set ts. txn_sized t" "length tbs \<le> length ps mod LIGHTFS_TXN_LIMIT"
    by blast
  have fold: "fold (\<lambda>p fr. upd_page fr p (\<lambda>g. g\<lparr>pg_dirty := pg_dirty g \<or> (0 :: int) \<noteq> 0, pg_locked := False\<rparr>)) ps (cut_pages (i_size i) (set ps) fr) =
      (\<lambda>p. if p \<in> set ps then unlocked_cut (i_size i) (fr p) else fr p)"
    unfolding unlock_pages by (simp add: unlocked_cut_def fun_eq_iff)
  show ?thesis
  proof (cases "length ps mod LIGHTFS_TXN_LIMIT = 0")
    case True
    then have "tbs = []" using w(4) by simp
    then show ?thesis
      using w True assms(2) fold by (intro exI [of _ ts])
        (simp add: lightfs_writepages_write_pages_def key_is_same_of_key_def)
  next
    case False
    have "length tbs \<le> LIGHTFS_TXN_LIMIT" using w(4) by (simp add: LIGHTFS_TXN_LIMIT_def)
    from commit_txn_of [OF this, of e "s\<lparr>f_hd := queued (f_hd s) ts\<rparr>"] obtain us where
      us: "txn_commit e (s\<lparr>f_hd := queued (f_hd s) ts\<rparr>) (txn_of tbs) = s\<lparr>f_hd := queued (f_hd s) (ts @ us)\<rparr>"
        "concat (map t_bufs us) = tbs" "\<forall>t \<in> set us. txn_sized t"
      by (auto simp: queued_queued)
    have "lightfs_writepages_write_pages e s ino fr ps d =
        Some (0, s\<lparr>f_hd := queued (f_hd s) (ts @ us)\<rparr>, \<lambda>p. if p \<in> set ps then unlocked_cut (i_size i) (fr p) else fr p)"
      using w(1) False assms(2) fold us(1) by (simp add: lightfs_writepages_write_pages_def key_is_same_of_key_def)
    then show ?thesis using w(2,3) us(2,3) by (intro exI [of _ "ts @ us"]) auto
  qed
qed

section \<open>The walk\<close>

text \<open>A page on the list, and a page written.\<close>

definition on_list :: "page \<Rightarrow> page" where
  "on_list g = g\<lparr>pg_locked := True, pg_dirty := False, pg_writeback := True\<rparr>"

definition written :: "u64 \<Rightarrow> page \<Rightarrow> page" where
  "written isz g = g\<lparr>pg_data := cut_data isz g, pg_locked := False, pg_dirty := False, pg_writeback := True\<rparr>"

text \<open>
  What holds when the pages \<open>ds\<close> have been taken: some of them have been written, in
  transactions that are queued, and the rest is on the list.
\<close>

definition wp_inv :: "fs \<Rightarrow> frames \<Rightarrow> inode \<Rightarrow> nat list \<Rightarrow> wp \<Rightarrow> bool" where
  "wp_inv s fr i ds w \<longleftrightarrow>
     (\<exists>fl ts. ds = fl @ wp_list w
        \<and> wp_fs w = s\<lparr>f_hd := queued (f_hd s) ts\<rparr>
        \<and> list_all2 (\<lambda>p. page_put (i_ino i) (pg_index (fr p) + 1) p) (filter (\<lambda>p. page_inside (i_size i) (fr p)) fl) (concat (map t_bufs ts)) \<and> (\<forall>t \<in> set ts. txn_sized t)
        \<and> wp_frames w = (\<lambda>p. if p \<in> set fl then written (i_size i) (fr p) else if p \<in> set (wp_list w) then on_list (fr p) else fr p))
     \<and> wp_ret w = 0 \<and> \<not> wp_done w \<and> \<not> wp_stop w"

text \<open>The key the walk writes with: of the inode, in a buffer that is larger.\<close>

definition data_key_dbt :: "inode \<Rightarrow> dbt \<Rightarrow> bool" where
  "data_key_dbt i d \<longleftrightarrow> (\<exists>bn rest. d_data d = Some (data_key_of (i_ino i) bn @ rest)) \<and> d_size d = 17"

lemma cut_on_list: "unlocked_cut isz (on_list g) = written isz g"
  by (simp add: unlocked_cut_def on_list_def written_def cut_data_def Let_def)

lemma wp_flush_ok:
  assumes "memory_ok (k_km (e_k e))" and "f_icache s ino = Some i" and "data_key_dbt i d"
    and "\<forall>p \<in> set ds. length (pg_data (fr p)) = PAGE_SIZE" and "distinct ds" and "wp_inv s fr i ds w"
  shows "\<exists>w'. wp_flush e ino d w = Some w' \<and> wp_inv s fr i ds w' \<and> wp_list w' = []"
proof -
  from assms(6) obtain fl ts where
    w: "ds = fl @ wp_list w" "wp_fs w = s\<lparr>f_hd := queued (f_hd s) ts\<rparr>"
      "list_all2 (\<lambda>p. page_put (i_ino i) (pg_index (fr p) + 1) p) (filter (\<lambda>p. page_inside (i_size i) (fr p)) fl) (concat (map t_bufs ts))" "\<forall>t \<in> set ts. txn_sized t"
      "wp_frames w = (\<lambda>p. if p \<in> set fl then written (i_size i) (fr p) else if p \<in> set (wp_list w) then on_list (fr p) else fr p)"
      "wp_ret w = 0" "\<not> wp_done w" "\<not> wp_stop w"
    unfolding wp_inv_def by blast
  have listed: "wp_frames w p = on_list (fr p)" if "p \<in> set (wp_list w)" for p
    using that assms(5) w(1,5) by auto
  from assms(3) obtain bn rest where d: "d_data d = Some (data_key_of (i_ino i) bn @ rest)" "d_size d = 17"
    by (auto simp: data_key_dbt_def)
  have icache: "f_icache (wp_fs w) ino = Some i" using assms(2) w(2) by simp
  have inside: "\<forall>p \<in> set (wp_list w). length (pg_data (wp_frames w p)) = PAGE_SIZE"
    using assms(4) w(1) listed by (auto simp: on_list_def)
  from write_pages_ok [OF assms(1) icache inside d] obtain us where
    us: "lightfs_writepages_write_pages e (wp_fs w) ino (wp_frames w) (wp_list w) d =
          Some (0, s\<lparr>f_hd := queued (f_hd s) (ts @ us)\<rparr>,
                \<lambda>p. if p \<in> set (wp_list w) then unlocked_cut (i_size i) (wp_frames w p) else wp_frames w p)"
      "list_all2 (\<lambda>p. page_put (i_ino i) (pg_index (wp_frames w p) + 1) p)
         (filter (\<lambda>p. page_inside (i_size i) (wp_frames w p)) (wp_list w)) (concat (map t_bufs us))"
      "\<forall>t \<in> set us. txn_sized t"
    by (auto simp: w(2) queued_queued)
  have "filter (\<lambda>p. page_inside (i_size i) (wp_frames w p)) (wp_list w) = filter (\<lambda>p. page_inside (i_size i) (fr p)) (wp_list w)"
    by (rule filter_cong) (simp_all add: listed on_list_def page_inside_def)
  moreover have "list_all2 (\<lambda>p. page_put (i_ino i) (pg_index (fr p) + 1) p)
      (filter (\<lambda>p. page_inside (i_size i) (wp_frames w p)) (wp_list w)) (concat (map t_bufs us))"
    by (rule list_all2_mono [OF us(2)]) (simp add: w(5) on_list_def written_def split: if_splits)
  ultimately have "list_all2 (\<lambda>p. page_put (i_ino i) (pg_index (fr p) + 1) p) (filter (\<lambda>p. page_inside (i_size i) (fr p)) (wp_list w)) (concat (map t_bufs us))"
    by simp
  moreover have "(\<lambda>p. if p \<in> set (wp_list w) then unlocked_cut (i_size i) (wp_frames w p) else wp_frames w p) =
      (\<lambda>p. if p \<in> set (fl @ wp_list w) then written (i_size i) (fr p) else fr p)"
  proof
    fix p
    show "(if p \<in> set (wp_list w) then unlocked_cut (i_size i) (wp_frames w p) else wp_frames w p) =
        (if p \<in> set (fl @ wp_list w) then written (i_size i) (fr p) else fr p)"
    proof (cases "p \<in> set (wp_list w)")
      case True
      then show ?thesis using listed [OF True] by (simp add: cut_on_list)
    qed (simp add: w(5))
  qed
  ultimately show ?thesis
    using us w(1,3,4,6-8) unfolding wp_flush_def wp_inv_def
    by (auto intro!: exI [of _ ds] exI [of _ "ts @ us"] list_all2_appendI)
qed

lemma wp_inv_frame [simp]:
  "wp_inv s fr i ds (w\<lparr>wp_nr_to_write := n\<rparr>) = wp_inv s fr i ds w"
  "wp_inv s fr i ds (w\<lparr>wp_txn_done_index := x\<rparr>) = wp_inv s fr i ds w"
  "wp_inv s fr i ds (w\<lparr>wp_nr_to_write := n, wp_done := wp_done w\<rparr>) = wp_inv s fr i ds w"
  by (simp_all add: wp_inv_def cong: if_cong)

lemma wp_inv_going: "wp_inv s fr i ds w \<Longrightarrow> \<not> wp_done w \<and> \<not> wp_stop w"
  by (simp add: wp_inv_def)

lemma wp_take_ok:
  assumes "memory_ok (k_km (e_k e))" and "f_icache s ino = Some i" and "data_key_dbt i d"
    and "\<forall>p \<in> set (ds @ [p]). length (pg_data (fr p)) = PAGE_SIZE" and "distinct (ds @ [p])" and "wp_inv s fr i ds w" and "wc_node c"
    and v: "v = w\<lparr>wp_txn_done_index := x, wp_frames := upd_page (wp_frames w) p (\<lambda>g. g\<lparr>pg_locked := True\<rparr>)\<rparr>"
  shows "\<exists>w'. wp_take c e ino d True p v = Some w' \<and> wp_inv s fr i (ds @ [p]) w'"
proof -
  define u where "u = v\<lparr>wp_frames := upd_page (wp_frames v) p (\<lambda>g. g\<lparr>pg_dirty := False, pg_writeback := True\<rparr>),
              wp_list := wp_list v @ [p]\<rparr>"
  have inv: "wp_inv s fr i (ds @ [p]) u"
    using assms(5,6) unfolding wp_inv_def u_def v by (auto simp: upd_page_def on_list_def fun_eq_iff)
  have "\<exists>w'. (if length (wp_list u) \<ge> LIGHTFS_WRITEPAGES_LIST_SIZE then wp_flush e ino d u else Some u) = Some w' \<and> wp_inv s fr i (ds @ [p]) w'"
    using wp_flush_ok [OF assms(1-5) inv] inv by auto
  then obtain w' where "(if length (wp_list u) \<ge> LIGHTFS_WRITEPAGES_LIST_SIZE then wp_flush e ino d u else Some u) = Some w'"
      "wp_inv s fr i (ds @ [p]) w'" by blast
  then show ?thesis
    using assms(7) wp_inv_going [of s fr i "ds @ [p]" w'] by (simp add: wp_take_def u_def [symmetric] Let_def)
qed

text \<open>A page as a synchronous write-back wants to find it.\<close>

definition page_ready :: "wp_ctx \<Rightarrow> nat \<Rightarrow> page \<Rightarrow> bool" where
  "page_ready c p g \<longleftrightarrow> length (pg_data g) = PAGE_SIZE \<and> pg_dirty g \<and> \<not> pg_locked g \<and> \<not> pg_writeback g \<and> wc_mapped c p"

lemma wp_inv_other: "wp_inv s fr i ds w \<Longrightarrow> p \<notin> set ds \<Longrightarrow> wp_frames w p = fr p"
  by (auto simp: wp_inv_def)

lemma wp_inv_index: "wp_inv s fr i ds w \<Longrightarrow> pg_index (wp_frames w p) = pg_index (fr p)"
  by (auto simp: wp_inv_def written_def on_list_def)

lemma wp_inv_clean: "wp_inv s fr i ds w \<Longrightarrow> p \<in> set ds \<Longrightarrow> \<not> pg_dirty (wp_frames w p)"
  by (auto simp: wp_inv_def written_def on_list_def split: if_splits)

lemma wp_pages_ok:
  assumes "memory_ok (k_km (e_k e))" and "f_icache s ino = Some i" and "data_key_dbt i d" and "wc_node c"
    and "distinct (ds @ ps)" and "\<forall>p \<in> set ds. length (pg_data (fr p)) = PAGE_SIZE"
    and "\<forall>p \<in> set ps. page_ready c p (fr p) \<and> pg_index (fr p) \<le> to" and "wp_inv s fr i ds w"
  shows "\<exists>w'. wp_pages c e ino d True to ps w = Done w' \<and> wp_inv s fr i (ds @ ps) w'"
  using assms(5-8)
proof (induction ps arbitrary: ds w)
  case Nil
  then show ?case by simp
next
  case (Cons p ps)
  have p: "wp_frames w p = fr p" using wp_inv_other [OF Cons.prems(4)] Cons.prems(1) by simp
  have ready: "page_ready c p (fr p)" "pg_index (fr p) \<le> to" using Cons.prems(3) by auto
  have inside: "\<forall>p \<in> set (ds @ [p]). length (pg_data (fr p)) = PAGE_SIZE" "distinct (ds @ [p])"
    using Cons.prems(1,2) ready by (auto simp: page_ready_def)
  from wp_take_ok [OF assms(1-3) inside Cons.prems(4) assms(4) refl] obtain w' where
    w': "wp_take c e ino d True p (w\<lparr>wp_txn_done_index := pg_index (fr p), wp_frames := upd_page (wp_frames w) p (\<lambda>g. g\<lparr>pg_locked := True\<rparr>)\<rparr>) = Some w'"
      "wp_inv s fr i (ds @ [p]) w'" by blast
  have "wp_pages c e ino d True to (p # ps) w = wp_pages c e ino d True to ps w'"
    using w'(1) ready(1) wp_inv_going [OF w'(2)] by (simp add: Let_def p page_ready_def leD [OF ready(2)])
  moreover have "distinct ((ds @ [p]) @ ps)" using Cons.prems(1) by simp
  ultimately show ?case using Cons.IH [OF _ inside(1) _ w'(2)] Cons.prems(3) by simp
qed

section \<open>The whole walk\<close>

text \<open>
  What \<open>pagevec_lookup_range_tag\<close> and \<open>tag_pages_for_writeback\<close> are documented to answer
  for a mapping with the pages \<open>M\<close>: the first 15 pages of the range that carry the tag, with
  the index behind the last of them, or behind the range when there are fewer.
\<close>

definition tagged_pages :: "nat list \<Rightarrow> nat list option \<Rightarrow> frames \<Rightarrow> u64 \<Rightarrow> u64 \<Rightarrow> nat list" where
  "tagged_pages M tag fr index to =
     filter (\<lambda>p. pg_dirty (fr p) \<and> (case tag of None \<Rightarrow> True | Some T \<Rightarrow> p \<in> set T) \<and> index \<le> pg_index (fr p) \<and> pg_index (fr p) \<le> to) M"

definition page_cache :: "nat list \<Rightarrow> wp_ctx \<Rightarrow> bool" where
  "page_cache M c \<longleftrightarrow>
     (\<forall>fr index to. wc_tag c fr index to = tagged_pages M None fr index to)
     \<and> (\<forall>tag fr index to. wc_lookup c tag fr index to =
          (let ps = tagged_pages M tag fr index to in
           if length ps < 15 then (ps, if to = - 1 then - 1 else to + 1) else (take 15 ps, pg_index (fr (ps ! 14)) + 1)))"

text \<open>The pages are kept in the order of their indices.\<close>

definition indexed :: "frames \<Rightarrow> nat list \<Rightarrow> bool" where
  "indexed fr M \<longleftrightarrow> sorted_wrt (\<lambda>p q. pg_index (fr p) < pg_index (fr q)) M"

lemma indexed_distinct: "indexed fr M \<Longrightarrow> distinct M"
  unfolding indexed_def by (induction M) auto

lemma tagged_rest:
  assumes "indexed fr M" and "C = tagged_pages M None fr i0 to" and "C = ds @ rest" and "\<forall>p \<in> set rest. index \<le> pg_index (fr p)"
    and "wp_inv s fr i ds w"
  shows "tagged_pages M (Some C) (wp_frames w) index to = rest"
proof -
  let ?Q = "\<lambda>p. pg_dirty (fr p) \<and> i0 \<le> pg_index (fr p) \<and> pg_index (fr p) \<le> to"
  have C: "C = filter ?Q M" using assms(2) by (simp add: tagged_pages_def)
  have "distinct C" using indexed_distinct [OF assms(1)] C by simp
  have "tagged_pages M (Some C) (wp_frames w) index to = filter (\<lambda>p. p \<notin> set ds) (filter ?Q M)"
    unfolding tagged_pages_def filter_filter
  proof (rule filter_cong [OF refl])
    fix p assume "p \<in> set M"
    then have mem: "p \<in> set C \<longleftrightarrow> ?Q p" using C by simp
    show "(pg_dirty (wp_frames w p) \<and> (case Some C of None \<Rightarrow> True | Some T \<Rightarrow> p \<in> set T) \<and>
        index \<le> pg_index (wp_frames w p) \<and> pg_index (wp_frames w p) \<le> to) = (?Q p \<and> p \<notin> set ds)"
    proof (cases "p \<in> set ds")
      case True
      then show ?thesis using wp_inv_clean [OF assms(5)] by simp
    next
      case False
      then show ?thesis using wp_inv_other [OF assms(5)] mem assms(3,4) by auto
    qed
  qed
  also have "\<dots> = filter (\<lambda>p. p \<notin> set ds) (ds @ rest)" using C assms(3) by simp
  also have "\<dots> = rest" using \<open>distinct C\<close> assms(3) by (auto simp: filter_id_conv)
  finally show ?thesis .
qed

lemma wp_loop_ok:
  assumes "memory_ok (k_km (e_k e))" and "f_icache s ino = Some i" and "data_key_dbt i d" and "wc_node c" and "page_cache M c"
    and "indexed fr M" and C: "C = tagged_pages M None fr i0 to" and ready: "\<forall>p \<in> set C. page_ready c p (fr p)"
    and "C = ds @ rest" and "\<forall>p \<in> set rest. index \<le> pg_index (fr p)" and "wp_inv s fr i ds w" and "length rest < n"
  shows "\<exists>w'. wp_loop n c e ino d True (Some C) index to w = Done w' \<and> wp_inv s fr i C w'"
  using assms(9-12)
proof (induction n arbitrary: ds rest index w)
  case (Suc n)
  note going = wp_inv_going [OF Suc.prems(3)]
  have range: "\<forall>p \<in> set C. pg_index (fr p) \<le> to" by (simp add: C tagged_pages_def)
  have distinct: "distinct C" using indexed_distinct [OF assms(6)] by (simp add: C tagged_pages_def)
  have sorted: "sorted_wrt (\<lambda>p q. pg_index (fr p) < pg_index (fr q)) C"
    using assms(6) unfolding C tagged_pages_def indexed_def by (rule sorted_wrt_filter)
  have tagged: "tagged_pages M (Some C) (wp_frames w) index to = rest" by (rule tagged_rest [OF assms(6) C Suc.prems(1-3)])
  show ?case
  proof (cases "rest = []")
    case True
    then have "wc_lookup c (Some C) (wp_frames w) index to = ([], if to = - 1 then - 1 else to + 1)"
      using assms(5) tagged unfolding page_cache_def by (simp add: Let_def)
    then show ?thesis using True Suc.prems(1,3) by auto
  next
    case False
    define index' where "index' = (if length rest < 15 then if to = - 1 then - 1 else to + 1 else pg_index (fr (rest ! 14)) + 1)"
    have look: "wc_lookup c (Some C) (wp_frames w) index to = (take 15 rest, index')"
      using assms(5) tagged unfolding page_cache_def index'_def by (simp add: Let_def wp_inv_index [OF Suc.prems(3)])
    have "index \<le> to" using False Suc.prems(1,2) range by (cases rest) (auto intro: order_trans)
    have "distinct (ds @ take 15 rest)" using distinct Suc.prems(1) by (metis append_assoc append_take_drop_id distinct_append)
    moreover have "\<forall>p \<in> set ds. length (pg_data (fr p)) = PAGE_SIZE" using ready Suc.prems(1) by (auto simp: page_ready_def)
    moreover have "\<forall>p \<in> set (take 15 rest). page_ready c p (fr p) \<and> pg_index (fr p) \<le> to"
      using ready range Suc.prems(1) by (auto dest: in_set_takeD)
    ultimately obtain w' where w': "wp_pages c e ino d True to (take 15 rest) w = Done w'" "wp_inv s fr i (ds @ take 15 rest) w'"
      using wp_pages_ok [OF assms(1-4) _ _ _ Suc.prems(3)] by blast
    have step: "wp_loop (Suc n) c e ino d True (Some C) index to w = wp_loop n c e ino d True (Some C) index' to w'"
      using look going \<open>index \<le> to\<close> w'(1) wp_inv_going [OF w'(2)] False
      by (cases "take 15 rest") (simp_all del: wp_pages.simps)
    have "\<forall>p \<in> set (drop 15 rest). index' \<le> pg_index (fr p)"
    proof
      fix p assume p: "p \<in> set (drop 15 rest)"
      then have len: "\<not> length rest < 15" by auto
      from p obtain k where "k < length rest - 15" "p = rest ! (15 + k)" by (auto simp: in_set_conv_nth add.commute)
      moreover have "sorted_wrt (\<lambda>p q. pg_index (fr p) < pg_index (fr q)) rest"
        using sorted Suc.prems(1) by (simp add: sorted_wrt_append)
      ultimately have "pg_index (fr (rest ! 14)) < pg_index (fr p)" by (auto simp: sorted_wrt_iff_nth_less)
      then show "index' \<le> pg_index (fr p)" using len by (simp add: index'_def inc_le)
    qed
    moreover have "C = (ds @ take 15 rest) @ drop 15 rest" using Suc.prems(1) by simp
    moreover have "length (drop 15 rest) < n" using False Suc.prems(4) by (cases rest) auto
    ultimately show ?thesis using step Suc.IH w'(2) by metis
  qed
qed simp

lemma wp_round_ok:
  assumes "memory_ok (k_km (e_k e))" and "f_icache s ino = Some i" and "wc_node c" and "page_cache M c" and "indexed fr M"
    and C: "C = tagged_pages M None fr index to" and "\<forall>p \<in> set C. page_ready c p (fr p)" and "length C < n"
    and "wbc_sync_all wbc" and w: "wp_fs w = s" "wp_frames w = fr" "\<not> wp_done w"
  shows "\<exists>w' ts. wp_round n c e ino wbc index to w = Done w' \<and> wp_ret w' = 0 \<and> wp_fs w' = s\<lparr>f_hd := queued (f_hd s) ts\<rparr>
           \<and> wp_frames w' = (\<lambda>p. if p \<in> set C then written (i_size i) (fr p) else fr p)
           \<and> list_all2 (\<lambda>p. page_put (i_ino i) (pg_index (fr p) + 1) p) (filter (\<lambda>p. page_inside (i_size i) (fr p)) C) (concat (map t_bufs ts)) \<and> (\<forall>t \<in> set ts. txn_sized t)"
proof -
  obtain b where b: "k_km (e_k e) DATA_KEY_MAX_LEN = Some b" "length b = DATA_KEY_MAX_LEN"
    using assms(1) by (auto simp: memory_ok_def)
  define d where "d = \<lparr>d_data = Some (data_key_of (i_ino i) 0 @ drop 17 b), d_size = 17, d_ulen = of_nat DATA_KEY_MAX_LEN, d_flags = DB_DBT_USERMEM\<rparr>"
  have alloc: "dbt_alloc (k_km (e_k e)) dbt_init DATA_KEY_MAX_LEN =
      (0, \<lparr>d_data = Some b, d_size = 0, d_ulen = of_nat DATA_KEY_MAX_LEN, d_flags = DB_DBT_USERMEM\<rparr>)"
    using b by (simp add: dbt_alloc_def)
  have copy: "copy_data_dbt_from_inode \<lparr>d_data = Some b, d_size = 0, d_ulen = of_nat DATA_KEY_MAX_LEN, d_flags = DB_DBT_USERMEM\<rparr> (i_ino i) 0 = Some d"
    using b(2) by (simp add: copy_data_dbt_from_inode_def key_pos_defs write_data_key d_def DATA_KEY_MAX_LEN_def META_KEY_MAX_LEN_def)
  have d: "data_key_dbt i d" by (auto simp: data_key_dbt_def d_def)
  define v where "v = w\<lparr>wp_done_index := index, wp_txn_done_index := index, wp_ret := 0, wp_stop := False, wp_list := []\<rparr>"
  have inv: "wp_inv s fr i [] v"
    using w unfolding wp_inv_def v_def by (auto intro!: exI [of _ "[]"] simp: queued_def)
  have "\<forall>p \<in> set C. index \<le> pg_index (fr p)" by (simp add: C tagged_pages_def)
  from wp_loop_ok [OF assms(1,2) d assms(3-7) _ this inv assms(8)] obtain u where
    u: "wp_loop n c e ino d True (Some C) index to v = Done u" "wp_inv s fr i C u" by auto
  have "distinct C" using indexed_distinct [OF assms(5)] by (simp add: C tagged_pages_def)
  moreover have "\<forall>p \<in> set C. length (pg_data (fr p)) = PAGE_SIZE" using assms(7) by (auto simp: page_ready_def)
  ultimately have "\<exists>u'. (if wp_list u = [] then Some u else wp_flush e ino d u) = Some u' \<and> wp_inv s fr i C u' \<and> wp_list u' = []"
    using wp_flush_ok [OF assms(1,2) d _ _ u(2)] u(2) by (cases "wp_list u = []") auto
  then obtain u' where u': "(if wp_list u = [] then Some u else wp_flush e ino d u) = Some u'" "wp_inv s fr i C u'" "wp_list u' = []"
    by blast
  have fs: "wp_fs v = s" using w(1) by (simp add: v_def)
  have tag: "wc_tag c fr index to = C" using assms(4) C by (simp add: page_cache_def)
  have "wp_round n c e ino wbc index to w = Done u'"
    using assms(2,9) tag fs u(1) u'(1) wp_inv_going [OF u(2)]
    by (cases "wp_list u = []") (simp_all add: wp_round_def alloc copy v_def [symmetric] w(2))
  then show ?thesis using u'(2,3) by (auto simp: wp_inv_def cong: if_cong)
qed

text \<open>The request that stores a page of the file.\<close>

definition page_request :: "inode \<Rightarrow> page \<Rightarrow> wire" where
  "page_request i g = W_set 8 (data_key_of (i_ino i) (pg_index g + 1)) 0 (cut_data (i_size i) g)"

lemma put_request:
  assumes "page_put (i_ino i) (pg_index g + 1) p tb" and "pages p = cut_data (i_size i) g" and "length (pg_data g) = PAGE_SIZE"
  shows "wire_of pages tb = Some (page_request i g)"
proof -
  have "length (cut_data (i_size i) g) = 4096" using page_cut_again(1) [OF assms(3)] by (simp add: PAGE_SIZE_def)
  then show ?thesis using assms(1,2) by (simp add: page_put_def wire_of_def tb_value_def page_request_def)
qed

lemma writepages_ok:
  assumes "memory_ok (k_km (e_k e))" and "f_icache s ino = Some i" and "wc_node c" and "page_cache M c" and "indexed fr M"
    and "\<not> wbc_range_cyclic wbc" and "wbc_sync_all wbc"
    and C: "C = tagged_pages M None fr (signed_drop_bit 12 (wbc_range_start wbc)) (signed_drop_bit 12 (wbc_range_end wbc))"
    and "\<forall>p \<in> set C. page_ready c p (fr p)" and "length C < n"
  shows "\<exists>ts fr' x. lightfs_writepages n c e s ino fr wi wbc = Done (0, s\<lparr>f_hd := queued (f_hd s) ts\<rparr>, fr', x)
           \<and> map (wire_of (\<lambda>p. pg_data (fr' p))) (concat (map t_bufs ts)) = map (\<lambda>p. Some (page_request i (fr p))) (filter (\<lambda>p. page_inside (i_size i) (fr p)) C)
           \<and> (\<forall>t \<in> set ts. txn_sized t) \<and> fr' = (\<lambda>p. if p \<in> set C then written (i_size i) (fr p) else fr p)"
proof -
  let ?index = "signed_drop_bit 12 (wbc_range_start wbc)" and ?to = "signed_drop_bit 12 (wbc_range_end wbc)"
  let ?fr = "\<lambda>p. if p \<in> set C then written (i_size i) (fr p) else fr p" and ?D = "filter (\<lambda>p. page_inside (i_size i) (fr p)) C"
  define w where "w = \<lparr>wp_ret = 0, wp_done = False, wp_stop = False, wp_done_index = ?index, wp_txn_done_index = ?index, wp_list = [],
               wp_nr_to_write = wbc_nr_to_write wbc, wp_fs = s, wp_frames = fr\<rparr>"
  from wp_round_ok [OF assms(1-5) C assms(9,10,7), of w] obtain w' ts where
    w': "wp_round n c e ino wbc ?index ?to w = Done w'" "wp_ret w' = 0" "wp_fs w' = s\<lparr>f_hd := queued (f_hd s) ts\<rparr>" "wp_frames w' = ?fr"
    and ts: "list_all2 (\<lambda>p. page_put (i_ino i) (pg_index (fr p) + 1) p) (filter (\<lambda>p. page_inside (i_size i) (fr p)) C) (concat (map t_bufs ts))" "\<forall>t \<in> set ts. txn_sized t"
    by (auto simp: w_def)
  have "map (wire_of (\<lambda>p. pg_data (?fr p))) (concat (map t_bufs ts)) = map (\<lambda>p. Some (page_request i (fr p))) ?D"
  proof (rule nth_equalityI)
    fix k assume "k < length (map (wire_of (\<lambda>p. pg_data (?fr p))) (concat (map t_bufs ts)))"
    then have k: "k < length ?D" "k < length (concat (map t_bufs ts))" using list_all2_lengthD [OF ts(1)] by simp_all
    then have put: "page_put (i_ino i) (pg_index (fr (?D ! k)) + 1) (?D ! k) (concat (map t_bufs ts) ! k)" using list_all2_nthD [OF ts(1)] by simp
    have "?D ! k \<in> set C" using nth_mem [OF k(1)] by simp
    then have "wire_of (\<lambda>p. pg_data (?fr p)) (concat (map t_bufs ts) ! k) = Some (page_request i (fr (?D ! k)))"
      using put assms(9) by (intro put_request [where g = "fr (?D ! k)" and p = "?D ! k"]) (simp_all add: written_def page_ready_def)
    then show "map (wire_of (\<lambda>p. pg_data (?fr p))) (concat (map t_bufs ts)) ! k = map (\<lambda>p. Some (page_request i (fr p))) ?D ! k"
      using k by simp
  qed (simp add: list_all2_lengthD [OF ts(1)])
  moreover have "\<exists>x. lightfs_writepages n c e s ino fr wi wbc = Done (0, s\<lparr>f_hd := queued (f_hd s) ts\<rparr>, ?fr, x)"
    using assms(6) w' by (simp add: lightfs_writepages_def w_def [symmetric])
  ultimately show ?thesis using ts(2) by blast
qed

section \<open>Properties\<close>

text \<open>
  Property C6: what a synchronous write-back of a range of pages writes, when every dirty page
  of the range is mapped, unlocked and not already being written.  It returns, after at most
  one lookup more than there are dirty pages, with 0.  The transactions it has queued hold,
  for the dirty pages that have a byte inside the file, in their order and each once, the
  request to store the whole page as the block of the file with its index plus one, where the
  bytes behind the end of the file are cleared; none of them holds more than
  \<open>LIGHTFS_TXN_LIMIT\<close> requests or none.  A dirty page that lies all behind the end of the file
  gets no request.  All dirty pages of the range, that one too, are then clean, unlocked and
  marked as being written; no other page and nothing else of the file system changes.
\<close>

theorem writepages_writes_dirty:
  assumes "memory_ok (k_km (e_k e))" and "f_icache s ino = Some i" and "wc_node c" and "page_cache M c" and "indexed fr M"
    and "\<not> wbc_range_cyclic wbc" and "wbc_sync_all wbc"
    and "C = tagged_pages M None fr (signed_drop_bit 12 (wbc_range_start wbc)) (signed_drop_bit 12 (wbc_range_end wbc))"
    and "\<forall>p \<in> set C. page_ready c p (fr p)" and "length C < n"
  shows "\<exists>ts fr' x. lightfs_writepages n c e s ino fr wi wbc = Done (0, s\<lparr>f_hd := queued (f_hd s) ts\<rparr>, fr', x)
           \<and> map (wire_of (\<lambda>p. pg_data (fr' p))) (concat (map t_bufs ts)) = map (\<lambda>p. Some (page_request i (fr p))) (filter (\<lambda>p. page_inside (i_size i) (fr p)) C)
           \<and> (\<forall>t \<in> set ts. txn_sized t) \<and> fr' = (\<lambda>p. if p \<in> set C then written (i_size i) (fr p) else fr p)"
  by (rule writepages_ok [OF assms])

text \<open>A file of 8292 bytes with four pages, of which the first is clean and the last is behind its end.\<close>

definition sample_cache :: "nat list \<Rightarrow> wp_ctx" where
  "sample_cache M =
     \<lparr>wc_tag = tagged_pages M None,
      wc_lookup = (\<lambda>tag fr index to.
        let ps = tagged_pages M tag fr index to in
        if length ps < 15 then (ps, if to = - 1 then - 1 else to + 1) else (take 15 ps, pg_index (fr (ps ! 14)) + 1)),
      wc_mapped = (\<lambda>p. True), wc_node = True\<rparr>"

definition sample_pages :: frames where
  "sample_pages p = \<lparr>pg_index = of_nat p, pg_data = replicate 4096 (of_nat p), pg_uptodate = True, pg_error = False, pg_locked = False,
                     pg_dirty = (p \<noteq> 0), pg_writeback = False\<rparr>"

definition sample_written :: inode where
  "sample_written = sample_file\<lparr>i_ino := 7, i_size := 8292\<rparr>"

definition sample_wbc :: writeback_control where
  "sample_wbc = \<lparr>wbc_range_cyclic = False, wbc_range_start = 0, wbc_range_end = 9223372036854775807, wbc_sync_all = True,
                 wbc_tagged = False, wbc_nr_to_write = 9223372036854775807\<rparr>"

theorem writepages_writes_dirty_witness:
  "\<exists>ts fr' x. lightfs_writepages 4 (sample_cache [0, 1, 2, 3]) sample_env (sample_files\<lparr>f_icache := [7 \<mapsto> sample_written]\<rparr>) 7 sample_pages 0 sample_wbc
       = Done (0, sample_files\<lparr>f_icache := [7 \<mapsto> sample_written], f_hd := queued (f_hd sample_files) ts\<rparr>, fr', x)
     \<and> map (wire_of (\<lambda>p. pg_data (fr' p))) (concat (map t_bufs ts)) =
         [Some (W_set 8 (data_key_of 7 2) 0 (replicate 4096 1)),
          Some (W_set 8 (data_key_of 7 3) 0 (replicate 100 2 @ replicate 3996 0))]
     \<and> \<not> pg_dirty (fr' 2) \<and> pg_writeback (fr' 1) \<and> pg_writeback (fr' 3)"
proof -
  let ?c = "sample_cache [0, 1, 2, 3]" and ?C = "[1, 2, 3 :: nat]" and ?s = "sample_files\<lparr>f_icache := [7 \<mapsto> sample_written]\<rparr>"
  have cache: "page_cache [0, 1, 2, 3] ?c" by (simp add: page_cache_def sample_cache_def)
  have sorted: "indexed sample_pages [0, 1, 2, 3]" by (simp add: indexed_def sample_pages_def)
  have range: "signed_drop_bit 12 (wbc_range_start sample_wbc) = 0" "signed_drop_bit 12 (wbc_range_end sample_wbc) = 2251799813685247"
    by code_simp+
  have C: "?C = tagged_pages [0, 1, 2, 3] None sample_pages (signed_drop_bit 12 (wbc_range_start sample_wbc)) (signed_drop_bit 12 (wbc_range_end sample_wbc))"
    unfolding range by (simp add: tagged_pages_def sample_pages_def)
  have size: "drop_bit 12 (8292 :: u64) = 2" "block_get_off_by_position 8292 = 100" by code_simp+
  have inode: "i_ino sample_written = 7" "i_size sample_written = 8292" by (simp_all add: sample_written_def)
  have ready: "\<forall>p \<in> set ?C. page_ready ?c p (sample_pages p)"
    by (simp add: page_ready_def sample_pages_def sample_cache_def PAGE_SIZE_def)
  have inside: "filter (\<lambda>p. page_inside (i_size sample_written) (sample_pages p)) ?C = [1, 2]"
    by (simp add: page_inside_def size inode) (simp add: sample_pages_def)
  have image: "cut_data 8292 (sample_pages 1) = replicate 4096 1" "cut_data 8292 (sample_pages 2) = replicate 100 2 @ replicate 3996 0"
    by (simp_all add: cut_data_def size sample_pages_def PAGE_SIZE_def)
  have fs: "f_icache ?s 7 = Some sample_written" by simp
  have others: "memory_ok (k_km (e_k sample_env))" "wc_node ?c" "\<not> wbc_range_cyclic sample_wbc" "wbc_sync_all sample_wbc"
    using sample_env_ok by (simp_all add: env_ok_def kern_ok_def sample_cache_def sample_wbc_def)
  have "length ?C < 4" by simp
  from writepages_writes_dirty [OF others(1) fs others(2) cache sorted others(3,4) C ready this, of 0, unfolded inside] obtain ts fr' x where
    r: "lightfs_writepages 4 ?c sample_env ?s 7 sample_pages 0 sample_wbc = Done (0, ?s\<lparr>f_hd := queued (f_hd ?s) ts\<rparr>, fr', x)"
    "map (wire_of (\<lambda>p. pg_data (fr' p))) (concat (map t_bufs ts)) = map (\<lambda>p. Some (page_request sample_written (sample_pages p))) [1, 2]"
    "fr' = (\<lambda>p. if p \<in> set ?C then written (i_size sample_written) (sample_pages p) else sample_pages p)"
    by blast
  have "map (\<lambda>p. Some (page_request sample_written (sample_pages p))) [1, 2] =
      [Some (W_set 8 (data_key_of 7 2) 0 (replicate 4096 1)), Some (W_set 8 (data_key_of 7 3) 0 (replicate 100 2 @ replicate 3996 0))]"
    using image by (simp add: page_request_def inode) (simp add: sample_pages_def)
  moreover have "\<not> pg_dirty (fr' 2)" "pg_writeback (fr' 1)" "pg_writeback (fr' 3)" unfolding r(3) by (simp_all add: written_def)
  ultimately show ?thesis using r(1,2) by (intro exI [of _ ts] exI [of _ fr'] exI [of _ x]) simp
qed

end
