(* ===== verification/Kevin_Readdir.thy ===== *)
theory Kevin_Readdir
  imports Kevin_Super_Thms
begin

text \<open>
  Listing a directory, \<open>lightfs_readdir\<close> of \<open>lightfs_super.c\<close> over the listing of the
  block store and the cursor of the metadata cache, and what a sequence of calls lists.
\<close>

section \<open>The call\<close>

text \<open>
  \<open>emit\<close> is \<open>dir_emit\<close> and \<open>dots\<close> is \<open>dir_emit_dots\<close>, with the state of the caller; both
  are functions of the VFS.  The open directory is the position of the file with the context it
  may point to; its \<open>pos\<close> is not set when it is made.  A position that is neither a small
  number nor the context is followed as a pointer, and so is the transaction of the context,
  which only the branch for the codes 1 and 2 sets: that branch goes on with the code as a key.
\<close>

definition lightfs_readdir ::
    "env \<Rightarrow> bool \<Rightarrow> bool \<Rightarrow> (file_pos \<Rightarrow> 'x \<Rightarrow> bool \<times> file_pos \<times> 'x) \<Rightarrow> (byte list \<Rightarrow> u64 \<Rightarrow> nat \<Rightarrow> 'x \<Rightarrow> int \<times> 'x) \<Rightarrow>
     fs \<Rightarrow> u64 \<Rightarrow> file_pos \<Rightarrow> readdir_ctx option \<Rightarrow> 'x \<Rightarrow> (int \<times> file_pos \<times> readdir_ctx option \<times> fs \<times> 'x) option" where
  "lightfs_readdir e ctx_failed cursor_failed dots emit s ino fpos ctx x = do {
     i \<leftarrow> f_icache s ino;
     let (ok, fpos, x) = (if fpos = Pos 0 \<or> fpos = Pos 1 then
                            let (ok, fpos, x) = dots fpos x in (ok, if ok then Pos 2 else fpos, x)
                          else (True, fpos, x));
     let list = (\<lambda>s ctx. do {
           (ret, fpos, ctx, c, x) \<leftarrow> lightfs_bstore_meta_readdir (e_k e) (e_dev e) (f_cache s) (i_ino i) (meta_dbt i) (e_meta e) emit fpos ctx x;
           Some (ret, fpos, Some ctx, s\<lparr>f_cache := c\<rparr>, x) });
     if \<not> ok then Some (- ENOMEM, fpos, ctx, s, x)
     else if fpos = Pos 2 then
       (case lightfs_dcache_cursor cursor_failed of
          Inl ret \<Rightarrow> Some (0, fpos, None, s, x)
        | Inr cursor \<Rightarrow> do {
            bug_on ctx_failed;
            list s \<lparr>rd_cursor = cursor, rd_pos = RD_code 0, rd_emit_cnt = 0\<rparr> })
     else do {
       bug_on (fpos \<noteq> Pos_ctx);
       dir_ctx \<leftarrow> ctx;
       if rd_pos dir_ctx = RD_code 0 then Some (0, Pos 3, None, s, x)
       else if rd_pos dir_ctx = RD_code 1 \<or> rd_pos dir_ctx = RD_code 2
       then list (snd (txn_begin TXN_READONLY s)) (dir_ctx\<lparr>rd_emit_cnt := 0\<rparr>)
       else do {
         bug_on (rd_pos dir_ctx = RD_code 3);
         list s dir_ctx } } }"

section \<open>The entries of a directory\<close>

text \<open>An entry of the tree of a directory, and what it is listed as.\<close>

definition dir_entry_ok :: "ht_cache \<Rightarrow> u64 \<Rightarrow> byte list \<times> nat \<Rightarrow> bool" where
  "dir_entry_ok c ino = (\<lambda>(key, a). \<exists>name it. key = meta_key_of ino name \<and> 0 \<notin> set name \<and> length key \<le> META_KEY_MAX_LEN
     \<and> hc_heap c a = Some it \<and> ci_key it = key \<and> md_type (ci_value it) \<noteq> LIGHTFS_METADATA_TYPE_REDIRECT)"

definition dirent :: "ht_cache \<Rightarrow> byte list \<times> nat \<Rightarrow> byte list \<times> u64 \<times> nat" where
  "dirent c = (\<lambda>(key, a).
     let v = (case hc_heap c a of None \<Rightarrow> [] | Some it \<Rightarrow> ci_value it) in
     (butlast (drop 9 key), md_st_ino v, lightfs_get_type (md_st_mode v)))"

text \<open>Showing entries to the caller until it takes no more: the entries left, and the caller's state.\<close>

fun emit_entries ::
    "(byte list \<Rightarrow> u64 \<Rightarrow> nat \<Rightarrow> 'x \<Rightarrow> int \<times> 'x) \<Rightarrow> ht_cache \<Rightarrow> (byte list \<times> nat) list \<Rightarrow> 'x \<Rightarrow> (byte list \<times> nat) list \<times> 'x" where
  "emit_entries emit c [] x = ([], x)"
| "emit_entries emit c (p # ps) x =
     (let (name, ino, ty) = dirent c p; (ret, x) = emit name ino ty x in
      if ret = 0 then (p # ps, x) else emit_entries emit c ps x)"

text \<open>The context of an open directory of which the entries \<open>ps\<close> are left to be listed.\<close>

definition listing_at :: "readdir_ctx \<Rightarrow> (byte list \<times> nat) list \<Rightarrow> bool" where
  "listing_at ctx ps \<longleftrightarrow>
     (case ps of
        [] \<Rightarrow> rd_pos ctx = RD_code 0
      | (key, a) # _ \<Rightarrow> rd_cursor ctx = \<lparr>dw_node = Some a, dw_right = None\<rparr>
          \<and> (\<exists>rest. rd_pos ctx = RD_key (key @ rest) \<and> length (key @ rest) = META_KEY_MAX_LEN))"

text \<open>The tree of a directory in the cache.\<close>

definition dir_tree :: "ht_cache \<Rightarrow> nat \<Rightarrow> nat kvtree \<Rightarrow> bool" where
  "dir_tree c p t \<longleftrightarrow> (\<exists>pit d. hc_heap c p = Some pit \<and> ci_dcache pit = Some d \<and> dc_root d = t)"

section \<open>Lemmas\<close>

lemma read_path_append [simp]: "0 \<notin> set name \<Longrightarrow> read_path (meta_key_of ino name @ rest) = Some name"
  by (simp add: read_path_def key_field_defs meta_key_of_def cstring_def) (subst takeWhile_append2, auto)

lemma child_of_append [simp]: "meta_key_is_child_of_ino (meta_key_of ino name @ rest) ino = Some True"
  by (simp add: meta_key_is_child_of_ino_def lightfs_key_get_ino_def meta_key_of_def key_pos_defs get_at_def load_store_be64)

lemma dir_entry_okI:
  assumes "hc_heap c a = Some it" and "ci_key it = meta_key_of ino name" and "0 \<notin> set name"
    and "length (meta_key_of ino name) \<le> META_KEY_MAX_LEN" and "md_type (ci_value it) \<noteq> LIGHTFS_METADATA_TYPE_REDIRECT"
  shows "dir_entry_ok c ino (meta_key_of ino name, a)"
  using assms by (auto simp: dir_entry_ok_def)

lemma dirent_meta: "hc_heap c a = Some it \<Longrightarrow>
    dirent c (meta_key_of ino name, a) = (name, md_st_ino (ci_value it), lightfs_get_type (md_st_mode (ci_value it)))"
  by (simp add: dirent_def meta_key_of_def Let_def)

lemma meta_value_buf: "length m = INODE_SIZE \<Longrightarrow> meta_buf (meta_value m)"
  by (simp add: meta_buf_def meta_value_def dbt_setup_def INODE_SIZE_def)

text \<open>The key buffer of a listing with an entry's key in it.\<close>

definition key_buf :: "byte list \<Rightarrow> byte list \<Rightarrow> dbt \<Rightarrow> bool" where
  "key_buf key rest d \<longleftrightarrow> d_data d = Some (key @ rest) \<and> d_size d = of_nat (length key) \<and> length (key @ rest) = META_KEY_MAX_LEN"

lemma emit_item_ok:
  assumes "d_data d = Some b" and "length b = META_KEY_MAX_LEN" and "length (ci_key it) \<le> META_KEY_MAX_LEN"
    and "length m = INODE_SIZE" and "length (ci_value it) = INODE_SIZE"
  shows "\<exists>d' vl rest. emit_item it d (meta_value m) = Some (d', vl) \<and> key_buf (ci_key it) rest d' \<and> meta_of vl = ci_value it"
  using assms by (auto simp: emit_item_def item_value_ok [OF meta_value_buf] key_buf_def meta_of_def put_at_def)

lemma tree_entry:
  assumes "cache_inv crc hmin c" and "dir_tree c p t" and "(key, a) \<in> set (inorder t)"
  shows "\<exists>it. hc_heap c a = Some it \<and> ci_key it = key \<and> ci_parent it = Some p \<and> length (ci_value it) = INODE_SIZE"
proof -
  from assms(2) obtain pit d where p: "hc_heap c p = Some pit" "ci_dcache pit = Some d" "dc_root d = t" by (auto simp: dir_tree_def)
  have ok: "table_ok crc hmin c" "dirs_ok c" using assms(1) by (simp_all add: cache_inv_def)
  have "kv_map t key = Some a"
    using kv_bst_distinct [OF dirs_okD(1) [OF ok(2) p(1,2)]] p(3) assms(3) by (simp add: kv_map_def)
  then have "children c p key a" using dirs_okD(2) [OF ok(2) p(1,2)] p(3) by simp
  then show ?thesis using ok(1) by (auto simp: children_def table_ok_def item_ok_def)
qed

lemma cursor_next:
  assumes "cache_inv crc hmin c" and "dir_tree c p t" and "inorder t = pre @ (key, a) # post"
    and "d_data d = Some b" and "length b = META_KEY_MAX_LEN" and "\<forall>q \<in> set post. dir_entry_ok c ino q" and "length m = INODE_SIZE"
  shows "case post of
      [] \<Rightarrow> lightfs_dcache_c_get crc hmin c \<lparr>dw_node = Some a, dw_right = None\<rparr> d (meta_value m) DB_NEXT =
              Some (DB_NOTFOUND_DCACHE_FULL, \<lparr>dw_node = None, dw_right = None\<rparr>, d, meta_value m)
    | (key', a') # _ \<Rightarrow> \<exists>d' vl rest jt.
        lightfs_dcache_c_get crc hmin c \<lparr>dw_node = Some a, dw_right = None\<rparr> d (meta_value m) DB_NEXT =
          Some (0, \<lparr>dw_node = Some a', dw_right = None\<rparr>, d', vl)
        \<and> key_buf key' rest d' \<and> hc_heap c a' = Some jt \<and> meta_of vl = ci_value jt"
proof -
  from assms(2) obtain pit dc where p: "hc_heap c p = Some pit" "ci_dcache pit = Some dc" "dc_root dc = t" by (auto simp: dir_tree_def)
  from tree_entry [OF assms(1,2)] assms(3) obtain it where
    it: "hc_heap c a = Some it" "ci_key it = key" "ci_parent it = Some p" by force
  have "kv_bst t" using assms(1) dirs_okD(1) [OF _ p(1,2)] p(3) by (simp add: cache_inv_def)
  from rb_next_eq [OF this assms(3)] have nx: "rb_next t key = (case post of [] \<Rightarrow> None | y # _ \<Rightarrow> Some y)" by simp
  show ?thesis
  proof (cases post)
    case Nil
    then show ?thesis using it p nx by (simp add: lightfs_dcache_c_get_def DB_NEXT_def DB_SET_RANGE_def c_get_next_def)
  next
    case (Cons q qs)
    obtain key' a' where q: "q = (key', a')" by (cases q)
    from tree_entry [OF assms(1,2), of key' a'] assms(3) Cons q obtain jt where
      jt: "hc_heap c a' = Some jt" "ci_key jt = key'" "length (ci_value jt) = INODE_SIZE" by auto
    have "length (ci_key jt) \<le> META_KEY_MAX_LEN" using assms(6) Cons q jt by (auto simp: dir_entry_ok_def)
    from emit_item_ok [OF assms(4,5) this assms(7) jt(3)] jt(2) obtain d' vl rest where
      "emit_item jt d (meta_value m) = Some (d', vl)" "key_buf key' rest d'" "meta_of vl = ci_value jt" by auto
    then show ?thesis using Cons q it p nx jt(1) by (auto simp: lightfs_dcache_c_get_def DB_NEXT_def DB_SET_RANGE_def c_get_next_def)
  qed
qed

definition loop_end :: "ht_cache \<Rightarrow> int \<Rightarrow> rd_state \<Rightarrow> (byte list \<times> nat) list \<Rightarrow> bool" where
  "loop_end c r s rem \<longleftrightarrow> rs_cache s = c \<and>
     (case rem of
        [] \<Rightarrow> r = DB_NOTFOUND_DCACHE_FULL
      | (key, a) # _ \<Rightarrow> r = 0 \<and> rs_wrap s = \<lparr>dw_node = Some a, dw_right = None\<rparr> \<and> (\<exists>rest. key_buf key rest (rs_child s)))"

lemma loop_step:
  assumes "dir_entry_ok c ino (key, a)" and "rs_cache s = c" and "rs_wrap s = w" and "key_buf key rest (rs_child s)"
    and "hc_heap c a = Some it" and "rs_meta s = ci_value it"
  shows "readdir_loop k dev ino emit (Suc n) ret0 0 s x =
    (let (name, i, ty) = dirent c (key, a); (ret, x) = emit name i ty x in
     if ret = 0 then Some (0, 0, False, s, x)
     else do {
       (r, w, child, vl) \<leftarrow> lightfs_dcache_c_get (k_crc k) (k_hmin k) c w (rs_child s) (meta_value (ci_value it)) DB_NEXT;
       readdir_loop k dev ino emit n ret r (s\<lparr>rs_cnt := rs_cnt s + 1, rs_wrap := w, rs_child := child, rs_meta := meta_of vl\<rparr>) x })"
proof -
  from assms(1,5) obtain name where name: "key = meta_key_of ino name" "0 \<notin> set name"
      "md_type (ci_value it) \<noteq> LIGHTFS_METADATA_TYPE_REDIRECT"
    by (auto simp: dir_entry_ok_def)
  have child: "d_data (rs_child s) = Some (meta_key_of ino name @ rest)" using assms(4) name(1) by (simp add: key_buf_def)
  show ?thesis
    using name assms(2,3,5,6) by (simp add: child dirent_meta split: prod.splits)
qed

lemma readdir_loop_ok:
  assumes "cache_inv (k_crc k) (k_hmin k) c" and "dir_tree c p t" and "\<forall>q \<in> set (inorder t). dir_entry_ok c ino q"
    and "inorder t = pre @ (key, a) # post" and "rs_cache s = c" and "rs_wrap s = \<lparr>dw_node = Some a, dw_right = None\<rparr>"
    and "key_buf key rest (rs_child s)" and "hc_heap c a = Some it" and "rs_meta s = ci_value it" and "length post + 2 \<le> n"
  shows "\<exists>ret r s' rem x'. readdir_loop k dev ino emit n ret0 0 s x = Some (ret, r, False, s', x')
           \<and> emit_entries emit c ((key, a) # post) x = (rem, x') \<and> loop_end c r s' rem"
  using assms(4-10)
proof (induction post arbitrary: pre key a s rest it n ret0 x)
  case (Nil pre key a s rest it n ret0 x)
  then obtain m where n: "n = Suc (Suc m)" by (metis add_2_eq_Suc le_Suc_ex list.size(3) plus_nat.add_0)
  obtain name i ty where d: "dirent c (key, a) = (name, i, ty)" by (metis prod_cases3)
  obtain ret x' where em: "emit name i ty x = (ret, x')" by fastforce
  have ok: "dir_entry_ok c ino (key, a)" "length (ci_value it) = INODE_SIZE"
    using assms(1,3) Nil.prems(1,5) by (auto simp: cache_inv_def table_ok_def item_ok_def)
  have b: "d_data (rs_child s) = Some (key @ rest)" "length (key @ rest) = META_KEY_MAX_LEN" using Nil.prems(4) by (simp_all add: key_buf_def)
  from cursor_next [OF assms(1,2) Nil.prems(1) b _ ok(2)] show ?case
    using Nil.prems d em unfolding n loop_step [OF ok(1) Nil.prems(2-6)] 
    by (auto simp: loop_end_def DB_NOTFOUND_DCACHE_FULL_def)
next
  case (Cons q post pre key a s rest it n ret0 x)
  then obtain m where n: "n = Suc m" by (cases n) auto
  obtain key' a' where q: "q = (key', a')" by (cases q)
  obtain name i ty where d: "dirent c (key, a) = (name, i, ty)" by (metis prod_cases3)
  obtain ret x' where em: "emit name i ty x = (ret, x')" by fastforce
  have ok: "dir_entry_ok c ino (key, a)" "length (ci_value it) = INODE_SIZE" "\<forall>q \<in> set (q # post). dir_entry_ok c ino q"
    using assms(1,3) Cons.prems(1,5) by (auto simp: cache_inv_def table_ok_def item_ok_def)
  have b: "d_data (rs_child s) = Some (key @ rest)" "length (key @ rest) = META_KEY_MAX_LEN" using Cons.prems(4) by (simp_all add: key_buf_def)
  note step = loop_step [OF ok(1) Cons.prems(2-6)]
  show ?case
  proof (cases "ret = 0")
    case True
    then show ?thesis using Cons.prems(2-4) d em unfolding n step by (auto simp: loop_end_def)
  next
    case False
    from cursor_next [OF assms(1,2) Cons.prems(1) b ok(3) ok(2)] obtain d' vl rest' jt where
      nx: "lightfs_dcache_c_get (k_crc k) (k_hmin k) c \<lparr>dw_node = Some a, dw_right = None\<rparr> (rs_child s) (meta_value (ci_value it)) DB_NEXT =
          Some (0, \<lparr>dw_node = Some a', dw_right = None\<rparr>, d', vl)"
        "key_buf key' rest' d'" "hc_heap c a' = Some jt" "meta_of vl = ci_value jt"
      by (auto simp: q)
    let ?s = "s\<lparr>rs_cnt := rs_cnt s + 1, rs_wrap := \<lparr>dw_node = Some a', dw_right = None\<rparr>, rs_child := d', rs_meta := meta_of vl\<rparr>"
    have "inorder t = (pre @ [(key, a)]) @ (key', a') # post" "length post + 2 \<le> m" using Cons.prems(1,7) q n by simp_all
    from Cons.IH [OF this(1), of ?s rest' jt m ret x'] this(2) nx Cons.prems(2) show ?thesis
      using False d em unfolding n step by (simp add: q)
  qed
qed

lemma tree_size:
  assumes "cache_inv crc hmin c" and "dir_tree c p t"
  shows "length (inorder t) \<le> hc_next c"
proof -
  from assms(2) obtain pit d where p: "hc_heap c p = Some pit" "ci_dcache pit = Some d" "dc_root d = t" by (auto simp: dir_tree_def)
  have "kv_bst t" using assms(1) dirs_okD(1) [OF _ p(1,2)] p(3) by (simp add: cache_inv_def)
  then have dist: "distinct (inorder t)" using kv_bst_distinct by (auto simp: distinct_map)
  have item: "\<exists>it. hc_heap c (snd q) = Some it \<and> ci_key it = fst q" if "q \<in> set (inorder t)" for q
    using tree_entry [OF assms, of "fst q" "snd q"] that by auto
  have "inj_on snd (set (inorder t))"
  proof (rule inj_onI)
    fix q r assume "q \<in> set (inorder t)" "r \<in> set (inorder t)" "snd q = snd r"
    with item [of q] item [of r] show "q = r" by (auto simp: prod_eq_iff)
  qed
  then have "distinct (map snd (inorder t))" using dist by (simp add: distinct_map)
  then have "length (inorder t) = card (set (map snd (inorder t)))" by (metis distinct_card length_map)
  also have "\<dots> \<le> card {..<hc_next c}"
  proof (rule card_mono)
    show "set (map snd (inorder t)) \<subseteq> {..<hc_next c}"
      using item assms(1) unfolding cache_inv_def table_ok_def by fastforce
  qed simp
  finally show ?thesis by simp
qed

section \<open>One call\<close>

lemma meta_readdir_ok:
  assumes "cache_inv (k_crc k) (k_hmin k) c" and "dir_tree c p t" and "\<forall>q \<in> set (inorder t). dir_entry_ok c ino q"
    and "inorder t = pre @ (key, a) # post" and "readdir_child k ino mk fpos ctx = Some (Inr child)"
    and "c_get_range (k_crc k) (k_hmin k) c (rd_cursor ctx) child (meta_value meta) = Some (0, \<lparr>dw_node = Some a, dw_right = None\<rparr>, d, vl)"
    and "key_buf key rest d" and "hc_heap c a = Some it" and "meta_of vl = ci_value it"
  shows "\<exists>ret ctx' rem x'. lightfs_bstore_meta_readdir k dev c ino mk meta emit fpos ctx x = Some (ret, Pos_ctx, ctx', c, x')
           \<and> emit_entries emit c ((key, a) # post) x = (rem, x') \<and> listing_at ctx' rem"
proof -
  let ?s = "\<lparr>rs_cache = c, rs_wrap = \<lparr>dw_node = Some a, dw_right = None\<rparr>, rs_child = d, rs_meta = meta_of vl, rs_cnt = rd_emit_cnt ctx\<rparr>"
  have "length post + 2 \<le> hc_next c + 2" using tree_size [OF assms(1,2)] assms(4) by simp
  from readdir_loop_ok [OF assms(1-4) _ _ _ assms(8) _ this, of ?s rest dev emit 0 x] assms(7,9) obtain ret r s rem x' where
    lp: "readdir_loop k dev ino emit (hc_next c + 2) 0 0 ?s x = Some (ret, r, False, s, x')"
      "emit_entries emit c ((key, a) # post) x = (rem, x')" "loop_end c r s rem" by auto
  show ?thesis
  proof (cases rem)
    case Nil
    then show ?thesis
      using lp assms(5,6) by (simp add: lightfs_bstore_meta_readdir_def lightfs_dcache_c_get_def loop_end_def listing_at_def
          DB_NOTFOUND_DCACHE_FULL_def DB_NOTFOUND_def del: readdir_loop.simps emit_entries.simps)
  next
    case (Cons q qs)
    then show ?thesis
      using lp assms(5,6) by (auto simp: lightfs_bstore_meta_readdir_def lightfs_dcache_c_get_def loop_end_def listing_at_def
          DB_NOTFOUND_DCACHE_FULL_def DB_NOTFOUND_def DB_NOTFOUND_DCACHE_def key_buf_def meta_of_def
          simp del: readdir_loop.simps emit_entries.simps)
  qed
qed

text \<open>The key buffer at the start holds the key of the directory.\<close>

lemma readdir_child_start:
  assumes "memory_ok (k_km k)" and "dbt_valid mk" and "unat (d_size mk) \<le> META_KEY_MAX_LEN"
  shows "\<exists>child b. readdir_child k ino mk (Pos 2) ctx = Some (Inr child) \<and> dbt_bytes child = dbt_bytes mk
           \<and> d_data child = Some b \<and> length b = META_KEY_MAX_LEN"
proof -
  obtain buf where buf: "k_km k META_KEY_MAX_LEN = Some buf" "length buf = META_KEY_MAX_LEN"
    using assms(1) by (auto simp: memory_ok_def)
  obtain m where m: "d_data mk = Some m" "unat (d_size mk) \<le> length m"
    using assms(2) by (auto simp: dbt_valid_def split: option.splits)
  have "copy_child_meta_dbt_from_inode (dbt_setup_buf buf META_KEY_MAX_LEN) ino [1] =
      Some ((dbt_setup_buf buf META_KEY_MAX_LEN)\<lparr>d_data := Some (meta_key_of ino [1] @ drop 11 buf), d_size := 11\<rparr>)"
    using child_meta_dbt_builds [OF memory_kmalloc [OF assms(1)], of "dbt_setup_buf buf META_KEY_MAX_LEN" buf "[1]" ino] buf(2)
    by (simp add: dbt_setup_buf_def META_KEY_MAX_LEN_def)
  then show ?thesis
    using buf m assms(3) by (simp add: readdir_child_def meta_of_def get_at_def put_at_def dbt_bytes_def META_KEY_MAX_LEN_def meta_key_of_def min_def)
qed

section \<open>A sequence of calls\<close>

text \<open>
  A directory that is in memory and in the cache as item \<open>p\<close>, with the tree \<open>t\<close>.
\<close>

definition listable :: "env \<Rightarrow> fs \<Rightarrow> u64 \<Rightarrow> inode \<Rightarrow> nat \<Rightarrow> nat kvtree \<Rightarrow> bool" where
  "listable e s ino i p t \<longleftrightarrow>
     env_ok e \<and> fs_inv e s \<and> f_icache s ino = Some i \<and> dbt_valid (meta_dbt i) \<and> unat (d_size (meta_dbt i)) \<le> META_KEY_MAX_LEN
   \<and> (\<exists>pit. hc_heap (f_cache s) p = Some pit \<and> ci_key pit = dbt_bytes (meta_dbt i))
   \<and> dir_tree (f_cache s) p t \<and> (\<forall>q \<in> set (inorder t). dir_entry_ok (f_cache s) (i_ino i) q)"

lemma listableD:
  assumes "listable e s ino i p t"
  shows "memory_ok (k_km (e_k e))" "fs_inv e s" "f_icache s ino = Some i" "dbt_valid (meta_dbt i)"
    "unat (d_size (meta_dbt i)) \<le> META_KEY_MAX_LEN" "dir_tree (f_cache s) p t" "\<forall>q \<in> set (inorder t). dir_entry_ok (f_cache s) (i_ino i) q"
    "length (e_meta e) = INODE_SIZE" "ht_find (k_crc (e_k e)) (k_hmin (e_k e)) (f_cache s) (dbt_bytes (meta_dbt i)) = Some (Some p)"
  using assms by (auto simp: listable_def env_ok_def kern_ok_def cache_inv_def) (metis find_present)

lemma first_call:
  assumes "listable e s ino i p t"
  shows "\<exists>ret ctx' rem x'. lightfs_bstore_meta_readdir (e_k e) (e_dev e) (f_cache s) (i_ino i) (meta_dbt i) (e_meta e) emit (Pos 2)
             \<lparr>rd_cursor = \<lparr>dw_node = None, dw_right = None\<rparr>, rd_pos = RD_code 0, rd_emit_cnt = 0\<rparr> x = Some (ret, Pos_ctx, ctx', f_cache s, x')
           \<and> emit_entries emit (f_cache s) (inorder t) x = (rem, x') \<and> listing_at ctx' rem"
proof -
  note ok = listableD [OF assms]
  let ?ctx = "\<lparr>rd_cursor = \<lparr>dw_node = None, dw_right = None\<rparr>, rd_pos = RD_code 0, rd_emit_cnt = 0\<rparr> :: readdir_ctx"
  from readdir_child_start [OF ok(1,4,5)] obtain child b where
    child: "readdir_child (e_k e) (i_ino i) (meta_dbt i) (Pos 2) ?ctx = Some (Inr child)" "dbt_bytes child = dbt_bytes (meta_dbt i)"
      "d_data child = Some b" "length b = META_KEY_MAX_LEN" by blast
  from ok(6) obtain pit d where p: "hc_heap (f_cache s) p = Some pit" "ci_dcache pit = Some d" "dc_root d = t" by (auto simp: dir_tree_def)
  show ?thesis
  proof (cases "inorder t")
    case Nil
    then have "c_get_range (k_crc (e_k e)) (k_hmin (e_k e)) (f_cache s) (rd_cursor ?ctx) child (meta_value (e_meta e)) =
        Some (DB_NOTFOUND_DCACHE_FULL, rd_cursor ?ctx, child, meta_value (e_meta e))"
      using ok(9) child(2) p by (simp add: c_get_range_def rb_first_def)
    then show ?thesis
      using Nil child(1) by (simp add: lightfs_bstore_meta_readdir_def lightfs_dcache_c_get_def listing_at_def DB_NOTFOUND_DCACHE_FULL_def DB_NOTFOUND_def)
  next
    case (Cons q post)
    obtain key a where q: "q = (key, a)" by (cases q)
    from tree_entry [OF ok(2,6), of key a] Cons q obtain it where
      it: "hc_heap (f_cache s) a = Some it" "ci_key it = key" "length (ci_value it) = INODE_SIZE" by auto
    have "length (ci_key it) \<le> META_KEY_MAX_LEN" using ok(7) Cons q it by (auto simp: dir_entry_ok_def)
    from emit_item_ok [OF child(3,4) this ok(8) it(3)] it(2) obtain d' vl rest where
      em: "emit_item it child (meta_value (e_meta e)) = Some (d', vl)" "key_buf key rest d'" "meta_of vl = ci_value it" by auto
    then have "c_get_range (k_crc (e_k e)) (k_hmin (e_k e)) (f_cache s) (rd_cursor ?ctx) child (meta_value (e_meta e)) =
        Some (0, \<lparr>dw_node = Some a, dw_right = None\<rparr>, d', vl)"
      using ok(9) child(2) p Cons q it(1) by (simp add: c_get_range_def rb_first_def)
    from meta_readdir_ok [OF ok(2,6,7) _ child(1) this em(2) it(1) em(3), of "[]" post] show ?thesis using Cons q by simp
  qed
qed

lemma later_call:
  assumes "listable e s ino i p t" and "inorder t = pre @ ps" and "ps \<noteq> []" and "listing_at ctx ps"
  shows "\<exists>ret ctx' rem x'. lightfs_bstore_meta_readdir (e_k e) (e_dev e) (f_cache s) (i_ino i) (meta_dbt i) (e_meta e) emit Pos_ctx ctx x
             = Some (ret, Pos_ctx, ctx', f_cache s, x')
           \<and> emit_entries emit (f_cache s) ps x = (rem, x') \<and> listing_at ctx' rem"
proof -
  note ok = listableD [OF assms(1)]
  obtain key a post where ps: "ps = (key, a) # post" using assms(3) by (cases ps) auto
  with assms(4) obtain rest where at: "rd_cursor ctx = \<lparr>dw_node = Some a, dw_right = None\<rparr>" "rd_pos ctx = RD_key (key @ rest)"
      "length (key @ rest) = META_KEY_MAX_LEN" by (auto simp: listing_at_def)
  from tree_entry [OF ok(2,6), of key a] assms(2) ps obtain it where
    it: "hc_heap (f_cache s) a = Some it" "ci_key it = key" "length (ci_value it) = INODE_SIZE" by auto
  from ok(7) assms(2) ps obtain name where key: "key = meta_key_of (i_ino i) name" "0 \<notin> set name" "length key \<le> META_KEY_MAX_LEN"
    by (auto simp: dir_entry_ok_def)
  let ?child = "(dbt_setup (key @ rest) META_KEY_MAX_LEN)\<lparr>d_size := of_nat (length name + 1 + PATH_POS)\<rparr>"
  have child: "readdir_child (e_k e) (i_ino i) (meta_dbt i) Pos_ctx ctx = Some (Inr ?child)" using at(2) key(1,2) by (simp add: readdir_child_def)
  have "d_data ?child = Some (key @ rest)" by (simp add: dbt_setup_def)
  from emit_item_ok [OF this at(3) _ ok(8) it(3)] it(2) key(3) obtain d' vl rest' where
    em: "emit_item it ?child (meta_value (e_meta e)) = Some (d', vl)" "key_buf key rest' d'" "meta_of vl = ci_value it" by auto
  then have "c_get_range (k_crc (e_k e)) (k_hmin (e_k e)) (f_cache s) (rd_cursor ctx) ?child (meta_value (e_meta e)) =
      Some (0, \<lparr>dw_node = Some a, dw_right = None\<rparr>, d', vl)"
    using at(1) it(1) by (simp add: c_get_range_def)
  from meta_readdir_ok [OF ok(2,6,7) _ child this em(2) it(1) em(3), of pre post] show ?thesis using assms(2) ps by simp
qed

lemma readdir_ok:
  assumes "listable e s ino i p t"
  shows "dots fpos x = (True, y, x0) \<and> (fpos = Pos 0 \<or> fpos = Pos 1) \<or> fpos = Pos 2 \<and> x0 = x \<Longrightarrow>
           \<exists>ret ctx' rem x'. lightfs_readdir e False False dots emit s ino fpos ctx x = Some (ret, Pos_ctx, Some ctx', s, x')
             \<and> emit_entries emit (f_cache s) (inorder t) x0 = (rem, x') \<and> listing_at ctx' rem"
    and "inorder t = pre @ ps \<Longrightarrow> ps \<noteq> [] \<Longrightarrow> listing_at dir_ctx ps \<Longrightarrow>
           \<exists>ret ctx' rem x'. lightfs_readdir e False False dots emit s ino Pos_ctx (Some dir_ctx) x = Some (ret, Pos_ctx, Some ctx', s, x')
             \<and> emit_entries emit (f_cache s) ps x = (rem, x') \<and> listing_at ctx' rem"
    and "listing_at dir_ctx [] \<Longrightarrow> lightfs_readdir e False False dots emit s ino Pos_ctx (Some dir_ctx) x = Some (0, Pos 3, None, s, x)"
    and "lightfs_readdir e False False dots emit s ino (Pos 3) ctx x = None"
proof -
  note ok = listableD [OF assms]
  show "\<exists>ret ctx' rem x'. lightfs_readdir e False False dots emit s ino fpos ctx x = Some (ret, Pos_ctx, Some ctx', s, x')
      \<and> emit_entries emit (f_cache s) (inorder t) x0 = (rem, x') \<and> listing_at ctx' rem"
    if "dots fpos x = (True, y, x0) \<and> (fpos = Pos 0 \<or> fpos = Pos 1) \<or> fpos = Pos 2 \<and> x0 = x"
  proof -
    from first_call [OF assms, of emit x0] that ok(3) show ?thesis
      by (auto simp: lightfs_readdir_def lightfs_dcache_cursor_def)
  qed
  show "\<exists>ret ctx' rem x'. lightfs_readdir e False False dots emit s ino Pos_ctx (Some dir_ctx) x = Some (ret, Pos_ctx, Some ctx', s, x')
      \<and> emit_entries emit (f_cache s) ps x = (rem, x') \<and> listing_at ctx' rem"
    if "inorder t = pre @ ps" "ps \<noteq> []" "listing_at dir_ctx ps"
  proof -
    from that(2,3) obtain key where "rd_pos dir_ctx = RD_key key" by (cases ps) (auto simp: listing_at_def)
    with later_call [OF assms that, of emit x] ok(3) show ?thesis by (auto simp: lightfs_readdir_def)
  qed
  show "lightfs_readdir e False False dots emit s ino Pos_ctx (Some dir_ctx) x = Some (0, Pos 3, None, s, x)" if "listing_at dir_ctx []"
    using that ok(3) by (simp add: lightfs_readdir_def listing_at_def)
  show "lightfs_readdir e False False dots emit s ino (Pos 3) ctx x = None"
    using ok(3) by (simp add: lightfs_readdir_def)
qed

text \<open>
  Property C7: a sequence of calls lists the cached entries of a directory, in the order of
  their keys, each with its name, inode number and type.  The first call shows the dots and then
  the entries from the first one on until the caller takes no more; a later call goes on with
  the entry that was refused, and leaves a context that is again at the first entry refused.
  When none is left, the next call releases the context and reports the end; nothing else of
  the file system changes.  A call after that follows the position 3 as a pointer and faults.
\<close>

theorem readdir_lists:
  assumes "listable e s ino i p t"
  shows "(dots fpos x = (True, y, x0) \<and> (fpos = Pos 0 \<or> fpos = Pos 1) \<or> fpos = Pos 2 \<and> x0 = x \<longrightarrow>
           (\<exists>ret ctx' rem x'. lightfs_readdir e False False dots emit s ino fpos ctx x = Some (ret, Pos_ctx, Some ctx', s, x')
             \<and> emit_entries emit (f_cache s) (inorder t) x0 = (rem, x') \<and> listing_at ctx' rem))
       \<and> (inorder t = pre @ ps \<and> ps \<noteq> [] \<and> listing_at dir_ctx ps \<longrightarrow>
           (\<exists>ret ctx' rem x'. lightfs_readdir e False False dots emit s ino Pos_ctx (Some dir_ctx) x = Some (ret, Pos_ctx, Some ctx', s, x')
             \<and> emit_entries emit (f_cache s) ps x = (rem, x') \<and> listing_at ctx' rem))
       \<and> (listing_at dir_ctx [] \<longrightarrow>
           lightfs_readdir e False False dots emit s ino Pos_ctx (Some dir_ctx) x = Some (0, Pos 3, None, s, x))
       \<and> lightfs_readdir e False False dots emit s ino (Pos 3) ctx x = None"
  using readdir_ok(1) [OF assms, of dots fpos x y x0 emit ctx] readdir_ok(2) [OF assms, of pre ps dir_ctx dots emit x]
    readdir_ok(3) [OF assms, of dir_ctx dots emit x] readdir_ok(4) [OF assms, of dots emit ctx x] by blast

text \<open>
  The sample directory with the files \<open>a\<close> and \<open>b\<close>, and a caller whose buffer takes three
  entries.
\<close>

definition sample_item :: "byte list \<Rightarrow> u64 \<Rightarrow> u32 \<Rightarrow> dcache_entry option \<Rightarrow> nat option \<Rightarrow> ht_cache_item" where
  "sample_item key ino mode dc parent =
     \<lparr>ci_key = key, ci_value = replicate 16 0 @ store_le 8 ino @ replicate 8 0 @ store_le 4 mode @ replicate 116 0,
      is_weak_del = False, is_evicted = False, ci_fp = 17, ci_dcache = dc, ci_parent = parent\<rparr>"

definition sample_dtree :: "nat kvtree" where
  "sample_dtree = \<langle>\<langle>\<rangle>, (meta_key_of 3 [97], 1), \<langle>\<langle>\<rangle>, (meta_key_of 3 [98], 2), \<langle>\<rangle>\<rangle>\<rangle>"

definition sample_dcache :: ht_cache where
  "sample_dcache =
     \<lparr>hc_table = (\<lambda>b. if b = 0 then [0, 1, 2] else []),
      hc_heap = [0 \<mapsto> sample_item (meta_key_of 0 [100]) 3 16877 (Some \<lparr>is_full = True, dc_root = sample_dtree, dc_child = 2, dc_e_child = 0\<rparr>) None,
                 1 \<mapsto> sample_item (meta_key_of 3 [97]) 4 33188 None (Some 0), 2 \<mapsto> sample_item (meta_key_of 3 [98]) 5 33188 None (Some 0)],
      hc_next = 3\<rparr>"

definition sample_listed :: fs where
  "sample_listed = sample_tree\<lparr>f_cache := sample_dcache\<rparr>"

lemma sample_dcache_inv: "cache_inv (k_crc sample_kern) (k_hmin sample_kern) sample_dcache"
proof -
  have keys: "meta_key_of 3 [97] \<noteq> meta_key_of 3 [98]" "meta_key_of 0 [100] \<noteq> meta_key_of 3 [97]" "meta_key_of 0 [100] \<noteq> meta_key_of 3 [98]"
      "meta_key_of 3 [97] < meta_key_of 3 [98]"
    by code_simp+
  have item: "length (ci_value (sample_item k n m d q)) = INODE_SIZE" "ci_key (sample_item k n m d q) = k"
      "ci_dcache (sample_item k n m d q) = d" "ci_parent (sample_item k n m d q) = q" "ci_fp (sample_item k n m d q) = 17" for k n m d q
    by (simp_all add: sample_item_def INODE_SIZE_def)
  have "table_ok (k_crc sample_kern) (k_hmin sample_kern) sample_dcache"
    using keys by (auto simp: table_ok_def sample_dcache_def sample_kern_def item_ok_def item FSEED_def SSEED_def meta_key_of_def split: if_splits)
  moreover have "dirs_ok sample_dcache"
    using keys by (auto simp: dirs_ok_def sample_dcache_def item children_def kv_bst_def kv_map_def sample_dtree_def split: if_splits)
  ultimately show ?thesis by (simp add: cache_inv_def)
qed

definition sample_emit :: "byte list \<Rightarrow> u64 \<Rightarrow> nat \<Rightarrow> (byte list \<times> u64 \<times> nat) list \<Rightarrow> int \<times> (byte list \<times> u64 \<times> nat) list" where
  "sample_emit name ino ty x = (if length x < 3 then (1, x @ [(name, ino, ty)]) else (0, x))"

definition sample_dots :: "file_pos \<Rightarrow> (byte list \<times> u64 \<times> nat) list \<Rightarrow> bool \<times> file_pos \<times> (byte list \<times> u64 \<times> nat) list" where
  "sample_dots fpos x = (True, Pos 2, x @ [([46], 3, 4), ([46, 46], 1, 4)])"

lemma sample_listable: "listable sample_env sample_listed 3 sample_dir 0 sample_dtree"
proof -
  have key: "meta_dbt sample_dir = meta_dbt_of 0 [100]" "i_ino sample_dir = 3" by (simp_all add: sample_dir_def new_inode_def)
  have heap: "hc_heap sample_dcache 1 = Some (sample_item (meta_key_of 3 [97]) 4 33188 None (Some 0))"
      "hc_heap sample_dcache 2 = Some (sample_item (meta_key_of 3 [98]) 5 33188 None (Some 0))"
    by (simp_all add: sample_dcache_def)
  have type: "md_type (ci_value (sample_item k n m d q)) \<noteq> LIGHTFS_METADATA_TYPE_REDIRECT" for k n m d q
  proof -
    have "(load_le [0, 0, 0, 0] :: u32) \<noteq> 1" by code_simp
    then show ?thesis by (simp add: sample_item_def md_type_def get_at_def LIGHTFS_METADATA_TYPE_REDIRECT_def numeral_eq_Suc)
  qed
  have item: "ci_key (sample_item k n m d q) = k" for k n m d q by (simp add: sample_item_def)
  have entries: "dir_entry_ok sample_dcache 3 (meta_key_of 3 [97], 1)" "dir_entry_ok sample_dcache 3 (meta_key_of 3 [98], 2)"
    using dir_entry_okI [OF heap(1) item] dir_entry_okI [OF heap(2) item] type by (simp_all add: META_KEY_MAX_LEN_def meta_key_of_def)
  show ?thesis
    using sample_env_ok(1) sample_dcache_inv entries
    by (simp add: listable_def sample_listed_def sample_tree_def key dir_tree_def sample_dtree_def META_KEY_MAX_LEN_def)
      (simp add: sample_env_def sample_dcache_def sample_item_def sample_dtree_def)
qed

theorem readdir_lists_witness:
  "\<exists>ret ctx ret' ctx'.
     lightfs_readdir sample_env False False sample_dots sample_emit sample_listed 3 (Pos 0) None []
       = Some (ret, Pos_ctx, Some ctx, sample_listed, [([46], 3, 4), ([46, 46], 1, 4), ([97], 4, 8)])
   \<and> lightfs_readdir sample_env False False sample_dots sample_emit sample_listed 3 Pos_ctx (Some ctx) []
       = Some (ret', Pos_ctx, Some ctx', sample_listed, [([98], 5, 8)])
   \<and> lightfs_readdir sample_env False False sample_dots sample_emit sample_listed 3 Pos_ctx (Some ctx') [] = Some (0, Pos 3, None, sample_listed, [])"
proof -
  let ?dots = "[([46], 3, 4), ([46, 46], 1, 4)] :: (byte list \<times> u64 \<times> nat) list"
  have cache: "f_cache sample_listed = sample_dcache" by (simp add: sample_listed_def)
  have tree: "inorder sample_dtree = [(meta_key_of 3 [97], 1)] @ [(meta_key_of 3 [98], 2)]" by (simp add: sample_dtree_def)
  have dirent: "dirent sample_dcache (meta_key_of 3 [97], 1) = ([97], 4, 8)" "dirent sample_dcache (meta_key_of 3 [98], 2) = ([98], 5, 8)"
  proof -
    have heap: "hc_heap sample_dcache 1 = Some (sample_item (meta_key_of 3 [97]) 4 33188 None (Some 0))"
        "hc_heap sample_dcache 2 = Some (sample_item (meta_key_of 3 [98]) 5 33188 None (Some 0))"
      by (simp_all add: sample_dcache_def)
    have "lightfs_get_type 33188 = 8" by code_simp
    then show "dirent sample_dcache (meta_key_of 3 [97], 1) = ([97], 4, 8)" "dirent sample_dcache (meta_key_of 3 [98], 2) = ([98], 5, 8)"
      using dirent_meta [OF heap(1), of 3 "[97]"] dirent_meta [OF heap(2), of 3 "[98]"]
      by (simp_all add: sample_item_def md_st_ino_def md_st_mode_def get_at_def load_store_le)
  qed
  have shown: "emit_entries sample_emit sample_dcache (inorder sample_dtree) ?dots = ([(meta_key_of 3 [98], 2)], ?dots @ [([97], 4, 8)])"
      "emit_entries sample_emit sample_dcache [(meta_key_of 3 [98], 2)] [] = ([], [([98], 5, 8)])"
    unfolding tree by (simp_all add: dirent sample_emit_def del: One_nat_def)
  note lists = readdir_lists [OF sample_listable, where emit = sample_emit and dots = sample_dots]
  have "sample_dots (Pos 0) [] = (True, Pos 2, ?dots) \<and> (Pos 0 = Pos 0 \<or> Pos 0 = Pos 1) \<or> Pos 0 = Pos 2 \<and> ?dots = []"
    by (simp add: sample_dots_def)
  from lists [THEN conjunct1, THEN mp, OF this, of None] obtain ret ctx where
    first: "lightfs_readdir sample_env False False sample_dots sample_emit sample_listed 3 (Pos 0) None [] =
        Some (ret, Pos_ctx, Some ctx, sample_listed, ?dots @ [([97], 4, 8)])" "listing_at ctx [(meta_key_of 3 [98], 2)]"
    by (auto simp: cache shown)
  have "inorder sample_dtree = [(meta_key_of 3 [97], 1)] @ [(meta_key_of 3 [98], 2)] \<and> [(meta_key_of 3 [98], 2 :: nat)] \<noteq> []
      \<and> listing_at ctx [(meta_key_of 3 [98], 2)]"
    using tree first(2) by simp
  from lists [THEN conjunct2, THEN conjunct1, THEN mp, OF this, of "[]"] obtain ret' ctx' where
    second: "lightfs_readdir sample_env False False sample_dots sample_emit sample_listed 3 Pos_ctx (Some ctx) [] =
        Some (ret', Pos_ctx, Some ctx', sample_listed, [([98], 5, 8)])" "listing_at ctx' []"
    by (auto simp: cache shown simp del: emit_entries.simps)
  have "lightfs_readdir sample_env False False sample_dots sample_emit sample_listed 3 Pos_ctx (Some ctx') [] = Some (0, Pos 3, None, sample_listed, [])"
    by (rule lists [THEN conjunct2, THEN conjunct2, THEN conjunct1, THEN mp, OF second(2)])
  with first(1) second(1) show ?thesis by auto
qed

end
