(* ===== verification/Kevin_Setup.thy ===== *)
theory Kevin_Setup
  imports Kevin_Super
begin

text \<open>
  Setting up and taking down: the objects that a mount creates and an unmount releases, from
  \<open>lightfs_bstore_env_open\<close> down to the slab caches, threads and work queues of the
  transaction handler and the transport, and the drain of the handler thread when it is
  stopped.
\<close>

section \<open>Objects\<close>

text \<open>
  An object is named after the pointer that holds it.  A pointer is NULL, holds its object, or
  is neither (the object has been released, or the pointer is an error code).  \<open>w_lost\<close> are
  the objects whose only pointer was overwritten.
\<close>

datatype obj =
    Env | Env_i | Data_db | Meta_db | Cache_db | Ht_lock nat | Dcache_entry_slab | Ht_item_slab | Meta_slab
  | Hdlr | C_txn_slab | Txn_slab | Txn_buf_slab | Buf_slab | Meta_buf_slab | Dbc_slab | Dbc_buf_slab
  | Workqs | Workq nat | Workq_tags | Tag_arr | Workq_tag nat | Commit_workq | Hdlr_task
  | Db_io | Reqs | Tag_item nat | Shm_task
  | Sbi | Percpu | Inode_slab | Wp_slab | Fs_type

datatype ptr = Null | Live | Dangling

record world =
  w_ptr :: "obj \<Rightarrow> ptr"
  w_lost :: "obj list"

text \<open>
  Creating an object, where \<open>fails\<close> says which creations fail; releasing it with \<open>kfree\<close> or
  \<open>kmem_cache_destroy\<close>, which accept NULL; and following the pointer.
\<close>

definition w_new :: "(obj \<Rightarrow> bool) \<Rightarrow> obj \<Rightarrow> world \<Rightarrow> world" where
  "w_new fails ob w =
     w\<lparr>w_ptr := (w_ptr w)(ob := if fails ob then Null else Live), w_lost := (if w_ptr w ob = Live then [ob] else []) @ w_lost w\<rparr>"

definition w_thread :: "(obj \<Rightarrow> bool) \<Rightarrow> obj \<Rightarrow> world \<Rightarrow> world" where
  "w_thread fails ob w = (w_new fails ob w)\<lparr>w_ptr := (w_ptr w)(ob := if fails ob then Dangling else Live)\<rparr>"

definition w_free :: "obj \<Rightarrow> world \<Rightarrow> world option" where
  "w_free ob w =
     (case w_ptr w ob of
        Null \<Rightarrow> Some w
      | Live \<Rightarrow> Some (w\<lparr>w_ptr := (w_ptr w)(ob := Dangling)\<rparr>)
      | Dangling \<Rightarrow> None)"

definition w_deref :: "obj \<Rightarrow> world \<Rightarrow> world option" where
  "w_deref ob w = (if w_ptr w ob = Live then Some w else None)"

fun w_each :: "('a \<Rightarrow> world \<Rightarrow> world option) \<Rightarrow> 'a list \<Rightarrow> world \<Rightarrow> world option" where
  "w_each f [] w = Some w"
| "w_each f (x # xs) w = do { w \<leftarrow> f x w; w_each f xs w }"

definition w_clear :: "obj \<Rightarrow> world \<Rightarrow> world" where
  "w_clear ob w = w\<lparr>w_ptr := (w_ptr w)(ob := Null)\<rparr>"

section \<open>The transport\<close>

definition cheeze_queue_init_objs :: "(obj \<Rightarrow> bool) \<Rightarrow> world \<Rightarrow> world option" where
  "cheeze_queue_init_objs fails = w_each (\<lambda>i w. w_deref (Tag_item i) (w_new fails (Tag_item i) w)) [0..<CHEEZE_QUEUE_SIZE]"

text \<open>The mapping of the shared memory is a calculation on addresses; the thread is an object.\<close>

definition shm_init_objs :: "(obj \<Rightarrow> bool) \<Rightarrow> world \<Rightarrow> world" where
  "shm_init_objs fails = w_thread fails Shm_task"

definition shm_exit_objs :: "world \<Rightarrow> world option" where
  "shm_exit_objs w =
     (if w_ptr w Shm_task = Null then Some w
      else do {
        w \<leftarrow> w_deref Shm_task w;
        w \<leftarrow> w_free Shm_task w;
        Some (w_clear Shm_task w) })"

definition cheeze_init_objs :: "(obj \<Rightarrow> bool) \<Rightarrow> world \<Rightarrow> world option" where
  "cheeze_init_objs fails w = do {
     w \<leftarrow> cheeze_queue_init_objs fails (w_new fails Reqs w);
     w \<leftarrow> w_deref Reqs w;
     Some (shm_init_objs fails w) }"

text \<open>
  A request points to the item of its tag from the first time the tag is used on; \<open>used\<close>
  says which have been.
\<close>

definition cheeze_queue_exit_objs :: "(nat \<Rightarrow> bool) \<Rightarrow> world \<Rightarrow> world option" where
  "cheeze_queue_exit_objs used =
     w_each (\<lambda>i w. do { w \<leftarrow> w_deref Reqs w; if used i then w_free (Tag_item i) w else Some w }) [0..<CHEEZE_QUEUE_SIZE]"

definition cheeze_exit_objs :: "(nat \<Rightarrow> bool) \<Rightarrow> world \<Rightarrow> world option" where
  "cheeze_exit_objs used w = do {
     w \<leftarrow> shm_exit_objs w;
     w \<leftarrow> cheeze_queue_exit_objs used w;
     w_free Reqs w }"

definition lightfs_io_create :: "(obj \<Rightarrow> bool) \<Rightarrow> world \<Rightarrow> world option" where
  "lightfs_io_create fails w = do {
     w \<leftarrow> w_deref Db_io (w_new fails Db_io w);
     cheeze_init_objs fails w }"

definition lightfs_io_close :: "(nat \<Rightarrow> bool) \<Rightarrow> world \<Rightarrow> world option" where
  "lightfs_io_close used w = do {
     w \<leftarrow> cheeze_exit_objs used w;
     w_free Db_io w }"

section \<open>The transaction handler\<close>

text \<open>
  The slab caches are created one after the other; when one cannot be, it and those before it
  are destroyed, the last first.
\<close>

definition CONCURRENT_CNT :: nat where "CONCURRENT_CNT = 2"

definition hdlr_slabs :: "obj list" where
  "hdlr_slabs = [C_txn_slab, Txn_slab, Txn_buf_slab, Buf_slab, Meta_buf_slab, Dbc_slab, Dbc_buf_slab]"

fun slabs_create :: "(obj \<Rightarrow> bool) \<Rightarrow> obj list \<Rightarrow> obj list \<Rightarrow> world \<Rightarrow> (int \<times> world) option" where
  "slabs_create fails made [] w = Some (0, w)"
| "slabs_create fails made (ob # os) w = do {
     let w = w_new fails ob w;
     if w_ptr w ob = Null then do {
       w \<leftarrow> w_each w_free (ob # made) w;
       Some (- ENOMEM, w) }
     else slabs_create fails (ob # made) os w }"

text \<open>The queue of work queue numbers: the queue, its array of items, and the items.\<close>

definition lightfs_queue_init_objs :: "(obj \<Rightarrow> bool) \<Rightarrow> world \<Rightarrow> world option" where
  "lightfs_queue_init_objs fails w = do {
     w \<leftarrow> w_deref Workq_tags (w_new fails Workq_tags w);
     w_each (\<lambda>i w. do { w \<leftarrow> w_deref (Workq_tag i) (w_new fails (Workq_tag i) w); w_deref Tag_arr w }) [0..<CONCURRENT_CNT]
       (w_new fails Tag_arr w) }"

definition lightfs_queue_exit_objs :: "world \<Rightarrow> world option" where
  "lightfs_queue_exit_objs w = do {
     w \<leftarrow> w_deref Workq_tags w;
     w \<leftarrow> w_each (\<lambda>i w. do { w \<leftarrow> w_deref Tag_arr w; w_free (Workq_tag i) w }) [0..<CONCURRENT_CNT] w;
     w_each w_free [Tag_arr, Workq_tags] w }"

definition lightfs_txn_hdlr_init :: "(obj \<Rightarrow> bool) \<Rightarrow> world \<Rightarrow> (int \<times> world) option" where
  "lightfs_txn_hdlr_init fails w = do {
     w \<leftarrow> w_deref Hdlr (w_new fails Hdlr w);
     (ret, w) \<leftarrow> slabs_create fails [] hdlr_slabs w;
     if ret \<noteq> 0 then Some (ret, w)
     else do {
       let w = w_new fails Workqs w;
       w \<leftarrow> lightfs_queue_init_objs fails w;
       w \<leftarrow> w_each (\<lambda>i w. w_deref Workqs (w_new fails (Workq i) w)) [0..<CONCURRENT_CNT] w;
       w \<leftarrow> lightfs_io_create fails (w_new fails Commit_workq w);
       Some (0, w_thread fails Hdlr_task w) } }"

text \<open>
  Destroying the handler.  \<open>flush_workqueue\<close> waits until the works of the queue are done while
  the handler thread goes on.  At each turn either the first work moves or the thread does,
  and both may have to wait for a tag or an answer.  A work is a transfer that is queued, a
  callback in its last part (\<open>h_tails\<close>), or a transfer that sleeps for the device's answer
  after its callback; \<open>k\<close> counts the last.  All transfers go to the queue number 0.
\<close>

type_synonym turn = "bool \<times> moment"

definition thread_turn :: "byte list \<Rightarrow> bool \<Rightarrow> moment \<Rightarrow> thread \<Rightarrow> thread option" where
  "thread_turn bits stop mo t = (case thread_step bits stop mo t of Fault \<Rightarrow> None | Block \<Rightarrow> Some t | Done t \<Rightarrow> Some t)"

definition worker_turn :: "moment \<Rightarrow> nat \<Rightarrow> hdlr \<Rightarrow> (nat \<times> hdlr) option" where
  "worker_turn mo k h =
     (case h_tails h of
        a # as \<Rightarrow> do { h \<leftarrow> lightfs_c_txn_transfer_end (h\<lparr>h_tails := as\<rparr>) a; Some (k + 1, h) }
      | [] \<Rightarrow>
          (case h_transfers h of
             a # as \<Rightarrow> (case lightfs_c_txn_transfer_work mo (h\<lparr>h_transfers := as\<rparr>) a of
                         Fault \<Rightarrow> None | Block \<Rightarrow> Some (k, h) | Done h \<Rightarrow> Some (k, h))
           | [] \<Rightarrow> Some (if snd mo then k - 1 else k, h)))"

fun flush_workq :: "nat \<Rightarrow> byte list \<Rightarrow> (nat \<Rightarrow> turn) \<Rightarrow> nat \<Rightarrow> thread \<Rightarrow> thread res" where
  "flush_workq 0 bits ins k t = Block"
| "flush_workq (Suc n) bits ins k (p, asleep, h) =
     (if k = 0 \<and> h_tails h = [] \<and> h_transfers h = [] then Done (p, asleep, h)
      else if fst (ins 0) then
        (case worker_turn (snd (ins 0)) k h of
           None \<Rightarrow> Fault
         | Some (k, h) \<Rightarrow> flush_workq n bits (\<lambda>i. ins (Suc i)) k (p, asleep, h))
      else
        (case thread_turn bits False (snd (ins 0)) (p, asleep, h) of
           None \<Rightarrow> Fault
         | Some t \<Rightarrow> flush_workq n bits (\<lambda>i. ins (Suc i)) k t))"

text \<open>
  Turns of the thread after its work queue was destroyed; a transfer that it queues then goes
  to a queue that does not exist any more.  \<open>kthread_stop\<close> waits until the thread has ended.
\<close>

fun thread_moves :: "byte list \<Rightarrow> moment list \<Rightarrow> thread \<Rightarrow> thread option" where
  "thread_moves bits [] t = Some t"
| "thread_moves bits (mo # mos) t = do {
     t \<leftarrow> thread_turn bits False mo t;
     bug_on (h_transfers (snd (snd t)) \<noteq> []);
     thread_moves bits mos t }"

fun stop_thread :: "nat \<Rightarrow> byte list \<Rightarrow> (nat \<Rightarrow> moment) \<Rightarrow> thread \<Rightarrow> hdlr res" where
  "stop_thread 0 bits ins t = Block"
| "stop_thread (Suc n) bits ins (p, asleep, h) =
     (if p = Stopped \<and> \<not> asleep then Done h
      else case thread_turn bits True (ins 0) (p, asleep, h) of
             None \<Rightarrow> Fault
           | Some t \<Rightarrow> if h_transfers (snd (snd t)) \<noteq> [] then Fault else stop_thread n bits (\<lambda>i. ins (Suc i)) t)"

text \<open>The commits that are queued are run before their work queue is destroyed.\<close>

fun flush_commits :: "nat \<Rightarrow> hdlr \<Rightarrow> hdlr option" where
  "flush_commits 0 h = Some h"
| "flush_commits (Suc n) h =
     (case h_commits h of
        [] \<Rightarrow> Some h
      | a # as \<Rightarrow> do { h \<leftarrow> lightfs_c_txn_commit (h\<lparr>h_commits := as\<rparr>) a; flush_commits n h })"

text \<open>
  What happens while the handler is destroyed: how long the waits are followed, the memory of
  new filters, the turns during the flush of each queue, the transfers that sleep for their
  answer at the beginning, the turns of the thread after each queue was destroyed and while
  it is told to stop, and the tags some request has used.
\<close>

record sched =
  ds_fuel :: nat
  ds_bits :: "byte list"
  ds_flush :: "nat \<Rightarrow> nat \<Rightarrow> turn"
  ds_asleep :: nat
  ds_gap :: "nat \<Rightarrow> moment list"
  ds_stop :: "nat \<Rightarrow> moment"
  ds_used :: "nat \<Rightarrow> bool"

definition res_of :: "'a option \<Rightarrow> 'a res" where
  "res_of x = (case x of None \<Rightarrow> Fault | Some a \<Rightarrow> Done a)"

definition destroy_workq :: "nat \<Rightarrow> world \<Rightarrow> world option" where
  "destroy_workq i w = do { w \<leftarrow> w_deref Hdlr w; w \<leftarrow> w_deref Workqs w; w \<leftarrow> w_deref (Workq i) w; w_free (Workq i) w }"

fun destroy_workqs :: "sched \<Rightarrow> nat list \<Rightarrow> thread \<Rightarrow> world \<Rightarrow> (thread \<times> world) res" where
  "destroy_workqs d [] t w = Done (t, w)"
| "destroy_workqs d (i # is) t w =
     res_bind (flush_workq (ds_fuel d) (ds_bits d) (ds_flush d i) (if i = 0 then ds_asleep d else 0) t) (\<lambda>t.
     res_bind (res_of (destroy_workq i w)) (\<lambda>w.
     res_bind (res_of (thread_moves (ds_bits d) (ds_gap d i) t)) (\<lambda>t.
       destroy_workqs d is t w)))"

definition destroy_rest :: "(nat \<Rightarrow> bool) \<Rightarrow> world \<Rightarrow> world option" where
  "destroy_rest used w = do {
     w \<leftarrow> w_deref Hdlr_task w;
     w \<leftarrow> w_free Hdlr_task w;
     w \<leftarrow> w_deref Commit_workq w;
     w \<leftarrow> w_free Commit_workq w;
     w \<leftarrow> w_deref Db_io w;
     w \<leftarrow> lightfs_io_close used w;
     w_each w_free [Dbc_buf_slab, Dbc_slab, Buf_slab, Meta_buf_slab, Txn_buf_slab, Txn_slab, C_txn_slab] w }"

definition lightfs_txn_hdlr_destroy :: "sched \<Rightarrow> thread \<Rightarrow> world \<Rightarrow> (hdlr \<times> world) res" where
  "lightfs_txn_hdlr_destroy d t w =
     res_bind (destroy_workqs d [0..<CONCURRENT_CNT] t w) (\<lambda>(t, w).
     res_bind (res_of (do { w \<leftarrow> w_free Workqs w; lightfs_queue_exit_objs w })) (\<lambda>w.
     res_bind (stop_thread (ds_fuel d) (ds_bits d) (ds_stop d) t) (\<lambda>h.
     res_bind (res_of (flush_commits (length (h_commits h)) h)) (\<lambda>h.
     res_bind (res_of (destroy_rest (ds_used d) w)) (\<lambda>w. Done (h, w))))))"

section \<open>The environment of the block store\<close>

text \<open>Errors of \<open>db_env_create\<close> and of \<open>lightfs_txn_hdlr_init\<close> are not looked at.\<close>

definition db_env_create :: "(obj \<Rightarrow> bool) \<Rightarrow> world \<Rightarrow> (int \<times> world) option" where
  "db_env_create fails w = do {
     let w = w_new fails Env_i w;
     if w_ptr w Env_i = Null then do { w \<leftarrow> w_free Env w; Some (- ENOMEM, w) } else Some (0, w) }"

definition lightfs_db_env_create :: "(obj \<Rightarrow> bool) \<Rightarrow> world \<Rightarrow> (int \<times> world) option" where
  "lightfs_db_env_create fails w = do {
     let w = w_new fails Env w;
     if w_ptr w Env = Null then Some (- ENOMEM, w)
     else do {
       (_, w) \<leftarrow> db_env_create fails w;
       w \<leftarrow> w_deref Env w;
       (_, w) \<leftarrow> lightfs_txn_hdlr_init fails w;
       Some (0, w) } }"

definition lightfs_db_env_close :: "sched \<Rightarrow> thread \<Rightarrow> world \<Rightarrow> (hdlr \<times> world) res" where
  "lightfs_db_env_close d t w =
     res_bind (lightfs_txn_hdlr_destroy d t w) (\<lambda>(h, w).
     res_bind (res_of (do { w \<leftarrow> w_deref Env w; w \<leftarrow> w_free Env_i w; w_free Env w })) (\<lambda>w. Done (h, w)))"

definition lightfs_db_env_set_cachesize :: int where "lightfs_db_env_set_cachesize = 0"

definition lightfs_db_env_open :: int where "lightfs_db_env_open = 0"

definition lightfs_db_env_set_key_ops :: "world \<Rightarrow> (int \<times> world) option" where
  "lightfs_db_env_set_key_ops w = do { w \<leftarrow> w_deref Env_i w; Some (0, w) }"

text \<open>
  \<open>i\<close> of a new database is tested before anything has set it; \<open>null_i\<close> says where that memory
  held zero.
\<close>

definition lightfs_db_create :: "(obj \<Rightarrow> bool) \<Rightarrow> (obj \<Rightarrow> bool) \<Rightarrow> obj \<Rightarrow> world \<Rightarrow> (int \<times> world) option" where
  "lightfs_db_create fails null_i db w = do {
     let w = w_new fails db w;
     if w_ptr w db = Null then Some (- ENOMEM, w)
     else do {
       bug_on (null_i db);
       Some (0, w) } }"

definition HASHTABLE_BITS :: nat where "HASHTABLE_BITS = 20"

definition lightfs_cache_create_objs :: "(obj \<Rightarrow> bool) \<Rightarrow> world \<Rightarrow> (int \<times> world) option" where
  "lightfs_cache_create_objs fails w = do {
     let w = w_new fails Cache_db w;
     if w_ptr w Cache_db = Null then Some (- ENOMEM, w)
     else do {
       w \<leftarrow> w_each (\<lambda>i w. w_deref (Ht_lock i) (w_new fails (Ht_lock i) w)) [0..<2 ^ HASHTABLE_BITS] w;
       Some (0, w_new fails Meta_slab (w_new fails Ht_item_slab (w_new fails Dcache_entry_slab w))) } }"

definition lightfs_ht_cache_close_objs :: "world \<Rightarrow> (int \<times> world) option" where
  "lightfs_ht_cache_close_objs w = do {
     w \<leftarrow> w_each (\<lambda>i w. do { w \<leftarrow> w_deref (Ht_lock i) w; w_free (Ht_lock i) w }) [0..<2 ^ HASHTABLE_BITS] w;
     w \<leftarrow> w_each w_free [Meta_slab, Ht_item_slab, Dcache_entry_slab, Cache_db] w;
     Some (0, w) }"

definition lightfs_db_open :: int where "lightfs_db_open = 0"
definition lightfs_db_change_descriptor :: int where "lightfs_db_change_descriptor = 0"

definition lightfs_db_close :: "obj \<Rightarrow> world \<Rightarrow> (int \<times> world) option" where
  "lightfs_db_close db w = do { w \<leftarrow> w_free db w; Some (0, w) }"

text \<open>The pointers of the superblock, as far as they are set.\<close>

record sb_info =
  sb_env :: bool
  sb_data :: bool
  sb_meta :: bool
  sb_cache :: bool

text \<open>
  Opening.  The databases are opened in a transaction that only reads, so its commit, which
  always returns 0, frees it and queues nothing.
\<close>

definition open_dbs ::
    "(obj \<Rightarrow> bool) \<Rightarrow> (obj \<Rightarrow> bool) \<Rightarrow> sb_info \<Rightarrow> hdlr \<Rightarrow> world \<Rightarrow> (int \<times> sb_info \<times> hdlr \<times> world) option" where
  "open_dbs fails null_i sb h w = do {
     (r, w) \<leftarrow> lightfs_db_create fails null_i Data_db w;
     let sb = sb\<lparr>sb_data := r = 0\<rparr>;
     if r \<noteq> 0 then Some (r, sb, h, w)
     else do {
       (r, w) \<leftarrow> lightfs_db_create fails null_i Meta_db w;
       let sb = sb\<lparr>sb_meta := r = 0\<rparr>;
       if r \<noteq> 0 then Some (r, sb, h, w)
       else do {
         (r, w) \<leftarrow> lightfs_cache_create_objs fails w;
         let sb = sb\<lparr>sb_cache := r = 0\<rparr>;
         if r \<noteq> 0 then Some (r, sb, h, w)
         else do {
           w \<leftarrow> w_deref Txn_slab w;
           let (t, i) = lightfs_bstore_txn_begin TXN_READONLY (h_txn_id h);
           let h = h\<lparr>h_txn_id := i\<rparr>;
           let r = (if lightfs_db_open \<noteq> 0 then lightfs_db_open else lightfs_db_change_descriptor);
           let r = (if r \<noteq> 0 then r else if lightfs_db_open \<noteq> 0 then lightfs_db_open else lightfs_db_change_descriptor);
           if r \<noteq> 0 then Some (r, sb, h, w)
           else Some (0, sb, lightfs_bstore_txn_commit h t 0, w) } } } }"

text \<open>
  The handler is the one just made, its thread at the beginning; the steps it makes before an
  error path stops it are among the turns of the schedule.
\<close>

definition lightfs_bstore_env_open ::
    "sched \<Rightarrow> (obj \<Rightarrow> bool) \<Rightarrow> (obj \<Rightarrow> bool) \<Rightarrow> sb_info \<Rightarrow> world \<Rightarrow> (int \<times> sb_info \<times> hdlr \<times> world) res" where
  "lightfs_bstore_env_open d fails null_i sb w =
     (if sb_env sb \<or> sb_data sb \<or> sb_meta sb then Fault
      else res_bind (res_of (lightfs_db_env_create fails w)) (\<lambda>(r, w).
        let sb = sb\<lparr>sb_env := r = 0\<rparr>; h = txn_hdlr_alloc\<lparr>h_commit_workq := w_ptr w Commit_workq \<noteq> Null\<rparr> in
        if r \<noteq> 0 then Done (r, sb, h, w)
        else if lightfs_db_env_set_cachesize \<noteq> 0 then Done (lightfs_db_env_set_cachesize, sb, h, w)
        else res_bind (res_of (lightfs_db_env_set_key_ops w)) (\<lambda>(r, w).
        if r \<noteq> 0 then Done (r, sb, h, w)
        else if lightfs_db_env_open \<noteq> 0 then Done (- ENOENT, sb, h, w)
        else res_bind (res_of (open_dbs fails null_i sb h w)) (\<lambda>(r, sb, h, w).
        if r \<noteq> 0 then
          res_bind (lightfs_db_env_close (d\<lparr>ds_used := \<lambda>_. False\<rparr>) (Top, False, h) w) (\<lambda>(h, w). Done (r, sb, h, w))
        else Done (0, sb, h, w)))))"

definition lightfs_bstore_env_close :: "sched \<Rightarrow> thread \<Rightarrow> sb_info \<Rightarrow> world \<Rightarrow> (hdlr \<times> sb_info \<times> world) res" where
  "lightfs_bstore_env_close d t sb w =
     (if \<not> (sb_data sb \<and> sb_meta sb \<and> sb_env sb \<and> sb_cache sb) then Fault
      else res_bind (res_of (do {
          (ret, w) \<leftarrow> lightfs_ht_cache_close_objs w;
          bug_on (ret \<noteq> 0);
          (ret, w) \<leftarrow> lightfs_db_close Data_db w;
          bug_on (ret \<noteq> 0);
          (ret, w) \<leftarrow> lightfs_db_close Meta_db w;
          bug_on (ret \<noteq> 0);
          Some w })) (\<lambda>w.
        res_bind (lightfs_db_env_close d t w) (\<lambda>(h, w).
          Done (h, \<lparr>sb_env = False, sb_data = False, sb_meta = False, sb_cache = False\<rparr>, w))))"

section \<open>Mount, unmount and the module\<close>

text \<open>A file system with nothing in memory, over a handler.\<close>

definition new_fs :: "hdlr \<Rightarrow> fs" where
  "new_fs h = \<lparr>f_hd = h, f_cache = snd (lightfs_cache_create False), f_icache = Map.empty,
     f_next_ino = (\<lambda>_. 0), f_max_ino = (\<lambda>_. 0), f_nr_cpus = 0\<rparr>"

text \<open>
  The root, from the opened environment on.  When its metadata cannot be had the environment
  stays open; when its inode cannot be made it is closed.
\<close>

definition mount_root ::
    "sched \<Rightarrow> env \<Rightarrow> nat list \<Rightarrow> bool \<Rightarrow> sb_info \<Rightarrow> fs \<Rightarrow> world \<Rightarrow> (int \<times> sb_info \<times> u64 option \<times> fs \<times> world) res" where
  "mount_root d e cpus root_ok sb s w =
     res_bind (res_of (fill_super_meta e s)) (\<lambda>(ret, root_dbt, meta, s).
       if ret \<noteq> 0 then Done (ret, sb, None, s, w)
       else res_bind (res_of (fill_super_root e cpus root_ok s root_dbt meta)) (\<lambda>(ret, root, s).
         if ret = 0 then Done (0, sb, root, s, w)
         else res_bind (lightfs_bstore_env_close d (Top, False, f_hd s) sb w) (\<lambda>(h, sb, w).
                Done (ret, sb, None, s\<lparr>f_hd := h\<rparr>, w))))"

text \<open>The whole of \<open>lightfs_fill_super\<close>, with the objects it makes and its error paths.\<close>

definition fill_super_objs ::
    "sched \<Rightarrow> (obj \<Rightarrow> bool) \<Rightarrow> (obj \<Rightarrow> bool) \<Rightarrow> env \<Rightarrow> nat list \<Rightarrow> bool \<Rightarrow> world \<Rightarrow>
     (int \<times> sb_info \<times> u64 option \<times> fs \<times> world) res" where
  "fill_super_objs d fails null_i e cpus root_ok w =
     (let sb = \<lparr>sb_env = False, sb_data = False, sb_meta = False, sb_cache = False\<rparr>; s = new_fs txn_hdlr_alloc; w = w_new fails Sbi w in
      if w_ptr w Sbi = Null then Done (- ENOMEM, sb, None, s, w)
      else let w = w_new fails Percpu w in
        if w_ptr w Percpu = Null then res_bind (res_of (w_free Sbi w)) (\<lambda>w. Done (- ENOMEM, sb, None, s, w))
        else res_bind (res_bind (lightfs_bstore_env_open d fails null_i sb w) (\<lambda>(ret, sb, h, w).
                 if ret \<noteq> 0 then Done (ret, sb, None, new_fs h, w) else mount_root d e cpus root_ok sb (new_fs h) w))
               (\<lambda>(ret, sb, root, s, w).
                 if ret \<noteq> 0 then res_bind (res_of (w_each w_free [Percpu, Sbi] w)) (\<lambda>w. Done (ret, sb, None, s, w))
                 else Done (0, sb, root, s, w)))"

text \<open>
  The handler is given as it is after \<open>sync_filesystem\<close> has written back what is dirty;
  \<open>lightfs_sync_fs\<close>, which that calls, returns without doing anything.
\<close>

definition lightfs_put_super :: "sched \<Rightarrow> thread \<Rightarrow> sb_info \<Rightarrow> world \<Rightarrow> (hdlr \<times> world) res" where
  "lightfs_put_super d t sb w =
     res_bind (lightfs_bstore_env_close d t sb w) (\<lambda>(h, sb, w).
       res_bind (res_of (w_each w_free [Percpu, Sbi] w)) (\<lambda>w. Done (h, w)))"

text \<open>Registration can fail with any code, which is passed on.\<close>

definition init_lightfs_fs :: "(obj \<Rightarrow> bool) \<Rightarrow> int \<Rightarrow> world \<Rightarrow> (int \<times> world) option" where
  "init_lightfs_fs fails registered w = do {
     let w = w_new fails Inode_slab w;
     if w_ptr w Inode_slab = Null then Some (- ENOMEM, w)
     else do {
       let w = w_new fails Wp_slab w;
       if w_ptr w Wp_slab = Null then do { w \<leftarrow> w_free Inode_slab w; Some (- ENOMEM, w) }
       else if registered \<noteq> 0 then do { w \<leftarrow> w_each w_free [Wp_slab, Inode_slab] w; Some (registered, w) }
       else Some (0, w_new (\<lambda>_. False) Fs_type w) } }"

definition exit_lightfs_fs :: "world \<Rightarrow> world option" where
  "exit_lightfs_fs = w_each w_free [Fs_type, Wp_slab, Inode_slab]"

definition beg_lightfs :: "(obj \<Rightarrow> bool) \<Rightarrow> int \<Rightarrow> world \<Rightarrow> (int \<times> world) option" where
  "beg_lightfs = init_lightfs_fs"

definition end_lightfs :: "world \<Rightarrow> world option" where
  "end_lightfs = exit_lightfs_fs"

end
