(* ===== verification/Kevin_Setup_Thms.thy ===== *)
theory Kevin_Setup_Thms
  imports Kevin_Setup Kevin_Super_Thms Kevin_Hdlr_Thms
begin

text \<open>
  Mount and unmount.  The loops that make and release objects, the end of the handler thread
  when it is told to stop, and from both: an unmount sends what was committed and releases
  what the mount made.
\<close>

section \<open>Objects made and released\<close>

lemma w_new_ptr [simp]: "\<not> fails ob \<Longrightarrow> w_ptr (w_new fails ob w) = (w_ptr w)(ob := Live)"
    "\<not> fails ob \<Longrightarrow> w_ptr (w_thread fails ob w) = (w_ptr w)(ob := Live)"
    "fails ob \<Longrightarrow> w_ptr (w_new fails ob w) = (w_ptr w)(ob := Null)"
  by (simp_all add: w_new_def w_thread_def)

lemma w_clear_ptr [simp]: "w_ptr (w_clear ob w) = (w_ptr w)(ob := Null)"
  by (simp add: w_clear_def)

lemma w_deref_ok [simp]: "w_ptr w ob = Live \<Longrightarrow> w_deref ob w = Some w"
  by (simp add: w_deref_def)

lemma w_free_ok: "w_ptr w ob = Live \<Longrightarrow> \<exists>w'. w_free ob w = Some w' \<and> w_ptr w' = (w_ptr w)(ob := Dangling)"
  by (simp add: w_free_def)

lemma each_append: "w_each f (xs @ ys) w = do { w \<leftarrow> w_each f xs w; w_each f ys w }"
  by (induction xs arbitrary: w) (auto split: Option.bind_splits)

lemma each_free:
  assumes "distinct xs" and "\<forall>ob \<in> set xs. w_ptr w ob = Live"
  shows "\<exists>w'. w_each w_free xs w = Some w' \<and> w_ptr w' = (\<lambda>ob. if ob \<in> set xs then Dangling else w_ptr w ob)"
  using assms
proof (induction xs arbitrary: w)
  case (Cons x xs)
  then obtain w1 where w1: "w_free x w = Some w1" "w_ptr w1 = (w_ptr w)(x := Dangling)" using w_free_ok [of w x] by auto
  with Cons have "\<forall>ob \<in> set xs. w_ptr w1 ob = Live" by auto
  with Cons.IH [of w1] Cons.prems(1) w1 show ?case by (fastforce simp: fun_eq_iff)
qed simp

text \<open>Loops that make and that release objects, one in each round.\<close>

lemma each_make:
  assumes "\<And>i w. i < n \<Longrightarrow> P (w_ptr w) \<Longrightarrow> \<exists>w'. f i w = Some w' \<and> w_ptr w' = (w_ptr w)(F i := Live) \<and> P (w_ptr w')"
    and "P (w_ptr w)"
  shows "\<exists>w'. w_each f [0..<n] w = Some w' \<and> w_ptr w' = (\<lambda>ob. if \<exists>i < n. ob = F i then Live else w_ptr w ob) \<and> P (w_ptr w')"
  using assms
proof (induction n)
  case (Suc n)
  have "\<exists>w'. w_each f [0..<n] w = Some w' \<and> w_ptr w' = (\<lambda>ob. if \<exists>i < n. ob = F i then Live else w_ptr w ob) \<and> P (w_ptr w')"
    by (rule Suc.IH) (use Suc.prems in auto)
  then obtain w1 where w1: "w_each f [0..<n] w = Some w1"
      "w_ptr w1 = (\<lambda>ob. if \<exists>i < n. ob = F i then Live else w_ptr w ob)" "P (w_ptr w1)" by blast
  from Suc.prems(1) [of n w1, OF lessI w1(3)] obtain w2 where
    w2: "f n w1 = Some w2" "w_ptr w2 = (w_ptr w1)(F n := Live)" "P (w_ptr w2)" by blast
  have "w_ptr w2 = (\<lambda>ob. if \<exists>i < Suc n. ob = F i then Live else w_ptr w ob)"
    unfolding w2(2) w1(2) by (intro ext) (auto simp: less_Suc_eq)
  with w1(1) w2(1,3) show ?case by (simp add: each_append)
qed simp

lemma each_release:
  assumes "inj F" and "\<And>i w. i < n \<Longrightarrow> P w \<Longrightarrow> w_ptr w (F i) = Live \<Longrightarrow>
        \<exists>w'. f i w = Some w' \<and> w_ptr w' = (if rel i then (w_ptr w)(F i := Dangling) else w_ptr w) \<and> P w'"
    and "P w" and "\<forall>i < n. w_ptr w (F i) = Live"
  shows "\<exists>w'. w_each f [0..<n] w = Some w' \<and> w_ptr w' = (\<lambda>ob. if \<exists>i < n. rel i \<and> ob = F i then Dangling else w_ptr w ob) \<and> P w'"
  using assms(2-4)
proof (induction n)
  case (Suc n)
  have "\<exists>w'. w_each f [0..<n] w = Some w' \<and> w_ptr w' = (\<lambda>ob. if \<exists>i < n. rel i \<and> ob = F i then Dangling else w_ptr w ob) \<and> P w'"
    by (rule Suc.IH) (use Suc.prems in auto)
  then obtain w1 where w1: "w_each f [0..<n] w = Some w1"
      "w_ptr w1 = (\<lambda>ob. if \<exists>i < n. rel i \<and> ob = F i then Dangling else w_ptr w ob)" "P w1" by blast
  have "w_ptr w1 (F n) = Live" using w1(2) Suc.prems(3) assms(1) by (auto simp: inj_def)
  with Suc.prems(1) [of n w1] w1(3) obtain w2 where
    "f n w1 = Some w2" "w_ptr w2 = (if rel n then (w_ptr w1)(F n := Dangling) else w_ptr w1)" "P w2" by auto
  with w1 show ?case by (auto simp: each_append less_Suc_eq fun_eq_iff)
qed simp

section \<open>Stopping the handler\<close>

text \<open>Nobody waits for a synchronous transaction.\<close>

definition no_sync :: "hdlr \<Rightarrow> bool" where
  "no_sync h \<longleftrightarrow> h_sync_list h = [] \<and> h_sync h = None"

lemma no_sync_transfers: "hinv s \<Longrightarrow> no_sync (s_hd s) \<Longrightarrow> h_transfers (s_hd s) = []"
  using hinvD(3) [of s] by (simp add: sync_part_def no_sync_def)

lemma no_sync_step:
  assumes "no_sync h" and "hdlr_step bits stop (p, h) = Some (p', h')" and "p \<noteq> CreateSync"
  shows "no_sync h'" "p' \<noteq> CreateSync"
proof -
  have "no_sync h' \<and> p' \<noteq> CreateSync"
  proof (cases p)
    case ProcessSync
    then show ?thesis using assms by (auto simp: no_sync_def hdlr_step_def process_sync_def)
  next
    case InsertSync
    then show ?thesis using assms by (auto simp: no_sync_def hdlr_step_def insert_sync_def)
  next
    case SkipSync
    with assms(2) have "skip_sync h = Some (p', h')" by (simp add: hdlr_step_def)
    moreover from this have "p' \<noteq> CreateSync"
      by (auto simp: skip_sync_def Let_def split: Option.bind_splits if_splits list.splits option.splits)
    ultimately show ?thesis using assms(1) by (auto simp: no_sync_def skip_sync_frame)
  next
    case (InsertRun a)
    with assms(1,2) show ?thesis by (auto simp: no_sync_def hdlr_step_def insert_run_frame dest: insert_run_frame(1))
  next
    case TransferRun
    with assms(2) obtain a where "lightfs_c_txn_transfer h a = Some h'" "p' = ClearRun" by (auto simp: hdlr_step_def bind_eq_Some_conv)
    with assms(1) transfer_frame(1,6) [of h a h'] show ?thesis by (auto simp: no_sync_def)
  next
    case TransferNow
    with assms(2) obtain a where "lightfs_c_txn_transfer h a = Some h'" "p' = ClearNow" by (auto simp: hdlr_step_def bind_eq_Some_conv)
    with assms(1) transfer_frame(1,6) [of h a h'] show ?thesis by (auto simp: no_sync_def)
  next
    case CreateRun
    with assms(1,2) show ?thesis by (auto simp: no_sync_def hdlr_step_def bind_eq_Some_conv create_frame)
  qed (use assms in \<open>auto simp: no_sync_def hdlr_step_def Let_def split: if_splits\<close>)
  then show "no_sync h'" "p' \<noteq> CreateSync" by simp_all
qed

lemma stopped_step:
  assumes "hdlr_step bits stop (p, h) = Some (p', h')" and "p' = Stopped" and "p \<noteq> Stopped"
  shows "h_txn_list h' = []"
proof (cases p)
  case ProcessSync
  with assms show ?thesis by (auto simp: hdlr_step_def process_sync_def bind_eq_Some_conv split: if_splits list.splits option.splits)
next
  case InsertSync
  with assms show ?thesis using insert_sync_frame(1) [of h p' h'] by (simp add: hdlr_step_def)
next
  case SkipSync
  with assms show ?thesis
    by (auto simp: hdlr_step_def skip_sync_def Let_def split: Option.bind_splits if_splits list.splits option.splits)
next
  case (InsertRun a)
  with assms show ?thesis using insert_run_frame(1) [of h a p' h'] by (simp add: hdlr_step_def)
qed (use assms in \<open>auto simp: hdlr_step_def Let_def bind_eq_Some_conv split: if_splits\<close>)

lemma step_tails:
  assumes "hinv s" and "hdlr_step bits stop (s_pc s, s_hd s) = Some (p, h)"
  shows "h_tails h = h_tails (s_hd s)"
proof (cases "s_pc s")
  case ProcessSync
  with assms(2) show ?thesis by (auto simp: hdlr_step_def dest: process_sync_frame)
next
  case InsertSync
  with assms(2) show ?thesis by (auto simp: hdlr_step_def dest: insert_sync_frame)
next
  case SkipSync
  with assms(2) show ?thesis by (auto simp: hdlr_step_def dest: skip_sync_frame)
next
  case (InsertRun a)
  with assms(2) show ?thesis by (auto simp: hdlr_step_def dest: insert_run_frame)
next
  case TransferRun
  with assms(2) transfer_tails [OF assms(1)] show ?thesis by (auto simp: hdlr_step_def Let_def bind_eq_Some_conv)
next
  case TransferNow
  with assms(2) transfer_tails [OF assms(1)] show ?thesis by (auto simp: hdlr_step_def Let_def bind_eq_Some_conv)
qed (use assms(2) in \<open>auto simp: hdlr_step_def Let_def bind_eq_Some_conv create_frame split: if_splits\<close>)

text \<open>The handler when nobody waits for a synchronous transaction, and when all callbacks have ended too.\<close>

definition calm :: "sys \<Rightarrow> bool" where
  "calm s \<longleftrightarrow> hinv s \<and> idle (s_pc s) (s_hd s) \<and> no_sync (s_hd s) \<and> (s_pc s = Stopped \<longrightarrow> h_txn_list (s_hd s) = [])"

abbreviation moved :: "sys \<Rightarrow> pc \<Rightarrow> hdlr \<Rightarrow> sys" where
  "moved s p h \<equiv> s\<lparr>s_pc := p, s_hd := h\<rparr>"

abbreviation stopping :: "sys \<Rightarrow> bool" where
  "stopping s \<equiv> calm s \<and> h_tails (s_hd s) = []"

lemma calm_transfers: "calm s \<Longrightarrow> h_transfers (s_hd s) = []"
  by (simp add: calm_def no_sync_transfers)

lemma calm_step:
  assumes "calm s" and "length bits \<ge> C_TXN_BLOOM_M_BYTES"
  shows "\<exists>p h. hdlr_step bits stop (s_pc s, s_hd s) = Some (p, h) \<and> calm (moved s p h) \<and> h_tails h = h_tails (s_hd s)
           \<and> (s_pc s \<noteq> WaitTxn \<and> s_pc s \<noteq> Stopped \<and> h_tails h = [] \<longrightarrow> advances (s_pc s) (s_hd s) p h)"
proof -
  have inv: "hinv s" and ns: "no_sync (s_hd s)" and idle: "idle (s_pc s) (s_hd s)"
    using assms(1) by (simp_all add: calm_def)
  from step_all [OF inv assms(2), of stop] obtain p h where
    st: "hdlr_step bits stop (s_pc s, s_hd s) = Some (p, h)" and inv': "hinv (moved s p h)"
    by (auto simp: step_ok_def)
  have "s_pc s \<noteq> CreateSync"
    using hinvD(4) [OF inv] ns by (auto simp: lists_part_def no_sync_def)
  from no_sync_step(1) [OF ns st this] have ns': "no_sync h" .
  note tails = step_tails [OF inv st]
  have "idle p h \<and> (p = Stopped \<longrightarrow> h_txn_list h = [])
      \<and> (s_pc s \<noteq> WaitTxn \<and> s_pc s \<noteq> Stopped \<and> h_tails h = [] \<longrightarrow> advances (s_pc s) (s_hd s) p h)"
  proof (cases "s_pc s = WaitTxn \<or> s_pc s = Stopped")
    case True
    with st idle assms(1) show ?thesis by (auto simp: hdlr_step_def Let_def idle_def calm_def)
  next
    case False
    with pass_step [OF inv st] idle tails stopped_step [OF st] show ?thesis by simp
  qed
  with st inv' ns' tails show ?thesis by (auto simp: calm_def)
qed

lemma calm_turn:
  assumes "calm s" and "length bits \<ge> C_TXN_BLOOM_M_BYTES"
  shows "\<exists>p b h. thread_turn bits stop mo (s_pc s, a, s_hd s) = Some (p, b, h) \<and> calm (moved s p h) \<and> h_tails h = h_tails (s_hd s)"
proof -
  from calm_step [OF assms, of stop] obtain p h where
    "hdlr_step bits stop (s_pc s, s_hd s) = Some (p, h)" "calm (moved s p h)" "h_tails h = h_tails (s_hd s)" by blast
  moreover have "calm (moved s (s_pc s) (s_hd s))" using assms(1) by simp
  ultimately show ?thesis using assms(1) by (auto simp: thread_turn_def thread_step_def)
qed

lemma moves_ok:
  assumes "stopping s" and "length bits \<ge> C_TXN_BLOOM_M_BYTES"
  shows "\<exists>p b h. thread_moves bits mos (s_pc s, a, s_hd s) = Some (p, b, h) \<and> stopping (moved s p h)"
  using assms(1)
proof (induction mos arbitrary: s a)
  case Nil
  then show ?case by simp
next
  case (Cons mo mos)
  from calm_turn [OF _ assms(2), of s False mo a] Cons.prems obtain p b h where
    t: "thread_turn bits False mo (s_pc s, a, s_hd s) = Some (p, b, h)" "stopping (moved s p h)" by auto
  from Cons.IH [OF t(2), of b] obtain p' b' h' where
    "thread_moves bits mos (p, b, h) = Some (p', b', h')" "stopping (moved s p' h')" by auto
  with t calm_transfers [of "moved s p h"] show ?case by auto
qed

text \<open>One state of the stopping thread leads to another, whatever it has to wait for on the way.\<close>

definition leads :: "byte list \<Rightarrow> thread \<Rightarrow> thread \<Rightarrow> bool" where
  "leads bits t u \<longleftrightarrow>
     (\<forall>ins. served ins \<longrightarrow> (\<exists>k. \<forall>m. stop_thread (k + m) bits ins t = stop_thread m bits (\<lambda>i. ins (k + i)) u))"

lemma leads_refl: "leads bits t t"
  unfolding leads_def by (intro allI impI exI [of _ 0]) simp

lemma leads_trans:
  assumes "leads bits t u" and "leads bits u v"
  shows "leads bits t v"
  unfolding leads_def
proof (intro allI impI)
  fix ins assume ins: "served ins"
  with assms(1) obtain k where k: "\<And>m. stop_thread (k + m) bits ins t = stop_thread m bits (\<lambda>i. ins (k + i)) u"
    unfolding leads_def by blast
  from assms(2) served_tail [OF ins] obtain l where
    "\<And>m. stop_thread (l + m) bits (\<lambda>i. ins (k + i)) u = stop_thread m bits (\<lambda>i. ins (k + (l + i))) v"
    unfolding leads_def by blast
  with k have "stop_thread ((k + l) + m) bits ins t = stop_thread m bits (\<lambda>i. ins ((k + l) + i)) v" for m
    by (simp add: add.assoc)
  then show "\<exists>k. \<forall>m. stop_thread (k + m) bits ins t = stop_thread m bits (\<lambda>i. ins (k + i)) v" by blast
qed

lemma leads_wait:
  assumes "\<And>ins. served ins \<Longrightarrow> \<exists>j. Q (ins j)" and "\<And>mo. Q mo \<Longrightarrow> thread_turn bits True mo (p, a, h) = Some (q, b, g)"
    and "\<And>mo. \<not> Q mo \<Longrightarrow> thread_turn bits True mo (p, a, h) = Some (p, a, h)"
    and "p \<noteq> Stopped \<or> a" and "h_transfers h = []" and "h_transfers g = []"
  shows "leads bits (p, a, h) (q, b, g)"
proof -
  have "\<exists>k. \<forall>m. stop_thread (k + m) bits ins (p, a, h) = stop_thread m bits (\<lambda>i. ins (k + i)) (q, b, g)" if "Q (ins j)" for ins j
    using that
  proof (induction j arbitrary: ins)
    case 0
    then have "stop_thread (Suc m) bits ins (p, a, h) = stop_thread m bits (\<lambda>i. ins (Suc i)) (q, b, g)" for m
      using assms(2) [of "ins 0"] assms(4,6) by auto
    then show ?case by (intro exI [of _ 1]) simp
  next
    case (Suc j)
    show ?case
    proof (cases "Q (ins 0)")
      case True
      then have "stop_thread (Suc m) bits ins (p, a, h) = stop_thread m bits (\<lambda>i. ins (Suc i)) (q, b, g)" for m
        using assms(2) [of "ins 0"] assms(4,6) by auto
      then show ?thesis by (intro exI [of _ 1]) simp
    next
      case False
      from Suc.IH [of "\<lambda>i. ins (Suc i)"] Suc.prems obtain k where
        k: "\<And>m. stop_thread (k + m) bits (\<lambda>i. ins (Suc i)) (p, a, h) = stop_thread m bits (\<lambda>i. ins (Suc (k + i))) (q, b, g)" by blast
      have "stop_thread (Suc n) bits ins (p, a, h) = stop_thread n bits (\<lambda>i. ins (Suc i)) (p, a, h)" for n
        using assms(3) [OF False] assms(4,5) by auto
      with k have "stop_thread (Suc k + m) bits ins (p, a, h) = stop_thread m bits (\<lambda>i. ins (Suc k + i)) (q, b, g)" for m by simp
      then show ?thesis by blast
    qed
  qed
  with assms(1) show ?thesis unfolding leads_def by blast
qed

lemma leads_awake: "h_transfers h = [] \<Longrightarrow> leads bits (p, a, h) (p, False, h)"
proof (cases a)
  case True
  assume "h_transfers h = []"
  then have "leads bits (p, True, h) (p, False, h)"
    by (intro leads_wait [where Q = snd]) (auto simp: served_def thread_turn_def thread_step_def)
  with True show ?thesis by simp
qed (simp add: leads_refl)

lemma leads_step:
  assumes "hdlr_step bits True (p, h) = Some (q, g)" and "p \<noteq> Stopped" and "h_transfers h = []" and "h_transfers g = []"
  shows "leads bits (p, False, h) (q, False, g)"
proof -
  have "leads bits (p, False, h) (q, awaits_answer p h, g)"
    by (rule leads_wait [where Q = "\<lambda>mo. transfers p \<longrightarrow> fst mo"])
      (use assms in \<open>auto simp: served_def thread_turn_def thread_step_def\<close>)
  then show ?thesis by (rule leads_trans) (rule leads_awake [OF assms(4)])
qed

lemma leads_stops:
  assumes "leads bits t (Stopped, False, h)" and "served ins"
  shows "\<exists>N. \<forall>n \<ge> N. stop_thread n bits ins t = Done h"
proof -
  from assms obtain k where k: "\<And>m. stop_thread (k + m) bits ins t = stop_thread m bits (\<lambda>i. ins (k + i)) (Stopped, False, h)"
    unfolding leads_def by blast
  have "stop_thread n bits ins t = Done h" if "n \<ge> k + 1" for n
  proof -
    from that obtain m where "n = k + Suc m" by (metis add_Suc_right le_Suc_ex Suc_eq_plus1 add_Suc)
    then show ?thesis using k [of "Suc m"] by simp
  qed
  then show ?thesis by blast
qed

text \<open>A pass of the thread, and two passes: the second one leaves nothing behind.\<close>

lemma stop_pass:
  assumes "stopping s" and "length bits \<ge> C_TXN_BLOOM_M_BYTES"
  shows "\<exists>p h. (p = WaitTxn \<or> p = Stopped) \<and> stopping (moved s p h) \<and> (quiet (s_pc s) (s_hd s) \<longrightarrow> quiet p h)
           \<and> leads bits (s_pc s, False, s_hd s) (p, False, h)"
  using assms(1)
proof (induction "hmeasure (s_pc s) (s_hd s)" arbitrary: s rule: less_induct)
  case less
  show ?case
  proof (cases "s_pc s = WaitTxn \<or> s_pc s = Stopped")
    case True
    with less.prems show ?thesis by (intro exI [of _ "s_pc s"] exI [of _ "s_hd s"]) (auto simp: leads_refl)
  next
    case False
    with calm_step [OF _ assms(2), of s True] less.prems obtain p h where
      st: "hdlr_step bits True (s_pc s, s_hd s) = Some (p, h)" "stopping (moved s p h)" "advances (s_pc s) (s_hd s) p h" by auto
    have lead: "leads bits (s_pc s, False, s_hd s) (p, False, h)"
      using leads_step [OF st(1)] False calm_transfers [of s] calm_transfers [of "moved s p h"] less.prems st(2) by simp
    obtain p' h' where run: "p' = WaitTxn \<or> p' = Stopped" "stopping (moved s p' h')" "quiet p h \<longrightarrow> quiet p' h'"
        "leads bits (p, False, h) (p', False, h')"
      using less.hyps [of "moved s p h"] st(2,3) by (auto simp: advances_def)
    with leads_trans [OF lead run(4)] st(3) show ?thesis by (intro exI [of _ p'] exI [of _ h']) (auto simp: advances_def)
  qed
qed

lemma stop_wait:
  assumes "stopping (moved s WaitTxn h)"
  shows "stopping (moved s Top h)" "leads bits (WaitTxn, False, h) (Top, False, h)"
proof -
  let ?s = "moved s WaitTxn h"
  have "hinv (?s\<lparr>s_pc := Top\<rparr>)" using assms by (intro inv_goto) (simp_all add: calm_def)
  then have "hinv (moved s Top h)" by (cases s) simp
  with assms show "stopping (moved s Top h)" by (auto simp: calm_def idle_def)
  have "h_transfers h = []" using assms calm_transfers [of ?s] by simp
  then show "leads bits (WaitTxn, False, h) (Top, False, h)" by (intro leads_step) (simp_all add: hdlr_step_def Let_def)
qed

lemma stop_top:
  assumes "stopping s" and "s_pc s = Top" and "h_txn_list (s_hd s) = []"
  shows "\<exists>h. stopping (moved s Stopped h) \<and> leads bits (Top, False, s_hd s) (Stopped, False, h)"
proof -
  let ?h = "(s_hd s)\<lparr>h_running := False\<rparr>"
  have ns: "no_sync (s_hd s)" and inv: "hinv s" using assms(1) by (simp_all add: calm_def)
  then have cnt: "h_txn_cnt (s_hd s) = 0" using hinvD(4) [OF inv] assms(3) by (simp add: lists_part_def no_sync_def)
  have st: "hdlr_step bits True (Top, s_hd s) = Some (Stopped, ?h)"
    using cnt assms(3) ns by (simp add: hdlr_step_def Let_def no_sync_def)
  have "leads bits (Top, False, s_hd s) (Stopped, False, ?h)"
    using no_sync_transfers [OF inv ns] by (intro leads_step [OF st]) simp_all
  moreover have "hinv (s\<lparr>s_pc := Stopped\<rparr>)" by (rule inv_goto [OF inv]) (simp_all add: assms(2))
  then have "hinv (moved s Stopped ?h)" using inv_running [of "s\<lparr>s_pc := Stopped\<rparr>" False] by simp
  ultimately show ?thesis using assms by (intro exI [of _ ?h]) (auto simp: calm_def idle_def no_sync_def)
qed

lemma stop_quiet:
  assumes "stopping s" and "length bits \<ge> C_TXN_BLOOM_M_BYTES" and "quiet (s_pc s) (s_hd s)"
  shows "\<exists>h. stopping (moved s Stopped h) \<and> leads bits (s_pc s, False, s_hd s) (Stopped, False, h)"
proof -
  from stop_pass [OF assms(1,2)] assms(3) obtain p h where
    r: "p = WaitTxn \<or> p = Stopped" "stopping (moved s p h)" "quiet p h" "leads bits (s_pc s, False, s_hd s) (p, False, h)" by auto
  show ?thesis
  proof (cases "p = Stopped")
    case True
    with r show ?thesis by auto
  next
    case False
    then have p: "p = WaitTxn" using r(1) by simp
    have l: "h_txn_list h = []" using r(3) by (auto simp: quiet_def p)
    note w = stop_wait [OF r(2) [unfolded p]]
    from stop_top [OF w(1), of bits] l obtain h' where
      h': "stopping (moved s Stopped h')" "leads bits (Top, False, h) (Stopped, False, h')" by auto
    from leads_trans [OF leads_trans [OF r(4) [unfolded p] w(2)] h'(2)] h'(1) show ?thesis by blast
  qed
qed

lemma stop_ends:
  assumes "stopping s" and "length bits \<ge> C_TXN_BLOOM_M_BYTES"
  shows "\<exists>h. stopping (moved s Stopped h) \<and> leads bits (s_pc s, False, s_hd s) (Stopped, False, h)"
proof -
  from stop_pass [OF assms] obtain p h where
    r: "p = WaitTxn \<or> p = Stopped" "stopping (moved s p h)" "leads bits (s_pc s, False, s_hd s) (p, False, h)" by auto
  show ?thesis
  proof (cases "p = Stopped")
    case True
    with r show ?thesis by blast
  next
    case False
    then have p: "p = WaitTxn" using r(1) by simp
    note w = stop_wait [OF r(2) [unfolded p]]
    from stop_quiet [OF w(1) assms(2)] obtain h' where
      "stopping (moved s Stopped h')" "leads bits (Top, False, h) (Stopped, False, h')" by (auto simp: quiet_def)
    with leads_trans [OF leads_trans [OF r(3) [unfolded p] w(2)]] show ?thesis by blast
  qed
qed

text \<open>Waiting for work that runs, and running what is queued.\<close>

lemma end_lists:
  assumes "lightfs_c_txn_transfer_end h a = Some h'"
  shows "h_sync_list h' = h_sync_list h" "h_txn_list h' = h_txn_list h" "h_tails h' = h_tails h"
  using assms by (auto simp: lightfs_c_txn_transfer_end_def bind_eq_Some_conv commit_frame flush_frame)

lemma commit_commits:
  assumes "hinv s" and "h_commits (s_hd s) = a # as" and "lightfs_c_txn_commit ((s_hd s)\<lparr>h_commits := as\<rparr>) a = Some h"
  shows "h_commits h = as"
proof -
  have "base_ok (s_hd s) a" using role_commit(1) [OF hinvD(1) [OF assms(1)], of "[]" a as] assms(2) by simp
  then obtain c where "h_heap (s_hd s) a = Some c" "c_children c = []" by (auto simp: base_ok_def)
  with assms(3) show ?thesis by (auto simp: lightfs_c_txn_commit_def lightfs_c_txn_destroy_def)
qed

lemma worker_ok:
  assumes "calm s"
  shows "\<exists>k' h. worker_turn mo k (s_hd s) = Some (k', h) \<and> calm (s\<lparr>s_hd := h\<rparr>)
           \<and> (if h_tails (s_hd s) = [] then h = s_hd s \<and> k' = (if snd mo then k - 1 else k)
              else k' = k + 1 \<and> length (h_tails (s_hd s)) = Suc (length (h_tails h)))"
proof (cases "h_tails (s_hd s)")
  case Nil
  then show ?thesis using calm_transfers [OF assms] assms by (simp add: worker_turn_def)
next
  case (Cons a as)
  then have t: "h_tails (s_hd s) = [] @ a # as" by simp
  have inv: "hinv s" using assms by (simp add: calm_def)
  from inv_transfer_end [OF inv t] obtain h where
    h: "lightfs_c_txn_transfer_end ((s_hd s)\<lparr>h_tails := as\<rparr>) a = Some h" "hinv (s\<lparr>s_hd := h\<rparr>)" by auto
  note f = end_frame [OF h(1)] end_lists [OF h(1)]
  have "calm (s\<lparr>s_hd := h\<rparr>)" using assms h(2) f by (auto simp: calm_def idle_def no_sync_def)
  with h(1) Cons f show ?thesis by (auto simp: worker_turn_def)
qed

text \<open>A work gets its turn, with the answer there, again and again.\<close>

definition answered_turns :: "(nat \<Rightarrow> turn) \<Rightarrow> bool" where
  "answered_turns ins \<longleftrightarrow> (\<forall>i. \<exists>j \<ge> i. fst (ins j) \<and> snd (snd (ins j)))"

lemma answered_tail: "answered_turns ins \<Longrightarrow> answered_turns (\<lambda>i. ins (Suc i))"
  unfolding answered_turns_def by (metis Suc_le_D Suc_le_mono)

abbreviation left :: "nat \<Rightarrow> hdlr \<Rightarrow> nat" where
  "left k h \<equiv> 2 * length (h_tails h) + k"

lemma flush_one:
  assumes "\<And>n. flush_workq (Suc n) bits ins k t = flush_workq n bits ins' k' t'"
    and "\<exists>N p b h. P p h \<and> (\<forall>n \<ge> N. flush_workq n bits ins' k' t' = Done (p, b, h))"
  shows "\<exists>N p b h. P p h \<and> (\<forall>n \<ge> N. flush_workq n bits ins k t = Done (p, b, h))"
proof -
  from assms(2) obtain N p b h where r: "P p h" "\<forall>n \<ge> N. flush_workq n bits ins' k' t' = Done (p, b, h)" by blast
  from r(2) assms(1) have "\<forall>n \<ge> Suc N. flush_workq n bits ins k t = Done (p, b, h)" by (metis Suc_le_D Suc_le_mono)
  with r(1) show ?thesis by blast
qed

lemma workq_flushes:
  assumes "calm s" and "answered_turns ins" and "length bits \<ge> C_TXN_BLOOM_M_BYTES"
  shows "\<exists>N p b h. stopping (moved s p h) \<and> (\<forall>n \<ge> N. flush_workq n bits ins k (s_pc s, a, s_hd s) = Done (p, b, h))"
  using assms(1,2)
proof (induction "left k (s_hd s)" arbitrary: s k a ins rule: less_induct)
  case less
  note smaller = less.hyps
  show ?case
  proof (cases "left k (s_hd s) = 0")
    case True
    then have "flush_workq (Suc n) bits ins k (s_pc s, a, s_hd s) = Done (s_pc s, a, s_hd s)" for n
      using calm_transfers [OF less.prems(1)] by simp
    then have "\<forall>n \<ge> 1. flush_workq n bits ins k (s_pc s, a, s_hd s) = Done (s_pc s, a, s_hd s)"
      by (metis One_nat_def Suc_le_D)
    moreover have "stopping (moved s (s_pc s) (s_hd s))" using True less.prems(1) by simp
    ultimately show ?thesis by blast
  next
    case busy: False
    have "\<exists>N p b h. stopping (moved t p h) \<and> (\<forall>n \<ge> N. flush_workq n bits is k (s_pc t, c, s_hd t) = Done (p, b, h))"
      if "calm t" "h_tails (s_hd t) = h_tails (s_hd s)" "answered_turns is" "fst (is j) \<and> snd (snd (is j))" for j t c "is"
      using that
    proof (induction j arbitrary: t c "is" rule: less_induct)
      case inner: (less j)
      let ?is = "\<lambda>i. is (Suc i)"
      note tail = answered_tail [OF inner.prems(3)]
      have busy': "\<not> (k = 0 \<and> h_tails (s_hd t) = [] \<and> h_transfers (s_hd t) = [])"
        using busy inner.prems(2) by auto
      have later: "\<exists>j' < j. fst (?is j') \<and> snd (snd (?is j'))" if "\<not> (fst (is 0) \<and> snd (snd (is 0)))"
        using that inner.prems(4) by (cases j) auto
      show ?case
      proof (cases "fst (is 0)")
        case True
        from worker_ok [OF inner.prems(1), of "snd (is 0)" k] obtain k' h where
          wt: "worker_turn (snd (is 0)) k (s_hd t) = Some (k', h)" "calm (t\<lparr>s_hd := h\<rparr>)"
            "if h_tails (s_hd t) = [] then h = s_hd t \<and> k' = (if snd (snd (is 0)) then k - 1 else k)
             else k' = k + 1 \<and> length (h_tails (s_hd t)) = Suc (length (h_tails h))" by blast
        have st: "flush_workq (Suc n) bits is k (s_pc t, c, s_hd t) = flush_workq n bits ?is k' (s_pc t, c, h)" for n
          using busy' True wt(1) by auto
        have "\<exists>N p b h'. stopping (moved t p h') \<and> (\<forall>n \<ge> N. flush_workq n bits ?is k' (s_pc t, c, h) = Done (p, b, h'))"
        proof (cases "left k' h < left k (s_hd s)")
          case True
          from smaller [where k = k' and s = "t\<lparr>s_hd := h\<rparr>", OF _ wt(2) tail] True show ?thesis by simp
        next
          case False
          then have idle: "h_tails (s_hd t) = []" "\<not> snd (snd (is 0))" "k' = k" "h = s_hd t"
            using wt(3) busy inner.prems(2) by (auto split: if_splits)
          then obtain j' where "j' < j" "fst (?is j') \<and> snd (snd (?is j'))" using later by blast
          from inner.IH [OF this(1) inner.prems(1,2) tail this(2)] idle show ?thesis by simp
        qed
        then show ?thesis by (rule flush_one [OF st])
      next
        case False
        from calm_turn [OF inner.prems(1) assms(3), of False "snd (is 0)" c] obtain p b h where
          tt: "thread_turn bits False (snd (is 0)) (s_pc t, c, s_hd t) = Some (p, b, h)" "calm (moved t p h)" "h_tails h = h_tails (s_hd t)"
          by blast
        have st: "flush_workq (Suc n) bits is k (s_pc t, c, s_hd t) = flush_workq n bits ?is k (p, b, h)" for n
          using busy' False tt(1) by auto
        from later False obtain j' where "j' < j" "fst (?is j') \<and> snd (snd (?is j'))" by blast
        from inner.IH [OF this(1) tt(2) _ tail this(2), of b] tt(3) inner.prems(2)
        have "\<exists>N q b' h'. stopping (moved t q h') \<and> (\<forall>n \<ge> N. flush_workq n bits ?is k (p, b, h) = Done (q, b', h'))" by simp
        then show ?thesis by (rule flush_one [OF st])
      qed
    qed
    moreover obtain j where "fst (ins j) \<and> snd (snd (ins j))" using less.prems(2) unfolding answered_turns_def by blast
    ultimately show ?thesis using less.prems by blast
  qed
qed

lemma flush_commits_ok:
  assumes "hinv s" and "length (h_commits (s_hd s)) = n"
  shows "\<exists>h. flush_commits n (s_hd s) = Some h \<and> hinv (s\<lparr>s_hd := h\<rparr>) \<and> h_commits h = []
           \<and> h_sync_list h = h_sync_list (s_hd s) \<and> h_txn_list h = h_txn_list (s_hd s) \<and> h_run h = h_run (s_hd s)
           \<and> h_sync h = h_sync (s_hd s) \<and> h_transfers h = h_transfers (s_hd s) \<and> h_tails h = h_tails (s_hd s)"
  using assms
proof (induction n arbitrary: s)
  case (Suc n)
  then obtain a as where t: "h_commits (s_hd s) = [] @ a # as" by (cases "h_commits (s_hd s)") auto
  from inv_commit_work [OF Suc.prems(1) t] obtain h where
    h: "lightfs_c_txn_commit ((s_hd s)\<lparr>h_commits := as\<rparr>) a = Some h" "hinv (s\<lparr>s_hd := h\<rparr>)" by auto
  have c: "h_commits h = as" using commit_commits [OF Suc.prems(1) _ h(1)] t by simp
  then have "length (h_commits h) = n" using t Suc.prems(2) by simp
  with Suc.IH [of "s\<lparr>s_hd := h\<rparr>"] h t commit_frame [OF h(1)] show ?case by simp
qed simp

section \<open>The objects of the handler\<close>

definition io_made :: "obj \<Rightarrow> bool" where
  "io_made ob \<longleftrightarrow> ob \<in> {Db_io, Reqs, Shm_task} \<or> (\<exists>i < CHEEZE_QUEUE_SIZE. ob = Tag_item i)"

definition queue_made :: "obj \<Rightarrow> bool" where
  "queue_made ob \<longleftrightarrow> ob \<in> {Workq_tags, Tag_arr} \<or> (\<exists>i < CONCURRENT_CNT. ob = Workq_tag i)"

definition hdlr_made :: "obj \<Rightarrow> bool" where
  "hdlr_made ob \<longleftrightarrow>
     ob \<in> {Hdlr, Workqs, Commit_workq, Hdlr_task} \<or> ob \<in> set hdlr_slabs \<or> (\<exists>i < CONCURRENT_CNT. ob = Workq i) \<or> queue_made ob \<or> io_made ob"

lemma io_create_ok:
  assumes "\<And>ob. \<not> fails ob"
  shows "\<exists>w'. lightfs_io_create fails w = Some w' \<and> w_ptr w' = (\<lambda>ob. if io_made ob then Live else w_ptr w ob)"
proof -
  let ?w = "w_new fails Reqs (w_new fails Db_io w)" and ?P = "\<lambda>p. p Reqs = Live"
  have "\<exists>w'. cheeze_queue_init_objs fails ?w = Some w'
      \<and> w_ptr w' = (\<lambda>ob. if \<exists>i < CHEEZE_QUEUE_SIZE. ob = Tag_item i then Live else w_ptr ?w ob) \<and> ?P (w_ptr w')"
    unfolding cheeze_queue_init_objs_def by (rule each_make) (simp_all add: assms)
  then obtain w1 where w1: "cheeze_queue_init_objs fails ?w = Some w1"
      "w_ptr w1 = (\<lambda>ob. if \<exists>i < CHEEZE_QUEUE_SIZE. ob = Tag_item i then Live else w_ptr ?w ob)" "w_ptr w1 Reqs = Live" by blast
  have "lightfs_io_create fails w = Some (w_thread fails Shm_task w1)"
    using w1(1,3) by (simp add: lightfs_io_create_def cheeze_init_objs_def shm_init_objs_def assms)
  moreover have "w_ptr (w_thread fails Shm_task w1) ob = (if io_made ob then Live else w_ptr w ob)" for ob
    by (cases ob) (simp_all add: w1(2) assms io_made_def)
  ultimately show ?thesis by blast
qed

lemma queue_init_ok:
  assumes "\<And>ob. \<not> fails ob"
  shows "\<exists>w'. lightfs_queue_init_objs fails w = Some w' \<and> w_ptr w' = (\<lambda>ob. if queue_made ob then Live else w_ptr w ob)"
proof -
  let ?w = "w_new fails Tag_arr (w_new fails Workq_tags w)" and ?P = "\<lambda>p. p Tag_arr = Live"
  let ?f = "\<lambda>i w. do { w \<leftarrow> w_deref (Workq_tag i) (w_new fails (Workq_tag i) w); w_deref Tag_arr w }"
  have "\<exists>w'. w_each ?f [0..<CONCURRENT_CNT] ?w = Some w'
      \<and> w_ptr w' = (\<lambda>ob. if \<exists>i < CONCURRENT_CNT. ob = Workq_tag i then Live else w_ptr ?w ob) \<and> ?P (w_ptr w')"
    by (rule each_make) (simp_all add: assms)
  then obtain w1 where w1: "w_each ?f [0..<CONCURRENT_CNT] ?w = Some w1"
      "w_ptr w1 = (\<lambda>ob. if \<exists>i < CONCURRENT_CNT. ob = Workq_tag i then Live else w_ptr ?w ob)" by blast
  have "w_ptr w1 ob = (if queue_made ob then Live else w_ptr w ob)" for ob
    by (cases ob) (simp_all add: w1(2) assms queue_made_def)
  with w1(1) show ?thesis by (auto simp: lightfs_queue_init_objs_def assms)
qed

lemma hdlr_init_ok:
  assumes "\<And>ob. \<not> fails ob"
  shows "\<exists>w'. lightfs_txn_hdlr_init fails w = Some (0, w') \<and> w_ptr w' = (\<lambda>ob. if hdlr_made ob then Live else w_ptr w ob)"
proof -
  have slabs: "\<exists>w'. slabs_create fails made os w = Some (0, w') \<and> w_ptr w' = (\<lambda>ob. if ob \<in> set os then Live else w_ptr w ob)" for made os w
  proof (induction os arbitrary: made w)
    case (Cons ob os)
    from Cons.IH [of "ob # made" "w_new fails ob w"] obtain w' where
      w': "slabs_create fails (ob # made) os (w_new fails ob w) = Some (0, w')"
      "w_ptr w' = (\<lambda>x. if x \<in> set os then Live else w_ptr (w_new fails ob w) x)" by blast
    have "slabs_create fails made (ob # os) w = Some (0, w')" using w'(1) assms [of ob] by (simp add: Let_def)
    moreover have "w_ptr w' = (\<lambda>x. if x \<in> set (ob # os) then Live else w_ptr w x)" using assms [of ob] by (auto simp: w'(2))
    ultimately show ?case by blast
  qed simp
  from slabs [of "[]" hdlr_slabs "w_new fails Hdlr w"] obtain w1 where
    w1: "slabs_create fails [] hdlr_slabs (w_new fails Hdlr w) = Some (0, w1)"
      "w_ptr w1 = (\<lambda>ob. if ob \<in> set hdlr_slabs then Live else w_ptr (w_new fails Hdlr w) ob)" by blast
  from queue_init_ok [of fails "w_new fails Workqs w1", OF assms] obtain w2 where
    w2: "lightfs_queue_init_objs fails (w_new fails Workqs w1) = Some w2"
      "w_ptr w2 = (\<lambda>ob. if queue_made ob then Live else w_ptr (w_new fails Workqs w1) ob)" by blast
  let ?f = "\<lambda>i w. w_deref Workqs (w_new fails (Workq i) w)"
  have "\<exists>w'. w_each ?f [0..<CONCURRENT_CNT] w2 = Some w'
      \<and> w_ptr w' = (\<lambda>ob. if \<exists>i < CONCURRENT_CNT. ob = Workq i then Live else w_ptr w2 ob) \<and> (w_ptr w' Workqs = Live)"
    by (rule each_make [where P = "\<lambda>p. p Workqs = Live"]) (simp_all add: assms w2(2) queue_made_def)
  then obtain w3 where w3: "w_each ?f [0..<CONCURRENT_CNT] w2 = Some w3"
      "w_ptr w3 = (\<lambda>ob. if \<exists>i < CONCURRENT_CNT. ob = Workq i then Live else w_ptr w2 ob)" by blast
  from io_create_ok [of fails "w_new fails Commit_workq w3", OF assms] obtain w4 where
    w4: "lightfs_io_create fails (w_new fails Commit_workq w3) = Some w4"
      "w_ptr w4 = (\<lambda>ob. if io_made ob then Live else w_ptr (w_new fails Commit_workq w3) ob)" by blast
  have "lightfs_txn_hdlr_init fails w = Some (0, w_thread fails Hdlr_task w4)"
    using w1(1) w2(1) w3(1) w4(1) by (simp add: lightfs_txn_hdlr_init_def assms Let_def)
  moreover have "w_ptr (w_thread fails Hdlr_task w4) ob = (if hdlr_made ob then Live else w_ptr w ob)" for ob
    by (cases ob) (simp_all add: w4(2) w3(2) w2(2) w1(2) assms hdlr_made_def hdlr_slabs_def queue_made_def io_made_def)
  ultimately show ?thesis by blast
qed

text \<open>What is left of the objects after they were released.\<close>

definition io_left :: "(nat \<Rightarrow> bool) \<Rightarrow> obj \<Rightarrow> ptr" where
  "io_left used ob = (case ob of Shm_task \<Rightarrow> Null | Tag_item i \<Rightarrow> if used i then Dangling else Live | _ \<Rightarrow> Dangling)"

definition hdlr_left :: "(nat \<Rightarrow> bool) \<Rightarrow> obj \<Rightarrow> ptr" where
  "hdlr_left used ob = (if ob = Hdlr then Live else if io_made ob then io_left used ob else Dangling)"

lemma io_close_ok:
  assumes "\<And>ob. io_made ob \<Longrightarrow> w_ptr w ob = Live"
  shows "\<exists>w'. lightfs_io_close used w = Some w' \<and> w_ptr w' = (\<lambda>ob. if io_made ob then io_left used ob else w_ptr w ob)"
proof -
  have live: "w_ptr w Db_io = Live" "w_ptr w Reqs = Live" "w_ptr w Shm_task = Live" "\<forall>i < CHEEZE_QUEUE_SIZE. w_ptr w (Tag_item i) = Live"
    using assms by (simp_all add: io_made_def)
  let ?w1 = "w\<lparr>w_ptr := (w_ptr w)(Shm_task := Null)\<rparr>"
  have w1: "shm_exit_objs w = Some ?w1" using live(3) by (simp add: shm_exit_objs_def w_free_def w_clear_def)
  have "\<exists>w'. cheeze_queue_exit_objs used ?w1 = Some w'
      \<and> w_ptr w' = (\<lambda>ob. if \<exists>i < CHEEZE_QUEUE_SIZE. used i \<and> ob = Tag_item i then Dangling else w_ptr ?w1 ob) \<and> w_ptr w' Reqs = Live"
    unfolding cheeze_queue_exit_objs_def
    by (rule each_release [where P = "\<lambda>w. w_ptr w Reqs = Live"]) (simp_all add: live inj_def w_free_def)
  then obtain w2 where w2: "cheeze_queue_exit_objs used ?w1 = Some w2"
      "w_ptr w2 = (\<lambda>ob. if \<exists>i < CHEEZE_QUEUE_SIZE. used i \<and> ob = Tag_item i then Dangling else w_ptr ?w1 ob)" "w_ptr w2 Reqs = Live" by blast
  have "w_ptr w2 Db_io = Live" by (simp add: w2(2) live(1))
  then have "lightfs_io_close used w = Some (w2\<lparr>w_ptr := (w_ptr w2)(Reqs := Dangling, Db_io := Dangling)\<rparr>)"
    using w1 w2(1,3) by (simp add: lightfs_io_close_def cheeze_exit_objs_def w_free_def)
  moreover have "((w_ptr w2)(Reqs := Dangling, Db_io := Dangling)) ob = (if io_made ob then io_left used ob else w_ptr w ob)" for ob
    by (cases ob) (simp_all add: w2(2) io_made_def io_left_def live)
  ultimately show ?thesis by (intro exI conjI) (assumption, simp add: fun_eq_iff)
qed

lemma queue_exit_ok:
  assumes "\<And>ob. queue_made ob \<Longrightarrow> w_ptr w ob = Live"
  shows "\<exists>w'. lightfs_queue_exit_objs w = Some w' \<and> w_ptr w' = (\<lambda>ob. if queue_made ob then Dangling else w_ptr w ob)"
proof -
  have live: "w_ptr w Workq_tags = Live" "w_ptr w Tag_arr = Live" "\<forall>i < CONCURRENT_CNT. w_ptr w (Workq_tag i) = Live"
    using assms by (simp_all add: queue_made_def)
  let ?f = "\<lambda>i w. do { w \<leftarrow> w_deref Tag_arr w; w_free (Workq_tag i) w }"
  have "\<exists>w'. w_each ?f [0..<CONCURRENT_CNT] w = Some w'
      \<and> w_ptr w' = (\<lambda>ob. if \<exists>i < CONCURRENT_CNT. True \<and> ob = Workq_tag i then Dangling else w_ptr w ob) \<and> w_ptr w' Tag_arr = Live"
    by (rule each_release [where P = "\<lambda>w. w_ptr w Tag_arr = Live"]) (simp_all add: live inj_def w_free_def)
  then obtain w1 where w1: "w_each ?f [0..<CONCURRENT_CNT] w = Some w1"
      "w_ptr w1 = (\<lambda>ob. if \<exists>i < CONCURRENT_CNT. ob = Workq_tag i then Dangling else w_ptr w ob)" by auto
  have "w_ptr w1 Tag_arr = Live" "w_ptr w1 Workq_tags = Live" by (simp_all add: w1(2) live)
  then have "lightfs_queue_exit_objs w = Some (w1\<lparr>w_ptr := (w_ptr w1)(Tag_arr := Dangling, Workq_tags := Dangling)\<rparr>)"
    using w1(1) live(1) by (simp add: lightfs_queue_exit_objs_def w_free_def)
  moreover have "((w_ptr w1)(Tag_arr := Dangling, Workq_tags := Dangling)) ob = (if queue_made ob then Dangling else w_ptr w ob)" for ob
    by (cases ob) (simp_all add: w1(2) queue_made_def)
  ultimately show ?thesis by (intro exI conjI) (assumption, simp add: fun_eq_iff)
qed

text \<open>The turns keep coming while the handler is destroyed, and the memory of a new filter is long enough.\<close>

definition sched_ok :: "sched \<Rightarrow> bool" where
  "sched_ok d \<longleftrightarrow> length (ds_bits d) \<ge> C_TXN_BLOOM_M_BYTES \<and> (\<forall>i < CONCURRENT_CNT. answered_turns (ds_flush d i)) \<and> served (ds_stop d)"

lemma workqs_ok:
  assumes "calm s" and "sched_ok d" and "is = [] \<Longrightarrow> h_tails (s_hd s) = []" and "distinct is" and "\<forall>i \<in> set is. i < CONCURRENT_CNT"
    and "w_ptr w Hdlr = Live" and "w_ptr w Workqs = Live" and "\<forall>i \<in> set is. w_ptr w (Workq i) = Live"
  shows "\<exists>N p b h w'. stopping (moved s p h) \<and> (\<forall>n \<ge> N. destroy_workqs (d\<lparr>ds_fuel := n\<rparr>) is (s_pc s, a, s_hd s) w = Done ((p, b, h), w'))
           \<and> w_ptr w' = (\<lambda>ob. if \<exists>i \<in> set is. ob = Workq i then Dangling else w_ptr w ob)"
  using assms(1,3-)
proof (induction "is" arbitrary: s a w)
  case Nil
  then have "stopping (moved s (s_pc s) (s_hd s))" by simp
  then show ?case by (intro exI [of _ 0] exI [of _ "s_pc s"] exI [of _ a] exI [of _ "s_hd s"] exI [of _ w]) simp
next
  case (Cons i "is")
  have bits: "length (ds_bits d) \<ge> C_TXN_BLOOM_M_BYTES" and turns: "answered_turns (ds_flush d i)"
    using assms(2) Cons.prems(4) by (simp_all add: sched_ok_def)
  let ?k = "if i = 0 then ds_asleep d else 0"
  from workq_flushes [OF Cons.prems(1) turns bits, of ?k a] obtain N p b h where
    f: "stopping (moved s p h)" "\<And>n. n \<ge> N \<Longrightarrow> flush_workq n (ds_bits d) (ds_flush d i) ?k (s_pc s, a, s_hd s) = Done (p, b, h)" by blast
  let ?w = "w\<lparr>w_ptr := (w_ptr w)(Workq i := Dangling)\<rparr>"
  have wq: "destroy_workq i w = Some ?w" using Cons.prems(5-7) by (simp add: destroy_workq_def w_free_def)
  from moves_ok [OF f(1) bits, of "ds_gap d i" b] obtain p1 b1 h1 where
    m: "thread_moves (ds_bits d) (ds_gap d i) (p, b, h) = Some (p1, b1, h1)" "stopping (moved s p1 h1)" by auto
  have "\<exists>N p b h w'. stopping (moved (moved s p1 h1) p h)
      \<and> (\<forall>n \<ge> N. destroy_workqs (d\<lparr>ds_fuel := n\<rparr>) is (s_pc (moved s p1 h1), b1, s_hd (moved s p1 h1)) ?w = Done ((p, b, h), w'))
      \<and> w_ptr w' = (\<lambda>ob. if \<exists>i \<in> set is. ob = Workq i then Dangling else w_ptr ?w ob)"
    by (rule Cons.IH) (use m(2) Cons.prems in auto)
  then obtain N' p2 b2 h2 w' where
    r: "stopping (moved s p2 h2)" "\<And>n. n \<ge> N' \<Longrightarrow> destroy_workqs (d\<lparr>ds_fuel := n\<rparr>) is (p1, b1, h1) ?w = Done ((p2, b2, h2), w')"
      "w_ptr w' = (\<lambda>ob. if \<exists>i \<in> set is. ob = Workq i then Dangling else w_ptr ?w ob)" by (simp, blast)
  have "destroy_workqs (d\<lparr>ds_fuel := n\<rparr>) (i # is) (s_pc s, a, s_hd s) w = Done ((p2, b2, h2), w')" if "n \<ge> max N N'" for n
    using that f(2) [of n] r(2) [of n] wq m(1) by (cases "i = 0") (simp_all add: res_of_def del: flush_workq.simps)
  moreover have "w_ptr w' = (\<lambda>ob. if \<exists>j \<in> set (i # is). ob = Workq j then Dangling else w_ptr w ob)" by (auto simp: r(3))
  ultimately show ?case using r(1) by blast
qed

lemma destroy_queues_ok:
  assumes "calm s" and "sched_ok d" and "\<And>ob. hdlr_made ob \<Longrightarrow> w_ptr w ob = Live"
  shows "\<exists>N p b h w1 w2. stopping (moved s p h)
           \<and> (\<forall>n \<ge> N. destroy_workqs (d\<lparr>ds_fuel := n\<rparr>) [0..<CONCURRENT_CNT] (s_pc s, a, s_hd s) w = Done ((p, b, h), w1))
           \<and> do { w \<leftarrow> w_free Workqs w1; lightfs_queue_exit_objs w } = Some w2
           \<and> w_ptr w2 = (\<lambda>ob. if ob = Workqs \<or> (\<exists>i < CONCURRENT_CNT. ob = Workq i) \<or> queue_made ob then Dangling else w_ptr w ob)"
proof -
  have "\<exists>N p b h w'. stopping (moved s p h)
      \<and> (\<forall>n \<ge> N. destroy_workqs (d\<lparr>ds_fuel := n\<rparr>) [0..<CONCURRENT_CNT] (s_pc s, a, s_hd s) w = Done ((p, b, h), w'))
      \<and> w_ptr w' = (\<lambda>ob. if \<exists>i \<in> set [0..<CONCURRENT_CNT]. ob = Workq i then Dangling else w_ptr w ob)"
    by (rule workqs_ok [OF assms(1,2)]) (use assms(3) in \<open>auto simp: hdlr_made_def CONCURRENT_CNT_def\<close>)
  from this [unfolded set_upt atLeast0LessThan Bex_def lessThan_iff] obtain N p b h w1 where
    q: "stopping (moved s p h)" "\<forall>n \<ge> N. destroy_workqs (d\<lparr>ds_fuel := n\<rparr>) [0..<CONCURRENT_CNT] (s_pc s, a, s_hd s) w = Done ((p, b, h), w1)"
      "w_ptr w1 = (\<lambda>ob. if \<exists>i < CONCURRENT_CNT. ob = Workq i then Dangling else w_ptr w ob)" by blast
  let ?w1 = "w1\<lparr>w_ptr := (w_ptr w1)(Workqs := Dangling)\<rparr>"
  have "w_ptr ?w1 ob = Live" if "queue_made ob" for ob
    using that assms(3) [of ob] by (cases ob) (simp_all add: q(3) queue_made_def hdlr_made_def)
  from queue_exit_ok [OF this] obtain w2 where
    w2: "lightfs_queue_exit_objs ?w1 = Some w2" "w_ptr w2 = (\<lambda>ob. if queue_made ob then Dangling else w_ptr ?w1 ob)" by blast
  have "w_ptr w1 Workqs = Live" using assms(3) by (simp add: q(3) hdlr_made_def)
  then have "do { w \<leftarrow> w_free Workqs w1; lightfs_queue_exit_objs w } = Some w2" using w2(1) by (simp add: w_free_def)
  moreover have "w_ptr w2 ob = (if ob = Workqs \<or> (\<exists>i < CONCURRENT_CNT. ob = Workq i) \<or> queue_made ob then Dangling else w_ptr w ob)" for ob
    by (cases ob) (simp_all add: w2(2) q(3) queue_made_def)
  ultimately show ?thesis using q(1,2) by blast
qed

lemma destroy_rest_ok:
  assumes "w_ptr w Hdlr_task = Live" and "w_ptr w Commit_workq = Live" and "\<And>ob. io_made ob \<Longrightarrow> w_ptr w ob = Live"
    and "\<And>ob. ob \<in> set hdlr_slabs \<Longrightarrow> w_ptr w ob = Live"
  shows "\<exists>w'. destroy_rest used w = Some w'
           \<and> w_ptr w' = (\<lambda>ob. if ob \<in> set hdlr_slabs \<or> ob \<in> {Hdlr_task, Commit_workq} then Dangling
                            else if io_made ob then io_left used ob else w_ptr w ob)"
proof -
  let ?w = "w\<lparr>w_ptr := (w_ptr w)(Hdlr_task := Dangling, Commit_workq := Dangling)\<rparr>"
  have io: "w_ptr ?w ob = Live" if "io_made ob" for ob using that assms(3) [OF that] by (cases ob) (simp_all add: io_made_def)
  from io_close_ok [OF this] obtain w1 where
    w1: "lightfs_io_close used ?w = Some w1" "w_ptr w1 = (\<lambda>ob. if io_made ob then io_left used ob else w_ptr ?w ob)" by blast
  let ?slabs = "[Dbc_buf_slab, Dbc_slab, Buf_slab, Meta_buf_slab, Txn_buf_slab, Txn_slab, C_txn_slab]"
  have "distinct ?slabs" "\<forall>ob \<in> set ?slabs. w_ptr w1 ob = Live" using assms(4) by (simp_all add: w1(2) hdlr_slabs_def io_made_def)
  from each_free [OF this] obtain w2 where
    w2: "w_each w_free ?slabs w1 = Some w2" "w_ptr w2 = (\<lambda>ob. if ob \<in> set ?slabs then Dangling else w_ptr w1 ob)" by blast
  have "w_ptr ?w Db_io = Live" by (rule io) (simp add: io_made_def)
  then have "destroy_rest used w = Some w2"
    using assms(1,2) w1(1) w2(1) by (simp add: destroy_rest_def w_free_def del: w_each.simps)
  moreover have "w_ptr w2 ob = (if ob \<in> set hdlr_slabs \<or> ob \<in> {Hdlr_task, Commit_workq} then Dangling
      else if io_made ob then io_left used ob else w_ptr w ob)" for ob
    by (cases ob) (simp_all add: w2(2) w1(2) hdlr_slabs_def io_made_def)
  ultimately show ?thesis by blast
qed

text \<open>
  The handler is destroyed: whatever the thread is doing, if nobody waits for a synchronous
  transaction it sends all that was committed, ends, and the queued work is done.
\<close>

definition hdlr_done :: "sys \<Rightarrow> hdlr \<Rightarrow> bool" where
  "hdlr_done s h \<longleftrightarrow>
     h_txn_list h = [] \<and> h_sync_list h = [] \<and> h_transfers h = [] \<and> h_tails h = [] \<and> h_commits h = [] \<and> h_run h = None \<and> h_sync h = None
   \<and> map txn_sig (sent_txns False h) = s_log s \<and> map txn_sig (sent_txns True h) = s_slog s"

lemma stop_drains:
  assumes "stopping s" and "sched_ok d"
  shows "\<exists>N h1 h. (\<forall>n \<ge> N. stop_thread n (ds_bits d) (ds_stop d) (s_pc s, a, s_hd s) = Done h1)
           \<and> flush_commits (length (h_commits h1)) h1 = Some h \<and> hdlr_done s h"
proof -
  have d: "length (ds_bits d) \<ge> C_TXN_BLOOM_M_BYTES" "served (ds_stop d)" using assms(2) by (simp_all add: sched_ok_def)
  from stop_ends [OF assms(1) d(1)] obtain h1 where
    h1: "stopping (moved s Stopped h1)" "leads (ds_bits d) (s_pc s, False, s_hd s) (Stopped, False, h1)" by blast
  have "leads (ds_bits d) (s_pc s, a, s_hd s) (s_pc s, False, s_hd s)" using assms(1) calm_transfers [of s] by (intro leads_awake) simp
  from leads_stops [OF leads_trans [OF this h1(2)] d(2)] obtain N where
    N: "\<forall>n \<ge> N. stop_thread n (ds_bits d) (ds_stop d) (s_pc s, a, s_hd s) = Done h1" by blast
  from flush_commits_ok [of "moved s Stopped h1"] h1(1) obtain h where
    h: "flush_commits (length (h_commits h1)) h1 = Some h" "hinv (moved s Stopped h)" "h_commits h = []"
      "h_sync_list h = h_sync_list h1" "h_txn_list h = h_txn_list h1" "h_run h = h_run h1" "h_sync h = h_sync h1"
      "h_transfers h = h_transfers h1" "h_tails h = h_tails h1" by (auto simp: calm_def)
  have e: "h_run h = None" "no_sync h" "h_tails h = []" "h_txn_list h = []"
    using h1(1) h(4-9) by (simp_all add: calm_def idle_def no_sync_def)
  then have "h_transfers h = []" using no_sync_transfers [OF h(2)] by simp
  moreover have "pending False (moved s Stopped h) = []" "pending True (moved s Stopped h) = []"
    using e by (simp_all add: pending_def live_run_def no_sync_def)
  with committed_split [OF h(2), of False] committed_split [OF h(2), of True]
  have "map txn_sig (sent_txns False h) = s_log s" "map txn_sig (sent_txns True h) = s_slog s"
    by (simp_all add: committed_def delivered_def)
  ultimately have "hdlr_done s h" using e h(3) by (simp add: hdlr_done_def no_sync_def)
  with N h(1) show ?thesis by blast
qed

lemma destroy_ok:
  assumes "calm s" and "sched_ok d" and "\<And>ob. hdlr_made ob \<Longrightarrow> w_ptr w ob = Live"
  shows "\<exists>N h w'. (\<forall>n \<ge> N. lightfs_txn_hdlr_destroy (d\<lparr>ds_fuel := n\<rparr>) (s_pc s, a, s_hd s) w = Done (h, w')) \<and> hdlr_done s h
           \<and> w_ptr w' = (\<lambda>ob. if hdlr_made ob then hdlr_left (ds_used d) ob else w_ptr w ob)"
proof -
  from destroy_queues_ok [OF assms, of a] obtain N p b h0 w0 w1 where
    q: "stopping (moved s p h0)"
      "\<forall>n \<ge> N. destroy_workqs (d\<lparr>ds_fuel := n\<rparr>) [0..<CONCURRENT_CNT] (s_pc s, a, s_hd s) w = Done ((p, b, h0), w0)"
      "do { w \<leftarrow> w_free Workqs w0; lightfs_queue_exit_objs w } = Some w1"
      "w_ptr w1 = (\<lambda>ob. if ob = Workqs \<or> (\<exists>i < CONCURRENT_CNT. ob = Workq i) \<or> queue_made ob then Dangling else w_ptr w ob)" by blast
  from stop_drains [OF q(1) assms(2), of b] obtain N' h1 h where
    h: "\<forall>n \<ge> N'. stop_thread n (ds_bits d) (ds_stop d) (p, b, h0) = Done h1" "flush_commits (length (h_commits h1)) h1 = Some h" "hdlr_done s h"
    by (auto simp: hdlr_done_def)
  have "w_ptr w1 Hdlr_task = Live" "w_ptr w1 Commit_workq = Live" using assms(3) by (simp_all add: q(4) queue_made_def hdlr_made_def)
  moreover have "w_ptr w1 ob = Live" if "io_made ob" for ob
    using that assms(3) [of ob] by (cases ob) (simp_all add: q(4) queue_made_def hdlr_made_def io_made_def)
  moreover have "w_ptr w1 ob = Live" if "ob \<in> set hdlr_slabs" for ob
    using that assms(3) [of ob] by (cases ob rule: obj.exhaust) (simp_all add: q(4) queue_made_def hdlr_made_def hdlr_slabs_def)
  ultimately obtain w2 where
    w2: "destroy_rest (ds_used d) w1 = Some w2"
      "w_ptr w2 = (\<lambda>ob. if ob \<in> set hdlr_slabs \<or> ob \<in> {Hdlr_task, Commit_workq} then Dangling
                     else if io_made ob then io_left (ds_used d) ob else w_ptr w1 ob)" using destroy_rest_ok [of w1 "ds_used d"] by blast
  have "lightfs_txn_hdlr_destroy (d\<lparr>ds_fuel := n\<rparr>) (s_pc s, a, s_hd s) w = Done (h, w2)" if "n \<ge> max N N'" for n
    using that q(2,3) h(1,2) w2(1) by (simp add: lightfs_txn_hdlr_destroy_def res_of_def del: upt_Suc)
  moreover have "w_ptr w2 ob = (if hdlr_made ob then hdlr_left (ds_used d) ob else w_ptr w ob)" for ob
    using assms(3) [of ob]
    by (cases ob) (simp_all add: w2(2) q(4) queue_made_def hdlr_made_def hdlr_slabs_def io_made_def hdlr_left_def)
  ultimately show ?thesis using h(3) by blast
qed

section \<open>Mount and unmount\<close>

definition cache_made :: "obj \<Rightarrow> bool" where
  "cache_made ob \<longleftrightarrow> ob \<in> {Cache_db, Dcache_entry_slab, Ht_item_slab, Meta_slab} \<or> (\<exists>i < 2 ^ HASHTABLE_BITS. ob = Ht_lock i)"

definition mounted :: "obj \<Rightarrow> bool" where
  "mounted ob \<longleftrightarrow> ob \<in> {Sbi, Percpu, Env, Env_i, Data_db, Meta_db} \<or> cache_made ob \<or> hdlr_made ob"

lemma cache_create_ok:
  assumes "\<And>ob. cache_made ob \<Longrightarrow> \<not> fails ob"
  shows "\<exists>w'. lightfs_cache_create_objs fails w = Some (0, w') \<and> w_ptr w' = (\<lambda>ob. if cache_made ob then Live else w_ptr w ob)"
proof -
  have nf: "\<not> fails Cache_db" "\<not> fails Meta_slab" "\<not> fails Ht_item_slab" "\<not> fails Dcache_entry_slab"
      "\<And>i. i < 2 ^ HASHTABLE_BITS \<Longrightarrow> \<not> fails (Ht_lock i)"
    by (rule assms; simp add: cache_made_def)+
  let ?f = "\<lambda>i w. w_deref (Ht_lock i) (w_new fails (Ht_lock i) w)"
  have "\<exists>w'. w_each ?f [0..<2 ^ HASHTABLE_BITS] (w_new fails Cache_db w) = Some w'
      \<and> w_ptr w' = (\<lambda>ob. if \<exists>i < 2 ^ HASHTABLE_BITS. ob = Ht_lock i then Live else w_ptr (w_new fails Cache_db w) ob) \<and> True"
    by (rule each_make) (simp_all add: nf)
  then obtain w1 where w1: "w_each ?f [0..<2 ^ HASHTABLE_BITS] (w_new fails Cache_db w) = Some w1"
      "w_ptr w1 = (\<lambda>ob. if \<exists>i < 2 ^ HASHTABLE_BITS. ob = Ht_lock i then Live else w_ptr (w_new fails Cache_db w) ob)" by blast
  let ?w = "w_new fails Meta_slab (w_new fails Ht_item_slab (w_new fails Dcache_entry_slab w1))"
  have "lightfs_cache_create_objs fails w = Some (0, ?w)" using w1(1) nf(1) by (simp add: lightfs_cache_create_objs_def Let_def)
  moreover have "w_ptr ?w ob = (if cache_made ob then Live else w_ptr w ob)" for ob
    by (cases ob) (simp_all add: w1(2) nf cache_made_def)
  ultimately show ?thesis by blast
qed

lemma cache_create_frame:
  assumes "\<And>ob. cache_made ob \<Longrightarrow> \<not> fails ob" and "\<not> cache_made x"
  shows "\<exists>w'. lightfs_cache_create_objs fails w = Some (0, w') \<and> w_ptr w' x = w_ptr w x"
  using cache_create_ok [of fails w, OF assms(1)] assms(2) by auto

lemma cache_close_ok:
  assumes "\<And>ob. cache_made ob \<Longrightarrow> w_ptr w ob = Live"
  shows "\<exists>w'. lightfs_ht_cache_close_objs w = Some (0, w') \<and> w_ptr w' = (\<lambda>ob. if cache_made ob then Dangling else w_ptr w ob)"
proof -
  let ?f = "\<lambda>i w. do { w \<leftarrow> w_deref (Ht_lock i) w; w_free (Ht_lock i) w }"
  have locks: "\<forall>i < 2 ^ HASHTABLE_BITS. w_ptr w (Ht_lock i) = Live" using assms by (simp add: cache_made_def)
  have "\<exists>w'. w_each ?f [0..<2 ^ HASHTABLE_BITS] w = Some w'
      \<and> w_ptr w' = (\<lambda>ob. if \<exists>i < 2 ^ HASHTABLE_BITS. True \<and> ob = Ht_lock i then Dangling else w_ptr w ob) \<and> True"
    by (rule each_release [where P = "\<lambda>_. True"]) (simp_all add: locks inj_def w_free_def)
  then obtain w1 where w1: "w_each ?f [0..<2 ^ HASHTABLE_BITS] w = Some w1"
      "w_ptr w1 = (\<lambda>ob. if \<exists>i < 2 ^ HASHTABLE_BITS. ob = Ht_lock i then Dangling else w_ptr w ob)" by auto
  let ?obs = "[Meta_slab, Ht_item_slab, Dcache_entry_slab, Cache_db]"
  have "distinct ?obs" "\<forall>ob \<in> set ?obs. w_ptr w1 ob = Live" using assms by (simp_all add: w1(2) cache_made_def)
  from each_free [OF this] obtain w2 where
    w2: "w_each w_free ?obs w1 = Some w2" "w_ptr w2 = (\<lambda>ob. if ob \<in> set ?obs then Dangling else w_ptr w1 ob)" by blast
  have "lightfs_ht_cache_close_objs w = Some (0, w2)"
    using w1(1) w2(1) by (simp add: lightfs_ht_cache_close_objs_def del: w_each.simps)
  moreover have "w_ptr w2 ob = (if cache_made ob then Dangling else w_ptr w ob)" for ob
    by (cases ob) (simp_all add: w2(2) w1(2) cache_made_def)
  ultimately show ?thesis by blast
qed

lemma env_create_ok:
  assumes "\<And>ob. \<not> fails ob"
  shows "\<exists>w'. lightfs_db_env_create fails w = Some (0, w') \<and> w_ptr w' = (\<lambda>ob. if ob \<in> {Env, Env_i} \<or> hdlr_made ob then Live else w_ptr w ob)"
proof -
  let ?w = "w_new fails Env_i (w_new fails Env w)"
  from hdlr_init_ok [of fails ?w, OF assms] obtain w' where
    w': "lightfs_txn_hdlr_init fails ?w = Some (0, w')" "w_ptr w' = (\<lambda>ob. if hdlr_made ob then Live else w_ptr ?w ob)" by blast
  have "lightfs_db_env_create fails w = Some (0, w')"
    using w'(1) assms [of Env] assms [of Env_i] by (simp add: lightfs_db_env_create_def db_env_create_def Let_def)
  moreover have "w_ptr w' ob = (if ob \<in> {Env, Env_i} \<or> hdlr_made ob then Live else w_ptr w ob)" for ob
    using assms [of Env] assms [of Env_i] by (cases ob) (simp_all add: w'(2))
  ultimately show ?thesis by blast
qed

abbreviation sb_unset :: sb_info where
  "sb_unset \<equiv> \<lparr>sb_env = False, sb_data = False, sb_meta = False, sb_cache = False\<rparr>"

abbreviation sb_set :: sb_info where
  "sb_set \<equiv> \<lparr>sb_env = True, sb_data = True, sb_meta = True, sb_cache = True\<rparr>"

lemmas env_calls = lightfs_db_env_set_cachesize_def lightfs_db_env_open_def

lemma env_open_ok:
  assumes "\<And>ob. \<not> fails ob" and "\<not> null_i Data_db" and "\<not> null_i Meta_db"
  shows "\<exists>w'. lightfs_bstore_env_open d fails null_i sb_unset w = Done (0, sb_set, txn_hdlr_alloc\<lparr>h_txn_id := 2\<rparr>, w')
           \<and> w_ptr w' = (\<lambda>ob. if ob \<in> {Env, Env_i, Data_db, Meta_db} \<or> cache_made ob \<or> hdlr_made ob then Live else w_ptr w ob)"
proof -
  from env_create_ok [of fails w, OF assms(1)] obtain w1 where
    w1: "lightfs_db_env_create fails w = Some (0, w1)"
      "w_ptr w1 = (\<lambda>ob. if ob \<in> {Env, Env_i} \<or> hdlr_made ob then Live else w_ptr w ob)" by blast
  let ?w = "w_new fails Meta_db (w_new fails Data_db w1)"
  from cache_create_ok [of fails ?w, OF assms(1)] obtain w2 where
    w2: "lightfs_cache_create_objs fails ?w = Some (0, w2)" "w_ptr w2 = (\<lambda>ob. if cache_made ob then Live else w_ptr ?w ob)" by blast
  have ptr: "w_ptr w2 ob = (if ob \<in> {Env, Env_i, Data_db, Meta_db} \<or> cache_made ob \<or> hdlr_made ob then Live else w_ptr w ob)" for ob
    using assms(1) [of Data_db] assms(1) [of Meta_db] by (cases ob) (simp_all add: w2(2) w1(2))
  have "w_ptr w2 Txn_slab = Live" by (simp add: ptr hdlr_made_def hdlr_slabs_def)
  moreover have "h_txn_id txn_hdlr_alloc + 1 = 2" by (simp add: txn_hdlr_alloc_def)
  ultimately have "open_dbs fails null_i (sb_unset\<lparr>sb_env := True\<rparr>) txn_hdlr_alloc w1 = Some (0, sb_set, txn_hdlr_alloc\<lparr>h_txn_id := 2\<rparr>, w2)"
    using w2(1) assms(2,3) assms(1) [of Data_db] assms(1) [of Meta_db]
    by (simp add: open_dbs_def lightfs_db_create_def lightfs_db_open_def lightfs_db_change_descriptor_def bug_on_def
          lightfs_bstore_txn_begin_def lightfs_bstore_txn_commit_def lightfs_txn_init_def)
  moreover have "lightfs_db_env_set_key_ops w1 = Some (0, w1)" by (simp add: lightfs_db_env_set_key_ops_def w1(2))
  moreover have "txn_hdlr_alloc\<lparr>h_commit_workq := w_ptr w1 Commit_workq \<noteq> Null\<rparr> = txn_hdlr_alloc"
    by (simp add: w1(2) hdlr_made_def txn_hdlr_alloc_def)
  ultimately have "lightfs_bstore_env_open d fails null_i sb_unset w = Done (0, sb_set, txn_hdlr_alloc\<lparr>h_txn_id := 2\<rparr>, w2)"
    using w1(1) by (simp add: lightfs_bstore_env_open_def env_calls res_of_def Let_def)
  with ptr show ?thesis by blast
qed

text \<open>The objects part of the mount and the part that works on the root are those of \<open>lightfs_fill_super\<close>.\<close>

lemma mount_root_ok:
  assumes "lightfs_fill_super e 0 cpus root_ok s = Some (0, Some r, s')"
  shows "mount_root d e cpus root_ok sb s w = Done (0, sb, Some r, s', w)"
  using assms by (auto simp: lightfs_fill_super_def mount_root_def res_of_def bind_eq_Some_conv split: if_splits)

lemma opened_reachable: "reachable bits \<lparr>s_pc = Top, s_hd = txn_hdlr_alloc\<lparr>h_txn_id := 2\<rparr>, s_log = [], s_slog = []\<rparr>"
proof -
  have "sys_step bits (sys_init True) ((sys_init True)\<lparr>s_hd := (s_hd (sys_init True))\<lparr>h_txn_id :=
      snd (lightfs_bstore_txn_begin TXN_READONLY (h_txn_id (s_hd (sys_init True))))\<rparr>\<rparr>)" by (rule sys_step.start_txn)
  then show ?thesis using reachable.step [OF reachable.start [of bits True]]
    by (simp add: sys_init_def lightfs_bstore_txn_begin_def txn_hdlr_alloc_def)
qed

lemma commit_reachable:
  assumes "reachable bits s" and "\<not> has_flag (t_state t) TXN_SYNC"
  shows "\<exists>log. reachable bits (s\<lparr>s_hd := lightfs_bstore_txn_commit (s_hd s) t cp, s_log := log\<rparr>)"
proof -
  from reachable.step [OF assms(1) sys_step.commit [of bits s t cp]] obtain log where
    "reachable bits (s\<lparr>s_hd := lightfs_bstore_txn_commit (s_hd s) t cp, s_log := s_log s @ log\<rparr>)"
    using assms(2) by (cases s) (auto simp: sys_commit_def Let_def split: if_splits intro: that [of "[]"])
  then show ?thesis by blast
qed

lemma mount_makes:
  assumes "\<And>ob. \<not> fails ob" and "\<not> null_i Data_db" and "\<not> null_i Meta_db" and "env_ok e" and "e_iget_ok e"
    and "e_dev e root_meta_key = [] \<or> INODE_SIZE \<le> length (e_dev e root_meta_key)"
  shows "\<exists>fs log w'. fill_super_objs d fails null_i e cpus True w = Done (0, sb_set, Some LIGHTFS_ROOT_INO, fs, w')
           \<and> w_ptr w' = (\<lambda>ob. if mounted ob then Live else w_ptr w ob)
           \<and> reachable bits \<lparr>s_pc = Top, s_hd = f_hd fs, s_log = log, s_slog = []\<rparr>
           \<and> f_icache fs = [LIGHTFS_ROOT_INO \<mapsto> new_inode e LIGHTFS_ROOT_INO (493 OR S_IFDIR) 0 Dir_ops (meta_dbt_of LIGHTFS_ROOT_INO [])]"
proof -
  let ?h = "txn_hdlr_alloc\<lparr>h_txn_id := 2\<rparr>" and ?w = "w_new fails Percpu (w_new fails Sbi w)"
  from env_open_ok [of fails null_i d ?w, OF assms(1-3)] obtain w' where
    w': "lightfs_bstore_env_open d fails null_i sb_unset ?w = Done (0, sb_set, ?h, w')"
      "w_ptr w' = (\<lambda>ob. if ob \<in> {Env, Env_i, Data_db, Meta_db} \<or> cache_made ob \<or> hdlr_made ob then Live else w_ptr ?w ob)" by blast
  have new: "fs_inv e (new_fs ?h)" "f_icache (new_fs ?h) = Map.empty" "fs_abs e (new_fs ?h) root_meta_key = None" "f_hd (new_fs ?h) = ?h"
    by (simp_all add: new_fs_def cache_inv_create abs_empty)
  from mount_ok [OF assms(4,5) new(1-3) assms(6), of cpus] obtain fs t where
    fs: "lightfs_fill_super e 0 cpus True (new_fs ?h) = Some (0, Some LIGHTFS_ROOT_INO, fs)"
      "f_icache fs = [LIGHTFS_ROOT_INO \<mapsto> new_inode e LIGHTFS_ROOT_INO (493 OR S_IFDIR) 0 Dir_ops (meta_dbt_of LIGHTFS_ROOT_INO [])]"
      "f_hd fs = lightfs_bstore_txn_commit ?h t (e_completion e)" "\<not> has_flag (t_state t) TXN_SYNC"
    unfolding new(4) by (elim exE conjE) (rule that)
  have "fill_super_objs d fails null_i e cpus True w = Done (0, sb_set, Some LIGHTFS_ROOT_INO, fs, w')"
    using w'(1) mount_root_ok [OF fs(1)] assms(1) [of Sbi] assms(1) [of Percpu] by (simp add: fill_super_objs_def Let_def)
  moreover have "w_ptr w' ob = (if mounted ob then Live else w_ptr w ob)" for ob
    using assms(1) [of Sbi] assms(1) [of Percpu] by (cases ob) (simp_all add: w'(2) mounted_def)
  moreover from commit_reachable [OF opened_reachable fs(4)] obtain log where
    "reachable bits \<lparr>s_pc = Top, s_hd = f_hd fs, s_log = log, s_slog = []\<rparr>" by (auto simp: fs(3))
  ultimately show ?thesis using fs(2) by blast
qed

lemma env_close_ok:
  assumes "calm s" and "sched_ok d" and "\<And>ob. ob \<in> {Env, Env_i} \<or> hdlr_made ob \<Longrightarrow> w_ptr w ob = Live"
  shows "\<exists>N h w'. (\<forall>n \<ge> N. lightfs_db_env_close (d\<lparr>ds_fuel := n\<rparr>) (s_pc s, a, s_hd s) w = Done (h, w')) \<and> hdlr_done s h
           \<and> w_ptr w' = (\<lambda>ob. if ob \<in> {Env, Env_i} then Dangling else if hdlr_made ob then hdlr_left (ds_used d) ob else w_ptr w ob)"
proof -
  from destroy_ok [OF assms(1,2), of w a] assms(3) obtain N h w1 where
    r: "\<forall>n \<ge> N. lightfs_txn_hdlr_destroy (d\<lparr>ds_fuel := n\<rparr>) (s_pc s, a, s_hd s) w = Done (h, w1)" "hdlr_done s h"
      "w_ptr w1 = (\<lambda>ob. if hdlr_made ob then hdlr_left (ds_used d) ob else w_ptr w ob)" by blast
  have "w_ptr w1 Env = Live" "w_ptr w1 Env_i = Live"
    using assms(3) by (simp_all add: r(3) hdlr_made_def hdlr_slabs_def queue_made_def io_made_def)
  then have "\<forall>n \<ge> N. lightfs_db_env_close (d\<lparr>ds_fuel := n\<rparr>) (s_pc s, a, s_hd s) w
      = Done (h, w1\<lparr>w_ptr := (w_ptr w1)(Env_i := Dangling, Env := Dangling)\<rparr>)"
    using r(1) by (simp add: lightfs_db_env_close_def res_of_def w_free_def)
  moreover have "((w_ptr w1)(Env_i := Dangling, Env := Dangling)) ob
      = (if ob \<in> {Env, Env_i} then Dangling else if hdlr_made ob then hdlr_left (ds_used d) ob else w_ptr w ob)" for ob
    by (cases ob) (simp_all add: r(3))
  ultimately show ?thesis using r(2) by (intro exI conjI) (assumption, assumption, simp add: fun_eq_iff)
qed

lemma unmount_releases:
  assumes "calm s" and "sched_ok d" and "\<And>ob. mounted ob \<Longrightarrow> w_ptr w ob = Live"
  shows "\<exists>N h w'. (\<forall>n \<ge> N. lightfs_put_super (d\<lparr>ds_fuel := n\<rparr>) (s_pc s, a, s_hd s) sb_set w = Done (h, w')) \<and> hdlr_done s h
           \<and> w_ptr w' = (\<lambda>ob. if hdlr_made ob then hdlr_left (ds_used d) ob else if mounted ob then Dangling else w_ptr w ob)"
proof -
  from cache_close_ok [of w] assms(3) obtain w1 where
    w1: "lightfs_ht_cache_close_objs w = Some (0, w1)" "w_ptr w1 = (\<lambda>ob. if cache_made ob then Dangling else w_ptr w ob)"
    by (auto simp: mounted_def)
  let ?w = "w1\<lparr>w_ptr := (w_ptr w1)(Data_db := Dangling, Meta_db := Dangling)\<rparr>"
  have dbs: "w_ptr w1 Data_db = Live" "w_ptr w1 Meta_db = Live" using assms(3) by (simp_all add: w1(2) mounted_def cache_made_def)
  note made = hdlr_made_def hdlr_slabs_def queue_made_def io_made_def cache_made_def mounted_def
  have "w_ptr ?w ob = Live" if "ob \<in> {Env, Env_i} \<or> hdlr_made ob" for ob
    using that assms(3) [of ob] by (cases ob rule: obj.exhaust) (simp_all add: w1(2) made)
  from env_close_ok [OF assms(1,2) this, of a] obtain N h w2 where
    w2: "\<forall>n \<ge> N. lightfs_db_env_close (d\<lparr>ds_fuel := n\<rparr>) (s_pc s, a, s_hd s) ?w = Done (h, w2)" "hdlr_done s h"
      "w_ptr w2 = (\<lambda>ob. if ob \<in> {Env, Env_i} then Dangling else if hdlr_made ob then hdlr_left (ds_used d) ob else w_ptr ?w ob)" by blast
  have "distinct [Percpu, Sbi]" "\<forall>ob \<in> set [Percpu, Sbi]. w_ptr w2 ob = Live"
    using assms(3) by (simp_all add: w2(3) w1(2) made)
  from each_free [OF this] obtain w3 where
    w3: "w_each w_free [Percpu, Sbi] w2 = Some w3" "w_ptr w3 = (\<lambda>ob. if ob \<in> set [Percpu, Sbi] then Dangling else w_ptr w2 ob)" by blast
  have "\<forall>n \<ge> N. lightfs_bstore_env_close (d\<lparr>ds_fuel := n\<rparr>) (s_pc s, a, s_hd s) sb_set w = Done (h, sb_unset, w2)"
    using w1(1) w2(1) dbs by (simp add: lightfs_bstore_env_close_def lightfs_db_close_def w_free_def bug_on_def res_of_def)
  then have "\<forall>n \<ge> N. lightfs_put_super (d\<lparr>ds_fuel := n\<rparr>) (s_pc s, a, s_hd s) sb_set w = Done (h, w3)"
    using w3(1) by (simp add: lightfs_put_super_def res_of_def del: w_each.simps)
  moreover have "w_ptr w3 ob = (if hdlr_made ob then hdlr_left (ds_used d) ob else if mounted ob then Dangling else w_ptr w ob)" for ob
    by (cases ob) (simp_all add: w3(2) w2(3) w1(2) made)
  ultimately show ?thesis using w2(2) by blast
qed

lemma hdlr_left_Live: "hdlr_made ob \<Longrightarrow> hdlr_left used ob = Live \<longleftrightarrow> ob = Hdlr \<or> (\<exists>i. ob = Tag_item i \<and> \<not> used i)"
  by (cases ob) (auto simp: hdlr_made_def hdlr_slabs_def queue_made_def io_made_def hdlr_left_def io_left_def)

lemma released:
  assumes "w_ptr w2 = (\<lambda>ob. if hdlr_made ob then hdlr_left used ob else if mounted ob then Dangling else w_ptr w1 ob)"
    and "w_ptr w1 = (\<lambda>ob. if mounted ob then Live else w_ptr w ob)"
  shows "w_ptr w2 ob = Live \<longleftrightarrow>
    (if mounted ob then ob = Hdlr \<or> (\<exists>i < CHEEZE_QUEUE_SIZE. ob = Tag_item i \<and> \<not> used i) else w_ptr w ob = Live)"
proof (cases "hdlr_made ob")
  case True
  then have "mounted ob" by (simp add: mounted_def)
  moreover from True have "ob = Tag_item i \<Longrightarrow> i < CHEEZE_QUEUE_SIZE" for i
    by (simp add: hdlr_made_def hdlr_slabs_def queue_made_def io_made_def)
  ultimately show ?thesis using True hdlr_left_Live [OF True, of used] by (auto simp: assms(1))
next
  case False
  then have "ob \<noteq> Hdlr" "\<And>i. i < CHEEZE_QUEUE_SIZE \<Longrightarrow> ob \<noteq> Tag_item i" by (auto simp: hdlr_made_def io_made_def)
  with False show ?thesis by (auto simp: assms)
qed

lemma reachable_calm:
  assumes "reachable bits s" and "length bits \<ge> C_TXN_BLOOM_M_BYTES" and "s_pc s \<noteq> Stopped"
    and "h_sync_list (s_hd s) = []" and "h_sync (s_hd s) = None"
  shows "calm s"
  using assms reachable_hinv [OF assms(1,2)] reachable_idle [OF assms(1,2)] by (simp add: calm_def no_sync_def)

text \<open>
  Property C8: mount and unmount.  Suppose that no allocation of memory, threads or inodes
  fails, that the memory of the two new databases, of which \<open>lightfs_db_create\<close> tests a field
  nothing has set, does not hold zero there, that the kernel's functions keep their promises
  (\<open>env_ok\<close>), and that the device holds no record of the root or one that is long enough.
  Then the mount runs \<open>lightfs_fill_super\<close> to its end: it creates every object, makes the root
  directory the only inode in memory and returns 0, with the handler in a state it can reach.
  Now take any state the handler can reach in which its thread has not ended and no
  synchronous transaction is queued or waits for its transfer (the thread would queue that
  transfer on a work queue that is gone), the thread awake or asleep for an answer, any number
  of transfers of the work queue asleep, and any order of turns in which each work queue gets
  its turn with an answer there, and the thread a free tag and an answer, again and again.
  Then the unmount returns: every committed transaction has been sent, in order, no list or
  work queue of the handler holds anything, and every object of the mount has been released
  except the handler structure and the tag items that were never used.
\<close>

theorem mount_unmount:
  assumes "\<forall>ob. \<not> fails ob" and "\<not> null_i Data_db" and "\<not> null_i Meta_db" and "env_ok e" and "e_iget_ok e"
    and "e_dev e root_meta_key = [] \<or> INODE_SIZE \<le> length (e_dev e root_meta_key)"
    and "sched_ok d" and "reachable (ds_bits d) s" and "s_pc s \<noteq> Stopped" and "h_sync_list (s_hd s) = []" and "h_sync (s_hd s) = None"
  shows "\<exists>sb fs log w1 N h w2. fill_super_objs d0 fails null_i e cpus True w = Done (0, sb, Some LIGHTFS_ROOT_INO, fs, w1)
           \<and> (\<forall>ob. w_ptr w1 ob = (if mounted ob then Live else w_ptr w ob))
           \<and> f_icache fs = [LIGHTFS_ROOT_INO \<mapsto> new_inode e LIGHTFS_ROOT_INO (493 OR S_IFDIR) 0 Dir_ops (meta_dbt_of LIGHTFS_ROOT_INO [])]
           \<and> reachable (ds_bits d) \<lparr>s_pc = Top, s_hd = f_hd fs, s_log = log, s_slog = []\<rparr>
           \<and> (\<forall>n \<ge> N. lightfs_put_super (d\<lparr>ds_fuel := n\<rparr>) (s_pc s, asleep, s_hd s) sb w1 = Done (h, w2))
           \<and> map txn_sig (sent_txns False h) = s_log s \<and> map txn_sig (sent_txns True h) = s_slog s
           \<and> h_txn_list h = [] \<and> h_sync_list h = [] \<and> h_transfers h = [] \<and> h_tails h = [] \<and> h_commits h = []
           \<and> h_run h = None \<and> h_sync h = None
           \<and> (\<forall>ob. w_ptr w2 ob = Live \<longleftrightarrow>
                (if mounted ob then ob = Hdlr \<or> (\<exists>i < CHEEZE_QUEUE_SIZE. ob = Tag_item i \<and> \<not> ds_used d i) else w_ptr w ob = Live))"
proof -
  have nf: "\<And>ob. \<not> fails ob" using assms(1) by blast
  from mount_makes [of fails null_i e d0 cpus w "ds_bits d", OF nf assms(2-6)] obtain fs log w1 where
    m: "fill_super_objs d0 fails null_i e cpus True w = Done (0, sb_set, Some LIGHTFS_ROOT_INO, fs, w1)"
      "w_ptr w1 = (\<lambda>ob. if mounted ob then Live else w_ptr w ob)"
      "reachable (ds_bits d) \<lparr>s_pc = Top, s_hd = f_hd fs, s_log = log, s_slog = []\<rparr>"
      "f_icache fs = [LIGHTFS_ROOT_INO \<mapsto> new_inode e LIGHTFS_ROOT_INO (493 OR S_IFDIR) 0 Dir_ops (meta_dbt_of LIGHTFS_ROOT_INO [])]"
    by blast
  have "calm s" using assms(7) by (intro reachable_calm [OF assms(8) _ assms(9-11)]) (simp add: sched_ok_def)
  from unmount_releases [OF this assms(7), of w1 asleep] m(2) obtain N h w2 where
    u: "\<forall>n \<ge> N. lightfs_put_super (d\<lparr>ds_fuel := n\<rparr>) (s_pc s, asleep, s_hd s) sb_set w1 = Done (h, w2)" "hdlr_done s h"
      "w_ptr w2 = (\<lambda>ob. if hdlr_made ob then hdlr_left (ds_used d) ob else if mounted ob then Dangling else w_ptr w1 ob)" by auto
  have "\<forall>ob. w_ptr w1 ob = (if mounted ob then Live else w_ptr w ob)" using m(2) by simp
  with m(1,3,4) u(1,2) released [OF u(3) m(2)] show ?thesis unfolding hdlr_done_def by blast
qed

definition sample_pending :: sys where
  "sample_pending = sys_commit (sys_init True) sample_txn 0"

definition new_world :: world where
  "new_world = \<lparr>w_ptr = \<lambda>_. Null, w_lost = []\<rparr>"

text \<open>One transfer of the work queue is asleep at first, and the thread moves between the queues.\<close>

definition sample_sched :: sched where
  "sample_sched = \<lparr>ds_fuel = 0, ds_bits = sample_bits, ds_flush = (\<lambda>_ i. (i mod 4 \<noteq> 1, sample_ins i)), ds_asleep = 1,
     ds_gap = (\<lambda>_. [(True, True), (False, True)]), ds_stop = sample_ins, ds_used = (\<lambda>i. i = 0)\<rparr>"

lemma sample_sched_ok: "sched_ok sample_sched"
proof -
  have "\<exists>j \<ge> i. j mod 4 \<noteq> 1 \<and> snd (sample_ins j)" for i :: nat
  proof -
    have "12 * i mod 4 = 0" "12 * i mod 3 = 0" by presburger+
    then show ?thesis by (intro exI [of _ "12 * i"]) (simp add: sample_ins_def)
  qed
  then show ?thesis using sample_served sample_bits_length by (auto simp: sched_ok_def answered_turns_def sample_sched_def)
qed

lemma sample_pending_state:
  "reachable sample_bits sample_pending" "s_pc sample_pending = Top" "s_log sample_pending = [(1, 20, [sample_del])]"
  "h_sync_list (s_hd sample_pending) = []" "h_sync (s_hd sample_pending) = None"
proof -
  show "reachable sample_bits sample_pending"
    unfolding sample_pending_def by (intro reachable.step [OF _ sys_step.commit] reachable.start)
qed (simp_all add: sample_pending_def sys_commit_def sys_init_def txn_hdlr_alloc_def lightfs_bstore_txn_commit_def Let_def,
     simp_all add: sample_txn_def)

theorem mount_unmount_witness:
  "sched_ok sample_sched \<and> reachable sample_bits sample_pending
 \<and> (\<exists>sb fs w1 N h w2. fill_super_objs sample_sched (\<lambda>_. False) (\<lambda>_. False) sample_env [0, 1] True new_world
       = Done (0, sb, Some LIGHTFS_ROOT_INO, fs, w1)
     \<and> (\<forall>n \<ge> N. lightfs_put_super (sample_sched\<lparr>ds_fuel := n\<rparr>) (Top, False, s_hd sample_pending) sb w1 = Done (h, w2))
     \<and> map txn_sig (sent_txns False h) = [(1, 20, [sample_del])] \<and> w_ptr w1 Txn_slab = Live \<and> w_ptr w2 Txn_slab \<noteq> Live)"
proof -
  have hyps: "\<forall>ob :: obj. \<not> False" "\<not> False" "s_pc sample_pending \<noteq> Stopped" "reachable (ds_bits sample_sched) sample_pending"
      "e_dev sample_env root_meta_key = [] \<or> INODE_SIZE \<le> length (e_dev sample_env root_meta_key)"
    using sample_pending_state(1) by (simp_all add: sample_pending_state(2) sample_sched_def sample_env_def)
  have made: "mounted Txn_slab" by (simp add: mounted_def hdlr_made_def hdlr_slabs_def)
  from mount_unmount [where w = new_world and cpus = "[0, 1]" and asleep = False and ?d0.0 = sample_sched,
      OF hyps(1,2,2) sample_env_ok(1,2) hyps(5) sample_sched_ok hyps(4,3) sample_pending_state(4,5)]
  obtain sb fs log w1 N h w2 where
    r: "fill_super_objs sample_sched (\<lambda>_. False) (\<lambda>_. False) sample_env [0, 1] True new_world = Done (0, sb, Some LIGHTFS_ROOT_INO, fs, w1)"
      "\<forall>ob. w_ptr w1 ob = (if mounted ob then Live else w_ptr new_world ob)"
      "\<forall>n \<ge> N. lightfs_put_super (sample_sched\<lparr>ds_fuel := n\<rparr>) (s_pc sample_pending, False, s_hd sample_pending) sb w1 = Done (h, w2)"
      "map txn_sig (sent_txns False h) = s_log sample_pending"
      "\<forall>ob. w_ptr w2 ob = Live \<longleftrightarrow> (if mounted ob then ob = Hdlr \<or> (\<exists>i < CHEEZE_QUEUE_SIZE. ob = Tag_item i \<and> \<not> ds_used sample_sched i)
                                   else w_ptr new_world ob = Live)"
    by (elim exE conjE) (rule that)
  have "w_ptr w1 Txn_slab = Live" "w_ptr w2 Txn_slab \<noteq> Live" using r(2,5) made by simp_all
  with r(1,3,4) sample_sched_ok sample_pending_state(1) show ?thesis
    unfolding sample_pending_state(2,3)
    by (intro conjI exI [of _ sb] exI [of _ fs] exI [of _ w1] exI [of _ N] exI [of _ h] exI [of _ w2])
qed

text \<open>
  When one of the slab caches of the handler cannot be created, \<open>lightfs_txn_hdlr_init\<close>
  releases those it has.
\<close>

lemma slabs_fail:
  assumes "ob \<in> set os" and "\<And>x. fails x \<longleftrightarrow> x = ob" and "distinct (made @ os)" and "\<forall>x \<in> set made. w_ptr w x = Live"
  shows "\<exists>w'. slabs_create fails made os w = Some (- ENOMEM, w') \<and> (\<forall>x. x \<notin> set made \<union> set os \<longrightarrow> w_ptr w' x = w_ptr w x)
           \<and> (\<forall>x \<in> set made \<union> set os. w_ptr w x \<noteq> Live \<or> x \<in> set made \<longrightarrow> w_ptr w' x \<noteq> Live)"
  using assms(1,3,4)
proof (induction os arbitrary: made w)
  case (Cons y os)
  show ?case
  proof (cases "y = ob")
    case True
    then have f: "fails y" using assms(2) by simp
    let ?w = "w_new fails y w"
    have "distinct made" "\<forall>x \<in> set made. w_ptr ?w x = Live" using Cons.prems(2,3) f by auto
    from each_free [OF this] obtain w' where
      w': "w_each w_free made ?w = Some w'" "w_ptr w' = (\<lambda>x. if x \<in> set made then Dangling else w_ptr ?w x)" by blast
    have "slabs_create fails made (y # os) w = Some (- ENOMEM, w')" using w'(1) f by (simp add: Let_def w_free_def)
    with w'(2) f show ?thesis by auto
  next
    case False
    then have f: "\<not> fails y" using assms(2) by simp
    have "\<forall>x \<in> set (y # made). w_ptr (w_new fails y w) x = Live" using Cons.prems(3) f by auto
    with Cons.IH [of "y # made" "w_new fails y w"] Cons.prems(1,2) False obtain w' where
      w': "slabs_create fails (y # made) os (w_new fails y w) = Some (- ENOMEM, w')"
        "\<forall>x. x \<notin> set (y # made) \<union> set os \<longrightarrow> w_ptr w' x = w_ptr (w_new fails y w) x"
        "\<forall>x \<in> set (y # made) \<union> set os. w_ptr (w_new fails y w) x \<noteq> Live \<or> x \<in> set (y # made) \<longrightarrow> w_ptr w' x \<noteq> Live" by auto
    have "slabs_create fails made (y # os) w = Some (- ENOMEM, w')" using w'(1) f by (simp add: Let_def)
    with w'(2,3) f show ?thesis by (intro exI [of _ w']) auto
  qed
qed simp

lemma hdlr_init_fails:
  assumes "ob \<in> set hdlr_slabs" and "\<And>x. fails x \<longleftrightarrow> x = ob" and "\<forall>x \<in> set hdlr_slabs. w_ptr w x \<noteq> Live"
  shows "\<exists>w'. lightfs_txn_hdlr_init fails w = Some (- ENOMEM, w') \<and> (\<forall>x \<in> set hdlr_slabs. w_ptr w' x \<noteq> Live)
           \<and> (\<forall>x. x \<notin> set hdlr_slabs \<and> x \<noteq> Hdlr \<longrightarrow> w_ptr w' x = w_ptr w x)"
proof -
  have f: "\<not> fails Hdlr" using assms(1,2) by (auto simp: hdlr_slabs_def)
  have "Hdlr \<notin> set hdlr_slabs" "distinct ([] @ hdlr_slabs)" by (simp_all add: hdlr_slabs_def)
  with slabs_fail [of ob hdlr_slabs fails "[]" "w_new fails Hdlr w"] assms(1,2) obtain w' where
    w': "slabs_create fails [] hdlr_slabs (w_new fails Hdlr w) = Some (- ENOMEM, w')"
      "\<forall>x. x \<notin> set hdlr_slabs \<longrightarrow> w_ptr w' x = w_ptr (w_new fails Hdlr w) x"
      "\<forall>x \<in> set hdlr_slabs. w_ptr (w_new fails Hdlr w) x \<noteq> Live \<longrightarrow> w_ptr w' x \<noteq> Live" by auto
  have "\<forall>x \<in> set hdlr_slabs. w_ptr (w_new fails Hdlr w) x \<noteq> Live"
    using assms(3) f \<open>Hdlr \<notin> set hdlr_slabs\<close> by auto
  moreover have "lightfs_txn_hdlr_init fails w = Some (- ENOMEM, w')"
    using w'(1) f by (simp add: lightfs_txn_hdlr_init_def ENOMEM_def)
  ultimately show ?thesis using w'(2,3) f by (intro exI [of _ w']) auto
qed

text \<open>
  A slab cache of the handler that cannot be created.  \<open>lightfs_txn_hdlr_init\<close>
  releases the caches it has created and returns \<open>-ENOMEM\<close>, but \<open>lightfs_db_env_create\<close> does
  not look at the result and returns 0; the mount goes on and takes its first transaction
  from a cache that does not exist.
\<close>

lemma mount_slab_failure:
  assumes "ob \<in> set hdlr_slabs" and "\<forall>x. fails x \<longleftrightarrow> x = ob" and "\<forall>x \<in> set hdlr_slabs. w_ptr w x \<noteq> Live"
    and "\<not> null_i Data_db" and "\<not> null_i Meta_db"
  shows "(\<exists>w'. lightfs_txn_hdlr_init fails w = Some (- ENOMEM, w') \<and> (\<forall>x \<in> set hdlr_slabs. w_ptr w' x \<noteq> Live))
       \<and> (\<exists>w'. lightfs_db_env_create fails w = Some (0, w') \<and> w_ptr w' Hdlr_task = w_ptr w Hdlr_task)
       \<and> fill_super_objs d fails null_i e cpus root_ok w = Fault"
proof -
  have f: "\<And>x. fails x \<longleftrightarrow> x = ob" using assms(2) by blast
  have nf: "\<not> fails x" if "x \<notin> set hdlr_slabs" for x using that assms(1) f by auto
  have env: "\<exists>w'. lightfs_db_env_create fails v = Some (0, w') \<and> (\<forall>x \<in> set hdlr_slabs. w_ptr w' x \<noteq> Live)
      \<and> w_ptr w' Env_i = Live \<and> w_ptr w' Hdlr_task = w_ptr v Hdlr_task" if v: "\<forall>x \<in> set hdlr_slabs. w_ptr v x \<noteq> Live" for v
  proof -
    have e: "\<not> fails Env" "\<not> fails Env_i" by (rule nf; simp add: hdlr_slabs_def)+
    let ?v = "w_new fails Env_i (w_new fails Env v)"
    have "\<forall>x \<in> set hdlr_slabs. w_ptr ?v x \<noteq> Live" using v e by (auto simp: hdlr_slabs_def)
    from hdlr_init_fails [OF assms(1) f this] obtain w' where
      w': "lightfs_txn_hdlr_init fails ?v = Some (- ENOMEM, w')" "\<forall>x \<in> set hdlr_slabs. w_ptr w' x \<noteq> Live"
        "\<forall>x. x \<notin> set hdlr_slabs \<and> x \<noteq> Hdlr \<longrightarrow> w_ptr w' x = w_ptr ?v x" by blast
    have "lightfs_db_env_create fails v = Some (0, w')" using w'(1) e by (simp add: lightfs_db_env_create_def db_env_create_def Let_def)
    moreover have "w_ptr w' Env_i = Live" "w_ptr w' Hdlr_task = w_ptr v Hdlr_task" using w'(3) e by (simp_all add: hdlr_slabs_def)
    ultimately show ?thesis using w'(2) by blast
  qed
  have sb: "\<not> fails Sbi" "\<not> fails Percpu" "\<not> fails Data_db" "\<not> fails Meta_db" "\<not> fails Cache_db" "\<And>i. \<not> fails (Ht_lock i)"
      "\<not> fails Dcache_entry_slab" "\<not> fails Ht_item_slab" "\<not> fails Meta_slab"
    by (rule nf; simp add: hdlr_slabs_def)+
  let ?w = "w_new fails Percpu (w_new fails Sbi w)"
  have "\<forall>x \<in> set hdlr_slabs. w_ptr ?w x \<noteq> Live" using assms(3) sb by (auto simp: hdlr_slabs_def)
  from env [OF this] obtain w1 where
    w1: "lightfs_db_env_create fails ?w = Some (0, w1)" "\<forall>x \<in> set hdlr_slabs. w_ptr w1 x \<noteq> Live" "w_ptr w1 Env_i = Live" by blast
  let ?w2 = "w_new fails Meta_db (w_new fails Data_db w1)"
  have "\<exists>w'. lightfs_cache_create_objs fails ?w2 = Some (0, w') \<and> w_ptr w' Txn_slab = w_ptr ?w2 Txn_slab"
    by (rule cache_create_frame) (use sb in \<open>auto simp: cache_made_def\<close>)
  then obtain w3 where w3: "lightfs_cache_create_objs fails ?w2 = Some (0, w3)" "w_ptr w3 Txn_slab = w_ptr ?w2 Txn_slab" by blast
  have "w_ptr w3 Txn_slab \<noteq> Live" using w1(2) sb by (simp add: w3(2) hdlr_slabs_def)
  then have "open_dbs fails null_i (sb_unset\<lparr>sb_env := True\<rparr>) h w1 = None" for h
    using w3(1) assms(4,5) sb by (simp add: open_dbs_def lightfs_db_create_def bug_on_def Let_def w_deref_def)
  then have "fill_super_objs d fails null_i e cpus root_ok w = Fault"
    using w1(1,3) sb by (simp add: fill_super_objs_def lightfs_bstore_env_open_def env_calls lightfs_db_env_set_key_ops_def res_of_def Let_def)
  with hdlr_init_fails [OF assms(1) f assms(3)] env [OF assms(3)] show ?thesis by blast
qed

lemma mount_slab_failure_sample:
  "fill_super_objs sample_sched (\<lambda>x. x = Buf_slab) (\<lambda>_. False) sample_env [0] True new_world = Fault \<and> Buf_slab \<in> set hdlr_slabs"
proof -
  have "Buf_slab \<in> set hdlr_slabs" "\<forall>x \<in> set hdlr_slabs. w_ptr new_world x \<noteq> Live" by (simp_all add: hdlr_slabs_def new_world_def)
  with mount_slab_failure [of Buf_slab "\<lambda>x. x = Buf_slab" new_world "\<lambda>_. False" sample_sched sample_env "[0]" True] show ?thesis by simp
qed

text \<open>Loading the module: what fails is undone, and unloading releases what loading made.\<close>

lemma module_init_ok:
  assumes "\<And>ob. ob \<in> {Inode_slab, Wp_slab, Fs_type} \<Longrightarrow> w_ptr w ob \<noteq> Live"
  shows "\<exists>r w'. beg_lightfs fails registered w = Some (r, w')
     \<and> (r = 0 \<longleftrightarrow> \<not> fails Inode_slab \<and> \<not> fails Wp_slab \<and> registered = 0)
     \<and> (\<forall>ob \<in> {Inode_slab, Wp_slab, Fs_type}. w_ptr w' ob = Live \<longleftrightarrow> r = 0)
     \<and> (r = 0 \<longrightarrow> (\<exists>w2. end_lightfs w' = Some w2 \<and> (\<forall>ob \<in> {Inode_slab, Wp_slab, Fs_type}. w_ptr w2 ob \<noteq> Live)))"
  using assms
  by (cases "fails Inode_slab"; cases "fails Wp_slab"; cases "registered = 0")
    (simp_all add: beg_lightfs_def end_lightfs_def init_lightfs_fs_def exit_lightfs_fs_def w_free_def ENOMEM_def)

end
