(* ===== verification/Spec2Isabelle.thy ===== *)
theory Spec2Isabelle
  imports Kevin_Hdlr_Thms Kevin_Queue Kevin_Reada_Thms Kevin_Writeback Kevin_Readdir Kevin_Setup_Thms
begin

text \<open>
  Verification of the kevin file system, \<open>src/kevinfs\<close>: a Linux file system (called lightfs in
  the sources) whose storage is a key-value device with transactions.

  \<^bold>\<open>The program.\<close>  An operation of the virtual file system enters through
  \<open>lightfs_super.c\<close>.  It finds metadata in a cache (\<open>lightfs_cache.c\<close>) and changes metadata and
  data blocks through the block store (\<open>lightfs_bstore.c\<close>, \<open>lightfs_db.c\<close>), which builds keys
  (\<open>lightfs_fs.h\<close>) and inserts requests into a transaction (\<open>lightfs_txn_hdlr.c\<close>,
  \<open>lightfs_txn_hdlr.h\<close>).  A committed transaction is queued; the handler thread of
  \<open>lightfs_txn_hdlr.c\<close> collects transactions into larger units and transfers them.  Reads go to
  the device at once.  Requests are encoded and sent by \<open>lightfs_io.c\<close> and \<open>lightfs_io.h\<close> over
  the transport of \<open>cheeze\<close> (\<open>queue.c\<close>, \<open>blk.c\<close>, \<open>shm.c\<close>): a table of 1024 tags with one buffer
  each in memory shared with the device.  \<open>lightfs_reada.c\<close> reads ahead, \<open>bloomfilter.c\<close> and
  \<open>murmur3.c\<close> summarise the keys of a transferred unit, \<open>lightfs_queue.c\<close> is a bounded queue,
  and \<open>rbtreekv.c\<close> is a store in memory that can stand in for the device.

  \<^bold>\<open>Conventions.\<close>  C integers are words of their width; memory objects are byte lists, and an
  access outside one, a null pointer or a failed \<open>BUG_ON\<close> is \<^term>\<open>None\<close>.  An operation that can
  sleep has a result of type \<open>'a res\<close>: it returns, sleeps (\<^const>\<open>Block\<close>) or faults.  A request
  is split at its wait into \<open>_submit\<close> and \<open>_finish\<close>; what the device and the receiving thread
  do between is a step of its own.  From the block store upwards a read is one call of a
  device function; Property \<open>read_path_equivalent\<close> justifies this.  Objects that are shared or
  freed live in heaps from addresses to records.  Locks make the region they protect atomic;
  where the code gives one up, the model has a step boundary.  Waiting for a tag or for an
  answer is explicit: at each moment a tag is free or not and the answer is there or not, and
  the theorems that say that something returns assume that both keep coming (\<open>served\<close>,
  \<open>answered_turns\<close>).  Memory the code reads before it is set is an argument.  The build is the one of
  \<open>kevinfs/Makefile\<close>: \<open>PINK\<close>, \<open>WB\<close>, \<open>GROUP_COMMIT\<close>, \<open>GET_MULTI\<close>, \<open>RB_LOCK\<close>, \<open>SUPER_NOLOCK\<close> and \<open>READA\<close> are
  defined, monitoring, tracing and checking options are not.  Kernel and library code is a
  parameter with named hypotheses: memory allocation (\<open>memory_ok\<close>: it gives an object of the
  size asked for), the rebalancing of red-black trees (\<open>rb_lib_ok\<close>: the in-order sequence
  changes as documented), the checksum and hash reduction (no hypothesis), sorting a list,
  entering a page into the page cache, finding its tagged pages (\<open>page_cache\<close>: the first
  15 of a range, in the order of their indices), and the callbacks of a directory listing (no
  hypothesis).  A work queue runs its works; in which order their turns and those of the
  handler thread come is an argument (\<open>sched\<close>).

  \<^bold>\<open>Theories.\<close>
    \<^item> \<open>Kevin_Prelude\<close>: words, buffers, byte orders, results, and the contracts of a key-value
      store (\<open>kv_store\<close>) and of components that deliver in order (\<open>ordered_delivery\<close>) as locales.
    \<^item> \<open>Kevin_Types\<close>, \<open>Kevin_Txn_Types\<close>: \<open>db.h\<close> and \<open>lightfs.h\<close>, the descriptors, transaction
      buffers, transactions and committed transactions (\<open>c_txn\<close>).
    \<^item> \<open>Kevin_Keys\<close>: fields, builders and comparison of keys.  The builders stay inside their
      buffers, different names have different keys (\<open>key_round_trip\<close>), the comparison is a
      total order (locale \<open>key_order\<close>, interpreted on \<open>env_keycmp\<close>), and the blocks of a file
      and the entries of a directory are contiguous in it.
    \<^item> \<open>Kevin_Bloom\<close>: the hash and the filter, which has no false negatives (locale
      \<open>approx_set\<close>).
    \<^item> \<open>Kevin_Rbtree\<close>: the store in memory; it refines a map (\<open>kv_store\<close> interpreted on it), and
      a cursor visits the keys of a range in order, its first key whatever the bound.
    \<^item> \<open>Kevin_Queue\<close>: the bounded queue, first-in first-out under every interleaving
      (\<open>ordered_delivery\<close> interpreted on it).
    \<^item> \<open>Kevin_Cheeze\<close>: tags, buffers and the receiving thread; a tag is used by one request at
      a time, buffers are disjoint, a double release corrupts the table.
    \<^item> \<open>Kevin_Wire\<close>: the encoders, with a decoder as the specification of the format; a
      transfer decodes to the requests it was built from.
    \<^item> \<open>Kevin_Io\<close>: the request functions; the life of a request, and the two that go wrong.
    \<^item> \<open>Kevin_Txn\<close>: transactions and cursors of the calling threads; size accounting, and
      that a cursor yields the entries the device sent.
    \<^item> \<open>Kevin_Hdlr\<close>, \<open>Kevin_Hdlr_Inv\<close>, \<open>Kevin_Hdlr_Thms\<close>: the handler thread as a step
      function over the labels of its loop, interleaved with committing threads, transfers,
      callbacks and releases; its invariant; and what follows: no use after free, no
      transaction lost, duplicated or reordered (\<open>ordered_delivery\<close>), requests that fit their
      buffer, and that a pass of the thread, with its waits (\<open>thread_step\<close>), ends and lets
      \<open>fsync\<close> return when the other threads do not interfere.
    \<^item> \<open>Kevin_Cache\<close>: the metadata cache refines a map from keys to values with an eviction
      mark; directory trees and table stay consistent.
    \<^item> \<open>Kevin_Pages\<close>: positions, blocks, pages and vectors of pages.
    \<^item> \<open>Kevin_Bstore\<close>, \<open>Kevin_Bstore_Thms\<close>: the block store; reads equal the round trip through
      the layers below, metadata in the cache is what the log will make of the device, and
      truncation, in-place updates and page reads against their descriptions.
    \<^item> \<open>Kevin_Super\<close>, \<open>Kevin_Super_Thms\<close>: inodes and the operations on names and files; inode
      numbers are unique unless two CPUs are congruent modulo their count, inodes have the operations of their type in every reachable state,
      and creation, lookup, removal and rename do what they promise, with two cases where
      they do not.
    \<^item> \<open>Kevin_Reada\<close>, \<open>Kevin_Reada_Thms\<close>: reading pages and read-ahead; a plain read fills its
      pages, with their blocks or with zeros as an uninitialised flag decides, the entries stay within their bounds, and three ways in which read-ahead fails.
    \<^item> \<open>Kevin_Writeback\<close>: \<open>lightfs_writepages\<close>; a synchronous write-back stores every dirty page
      of its range that reaches into the file once, in order, in transactions of bounded
      size; a page behind the end of the file is left marked as being written.
    \<^item> \<open>Kevin_Readdir\<close>: \<open>lightfs_readdir\<close>; a sequence of calls lists the cached entries of a
      directory once each, resuming where the caller's buffer was full.
    \<^item> \<open>Kevin_Setup\<close>, \<open>Kevin_Setup_Thms\<close>: loading the module, mount and unmount, from
      \<open>init_lightfs_fs\<close> and \<open>lightfs_fill_super\<close> down to slab caches, work queues and threads;
      every object has a pointer that is null, valid or dangling.  \<open>fill_super_objs\<close> is the whole
      of \<open>lightfs_fill_super\<close> with its error paths; its part on the root is the one of
      \<open>Kevin_Super\<close>.  The work queues are flushed and destroyed one after the other while the
      thread runs on, then the thread is stopped.  With no synchronous transaction left an
      unmount sends what was committed, ends the thread and releases what the mount made, two
      things apart.

  \<^bold>\<open>Bounds and fuel.\<close>  A pass of the handler thread ends within \<open>8k + 16n + 16\<close> moves for \<open>k\<close>
  synchronous and \<open>n\<close> other transactions, the moments it waits not counted; the committed transactions kept as tails are at most
  54, and the filter has 308 bytes, as in the code.  Keys are below 65536 bytes, the range
  of their length field.  The loop of a directory listing gets two steps more than the cache
  has items; the loops that fill pages get one step more than the vector has pages, and the
  loop over the lookups of a write-back one step more than there are dirty pages; the
  theorems show that they return.  Flushing a work queue and stopping the handler thread
  get a number of turns, and every number from some bound on is enough.  Recursions that are not structural have a measure.

  \<^bold>\<open>Not modelled.\<close>  Printing, counters and tracing (\<open>lightfs_debug.h\<close>, the \<open>MONITOR\<close> and
  \<open>CALL_TRACE\<close> blocks) have no result the rest depends on.  The mapping of
  shared memory and huge pages in \<open>cheeze/shm.c\<close> is memory management of the kernel.  Code
  under \<open>#if 0\<close> and the options the build does not define (\<open>TXN_BUFFER\<close>, \<open>GROUP_EVICTION\<close>,
  \<open>EMULATION\<close>, \<open>DISABLE_DCACHE\<close>) are left out.  \<open>benchmark\<close>, \<open>libvirt\<close>, \<open>bin\<close>, \<open>env\<close> and \<open>patches\<close> are
  not part of the file system: benchmark programs, the configuration of a virtual machine
  and patches to other programs.
\<close>

end
